(* ===== verification/Prelude.thy ===== *)
theory Prelude
  imports Main "HOL-Library.Sublist"
begin

text \<open>
  Shared vocabulary of the development: the JavaScript string and array operations that the
  modelled TypeScript uses, and the generic list lemmas that the components share.

  A JavaScript string is a sequence of UTF-16 code units. The type \<open>string\<close> (lists of
  \<open>char\<close>, 0 to 255) represents exactly the strings whose code units are below 256, and
  every operation below agrees with the JavaScript one on them: \<open>js_trim\<close> removes the
  JavaScript white space of that range (tab, LF, VT, FF, CR, space, no-break space), and
  \<open>to_lower\<close> also maps the Latin-1 capitals. A missing value (\<open>null\<close>, \<open>undefined\<close>, the
  index \<open>-1\<close>) is \<open>None\<close>.
\<close>

named_theorems js_simps "unfolding rules of the JavaScript string operations"
named_theorems kept "facts that an operation only removes lines, never adds or reorders them"

type_synonym jstr = string
type_synonym lines = "string list"

section \<open>Characters\<close>

definition is_ws :: "char \<Rightarrow> bool" where
  "is_ws c \<longleftrightarrow> c \<in> {CHR 0x09, CHR 0x0A, CHR 0x0B, CHR 0x0C, CHR 0x0D, CHR '' '', CHR 0xA0}"

definition code_in :: "nat \<Rightarrow> nat \<Rightarrow> char \<Rightarrow> bool" where
  "code_in lo hi c \<longleftrightarrow> lo \<le> of_char c \<and> of_char c \<le> hi"

definition is_digit :: "char \<Rightarrow> bool" where
  "is_digit c \<longleftrightarrow> code_in 48 57 c"

definition is_lower :: "char \<Rightarrow> bool" where
  "is_lower c \<longleftrightarrow> code_in 97 122 c"

definition is_upper :: "char \<Rightarrow> bool" where
  "is_upper c \<longleftrightarrow> code_in 65 90 c"

definition is_letter :: "char \<Rightarrow> bool" where
  "is_letter c \<longleftrightarrow> is_lower c \<or> is_upper c"

definition is_alnum :: "char \<Rightarrow> bool" where
  "is_alnum c \<longleftrightarrow> is_letter c \<or> is_digit c"

definition lower_char :: "char \<Rightarrow> char" where
  "lower_char c =
     (if is_upper c \<or> (code_in 192 222 c \<and> of_char c \<noteq> (215 :: nat))
      then char_of (of_char c + (32 :: nat)) else c)"

definition to_lower :: "jstr \<Rightarrow> jstr" where
  "to_lower s = map lower_char s"

section \<open>Strings\<close>

text \<open>\<open>s.startsWith(p)\<close> and \<open>s.endsWith(p)\<close> are the prefix and suffix order of the library.\<close>

abbreviation starts_with :: "jstr \<Rightarrow> jstr \<Rightarrow> bool" where
  "starts_with s p \<equiv> prefix p s"

abbreviation ends_with :: "jstr \<Rightarrow> jstr \<Rightarrow> bool" where
  "ends_with s p \<equiv> suffix p s"

definition trim_by :: "(char \<Rightarrow> bool) \<Rightarrow> jstr \<Rightarrow> jstr" where
  "trim_by P s = rev (dropWhile P (rev (dropWhile P s)))"

definition js_trim :: "jstr \<Rightarrow> jstr" where
  "js_trim s = trim_by is_ws s"

text \<open>\<open>s.indexOf(p)\<close>, with \<open>None\<close> for -1, and \<open>s.indexOf(p, from)\<close>.\<close>

fun index_of :: "jstr \<Rightarrow> jstr \<Rightarrow> nat option" where
  "index_of p [] = (if p = [] then Some 0 else None)"
| "index_of p (c # cs) = (if prefix p (c # cs) then Some 0 else map_option Suc (index_of p cs))"

definition index_from :: "jstr \<Rightarrow> jstr \<Rightarrow> nat \<Rightarrow> nat option" where
  "index_from p s k = map_option (\<lambda>i. i + k) (index_of p (drop k s))"

definition str_includes :: "jstr \<Rightarrow> jstr \<Rightarrow> bool" where
  "str_includes s p \<longleftrightarrow> index_of p s \<noteq> None"

definition substring :: "jstr \<Rightarrow> nat \<Rightarrow> nat \<Rightarrow> jstr" where
  "substring s a b = take (b - a) (drop a s)"

text \<open>\<open>s.split(d)\<close> for a one-character separator, and \<open>ws.join(sep)\<close>.\<close>

fun split_on :: "char \<Rightarrow> jstr \<Rightarrow> jstr list" where
  "split_on d [] = [[]]"
| "split_on d (c # cs) =
     (if c = d then [] # split_on d cs
      else (case split_on d cs of [] \<Rightarrow> [[c]] | w # ws \<Rightarrow> (c # w) # ws))"

fun join_with :: "jstr \<Rightarrow> jstr list \<Rightarrow> jstr" where
  "join_with sep [] = []"
| "join_with sep [w] = w"
| "join_with sep (w # w' # ws) = w @ sep @ join_with sep (w' # ws)"

section \<open>Lemmas on characters and case\<close>

lemma of_char_bound [simp]: "(of_char c :: nat) < 256"
  using of_char_mod_256 [of c, where 'a = nat]
  by (metis mod_less_divisor zero_less_numeral)

lemma of_char_char_of_small: "n < 256 \<Longrightarrow> of_char (char_of n) = (n :: nat)"
  by simp

lemma lower_char_idem [simp]: "lower_char (lower_char c) = lower_char c"
  by (auto simp: lower_char_def is_upper_def code_in_def of_char_char_of_small)

lemma to_lower_idem [simp]: "to_lower (to_lower s) = to_lower s"
  by (simp add: to_lower_def)

lemma length_to_lower [simp]: "length (to_lower s) = length s"
  by (simp add: to_lower_def)

lemma to_lower_Nil [simp]: "to_lower [] = []"
  by (simp add: to_lower_def)

lemma to_lower_append [simp]: "to_lower (s @ t) = to_lower s @ to_lower t"
  by (simp add: to_lower_def)

lemma to_lower_fixed: "to_lower s = s \<longleftrightarrow> (\<forall>c \<in> set s. lower_char c = c)"
  by (induction s) (auto simp: to_lower_def)

section \<open>Lemmas on trimming\<close>

lemma dropWhile_idem [simp]: "dropWhile P (dropWhile P xs) = dropWhile P xs"
  by (induction xs) auto

lemma dropWhile_eq_self: "xs = [] \<or> \<not> P (hd xs) \<Longrightarrow> dropWhile P xs = xs"
  by (cases xs) auto

lemma rev_dropWhile_prefix: "prefix (rev (dropWhile P (rev xs))) xs"
proof -
  have "rev xs = takeWhile P (rev xs) @ dropWhile P (rev xs)" by simp
  then have "xs = rev (dropWhile P (rev xs)) @ rev (takeWhile P (rev xs))"
    by (metis rev_append rev_rev_ident)
  then show ?thesis by (metis prefixI)
qed

lemma dropWhile_trim: "dropWhile P (trim_by P s) = trim_by P s"
proof (rule dropWhile_eq_self)
  let ?t = "dropWhile P s"
  have "prefix (trim_by P s) ?t"
    by (simp add: trim_by_def rev_dropWhile_prefix)
  then obtain zs where zs: "?t = trim_by P s @ zs" by (auto elim: prefixE)
  show "trim_by P s = [] \<or> \<not> P (hd (trim_by P s))"
  proof (cases "trim_by P s")
    case (Cons a as)
    with zs have "?t \<noteq> []" and "hd ?t = a" by auto
    then show ?thesis using hd_dropWhile [of P s] Cons by simp
  qed simp
qed

lemma trim_by_idem [simp]: "trim_by P (trim_by P s) = trim_by P s"
proof -
  have "trim_by P (trim_by P s) = rev (dropWhile P (rev (trim_by P s)))"
    by (simp add: trim_by_def [of P "trim_by P s"] dropWhile_trim)
  also have "\<dots> = trim_by P s" by (simp add: trim_by_def)
  finally show ?thesis .
qed

lemma set_trim_by: "set (trim_by P s) \<subseteq> set s"
proof
  fix c assume "c \<in> set (trim_by P s)"
  then have "c \<in> set (dropWhile P s)"
    by (auto simp: trim_by_def dest: set_dropWhileD)
  then show "c \<in> set s" by (rule set_dropWhileD)
qed

lemma js_trim_idem [simp]: "js_trim (js_trim s) = js_trim s"
  by (simp add: js_trim_def)

lemma js_trim_Nil [simp]: "js_trim [] = []"
  by (simp add: js_trim_def trim_by_def)

lemma trim_by_none: "(\<forall>c \<in> set s. \<not> P c) \<Longrightarrow> trim_by P s = s"
proof -
  assume a: "\<forall>c \<in> set s. \<not> P c"
  then have "dropWhile P s = s" by (cases s) auto
  moreover have "dropWhile P (rev s) = rev s"
    using a hd_in_set [of "rev s"] by (intro dropWhile_eq_self) auto
  ultimately show ?thesis by (simp add: trim_by_def)
qed

lemma js_trim_tight: "s = [] \<or> \<not> is_ws (hd s) \<and> \<not> is_ws (last s) \<Longrightarrow> js_trim s = s"
  by (auto simp: js_trim_def trim_by_def dropWhile_eq_self hd_rev)

section \<open>Lemmas on searching, splitting and joining\<close>

lemma index_of_Some: "index_of p s = Some i \<Longrightarrow> i \<le> length s \<and> prefix p (drop i s)"
  by (induction s arbitrary: i) (auto split: if_splits)

lemma index_of_None: "index_of p s = None \<longleftrightarrow> \<not> sublist p s"
  by (induction s) (auto simp: sublist_Cons_right)

lemma str_includes_iff: "str_includes s p \<longleftrightarrow> sublist p s"
  by (simp add: str_includes_def index_of_None)

lemma split_on_nonempty [simp]: "split_on d s \<noteq> []"
  by (induction s) (auto split: list.splits)

lemma join_with_Cons: "ws \<noteq> [] \<Longrightarrow> join_with sep (w # ws) = w @ sep @ join_with sep ws"
  by (cases ws) auto

lemma join_split [simp]: "join_with [d] (split_on d s) = s"
proof (induction s)
  case (Cons c cs)
  show ?case
  proof (cases "c = d")
    case True
    then show ?thesis using Cons by (simp add: join_with_Cons)
  next
    case False
    obtain w ws where s: "split_on d cs = w # ws"
      by (cases "split_on d cs") auto
    with Cons False show ?thesis by (cases ws) auto
  qed
qed simp

lemma set_join_with: "c \<in> set (join_with sep ws) \<Longrightarrow> c \<in> set sep \<or> (\<exists>w \<in> set ws. c \<in> set w)"
  by (induction sep ws rule: join_with.induct) auto

lemma split_on_no_sep: "w \<in> set (split_on d s) \<Longrightarrow> d \<notin> set w"
  by (induction s arbitrary: w) (auto split: if_splits list.splits)

lemma split_on_atom: "d \<notin> set w \<Longrightarrow> split_on d w = [w]"
  by (induction w) auto

lemma split_on_append: "d \<notin> set w \<Longrightarrow> split_on d (w @ d # s) = w # split_on d s"
  by (induction w) auto

lemma split_join:
  "ws \<noteq> [] \<Longrightarrow> \<forall>w \<in> set ws. d \<notin> set w \<Longrightarrow> split_on d (join_with [d] ws) = ws"
proof (induction ws)
  case (Cons w ws)
  then show ?case
    by (cases "ws = []") (auto simp: split_on_atom join_with_Cons split_on_append)
qed simp

lemma set_split_on: "c \<in> set w \<Longrightarrow> w \<in> set (split_on d s) \<Longrightarrow> c \<in> set s"
  by (induction s arbitrary: w) (fastforce split: if_splits list.splits)+

section \<open>Lemmas on removing lines\<close>

lemma subseq_filter [kept]: "subseq (filter P xs) xs"
  by (rule subseq_filter_left)

lemma subseq_nths [kept]: "subseq (nths xs N) xs"
  by (auto simp: subseq_conv_nths)

lemma subseq_set: "subseq xs ys \<Longrightarrow> set xs \<subseteq> set ys"
  by (auto simp: subseq_conv_nths dest: in_set_nthsD)

section \<open>Transition systems\<close>

text \<open>
  The interface of a component that is a state machine: what the initial states and the steps
  promise about an invariant, and what follows for every run.
\<close>

locale transition_system =
  fixes start :: "'s \<Rightarrow> bool"
    and step :: "'s \<Rightarrow> 's \<Rightarrow> bool"
    and inv :: "'s \<Rightarrow> bool"
  assumes start_inv: "start s \<Longrightarrow> inv s"
    and step_inv: "inv s \<Longrightarrow> step s t \<Longrightarrow> inv t"
begin

lemma run_inv: "step\<^sup>*\<^sup>* s t \<Longrightarrow> inv s \<Longrightarrow> inv t"
  by (induction rule: rtranclp_induct) (auto intro: step_inv)

lemma always: "start s \<Longrightarrow> step\<^sup>*\<^sup>* s t \<Longrightarrow> inv t"
  using run_inv start_inv by blast

end

section \<open>Transformations of lists of lines\<close>

text \<open>
  The two contracts that the rule transformations meet: \<open>line_remover\<close> only removes lines,
  \<open>line_rewriter\<close> rewrites each line on its own.
\<close>

locale line_remover =
  fixes run :: "lines \<Rightarrow> lines"
  assumes removes: "subseq (run rules) rules"
begin

lemma no_new_lines: "set (run rules) \<subseteq> set rules"
  using removes by (rule subseq_set)

lemma never_longer: "length (run rules) \<le> length rules"
  using removes by (rule list_emb_length)

lemma order_kept: "subseq (run (run rules)) rules"
  using removes [of "run rules"] removes [of rules] by (rule subseq_order.trans)

lemma empty_kept: "run [] = []"
  using never_longer [of "[]"] by simp

end

locale line_rewriter =
  fixes run :: "lines \<Rightarrow> lines"
  assumes append_run: "run (xs @ ys) = run xs @ run ys"
    and one_line: "length (run [x]) = 1"
begin

lemma run_Nil: "run [] = []"
  using append_run [of "[]" "[]"] by simp

lemma length_run: "length (run xs) = length xs"
proof (induction xs)
  case (Cons x xs)
  then show ?case using append_run [of "[x]" xs] one_line [of x] by simp
qed (simp add: run_Nil)

lemma line_by_line: "run xs = map (\<lambda>x. hd (run [x])) xs"
proof (induction xs)
  case (Cons x xs)
  obtain y where "run [x] = [y]" using one_line [of x] by (cases "run [x]") auto
  then show ?case using append_run [of "[x]" xs] Cons by simp
qed (simp add: run_Nil)

end

end
