(* ===== verification/Domains.thy ===== *)
theory Domains
  imports Prelude
begin

text \<open>
  Host names and public suffixes (\<open>src/utils/TldUtils.ts\<close>): the two suffix tables, the
  address and label patterns, and the functions of the class \<open>TldUtils\<close>.  The regular
  expressions are written out as conditions on the parts between separators.
\<close>

section \<open>Suffix tables\<close>

definition COMMON_PUBLIC_SUFFIXES :: "jstr list" where
  "COMMON_PUBLIC_SUFFIXES = [
    ''com'', ''org'', ''net'', ''edu'', ''gov'', ''mil'', ''int'', ''info'', ''biz'', ''name'',
    ''pro'', ''aero'', ''coop'', ''museum'', ''app'', ''dev'', ''io'', ''co'', ''me'', ''tv'',
    ''cc'', ''ws'', ''mobi'', ''asia'', ''tel'', ''jobs'', ''travel'', ''xxx'', ''cat'',
    ''uk'', ''us'', ''ca'', ''au'', ''de'', ''fr'', ''it'', ''es'', ''nl'', ''be'', ''ch'',
    ''at'', ''se'', ''no'', ''dk'', ''fi'', ''pl'', ''cz'', ''ru'', ''ua'', ''br'', ''mx'',
    ''ar'', ''cl'', ''co'', ''pe'', ''ve'', ''jp'', ''cn'', ''kr'', ''tw'', ''hk'', ''sg'',
    ''in'', ''id'', ''my'', ''th'', ''vn'', ''ph'', ''za'', ''eg'', ''ng'', ''ke'', ''nz'',
    ''il'', ''ae'', ''sa'', ''tr'', ''gr'', ''pt'', ''ie'', ''hu'', ''ro'', ''xyz'',
    ''online'', ''site'', ''tech'', ''store'', ''blog'', ''cloud'', ''club'', ''shop'',
    ''live'', ''news'', ''world'', ''network'', ''digital'', ''media'', ''global'', ''email'',
    ''support'', ''solutions'', ''services'', ''agency'', ''company'', ''systems'',
    ''technology'', ''marketing'', ''consulting'']"

definition MULTI_PART_SUFFIXES :: "jstr list" where
  "MULTI_PART_SUFFIXES = [
    ''co.uk'', ''org.uk'', ''me.uk'', ''ac.uk'', ''gov.uk'', ''net.uk'', ''sch.uk'',
    ''com.au'', ''net.au'', ''org.au'', ''edu.au'', ''gov.au'', ''asn.au'', ''id.au'',
    ''com.br'', ''net.br'', ''org.br'', ''gov.br'', ''edu.br'', ''co.jp'', ''or.jp'',
    ''ne.jp'', ''ac.jp'', ''go.jp'', ''co.in'', ''net.in'', ''org.in'', ''gen.in'',
    ''firm.in'', ''ind.in'', ''co.za'', ''org.za'', ''net.za'', ''gov.za'', ''edu.za'',
    ''co.nz'', ''net.nz'', ''org.nz'', ''govt.nz'', ''ac.nz'', ''de.com'', ''eu.com'',
    ''eu.org'', ''com.ru'', ''net.ru'', ''org.ru'', ''com.cn'', ''net.cn'', ''org.cn'',
    ''gov.cn'', ''edu.cn'', ''co.kr'', ''or.kr'', ''ne.kr'', ''go.kr'', ''ac.kr'', ''com.tw'',
    ''net.tw'', ''org.tw'', ''gov.tw'', ''edu.tw'', ''com.hk'', ''net.hk'', ''org.hk'',
    ''gov.hk'', ''edu.hk'', ''com.sg'', ''net.sg'', ''org.sg'', ''gov.sg'', ''edu.sg'',
    ''com.mx'', ''net.mx'', ''org.mx'', ''gob.mx'', ''edu.mx'', ''com.ar'', ''net.ar'',
    ''org.ar'', ''gob.ar'', ''edu.ar'', ''co.id'', ''or.id'', ''web.id'', ''sch.id'',
    ''go.id'', ''com.my'', ''net.my'', ''org.my'', ''gov.my'', ''edu.my'', ''co.th'',
    ''or.th'', ''ac.th'', ''go.th'', ''in.th'', ''com.vn'', ''net.vn'', ''org.vn'', ''gov.vn'',
    ''edu.vn'', ''com.ph'', ''net.ph'', ''org.ph'', ''gov.ph'', ''edu.ph'', ''com.tr'',
    ''net.tr'', ''org.tr'', ''gov.tr'', ''edu.tr'', ''com.eg'', ''net.eg'', ''org.eg'',
    ''gov.eg'', ''edu.eg'', ''co.il'', ''net.il'', ''org.il'', ''gov.il'', ''ac.il'',
    ''com.sa'', ''net.sa'', ''org.sa'', ''gov.sa'', ''edu.sa'', ''ae.org'', ''com.ae'',
    ''net.ae'', ''org.ae'', ''gov.ae'']"

section \<open>Patterns\<close>

definition is_hex :: "char \<Rightarrow> bool" where
  "is_hex c \<longleftrightarrow> is_digit c \<or> code_in 97 102 c \<or> code_in 65 70 c"

definition hex_group :: "nat \<Rightarrow> nat \<Rightarrow> jstr \<Rightarrow> bool" where
  "hex_group lo hi w \<longleftrightarrow> lo \<le> length w \<and> length w \<le> hi \<and> list_all is_hex w"

definition ipv4_pattern :: "jstr \<Rightarrow> bool" where
  "ipv4_pattern s \<longleftrightarrow>
     (let ps = split_on CHR ''.'' s
      in length ps = 4 \<and> list_all (\<lambda>w. 1 \<le> length w \<and> length w \<le> 3 \<and> list_all is_digit w) ps)"

text \<open>\<open>([0-9a-fA-F]{1,4}:){0,5}[0-9a-fA-F]{0,4}\<close>, the tail of the second and third alternatives.\<close>

definition hex_tail :: "jstr \<Rightarrow> bool" where
  "hex_tail s \<longleftrightarrow>
     (let ps = split_on CHR '':'' s
      in length ps \<le> 6 \<and> list_all (hex_group 1 4) (butlast ps) \<and> hex_group 0 4 (last ps))"

definition ipv6_pattern :: "jstr \<Rightarrow> bool" where
  "ipv6_pattern s \<longleftrightarrow>
     (let ps = split_on CHR '':'' s
      in 3 \<le> length ps \<and> length ps \<le> 8 \<and> list_all (hex_group 0 4) ps)
     \<or> (prefix ''::'' s \<and> hex_tail (drop 2 s))
     \<or> (let h = takeWhile is_hex s; r = dropWhile is_hex s
        in 1 \<le> length h \<and> length h \<le> 4 \<and> prefix ''::'' r \<and> hex_tail (drop 2 r))"

definition label_pattern :: "jstr \<Rightarrow> bool" where
  "label_pattern w \<longleftrightarrow>
     w \<noteq> [] \<and> is_alnum (hd w) \<and> is_alnum (last w) \<and> list_all (\<lambda>c. is_alnum c \<or> c = CHR ''-'') w"

section \<open>Operations\<close>

definition parse_int :: "jstr \<Rightarrow> nat" where
  "parse_int w = foldl (\<lambda>n c. 10 * n + (of_char c - 48)) 0 w"

definition isIPv4 :: "jstr \<Rightarrow> bool" where
  "isIPv4 s \<longleftrightarrow> ipv4_pattern s \<and> list_all (\<lambda>p. parse_int p \<le> 255) (split_on CHR ''.'' s)"

definition isIPv6 :: "jstr \<Rightarrow> bool" where
  "isIPv6 s \<longleftrightarrow> ipv6_pattern s"

definition isIP :: "jstr \<Rightarrow> bool" where
  "isIP s \<longleftrightarrow> isIPv4 s \<or> isIPv6 s"

definition isValidLabel :: "jstr \<Rightarrow> bool" where
  "isValidLabel w \<longleftrightarrow> \<not> (length w = 0 \<or> 63 < length w) \<and> label_pattern w"

definition isValidHostname :: "jstr \<Rightarrow> bool" where
  "isValidHostname h \<longleftrightarrow>
     \<not> (h = [] \<or> 253 < length h) \<and>
     (let n = (if suffix ''.'' h then butlast h else h)
      in n \<noteq> [] \<and> list_all isValidLabel (split_on CHR ''.'' n))"

text \<open>\<open>s.replace(/\.+$/, '')\<close> and \<open>xs.slice(-n)\<close>.\<close>

definition strip_dots :: "jstr \<Rightarrow> jstr" where
  "strip_dots s = rev (dropWhile (\<lambda>c. c = CHR ''.'') (rev s))"

definition last_n :: "nat \<Rightarrow> 'a list \<Rightarrow> 'a list" where
  "last_n n xs = drop (length xs - n) xs"

definition getPublicSuffix :: "jstr \<Rightarrow> jstr option" where
  "getPublicSuffix d =
     (if d = [] then None
      else let normalized = strip_dots (to_lower d);
               parts = split_on CHR ''.'' normalized;
               two = join_with ''.'' (last_n 2 parts);
               three = join_with ''.'' (last_n 3 parts);
               tld = last parts
           in if length parts = 0 then None
              else if 2 \<le> length parts \<and> List.member MULTI_PART_SUFFIXES two then Some two
              else if 3 \<le> length parts \<and> List.member MULTI_PART_SUFFIXES three then Some three
              else if List.member COMMON_PUBLIC_SUFFIXES tld then Some tld
              else if isValidLabel tld then Some tld
              else None)"

definition getDomain :: "jstr \<Rightarrow> jstr option" where
  "getDomain h =
     (if h = [] then None
      else let normalized = strip_dots (to_lower h)
           in if isIP normalized then None
              else case getPublicSuffix normalized of
                None \<Rightarrow> None
              | Some ps \<Rightarrow>
                  if ps = [] then None
                  else let parts = split_on CHR ''.'' normalized;
                           suffixParts = split_on CHR ''.'' ps
                       in if length parts \<le> length suffixParts then None
                          else Some (join_with ''.'' (last_n (length suffixParts + 1) parts)))"

record parsed_host =
  ph_hostname :: "jstr option"
  ph_isIp :: bool
  ph_publicSuffix :: "jstr option"
  ph_domain :: "jstr option"

definition no_host :: parsed_host where
  "no_host = \<lparr>ph_hostname = None, ph_isIp = False, ph_publicSuffix = None, ph_domain = None\<rparr>"

definition parse_host :: "jstr \<Rightarrow> parsed_host" where
  "parse_host hostname =
     (if hostname = [] then no_host
      else let lowered = js_trim (to_lower hostname);
               normalized = (if suffix ''.'' lowered then butlast lowered else lowered)
           in if isIP normalized then no_host\<lparr>ph_hostname := Some normalized, ph_isIp := True\<rparr>
              else if \<not> isValidHostname normalized then no_host
              else no_host\<lparr>ph_hostname := Some normalized,
                           ph_publicSuffix := getPublicSuffix normalized,
                           ph_domain := getDomain normalized\<rparr>)"

section \<open>Facts about labels and suffixes\<close>

lemma MULTI_PART_two_labels:
  "list_all (\<lambda>s. length (split_on CHR ''.'' s) = 2) MULTI_PART_SUFFIXES"
  by code_simp

lemma member_MULTI: "List.member MULTI_PART_SUFFIXES s \<Longrightarrow> length (split_on CHR ''.'' s) = 2"
  using MULTI_PART_two_labels by (auto simp: list_all_iff)

lemma length_last_n [simp]: "length (last_n k xs) = min k (length xs)"
  by (simp add: last_n_def)

lemma set_last_n: "set (last_n k xs) \<subseteq> set xs"
  by (simp add: last_n_def set_drop_subset)

lemma last_n_1: "xs \<noteq> [] \<Longrightarrow> last_n 1 xs = [last xs]"
  by (cases xs rule: rev_cases) (auto simp: last_n_def)

lemma last_n_nonempty: "1 \<le> k \<Longrightarrow> xs \<noteq> [] \<Longrightarrow> last_n k xs \<noteq> []"
  by (cases xs) (auto simp: last_n_def)

lemma strip_dots_snoc [simp]: "strip_dots (s @ ''.'') = strip_dots s"
  by (simp add: strip_dots_def)

lemma strip_dots_Nil [simp]: "strip_dots [] = []"
  by (simp add: strip_dots_def)

lemma strip_dots_id: "s = [] \<or> last s \<noteq> CHR ''.'' \<Longrightarrow> strip_dots s = s"
  by (cases s rule: rev_cases) (auto simp: strip_dots_def)

lemma valid_label_no_dot: "isValidLabel w \<Longrightarrow> w \<noteq> [] \<and> last w \<noteq> CHR ''.''"
  by (auto simp: isValidLabel_def label_pattern_def is_alnum_def is_letter_def is_lower_def
      is_upper_def is_digit_def code_in_def)

lemma last_join_with:
  "ws \<noteq> [] \<Longrightarrow> last ws \<noteq> [] \<Longrightarrow> join_with sep ws \<noteq> [] \<and> last (join_with sep ws) = last (last ws)"
  by (induction ws) (auto simp: join_with_Cons)

definition hostname_labels :: "jstr \<Rightarrow> jstr list" where
  "hostname_labels n = split_on CHR ''.'' (strip_dots n)"

lemma valid_hostname_labels:
  assumes "isValidHostname n"
  shows "\<forall>w \<in> set (hostname_labels n). isValidLabel w"
    and "hostname_labels n \<noteq> []"
    and "strip_dots n = join_with ''.'' (hostname_labels n)"
    and "strip_dots n \<noteq> []"
proof -
  define n' where "n' = (if suffix ''.'' n then butlast n else n)"
  have v: "n' \<noteq> []" "\<forall>w \<in> set (split_on CHR ''.'' n'). isValidLabel w"
    using assms unfolding isValidHostname_def Let_def n'_def [symmetric] list_all_iff by blast+
  have nn: "n = n' \<or> n = n' @ ''.''"
    by (cases "suffix ''.'' n") (auto simp: n'_def elim: suffixE)
  have "last n' = last (last (split_on CHR ''.'' n'))"
    using last_join_with [of "split_on CHR ''.'' n'" "''.''"] v(2) valid_label_no_dot by simp
  then have "last n' \<noteq> CHR ''.''" using v(2) valid_label_no_dot by simp
  then have "strip_dots n' = n'" by (simp add: strip_dots_id)
  then have s: "strip_dots n = n'" using nn by (metis strip_dots_snoc)
  show "\<forall>w \<in> set (hostname_labels n). isValidLabel w" "strip_dots n \<noteq> []"
    using v s by (simp_all add: hostname_labels_def)
  show "hostname_labels n \<noteq> []" "strip_dots n = join_with ''.'' (hostname_labels n)"
    by (simp_all add: hostname_labels_def)
qed

lemma split_join_last_n:
  assumes "1 \<le> k" and "ws = split_on d s"
  shows "split_on d (join_with [d] (last_n k ws)) = last_n k ws"
proof (rule split_join)
  show "last_n k ws \<noteq> []" using assms by (simp add: last_n_nonempty)
  show "\<forall>w \<in> set (last_n k ws). d \<notin> set w"
    using assms set_last_n [of k ws] split_on_no_sep by blast
qed

text \<open>
  The public suffix of a valid host name is its last label or its last two labels.  The
  three-label branch of the code is never taken: every entry of the table has two labels.
\<close>

lemma public_suffix_of_valid:
  assumes "isValidHostname n" and "to_lower n = n"
  obtains k where "1 \<le> k" "k \<le> 2" "k \<le> length (hostname_labels n)"
    "getPublicSuffix n = Some (join_with ''.'' (last_n k (hostname_labels n)))"
proof -
  let ?ws = "hostname_labels n"
  let ?two = "join_with ''.'' (last_n 2 ?ws)" and ?three = "join_with ''.'' (last_n 3 ?ws)"
  note v = valid_hostname_labels [OF assms(1)]
  have n: "n \<noteq> []" using v(4) by (auto simp: strip_dots_def)
  have tld: "isValidLabel (last ?ws)" "join_with ''.'' (last_n 1 ?ws) = last ?ws"
    using v(1,2) last_n_1 [of ?ws] by auto
  have three: "\<not> (3 \<le> length ?ws \<and> List.member MULTI_PART_SUFFIXES ?three)"
  proof
    assume a: "3 \<le> length ?ws \<and> List.member MULTI_PART_SUFFIXES ?three"
    have "length (split_on CHR ''.'' ?three) = 3"
      using a split_join_last_n [of 3 ?ws "CHR ''.''"] by (simp add: hostname_labels_def)
    with a member_MULTI show False by fastforce
  qed
  show thesis
  proof (cases "2 \<le> length ?ws \<and> List.member MULTI_PART_SUFFIXES ?two")
    case True
    then have "getPublicSuffix n = Some ?two"
      using n assms(2) by (simp add: getPublicSuffix_def Let_def hostname_labels_def)
    with True that [of 2] show thesis by simp
  next
    case False
    then have "getPublicSuffix n = Some (last ?ws)"
      using n assms(2) three tld(1)
      by (auto simp: getPublicSuffix_def Let_def hostname_labels_def)
    moreover have "1 \<le> length ?ws" using v(2) by (cases ?ws) auto
    ultimately show thesis using that [of 1] tld(2) by simp
  qed
qed

lemma strip_dots_idem [simp]: "strip_dots (strip_dots s) = strip_dots s"
  by (simp add: strip_dots_def)

lemma set_strip_dots: "set (strip_dots s) \<subseteq> set s"
  by (auto simp: strip_dots_def dest: set_dropWhileD)

lemma to_lower_strip_dots: "to_lower s = s \<Longrightarrow> to_lower (strip_dots s) = strip_dots s"
  using set_strip_dots [of s] by (auto simp: to_lower_fixed)

lemma public_suffix_strip:
  "to_lower n = n \<Longrightarrow> strip_dots n \<noteq> [] \<Longrightarrow> getPublicSuffix (strip_dots n) = getPublicSuffix n"
  by (cases "n = []") (simp_all add: getPublicSuffix_def to_lower_strip_dots)

lemma domain_of_valid:
  assumes v: "isValidHostname n" and l: "to_lower n = n" and ip: "\<not> isIP (strip_dots n)"
    and k: "1 \<le> k" "k \<le> length (hostname_labels n)"
    and ps: "getPublicSuffix n = Some (join_with ''.'' (last_n k (hostname_labels n)))"
  shows "getDomain n =
    (if k < length (hostname_labels n)
     then Some (join_with ''.'' (last_n (k + 1) (hostname_labels n))) else None)"
proof -
  let ?ws = "hostname_labels n" and ?p = "join_with ''.'' (last_n k (hostname_labels n))"
  note vl = valid_hostname_labels [OF v]
  have sp: "split_on CHR ''.'' ?p = last_n k ?ws"
    using split_join_last_n k(1) by (simp add: hostname_labels_def)
  then have "length (split_on CHR ''.'' ?p) = k" "?p \<noteq> []"
    using k last_n_nonempty [OF k(1) vl(2)] by (auto, metis split_on.simps(1) last_in_set set_last_n
      subset_iff valid_label_no_dot vl(1) last_ConsL)
  moreover have "n \<noteq> []" using vl(4) by (auto simp: strip_dots_def)
  ultimately show ?thesis
    using ip ps l vl(4) by (simp add: getDomain_def Let_def public_suffix_strip)
      (simp add: hostname_labels_def not_less)
qed

section \<open>What parsing a host name returns\<close>

text \<open>Every part of the normalised text is lower case.\<close>

lemma normalized_lower:
  assumes "n = butlast (js_trim (to_lower h)) \<or> n = js_trim (to_lower h)"
  shows "to_lower n = n"
proof -
  have "set (js_trim (to_lower h)) \<subseteq> set (to_lower h)"
    by (simp add: js_trim_def set_trim_by)
  then have "set n \<subseteq> set (to_lower h)" using assms by (auto dest: in_set_butlastD)
  then have "\<forall>c \<in> set n. lower_char c = c" by (auto simp: to_lower_def)
  then show ?thesis by (simp only: to_lower_fixed)
qed

text \<open>
  For every input that \<open>TldUtils.parse\<close> accepts as a host name that is not an address,
  the labels of the name (trailing dots removed) are valid DNS labels, the public suffix is
  its last label or its last two labels, and the registrable domain is exactly one label more
  than the public suffix, or absent when the name is a public suffix (or is an address after
  its trailing dots are removed).
\<close>

theorem parse_host_structure:
  assumes "ph_hostname (parse_host h) = Some n" and "\<not> ph_isIp (parse_host h)"
  shows "\<exists>k. 1 \<le> k \<and> k \<le> 2 \<and> k \<le> length (hostname_labels n) \<and>
    (\<forall>w \<in> set (hostname_labels n). isValidLabel w) \<and>
    strip_dots n = join_with ''.'' (hostname_labels n) \<and>
    ph_publicSuffix (parse_host h) = Some (join_with ''.'' (last_n k (hostname_labels n))) \<and>
    ph_domain (parse_host h) =
      (if k < length (hostname_labels n) \<and> \<not> isIP (strip_dots n)
       then Some (join_with ''.'' (last_n (k + 1) (hostname_labels n))) else None)"
proof -
  have v: "isValidHostname n" and ps: "ph_publicSuffix (parse_host h) = getPublicSuffix n"
    and d: "ph_domain (parse_host h) = getDomain n"
    and n: "n = butlast (js_trim (to_lower h)) \<or> n = js_trim (to_lower h)"
    using assms by (auto simp: parse_host_def no_host_def Let_def split: if_splits)
  note vl = valid_hostname_labels [OF v] and l = normalized_lower [OF n]
  from public_suffix_of_valid [OF v l] obtain k where k: "1 \<le> k" "k \<le> 2"
    "k \<le> length (hostname_labels n)"
    "getPublicSuffix n = Some (join_with ''.'' (last_n k (hostname_labels n)))" by blast
  show ?thesis
  proof (cases "isIP (strip_dots n)")
    case True
    then have "getDomain n = None" using l by (simp add: getDomain_def Let_def)
    then show ?thesis using True k ps d vl by auto
  next
    case False
    then show ?thesis using domain_of_valid [OF v l False k(1,3,4)] k ps d vl by auto
  qed
qed

theorem parse_host_structure_witness:
  "\<exists>k. 1 \<le> k \<and> k \<le> 2 \<and>
     ph_publicSuffix (parse_host '' www.Example.co.uk.'') =
       Some (join_with ''.'' (last_n k [''www'', ''example'', ''co'', ''uk'']))"
proof -
  have h: "ph_hostname (parse_host '' www.Example.co.uk.'') = Some ''www.example.co.uk''"
    "\<not> ph_isIp (parse_host '' www.Example.co.uk.'')" by code_simp+
  have "hostname_labels ''www.example.co.uk'' = [''www'', ''example'', ''co'', ''uk'']" by code_simp
  then show ?thesis using parse_host_structure [OF h] by auto
qed

section \<open>Addresses\<close>

text \<open>
  The IPv6 pattern of the code accepts a text exactly when it is three to eight groups of
  at most four hexadecimal digits separated by colons: the second and the third alternative
  of the pattern add nothing to the first.
\<close>

theorem isIPv6_groups:
  "isIPv6 s \<longleftrightarrow>
     3 \<le> length (split_on CHR '':'' s) \<and> length (split_on CHR '':'' s) \<le> 8 \<and>
     list_all (hex_group 0 4) (split_on CHR '':'' s)" (is "_ \<longleftrightarrow> ?A s")
proof -
  have tail: "length (split_on CHR '':'' t) \<le> 6 \<and> list_all (hex_group 0 4) (split_on CHR '':'' t)"
    if "hex_tail t" for t
  proof -
    let ?ps = "split_on CHR '':'' t"
    have "set ?ps = insert (last ?ps) (set (butlast ?ps))"
      using append_butlast_last_id [of ?ps] by (metis split_on_nonempty list.simps(15)
        rotate1.simps(2) set_rotate1)
    then show ?thesis using that by (auto simp: hex_tail_def Let_def list_all_iff hex_group_def)
  qed
  have A2: "?A s" if "prefix ''::'' s" "hex_tail (drop 2 s)"
  proof -
    from that(1) have "s = ''::'' @ drop 2 s" by (auto simp: prefix_def)
    then have "split_on CHR '':'' s = [] # [] # split_on CHR '':'' (drop 2 s)"
      by (metis append_Cons append_Nil split_on.simps(2))
    then show ?thesis using tail [OF that(2)] by (auto simp: hex_group_def Suc_le_eq list_all_iff)
  qed
  have A3: "?A (h @ ''::'' @ t)" if h: "length h \<le> 4" "\<forall>c \<in> set h. is_hex c" and t: "hex_tail t" for h t
  proof -
    have "CHR '':'' \<notin> set h" using h(2) by (auto simp: is_hex_def is_digit_def code_in_def)
    then have "split_on CHR '':'' (h @ ''::'' @ t) = h # [] # split_on CHR '':'' t"
      by (simp add: split_on_append)
    then show ?thesis using tail [OF t] h
      by (auto simp: hex_group_def Suc_le_eq list_all_iff)
  qed
  have A4: "?A s" if l4: "length (takeWhile is_hex s) \<le> 4" and p4: "prefix ''::'' (dropWhile is_hex s)"
    and t4: "hex_tail (drop 2 (dropWhile is_hex s))"
  proof -
    obtain t where t: "dropWhile is_hex s = ''::'' @ t" using p4 by (auto simp: prefix_def)
    then have "?A (takeWhile is_hex s @ ''::'' @ t)"
      using A3 l4 t4 by (auto dest: set_takeWhileD)
    then show ?thesis by (simp only: t [symmetric] takeWhile_dropWhile_id)
  qed
  show ?thesis
    unfolding isIPv6_def ipv6_pattern_def Let_def using A2 A4 by blast
qed

lemma is_ws_digit: "is_digit c \<or> c = CHR ''.'' \<Longrightarrow> \<not> is_ws c"
  by (auto simp: is_digit_def code_in_def is_ws_def)

lemma lower_digit: "is_digit c \<or> c = CHR ''.'' \<Longrightarrow> lower_char c = c"
  by (auto simp: is_digit_def code_in_def lower_char_def is_upper_def)

lemma isIPv4_chars: "isIPv4 s \<Longrightarrow> c \<in> set s \<Longrightarrow> is_digit c \<or> c = CHR ''.''"
proof -
  assume a: "isIPv4 s" "c \<in> set s"
  have m: "c = d \<or> (\<exists>w \<in> set (split_on d s). c \<in> set w)" if "c \<in> set s" for d
    using that by (induction s) (auto split: list.splits)
  show ?thesis using a m [of "CHR ''.''"]
    by (auto simp: isIPv4_def ipv4_pattern_def Let_def list_all_iff)
qed

lemma split_on_snoc: "split_on d (s @ [d]) = split_on d s @ [[]]"
  by (induction s) (auto split: list.splits)

text \<open>
  An IPv4 address followed by two dots is parsed as an ordinary host name: one dot is
  removed, the address check then fails on the dot that is left, and the host name check
  ignores it.  So the result is not marked as an address, for every address.
\<close>

theorem ipv4_two_dots_is_hostname:
  assumes "isIPv4 s"
  shows "ph_hostname (parse_host (s @ ''..'')) = Some (s @ ''.'') \<and>
         \<not> ph_isIp (parse_host (s @ ''..''))"
proof -
  let ?n = "s @ ''.''" and ?ps = "split_on CHR ''.'' s"
  note ch = isIPv4_chars [OF assms]
  have p: "length ?ps = 4" "\<forall>w \<in> set ?ps. 1 \<le> length w \<and> length w \<le> 3 \<and> list_all is_digit w"
    using assms by (auto simp: isIPv4_def ipv4_pattern_def Let_def list_all_iff)
  have low: "to_lower (s @ ''..'') = s @ ''..''"
    using ch lower_digit by (auto simp: to_lower_fixed)
  have tr: "js_trim (s @ ''..'') = s @ ''..''"
    unfolding js_trim_def using ch is_ws_digit by (intro trim_by_none) auto
  have "\<not> isIPv4 ?n"
    using p(1) split_on_snoc [of "CHR ''.''" s] by (simp add: isIPv4_def ipv4_pattern_def)
  moreover have "CHR '':'' \<notin> set ?n"
    using ch by (fastforce simp: is_digit_def code_in_def)
  then have "\<not> isIPv6 ?n" by (simp add: isIPv6_groups split_on_atom)
  moreover have "isValidHostname ?n"
  proof -
    have lab: "isValidLabel w" if "w \<in> set ?ps" for w
    proof -
      have "w \<noteq> []" "length w \<le> 3" "\<forall>c \<in> set w. is_digit c"
        using p(2) that by (auto simp: list_all_iff)
      then show ?thesis
        by (auto simp: isValidLabel_def label_pattern_def is_alnum_def list_all_iff)
    qed
    have "s \<noteq> []" using p(1) by auto
    moreover have "length s \<le> 15"
    proof -
      obtain a b c d where ps: "?ps = [a, b, c, d]"
        using p(1) by (auto simp: numeral_eq_Suc length_Suc_conv)
      then have "s = join_with ''.'' [a, b, c, d]" using join_split [of "CHR ''.''" s] by simp
      then show ?thesis using p(2) ps by simp
    qed
    ultimately show ?thesis using lab by (simp add: isValidHostname_def list_all_iff)
  qed
  ultimately show ?thesis
    using low tr by (simp add: parse_host_def no_host_def Let_def isIP_def suffix_def butlast_append)
qed

theorem ipv4_two_dots_is_hostname_witness:
  "ph_hostname (parse_host ''10.0.0.1..'') = Some ''10.0.0.1.'' \<and>
   \<not> ph_isIp (parse_host ''10.0.0.1..'')"
proof -
  have "isIPv4 ''10.0.0.1''" by code_simp
  from ipv4_two_dots_is_hostname [OF this] show ?thesis by simp
qed

end
