(* ===== verification/Paths.thy ===== *)
theory Paths
  imports Prelude
begin

text \<open>
  URLs and file paths (\<open>src/utils/PathUtils.ts\<close>): classification of a source as URL,
  absolute or relative path, dot segment removal, and the resolution of an \<open>!#include\<close>
  path against the list that contains it.  The host's \<open>URL\<close> class is not part of the
  repository: \<open>resolve_url base rel\<close> stands for \<open>new URL(rel, new URL(base)).toString()\<close>,
  with \<open>None\<close> for the exception it throws.
\<close>

section \<open>Operations\<close>

definition isUrl :: "jstr \<Rightarrow> bool" where
  "isUrl source \<longleftrightarrow> list_ex (\<lambda>scheme. starts_with source scheme) [''http://'', ''https://'']"

definition windows_absolute :: "jstr \<Rightarrow> bool" where
  "windows_absolute path \<longleftrightarrow>
     (case path of c # d # e # _ \<Rightarrow>
        is_letter c \<and> d = CHR '':'' \<and> (e = CHR ''/'' \<or> e = CHR 0x5C) | _ \<Rightarrow> False)"

definition isAbsolutePath :: "jstr \<Rightarrow> bool" where
  "isAbsolutePath path \<longleftrightarrow> starts_with path ''/'' \<or> windows_absolute path"

definition isLocalPath :: "jstr \<Rightarrow> bool" where
  "isLocalPath source \<longleftrightarrow> \<not> isUrl source"

text \<open>\<open>s.lastIndexOf(c)\<close>, and the maximum of two such indices with -1 as \<open>None\<close>.\<close>

fun last_index_of :: "char \<Rightarrow> jstr \<Rightarrow> nat option" where
  "last_index_of c [] = None"
| "last_index_of c (x # xs) =
     (case last_index_of c xs of Some i \<Rightarrow> Some (Suc i)
      | None \<Rightarrow> if x = c then Some 0 else None)"

fun max_index :: "nat option \<Rightarrow> nat option \<Rightarrow> nat option" where
  "max_index None j = j"
| "max_index i None = i"
| "max_index (Some i) (Some j) = Some (max i j)"

definition getDirectory :: "jstr \<Rightarrow> jstr" where
  "getDirectory path =
     (case max_index (last_index_of CHR ''/'' path) (last_index_of CHR 0x5C path) of
        None \<Rightarrow> []
      | Some i \<Rightarrow> substring path 0 (i + 1))"

definition getFilename_of_path :: "jstr \<Rightarrow> jstr" where
  "getFilename_of_path path =
     (case max_index (last_index_of CHR ''/'' path) (last_index_of CHR 0x5C path) of
        None \<Rightarrow> path
      | Some i \<Rightarrow> drop (i + 1) path)"

definition normalize_path :: "jstr \<Rightarrow> jstr" where
  "normalize_path path = map (\<lambda>c. if c = CHR 0x5C then CHR ''/'' else c) path"

definition dot_step :: "jstr list \<Rightarrow> jstr \<Rightarrow> jstr list" where
  "dot_step result segment =
     (if segment = ''..'' then
        (if result \<noteq> [] \<and> last result \<noteq> [] then butlast result else result)
      else if segment \<noteq> ''.'' then result @ [segment]
      else result)"

definition normalizeDotSegments :: "jstr \<Rightarrow> jstr" where
  "normalizeDotSegments path =
     (let usesBackslash = CHR 0x5C \<in> set path;
          segments = split_on CHR ''/'' (normalize_path path);
          sep = (if usesBackslash then [CHR 0x5C] else ''/'')
      in join_with sep (foldl dot_step [] segments))"

datatype path_error = PathTraversal jstr jstr

definition resolveIncludePath ::
  "(jstr \<Rightarrow> jstr \<Rightarrow> jstr option) \<Rightarrow> jstr \<Rightarrow> jstr \<Rightarrow> path_error + jstr" where
  "resolveIncludePath resolve_url includePath basePath =
     (if isAbsolutePath includePath \<or> isUrl includePath then Inr includePath
      else if isUrl basePath then
        (case resolve_url basePath includePath of
           Some u \<Rightarrow> Inr u
         | None \<Rightarrow> Inr includePath)
      else let baseDir = getDirectory basePath;
               resolved = normalizeDotSegments (baseDir @ includePath);
               normalizedBase = normalizeDotSegments baseDir
           in if normalizedBase \<noteq> [] \<and> \<not> starts_with resolved normalizedBase
              then Inl (PathTraversal includePath baseDir)
              else Inr resolved)"

section \<open>Lemmas\<close>

text \<open>The segments of a path, whichever separator it uses.\<close>

definition segments_of :: "jstr \<Rightarrow> jstr list" where
  "segments_of path = split_on CHR ''/'' (normalize_path path)"

definition plain_segment :: "jstr \<Rightarrow> bool" where
  "plain_segment w \<longleftrightarrow>
     w \<noteq> ''.'' \<and> w \<noteq> ''..'' \<and> CHR ''/'' \<notin> set w \<and> CHR 0x5C \<notin> set w"

lemma normalize_path_idem [simp]: "normalize_path (normalize_path p) = normalize_path p"
  by (simp add: normalize_path_def)

lemma normalize_path_id: "CHR 0x5C \<notin> set p \<Longrightarrow> normalize_path p = p"
  by (induction p) (auto simp: normalize_path_def)

lemma normalize_path_append: "normalize_path (p @ q) = normalize_path p @ normalize_path q"
  by (simp add: normalize_path_def)

lemma backslash_normalize [simp]: "CHR 0x5C \<notin> set (normalize_path p)"
  by (auto simp: normalize_path_def)

lemma segments_clean:
  assumes "w \<in> set (segments_of p)"
  shows "CHR ''/'' \<notin> set w \<and> CHR 0x5C \<notin> set w"
  using assms split_on_no_sep set_split_on [of _ w "CHR ''/''" "normalize_path p"]
  by (fastforce simp: segments_of_def)

lemma foldl_dot_step_plain:
  assumes "\<forall>w \<in> set acc. plain_segment w"
    and "\<forall>w \<in> set ws. CHR ''/'' \<notin> set w \<and> CHR 0x5C \<notin> set w"
  shows "\<forall>w \<in> set (foldl dot_step acc ws). plain_segment w"
  using assms
proof (induction ws arbitrary: acc)
  case (Cons w ws)
  have "\<forall>v \<in> set (dot_step acc w). plain_segment v"
    using Cons.prems by (auto simp: dot_step_def plain_segment_def dest: in_set_butlastD)
  then show ?case using Cons by simp
qed simp

lemma foldl_dot_step_id: "\<forall>w \<in> set ws. plain_segment w \<Longrightarrow> foldl dot_step acc ws = acc @ ws"
  by (induction ws arbitrary: acc) (auto simp: dot_step_def plain_segment_def)

definition clean_segments :: "jstr \<Rightarrow> jstr list" where
  "clean_segments p = foldl dot_step [] (segments_of p)"

lemma clean_segments_plain: "w \<in> set (clean_segments p) \<Longrightarrow> plain_segment w"
  using foldl_dot_step_plain [of "[]" "segments_of p"] segments_clean
  by (auto simp: clean_segments_def)

lemma normalizeDotSegments_eq:
  "normalizeDotSegments p =
     join_with (if CHR 0x5C \<in> set p then [CHR 0x5C] else ''/'') (clean_segments p)"
  by (simp add: normalizeDotSegments_def clean_segments_def segments_of_def Let_def)

lemma normalize_join:
  assumes "\<forall>w \<in> set ws. CHR 0x5C \<notin> set w" and "d = CHR 0x5C \<or> d = CHR ''/''"
  shows "normalize_path (join_with [d] ws) = join_with ''/'' ws"
  using assms
proof (induction ws)
  case (Cons w ws)
  then show ?case
    by (cases "ws = []") (auto simp: join_with_Cons normalize_path_append normalize_path_id,
        auto simp: normalize_path_def)
qed (simp add: normalize_path_def)

lemma segments_of_normalized:
  "segments_of (normalizeDotSegments p) =
     (if clean_segments p = [] then [[]] else clean_segments p)"
proof -
  have ok: "\<forall>w \<in> set (clean_segments p). CHR 0x5C \<notin> set w \<and> CHR ''/'' \<notin> set w"
    using clean_segments_plain by (auto simp: plain_segment_def)
  then have "normalize_path (normalizeDotSegments p) = join_with ''/'' (clean_segments p)"
    unfolding normalizeDotSegments_eq using normalize_join by (cases "CHR 0x5C \<in> set p") auto
  then show ?thesis using split_join [of "clean_segments p" "CHR ''/''"] ok
    by (simp add: segments_of_def)
qed

section \<open>Properties\<close>

lemma normalized_clean:
  "(\<forall>w \<in> set (segments_of (normalizeDotSegments p)). w \<noteq> ''.'' \<and> w \<noteq> ''..'') \<and>
   normalizeDotSegments (normalizeDotSegments p) = normalizeDotSegments p"
proof
  show "\<forall>w \<in> set (segments_of (normalizeDotSegments p)). w \<noteq> ''.'' \<and> w \<noteq> ''..''"
    using clean_segments_plain by (auto simp: segments_of_normalized plain_segment_def)
next
  let ?n = "normalizeDotSegments p"
  show "normalizeDotSegments ?n = ?n"
  proof (cases "length (clean_segments p) \<le> 1")
    case True
    then obtain w where n: "?n = w" "clean_segments p = [w] \<or> (clean_segments p = [] \<and> w = [])"
      by (cases "clean_segments p") (auto simp: normalizeDotSegments_eq)
    then have "plain_segment w" using clean_segments_plain [of w p]
      by (auto simp: plain_segment_def)
    then have "segments_of w = [w]" "dot_step [] w = [w]"
      by (auto simp: segments_of_def plain_segment_def normalize_path_id split_on_atom dot_step_def)
    then show ?thesis using n by (simp add: normalizeDotSegments_eq clean_segments_def)
  next
    case False
    then have ne: "clean_segments p \<noteq> []" by auto
    have cs: "clean_segments ?n = clean_segments p"
      using ne foldl_dot_step_id clean_segments_plain
      by (simp add: clean_segments_def [of ?n] segments_of_normalized)
    have "CHR 0x5C \<in> set ?n \<longleftrightarrow> CHR 0x5C \<in> set p"
    proof -
      obtain a b ws where c: "clean_segments p = a # b # ws"
        using False by (cases "clean_segments p"; cases "tl (clean_segments p)") auto
      have "\<forall>w \<in> set (clean_segments p). CHR 0x5C \<notin> set w"
        using clean_segments_plain by (auto simp: plain_segment_def)
      then have "CHR 0x5C \<notin> set (join_with ''/'' (clean_segments p))"
        using set_join_with [of "CHR 0x5C" "''/''" "clean_segments p"] by auto
      then show ?thesis
        using c by (cases "CHR 0x5C \<in> set p") (auto simp: normalizeDotSegments_eq)
    qed
    then show ?thesis
      using normalizeDotSegments_eq [of ?n] normalizeDotSegments_eq [of p] cs by simp
  qed
qed

text \<open>
  Removing dot segments leaves a path with no \<open>.\<close> and no \<open>..\<close> segment, and doing it
  again changes nothing.
\<close>

theorem normalizeDotSegments_clean:
  "''.'' \<notin> set (segments_of (normalizeDotSegments p)) \<and>
   ''..'' \<notin> set (segments_of (normalizeDotSegments p)) \<and>
   normalizeDotSegments (normalizeDotSegments p) = normalizeDotSegments p"
  using normalized_clean [of p] by blast



lemma last_index_of_append:
  "last_index_of c (xs @ ys) =
     (case last_index_of c ys of Some i \<Rightarrow> Some (length xs + i) | None \<Rightarrow> last_index_of c xs)"
  by (induction xs) (auto split: option.splits)

lemma getDirectory_dotdot: "getDirectory (''../'' @ b) = ''../'' @ getDirectory b"
proof -
  have slash: "last_index_of CHR ''/'' (''../'' @ b) =
      Some (case last_index_of CHR ''/'' b of Some i \<Rightarrow> i + 3 | None \<Rightarrow> 2)"
    unfolding last_index_of_append by (simp split: option.splits)
  have bsl: "last_index_of CHR 0x5C (''../'' @ b) =
      map_option (\<lambda>i. i + 3) (last_index_of CHR 0x5C b)"
    unfolding last_index_of_append by (simp split: option.splits)
  show ?thesis
    unfolding getDirectory_def slash bsl
    by (cases "last_index_of CHR ''/'' b"; cases "last_index_of CHR 0x5C b")
      (simp_all add: substring_def eval_nat_numeral max_def)
qed

lemma normalizeDotSegments_dotdot: "normalizeDotSegments (''../'' @ p) = normalizeDotSegments p"
proof -
  have "segments_of (''../'' @ p) = ''..'' # segments_of p"
    by (simp add: segments_of_def normalize_path_append) (simp add: normalize_path_def)
  then have "clean_segments (''../'' @ p) = clean_segments p"
    by (simp add: clean_segments_def dot_step_def)
  then show ?thesis by (simp add: normalizeDotSegments_eq)
qed

text \<open>
  A leading parent step of the including list is lost: an include resolves against a list
  \<open>../dir/list.txt\<close> to exactly the path it has against \<open>dir/list.txt\<close>, so the file that
  is read is not the one next to the including list.
\<close>

theorem resolveIncludePath_drops_parent:
  assumes "\<not> isAbsolutePath inc" and "\<not> isUrl inc" and "\<not> isUrl base"
  shows "resolveIncludePath u inc (''../'' @ base) = Inr r \<longleftrightarrow> resolveIncludePath u inc base = Inr r"
proof -
  have "\<not> isUrl (''../'' @ base)" by (simp add: isUrl_def)
  then show ?thesis
    using assms normalizeDotSegments_dotdot [of "getDirectory base @ inc"]
      normalizeDotSegments_dotdot [of "getDirectory base"]
    by (simp add: resolveIncludePath_def Let_def getDirectory_dotdot [simplified])
qed

theorem resolveIncludePath_drops_parent_witness:
  "resolveIncludePath (\<lambda>_ _. None) ''b.txt'' ''../lists/a.txt'' = Inr ''lists/b.txt''"
proof -
  have "\<not> isAbsolutePath ''b.txt''" "\<not> isUrl ''b.txt''" "\<not> isUrl ''lists/a.txt''"
    "resolveIncludePath (\<lambda>_ _. None) ''b.txt'' ''lists/a.txt'' = Inr ''lists/b.txt''"
    by code_simp+
  with resolveIncludePath_drops_parent [OF this(1-3), of "\<lambda>_ _. None" "''lists/b.txt''"]
  show ?thesis by simp
qed

end
