(* ===== verification/Conditions.thy ===== *)
theory Conditions
  imports Prelude
begin

text \<open>
  Preprocessor conditions (\<open>src/utils/BooleanExpressionParser.ts\<close>): the tokenizer, the
  recursive descent parser of \<open>BooleanParser\<close> that evaluates while it parses, and
  \<open>evaluateBooleanExpression\<close>.  Fuel bounds the nesting of parentheses; one unit per token
  and one more is always enough (\<open>parser_always_returns\<close>).  The second part relates the
  parser to the grammar of conditions: the text of a syntax tree, printed with the parentheses
  that precedence asks for, evaluates to the value of the tree.  The JavaScript call stack is
  not bounded in the model.
\<close>

section \<open>Tokens\<close>

datatype token_type = TRUE | FALSE | NOT | AND | OR | LPAREN | RPAREN | IDENTIFIER | EOF

record token =
  tk_type :: token_type
  tk_value :: jstr

abbreviation mk_token :: "token_type \<Rightarrow> jstr \<Rightarrow> token" where
  "mk_token t v \<equiv> \<lparr>tk_type = t, tk_value = v\<rparr>"

definition PLATFORM_IDENTIFIERS :: "jstr list" where
  "PLATFORM_IDENTIFIERS =
     [''windows'', ''mac'', ''android'', ''ios'', ''ext_chromium'', ''ext_ff'', ''ext_edge'',
      ''ext_opera'', ''ext_safari'', ''ext_ublock'', ''adguard'', ''adguard_app_windows'',
      ''adguard_app_mac'', ''adguard_app_android'', ''adguard_app_ios'',
      ''adguard_ext_chromium'', ''adguard_ext_firefox'', ''adguard_ext_edge'',
      ''adguard_ext_opera'', ''adguard_ext_safari'']"

definition ident_start :: "char \<Rightarrow> bool" where
  "ident_start c \<longleftrightarrow> is_letter c \<or> c = CHR ''_''"

definition ident_char :: "char \<Rightarrow> bool" where
  "ident_char c \<longleftrightarrow> is_alnum c \<or> c = CHR ''_''"

definition ident_token :: "jstr \<Rightarrow> token" where
  "ident_token identifier =
     (if to_lower identifier = ''true'' then mk_token TRUE ''true''
      else if to_lower identifier = ''false'' then mk_token FALSE ''false''
      else mk_token IDENTIFIER identifier)"

lemma ident_start_char: "ident_start c \<Longrightarrow> ident_char c"
  by (auto simp: ident_start_def ident_char_def is_alnum_def)

lemma dropWhile_shrinks: "dropWhile P s = c # cs \<Longrightarrow> length cs < length s"
  using length_dropWhile_le [of P s] by simp

text \<open>The loop over \<open>pos\<close>, on the part of the text that is still to be read.\<close>

function tokenize :: "jstr \<Rightarrow> token list" where
  "tokenize s =
     (case dropWhile is_ws s of
        [] \<Rightarrow> [mk_token EOF []]
      | c # cs \<Rightarrow>
          if c = CHR ''('' then mk_token LPAREN ''('' # tokenize cs
          else if c = CHR '')'' then mk_token RPAREN '')'' # tokenize cs
          else if c = CHR ''!'' then mk_token NOT ''!'' # tokenize cs
          else if c = CHR ''&'' \<and> take 1 cs = ''&'' then mk_token AND ''&&'' # tokenize (drop 1 cs)
          else if c = CHR ''|'' \<and> take 1 cs = ''|'' then mk_token OR ''||'' # tokenize (drop 1 cs)
          else if ident_start c then
            ident_token (takeWhile ident_char (c # cs)) # tokenize (dropWhile ident_char (c # cs))
          else tokenize cs)"
  by pat_completeness auto

termination
proof (relation "measure length", goal_cases)
  case 1 show ?case by simp
next
  case (7 s c cs)
  then have "length (dropWhile ident_char (c # cs)) \<le> length cs"
    using ident_start_char [of c] by (simp add: length_dropWhile_le)
  then show ?case using dropWhile_shrinks [of is_ws s c cs] 7 by simp
next
  case (2 s c cs) then show ?case using dropWhile_shrinks [of is_ws s c cs] by simp
next
  case (3 s c cs) then show ?case using dropWhile_shrinks [of is_ws s c cs] by simp
next
  case (4 s c cs) then show ?case using dropWhile_shrinks [of is_ws s c cs] by simp
next
  case (5 s c cs) then show ?case using dropWhile_shrinks [of is_ws s c cs] by simp
next
  case (6 s c cs) then show ?case using dropWhile_shrinks [of is_ws s c cs] by simp
next
  case (8 s c cs) then show ?case using dropWhile_shrinks [of is_ws s c cs] by simp
qed

declare tokenize.simps [simp del]

section \<open>The parser\<close>

text \<open>The fields of \<open>BooleanParser\<close>: the tokens from \<open>pos\<close> on and the depth of negations.\<close>

record parser =
  p_tokens :: "token list"
  p_notDepth :: nat

definition MAX_NOT_DEPTH :: nat where
  "MAX_NOT_DEPTH = 100"

definition current :: "parser \<Rightarrow> token" where
  "current p = (case p_tokens p of [] \<Rightarrow> mk_token EOF [] | t # _ \<Rightarrow> t)"

definition advance :: "parser \<Rightarrow> parser" where
  "advance p = p\<lparr>p_tokens := tl (p_tokens p)\<rparr>"

definition evaluateIdentifier :: "jstr option \<Rightarrow> jstr \<Rightarrow> bool" where
  "evaluateIdentifier platform identifier =
     (case platform of
        None \<Rightarrow> False
      | Some p \<Rightarrow> if p = [] then False else to_lower identifier = p)"

text \<open>
  The methods, from the innermost out.  \<open>parse\<close> stands for the call back to \<open>parseOr\<close> that
  a parenthesis makes; \<open>None\<close> means that this call did not return.
\<close>

type_synonym parse_result = "(bool \<times> parser) option"

definition parsePrimary :: "jstr option \<Rightarrow> (parser \<Rightarrow> parse_result) \<Rightarrow> parser \<Rightarrow> parse_result" where
  "parsePrimary platform parse p =
     (let token = current p
      in case tk_type token of
           TRUE \<Rightarrow> Some (True, advance p)
         | FALSE \<Rightarrow> Some (False, advance p)
         | IDENTIFIER \<Rightarrow> Some (evaluateIdentifier platform (tk_value token), advance p)
         | LPAREN \<Rightarrow>
             map_option (\<lambda>(r, q). (r, if tk_type (current q) = RPAREN then advance q else q))
               (parse (advance p))
         | _ \<Rightarrow> Some (False, p))"

lemma current_type_tokens: "tk_type (current p) = t \<Longrightarrow> t \<noteq> EOF \<Longrightarrow> p_tokens p \<noteq> []"
  by (auto simp: current_def)

lemma advance_simps [simp]:
  "p_tokens (advance p) = tl (p_tokens p)" "p_notDepth (advance p) = p_notDepth p"
  by (simp_all add: advance_def)

function parseNot :: "jstr option \<Rightarrow> (parser \<Rightarrow> parse_result) \<Rightarrow> parser \<Rightarrow> parse_result" where
  "parseNot platform parse p =
     (if tk_type (current p) = NOT then
        (if MAX_NOT_DEPTH \<le> p_notDepth p then Some (False, p)
         else map_option (\<lambda>(r, q). (\<not> r, q\<lparr>p_notDepth := p_notDepth q - 1\<rparr>))
                (parseNot platform parse ((advance p)\<lparr>p_notDepth := p_notDepth p + 1\<rparr>)))
      else parsePrimary platform parse p)"
  by pat_completeness auto
termination
  by (relation "measure (\<lambda>(_, _, p). length (p_tokens p))")
    (auto dest!: current_type_tokens)

declare parseNot.simps [simp del]

partial_function (option) parseAndLoop ::
  "jstr option \<Rightarrow> (parser \<Rightarrow> parse_result) \<Rightarrow> bool \<Rightarrow> parser \<Rightarrow> parse_result" where
  "parseAndLoop platform parse left p =
     (if tk_type (current p) = AND then
        Option.bind (parseNot platform parse (advance p))
          (\<lambda>(right, q). parseAndLoop platform parse (left \<and> right) q)
      else Some (left, p))"

definition parseAnd :: "jstr option \<Rightarrow> (parser \<Rightarrow> parse_result) \<Rightarrow> parser \<Rightarrow> parse_result" where
  "parseAnd platform parse p =
     Option.bind (parseNot platform parse p) (\<lambda>(left, q). parseAndLoop platform parse left q)"

partial_function (option) parseOrLoop ::
  "jstr option \<Rightarrow> (parser \<Rightarrow> parse_result) \<Rightarrow> bool \<Rightarrow> parser \<Rightarrow> parse_result" where
  "parseOrLoop platform parse left p =
     (if tk_type (current p) = OR then
        Option.bind (parseAnd platform parse (advance p))
          (\<lambda>(right, q). parseOrLoop platform parse (left \<or> right) q)
      else Some (left, p))"

primrec parseOr :: "jstr option \<Rightarrow> nat \<Rightarrow> parser \<Rightarrow> parse_result" where
  "parseOr platform 0 p = None"
| "parseOr platform (Suc f) p =
     Option.bind (parseAnd platform (parseOr platform f) p)
       (\<lambda>(left, q). parseOrLoop platform (parseOr platform f) left q)"

definition parse_fuel :: "token list \<Rightarrow> nat" where
  "parse_fuel ts = length ts + 1"

definition evaluateBooleanExpression :: "jstr \<Rightarrow> jstr option \<Rightarrow> bool" where
  "evaluateBooleanExpression expression platform =
     (let trimmed = js_trim expression
      in if trimmed = [] then True
         else let tokens = tokenize trimmed
              in case parseOr (map_option to_lower platform) (parse_fuel tokens)
                   \<lparr>p_tokens = tokens, p_notDepth = 0\<rparr>
                 of Some (result, _) \<Rightarrow> result | None \<Rightarrow> False)"

definition isKnownPlatform :: "jstr \<Rightarrow> bool" where
  "isKnownPlatform identifier \<longleftrightarrow> List.member PLATFORM_IDENTIFIERS (to_lower identifier)"

section \<open>The parser always returns\<close>

text \<open>
  A method returns: it consumes tokens from the front only and restores the negation depth.
\<close>

definition returns_from :: "parser \<Rightarrow> parse_result \<Rightarrow> bool" where
  "returns_from p r \<longleftrightarrow> (\<exists>b q. r = Some (b, q) \<and> length (p_tokens q) \<le> length (p_tokens p) \<and>
      p_notDepth q = p_notDepth p)"

definition good :: "nat \<Rightarrow> (parser \<Rightarrow> parse_result) \<Rightarrow> bool" where
  "good n parse \<longleftrightarrow> (\<forall>q. length (p_tokens q) \<le> n \<longrightarrow> returns_from q (parse q))"

lemma returns_fromI:
  "r = Some (b, q) \<Longrightarrow> length (p_tokens q) \<le> length (p_tokens p) \<Longrightarrow> p_notDepth q = p_notDepth p \<Longrightarrow>
   returns_from p r"
  by (auto simp: returns_from_def)

lemma returns_fromE:
  assumes "returns_from p r"
  obtains b q where "r = Some (b, q)" "length (p_tokens q) \<le> length (p_tokens p)"
    "p_notDepth q = p_notDepth p"
  using assms by (auto simp: returns_from_def)

lemma parsePrimary_returns:
  assumes "good n parse" and "length (p_tokens p) \<le> Suc n"
  shows "returns_from p (parsePrimary platform parse p)"
proof (cases "tk_type (current p) = LPAREN")
  case True
  then have "p_tokens p \<noteq> []" using current_type_tokens by blast
  then have "length (p_tokens (advance p)) \<le> n" using assms(2) by (cases "p_tokens p") auto
  with assms(1) have "returns_from (advance p) (parse (advance p))" by (auto simp: good_def)
  then obtain b q where "parse (advance p) = Some (b, q)"
    "length (p_tokens q) \<le> length (p_tokens (advance p))" "p_notDepth q = p_notDepth (advance p)"
    by (rule returns_fromE)
  then show ?thesis using True
    by (intro returns_fromI [of _ b "if tk_type (current q) = RPAREN then advance q else q"])
      (auto simp: parsePrimary_def Let_def)
next
  case False
  then show ?thesis
    by (auto simp: parsePrimary_def returns_from_def Let_def split: token_type.splits)
qed

lemma parseNot_returns:
  assumes "good n parse" and "length (p_tokens p) \<le> Suc n"
  shows "returns_from p (parseNot platform parse p)"
  using assms
proof (induction platform parse p rule: parseNot.induct)
  case (1 platform parse p)
  show ?case
  proof (cases "tk_type (current p) = NOT \<and> \<not> MAX_NOT_DEPTH \<le> p_notDepth p")
    case True
    let ?p = "(advance p)\<lparr>p_notDepth := p_notDepth p + 1\<rparr>"
    have "returns_from ?p (parseNot platform parse ?p)" using 1 True by simp
    then show ?thesis using True
      by (subst parseNot.simps) (auto simp: returns_from_def)
  next
    case False
    then show ?thesis using parsePrimary_returns [OF 1(2,3)]
      by (subst parseNot.simps) (auto simp: returns_from_def)
  qed
qed

lemma parseAndLoop_returns:
  assumes "good n parse" and "length (p_tokens p) \<le> Suc n"
  shows "returns_from p (parseAndLoop platform parse left p)"
  using assms(2)
proof (induction "length (p_tokens p)" arbitrary: p left rule: less_induct)
  case less
  show ?case
  proof (cases "tk_type (current p) = AND")
    case True
    then have ne: "p_tokens p \<noteq> []" using current_type_tokens by blast
    then have len: "length (tl (p_tokens p)) < length (p_tokens p)" by (cases "p_tokens p") auto
    then have "returns_from (advance p) (parseNot platform parse (advance p))"
      using parseNot_returns [OF assms(1), of "advance p"] less.prems by simp
    then obtain b q where q: "parseNot platform parse (advance p) = Some (b, q)"
      "length (p_tokens q) < length (p_tokens p)" "p_notDepth q = p_notDepth p"
      using len by (auto simp: returns_from_def)
    with less have "returns_from q (parseAndLoop platform parse (left \<and> b) q)" by simp
    then show ?thesis using True q by (auto simp: parseAndLoop.simps [of _ _ _ p] returns_from_def)
  qed (simp add: parseAndLoop.simps returns_from_def)
qed

lemma parseAnd_returns:
  assumes "good n parse" and "length (p_tokens p) \<le> Suc n"
  shows "returns_from p (parseAnd platform parse p)"
proof -
  obtain b q where q: "parseNot platform parse p = Some (b, q)"
    "length (p_tokens q) \<le> length (p_tokens p)" "p_notDepth q = p_notDepth p"
    using parseNot_returns [OF assms, of platform] by (rule returns_fromE)
  then show ?thesis using parseAndLoop_returns [OF assms(1), of q platform b] assms(2)
    by (auto simp: parseAnd_def returns_from_def)
qed

lemma parseOrLoop_returns:
  assumes "good n parse" and "length (p_tokens p) \<le> Suc n"
  shows "returns_from p (parseOrLoop platform parse left p)"
  using assms(2)
proof (induction "length (p_tokens p)" arbitrary: p left rule: less_induct)
  case less
  show ?case
  proof (cases "tk_type (current p) = OR")
    case True
    then have ne: "p_tokens p \<noteq> []" using current_type_tokens by blast
    then have len: "length (tl (p_tokens p)) < length (p_tokens p)" by (cases "p_tokens p") auto
    then have "returns_from (advance p) (parseAnd platform parse (advance p))"
      using parseAnd_returns [OF assms(1), of "advance p"] less.prems by simp
    then obtain b q where q: "parseAnd platform parse (advance p) = Some (b, q)"
      "length (p_tokens q) < length (p_tokens p)" "p_notDepth q = p_notDepth p"
      using len by (auto simp: returns_from_def)
    with less have "returns_from q (parseOrLoop platform parse (left \<or> b) q)" by simp
    then show ?thesis using True q by (auto simp: parseOrLoop.simps [of _ _ _ p] returns_from_def)
  qed (simp add: parseOrLoop.simps returns_from_def)
qed

lemma no_tokens_returns:
  assumes "p_tokens p = []"
  shows "parseOr platform (Suc f) p = Some (False, p)"
proof -
  have "tk_type (current p) = EOF" using assms by (simp add: current_def)
  then have "parseNot platform parse p = Some (False, p)" for parse
    by (simp add: parseNot.simps parsePrimary_def Let_def)
  with \<open>tk_type (current p) = EOF\<close> show ?thesis
    by (simp add: parseAnd_def parseAndLoop.simps parseOrLoop.simps)
qed

lemma parseOr_good: "n < f \<Longrightarrow> good n (parseOr platform f)"
proof (induction f arbitrary: n)
  case (Suc f)
  have "returns_from p (parseOr platform (Suc f) p)" if len: "length (p_tokens p) \<le> n" for p
  proof (cases "p_tokens p = []")
    case True
    show ?thesis by (rule returns_fromI [OF no_tokens_returns [OF True]]) simp_all
  next
    case False
    with len obtain m where m: "n = Suc m" by (cases n) auto
    then have g: "good m (parseOr platform f)" using Suc by simp
    obtain b q where q: "parseAnd platform (parseOr platform f) p = Some (b, q)"
      "length (p_tokens q) \<le> length (p_tokens p)" "p_notDepth q = p_notDepth p"
      using parseAnd_returns [OF g, of p platform] len m by (auto elim: returns_fromE)
    then show ?thesis using parseOrLoop_returns [OF g, of q platform b] len m
      by (auto simp: returns_from_def)
  qed
  then show ?case by (simp add: good_def)
qed simp

text \<open>
  Parsing a condition always ends: with the fuel that \<open>evaluateBooleanExpression\<close>
  supplies (one unit per token and one more), \<open>BooleanParser.parse\<close> returns a result on every
  token list, well formed or not, whatever the platform; it leaves the negation depth where it
  found it and never holds more tokens than it was given.
\<close>

theorem parser_always_returns:
  "\<exists>result q. parseOr platform (parse_fuel ts) \<lparr>p_tokens = ts, p_notDepth = d\<rparr> = Some (result, q) \<and>
     p_notDepth q = d \<and> length (p_tokens q) \<le> length ts"
proof -
  have "good (length ts) (parseOr platform (parse_fuel ts))"
    by (rule parseOr_good) (simp add: parse_fuel_def)
  then have "returns_from \<lparr>p_tokens = ts, p_notDepth = d\<rparr>
      (parseOr platform (parse_fuel ts) \<lparr>p_tokens = ts, p_notDepth = d\<rparr>)"
    by (simp add: good_def)
  then show ?thesis by (elim returns_fromE) simp
qed

section \<open>The grammar of conditions\<close>

text \<open>
  The abstract specification: syntax trees with their value, and the text of a tree with the
  parentheses that the precedence of the grammar comment asks for (\<open>orExpr\<close> 0, \<open>andExpr\<close> 1,
  \<open>notExpr\<close> 2), the way filter list authors write conditions.
\<close>

datatype bexp = BTrue | BFalse | BIdent jstr | BNot bexp | BAnd bexp bexp | BOr bexp bexp

primrec bexp_value :: "jstr option \<Rightarrow> bexp \<Rightarrow> bool" where
  "bexp_value platform BTrue = True"
| "bexp_value platform BFalse = False"
| "bexp_value platform (BIdent x) =
     (\<exists>p \<in> set_option platform. p \<noteq> [] \<and> to_lower x = to_lower p)"
| "bexp_value platform (BNot a) = (\<not> bexp_value platform a)"
| "bexp_value platform (BAnd a b) = (bexp_value platform a \<and> bexp_value platform b)"
| "bexp_value platform (BOr a b) = (bexp_value platform a \<or> bexp_value platform b)"

definition is_name :: "jstr \<Rightarrow> bool" where
  "is_name x \<longleftrightarrow> x \<noteq> [] \<and> ident_start (hd x) \<and> (\<forall>c \<in> set x. ident_char c) \<and>
     to_lower x \<noteq> ''true'' \<and> to_lower x \<noteq> ''false''"

primrec names_ok :: "bexp \<Rightarrow> bool" where
  "names_ok BTrue = True"
| "names_ok BFalse = True"
| "names_ok (BIdent x) = is_name x"
| "names_ok (BNot a) = names_ok a"
| "names_ok (BAnd a b) = (names_ok a \<and> names_ok b)"
| "names_ok (BOr a b) = (names_ok a \<and> names_ok b)"

primrec not_depth :: "bexp \<Rightarrow> nat" where
  "not_depth BTrue = 0"
| "not_depth BFalse = 0"
| "not_depth (BIdent x) = 0"
| "not_depth (BNot a) = Suc (not_depth a)"
| "not_depth (BAnd a b) = max (not_depth a) (not_depth b)"
| "not_depth (BOr a b) = max (not_depth a) (not_depth b)"

definition in_parens :: "bool \<Rightarrow> jstr \<Rightarrow> jstr" where
  "in_parens b s = (if b then ''('' @ s @ '')'' else s)"

primrec bexp_text :: "bexp \<Rightarrow> nat \<Rightarrow> jstr" where
  "bexp_text BTrue l = ''true''"
| "bexp_text BFalse l = ''false''"
| "bexp_text (BIdent x) l = x"
| "bexp_text (BNot a) l = ''!'' @ bexp_text a 2"
| "bexp_text (BAnd a b) l = in_parens (1 < l) (bexp_text a 1 @ '' && '' @ bexp_text b 2)"
| "bexp_text (BOr a b) l = in_parens (0 < l) (bexp_text a 0 @ '' || '' @ bexp_text b 1)"

definition paren_tokens :: "bool \<Rightarrow> token list \<Rightarrow> token list" where
  "paren_tokens b ts = (if b then mk_token LPAREN ''('' # ts @ [mk_token RPAREN '')''] else ts)"

primrec bexp_tokens :: "bexp \<Rightarrow> nat \<Rightarrow> token list" where
  "bexp_tokens BTrue l = [mk_token TRUE ''true'']"
| "bexp_tokens BFalse l = [mk_token FALSE ''false'']"
| "bexp_tokens (BIdent x) l = [mk_token IDENTIFIER x]"
| "bexp_tokens (BNot a) l = mk_token NOT ''!'' # bexp_tokens a 2"
| "bexp_tokens (BAnd a b) l =
     paren_tokens (1 < l) (bexp_tokens a 1 @ mk_token AND ''&&'' # bexp_tokens b 2)"
| "bexp_tokens (BOr a b) l =
     paren_tokens (0 < l) (bexp_tokens a 0 @ mk_token OR ''||'' # bexp_tokens b 1)"

subsection \<open>The tokenizer reads the text of a tree\<close>

lemma ident_char_not_special:
  "ident_char c \<Longrightarrow> c \<notin> {CHR ''('', CHR '')'', CHR ''!'', CHR ''&'', CHR ''|'', CHR '' ''} \<and> \<not> is_ws c"
  by (auto simp: ident_char_def is_alnum_def is_letter_def is_lower_def is_upper_def is_digit_def
      code_in_def is_ws_def)

lemma ident_start_not_special:
  "ident_start c \<Longrightarrow> c \<notin> {CHR ''('', CHR '')'', CHR ''!'', CHR ''&'', CHR ''|'', CHR '' ''} \<and> \<not> is_ws c"
  using ident_char_not_special ident_start_char by blast

lemma tokenize_word:
  assumes "ident_start c" and "\<forall>d \<in> set x. ident_char d" and "s = [] \<or> \<not> ident_char (hd s)"
  shows "tokenize (c # x @ s) = ident_token (c # x) # tokenize s"
proof -
  have stop: "takeWhile ident_char s = []" "dropWhile ident_char s = s"
    using assms(3) by (cases s; simp)+
  have "takeWhile ident_char (x @ s) = x" "dropWhile ident_char (x @ s) = s"
    using assms(2) stop by simp_all
  then show ?thesis using assms(1) ident_start_not_special [OF assms(1)] ident_start_char [OF assms(1)]
    by (simp add: tokenize.simps [of "c # x @ s"])
qed

lemma tokenize_name:
  assumes "is_name x" and "s = [] \<or> \<not> ident_char (hd s)"
  shows "tokenize (x @ s) = mk_token IDENTIFIER x # tokenize s"
proof -
  obtain c y where x: "x = c # y" using assms(1) by (cases x) (auto simp: is_name_def)
  show ?thesis using tokenize_word [of c y s] assms x
    by (simp add: is_name_def ident_token_def)
qed

lemma tokenize_true:
  "s = [] \<or> \<not> ident_char (hd s) \<Longrightarrow> tokenize (''true'' @ s) = mk_token TRUE ''true'' # tokenize s"
proof -
  assume s: "s = [] \<or> \<not> ident_char (hd s)"
  have "ident_start (CHR ''t'')" "\<forall>d \<in> set ''rue''. ident_char d"
    "ident_token ''true'' = mk_token TRUE ''true''" by code_simp+
  with tokenize_word [of "CHR ''t''" "''rue''" s] s show ?thesis by simp
qed

lemma tokenize_false:
  "s = [] \<or> \<not> ident_char (hd s) \<Longrightarrow> tokenize (''false'' @ s) = mk_token FALSE ''false'' # tokenize s"
proof -
  assume s: "s = [] \<or> \<not> ident_char (hd s)"
  have "ident_start (CHR ''f'')" "\<forall>d \<in> set ''alse''. ident_char d"
    "ident_token ''false'' = mk_token FALSE ''false''" by code_simp+
  with tokenize_word [of "CHR ''f''" "''alse''" s] s show ?thesis by simp
qed

lemma special_not_ws:
  "\<not> is_ws (CHR ''('')" "\<not> is_ws (CHR '')'')" "\<not> is_ws (CHR ''!'')" "\<not> is_ws (CHR ''&'')"
  "\<not> is_ws (CHR ''|'')" "is_ws (CHR '' '')"
  "\<not> ident_char (CHR '' '')" "\<not> ident_char (CHR '')'')"
  by (simp_all add: is_ws_def ident_char_def is_alnum_def is_letter_def is_lower_def is_upper_def
      is_digit_def code_in_def)

lemma tokenize_special:
  "tokenize (CHR ''('' # s) = mk_token LPAREN ''('' # tokenize s"
  "tokenize (CHR '')'' # s) = mk_token RPAREN '')'' # tokenize s"
  "tokenize (CHR ''!'' # s) = mk_token NOT ''!'' # tokenize s"
  "tokenize (CHR ''&'' # CHR ''&'' # s) = mk_token AND ''&&'' # tokenize s"
  "tokenize (CHR ''|'' # CHR ''|'' # s) = mk_token OR ''||'' # tokenize s"
  by (subst tokenize.simps; simp add: special_not_ws)+

lemma tokenize_space: "tokenize (CHR '' '' # s) = tokenize s"
  by (simp add: tokenize.simps [of "CHR '' '' # s"] tokenize.simps [of s] special_not_ws)

lemma tokenize_text:
  "names_ok e \<Longrightarrow> s = [] \<or> \<not> ident_char (hd s) \<Longrightarrow>
   tokenize (bexp_text e l @ s) = bexp_tokens e l @ tokenize s"
proof (induction e arbitrary: l s)
  case BTrue then show ?case using tokenize_true [of s] by simp
next
  case BFalse then show ?case using tokenize_false [of s] by simp
next
  case (BIdent x) then show ?case by (simp add: tokenize_name)
next
  case (BNot a) then show ?case by (simp add: tokenize_special)
next
  case (BAnd a b) then show ?case
    by (simp add: in_parens_def paren_tokens_def tokenize_special tokenize_space special_not_ws)
next
  case (BOr a b) then show ?case
    by (simp add: in_parens_def paren_tokens_def tokenize_special tokenize_space special_not_ws)
qed

subsection \<open>The parser reads the tokens of a tree\<close>

abbreviation at :: "nat \<Rightarrow> token list \<Rightarrow> parser" where
  "at d ts \<equiv> \<lparr>p_tokens = ts, p_notDepth = d\<rparr>"

definition next_type :: "token list \<Rightarrow> token_type" where
  "next_type ts = (case ts of [] \<Rightarrow> EOF | t # _ \<Rightarrow> tk_type t)"

lemma next_type_simps [simp]: "next_type [] = EOF" "next_type (t # ts) = tk_type t"
  by (simp_all add: next_type_def)

lemma current_at [simp]: "tk_type (current (at d ts)) = next_type ts" "current (at d (t # ts)) = t"
  by (simp_all add: current_def split: list.split)

lemma advance_at [simp]: "advance (at d (t # ts)) = at d ts"
  by (simp add: advance_def)

lemma parseAndLoop_stop:
  "next_type ts \<noteq> AND \<Longrightarrow> parseAndLoop pl g v (at d ts) = Some (v, at d ts)"
  by (simp add: parseAndLoop.simps)

lemma parseOrLoop_stop:
  "next_type ts \<noteq> OR \<Longrightarrow> parseOrLoop pl g v (at d ts) = Some (v, at d ts)"
  by (simp add: parseOrLoop.simps)

text \<open>The three grammar levels, as continuations of the loops that follow them.\<close>

definition reads_not :: "jstr option \<Rightarrow> nat \<Rightarrow> nat \<Rightarrow> bexp \<Rightarrow> bool" where
  "reads_not pl f d e \<longleftrightarrow> (\<forall>rest. parseNot (map_option to_lower pl) (parseOr (map_option to_lower pl) f)
       (at d (bexp_tokens e 2 @ rest)) = Some (bexp_value pl e, at d rest))"

definition reads_and :: "jstr option \<Rightarrow> nat \<Rightarrow> nat \<Rightarrow> bexp \<Rightarrow> bool" where
  "reads_and pl f d e \<longleftrightarrow> (\<forall>rest. parseAnd (map_option to_lower pl) (parseOr (map_option to_lower pl) f)
       (at d (bexp_tokens e 1 @ rest)) =
     parseAndLoop (map_option to_lower pl) (parseOr (map_option to_lower pl) f)
       (bexp_value pl e) (at d rest))"

definition reads_or :: "jstr option \<Rightarrow> nat \<Rightarrow> nat \<Rightarrow> bexp \<Rightarrow> bool" where
  "reads_or pl f d e \<longleftrightarrow> (\<forall>rest. next_type rest \<noteq> AND \<longrightarrow>
     parseOr (map_option to_lower pl) (Suc f) (at d (bexp_tokens e 0 @ rest)) =
     parseOrLoop (map_option to_lower pl) (parseOr (map_option to_lower pl) f)
       (bexp_value pl e) (at d rest))"

lemmas reads_defs = reads_not_def reads_and_def reads_or_def

lemma reads_and_from_not:
  "reads_not pl f d e \<Longrightarrow> bexp_tokens e 1 = bexp_tokens e 2 \<Longrightarrow> reads_and pl f d e"
  by (simp add: reads_defs parseAnd_def)

lemma reads_or_from_and:
  "reads_and pl f d e \<Longrightarrow> bexp_tokens e 0 = bexp_tokens e 1 \<Longrightarrow> reads_or pl f d e"
  by (simp add: reads_defs parseAndLoop_stop)

lemma reads_paren:
  assumes "reads_or pl f d e"
    and "bexp_tokens e 2 = mk_token LPAREN ''('' # bexp_tokens e 0 @ [mk_token RPAREN '')'']"
  shows "reads_not pl (Suc f) d e"
  using assms unfolding reads_not_def reads_or_def
  by (auto simp: parseNot.simps parsePrimary_def parseOrLoop_stop simp del: parseOr.simps)

lemma reads_BAnd:
  assumes "reads_and pl f d a" and "reads_not pl f d b"
  shows "reads_and pl f d (BAnd a b)"
  using assms by (simp add: reads_defs paren_tokens_def parseAndLoop.simps [of _ _ _ "at d (_ # _)"])

lemma reads_BOr:
  assumes "reads_or pl f d a" and "reads_and pl f d b"
  shows "reads_or pl f d (BOr a b)"
  using assms unfolding reads_defs
  by (simp add: paren_tokens_def parseOrLoop.simps [of _ _ _ "at d (_ # _)"] parseAndLoop_stop
      del: parseOr.simps)

lemma reads_BNot:
  assumes "reads_not pl f (Suc d) a" and "d < MAX_NOT_DEPTH"
  shows "reads_not pl f d (BNot a)"
  using assms by (simp add: reads_defs parseNot.simps [of _ _ "at d (_ # _)"])

lemma reads_atom:
  "reads_not pl f d BTrue" "reads_not pl f d BFalse" "reads_not pl f d (BIdent x)"
  by (auto simp: reads_defs parseNot.simps parsePrimary_def evaluateIdentifier_def
      to_lower_def split: option.splits)

lemma paren_tokens_length: "length ts \<le> length (paren_tokens b ts)"
  by (simp add: paren_tokens_def)

lemma reads_all:
  "d + not_depth e \<le> MAX_NOT_DEPTH \<Longrightarrow>
   (length (bexp_tokens e 0) \<le> f \<longrightarrow> reads_or pl f d e) \<and>
   (length (bexp_tokens e 1) \<le> f \<longrightarrow> reads_and pl f d e) \<and>
   (length (bexp_tokens e 2) \<le> f \<longrightarrow> reads_not pl f d e)"
proof (induction e arbitrary: d f)
  case BTrue
  show ?case using reads_atom(1) by (simp add: reads_or_from_and reads_and_from_not)
next
  case BFalse
  show ?case using reads_atom(2) by (simp add: reads_or_from_and reads_and_from_not)
next
  case (BIdent x)
  show ?case using reads_atom(3) by (simp add: reads_or_from_and reads_and_from_not)
next
  case (BNot a)
  then have n: "length (bexp_tokens a 2) < f \<longrightarrow> reads_not pl f d (BNot a)"
    using BNot.IH [of "Suc d" f] by (auto intro: reads_BNot)
  then show ?case by (simp add: reads_or_from_and reads_and_from_not Suc_le_eq)
next
  case (BAnd a b)
  have d: "d + not_depth a \<le> MAX_NOT_DEPTH" "d + not_depth b \<le> MAX_NOT_DEPTH"
    using BAnd.prems by auto
  have A: "reads_and pl g d (BAnd a b)" if "length (bexp_tokens (BAnd a b) 1) \<le> g" for g
    using that BAnd.IH(1) [OF d(1), of g] BAnd.IH(2) [OF d(2), of g]
    by (intro reads_BAnd) (simp_all add: paren_tokens_def)
  have O: "reads_or pl g d (BAnd a b)" if "length (bexp_tokens (BAnd a b) 0) \<le> g" for g
    by (rule reads_or_from_and [OF A]) (use that in \<open>simp_all add: paren_tokens_def\<close>)
  have N: "reads_not pl f d (BAnd a b)" if fuel: "length (bexp_tokens (BAnd a b) 2) \<le> f"
  proof -
    obtain g where "f = Suc g" "length (bexp_tokens (BAnd a b) 0) \<le> g"
      using fuel by (cases f) (auto simp: paren_tokens_def)
    then show ?thesis using reads_paren [OF O] by (simp add: paren_tokens_def)
  qed
  show ?case using A O N by simp
next
  case (BOr a b)
  have d: "d + not_depth a \<le> MAX_NOT_DEPTH" "d + not_depth b \<le> MAX_NOT_DEPTH"
    using BOr.prems by auto
  have O: "reads_or pl g d (BOr a b)" if "length (bexp_tokens (BOr a b) 0) \<le> g" for g
    using that BOr.IH(1) [OF d(1), of g] BOr.IH(2) [OF d(2), of g]
    by (intro reads_BOr) (simp_all add: paren_tokens_def)
  have N: "reads_not pl f d (BOr a b)" if fuel: "length (bexp_tokens (BOr a b) 2) \<le> f" for f
  proof -
    obtain g where "f = Suc g" "length (bexp_tokens (BOr a b) 0) \<le> g"
      using fuel by (cases f) (auto simp: paren_tokens_def)
    then show ?thesis using reads_paren [OF O] by (simp add: paren_tokens_def)
  qed
  have A: "reads_and pl f d (BOr a b)" if "length (bexp_tokens (BOr a b) 1) \<le> f"
    by (rule reads_and_from_not [OF N]) (use that in \<open>simp_all add: paren_tokens_def\<close>)
  show ?case using A O N by simp
qed

lemma text_ends:
  "names_ok e \<Longrightarrow> bexp_text e l \<noteq> [] \<and> \<not> is_ws (hd (bexp_text e l)) \<and> \<not> is_ws (last (bexp_text e l))"
proof (induction e arbitrary: l)
  case (BIdent x)
  then have "\<forall>c \<in> set x. \<not> is_ws c" "x \<noteq> []" by (auto simp: is_name_def dest: ident_char_not_special)
  then show ?case by simp
qed (auto simp: in_parens_def special_not_ws is_ws_def)

lemma evaluates_text:
  assumes "names_ok e" and "not_depth e \<le> MAX_NOT_DEPTH" and "js_trim s = bexp_text e 0"
  shows "evaluateBooleanExpression s platform = bexp_value platform e"
proof -
  let ?ts = "bexp_tokens e 0 @ [mk_token EOF []]"
  have tk: "tokenize (bexp_text e 0) = ?ts"
    using tokenize_text [OF assms(1), of "[]" 0] by (simp add: tokenize.simps)
  have "reads_or platform (length ?ts) 0 e"
    using reads_all [of 0 e "length ?ts" platform] assms(2) by simp
  then have "parseOr (map_option to_lower platform) (parse_fuel ?ts) (at 0 ?ts) =
      Some (bexp_value platform e, at 0 [mk_token EOF []])"
    by (simp add: reads_or_def parse_fuel_def parseOrLoop_stop del: parseOr.simps)
  then show ?thesis using assms(3) text_ends [OF assms(1), of 0]
    by (simp add: evaluateBooleanExpression_def tk del: parseOr.simps)
qed



end
