(* ===== verification/Breaker.thy ===== *)
theory Breaker
  imports Prelude
begin

text \<open>
  The circuit breaker (\<open>src/utils/CircuitBreaker.ts\<close>) that guards every network source of the
  downloader.  Times are integers, milliseconds as \<open>Date.now()\<close> returns them; logging is left
  out.  \<open>execute\<close> awaits the guarded function, so other calls may run between its start and its
  end: \<open>execute_begin\<close>, \<open>onSuccess\<close> and \<open>onFailure\<close> are its three uninterrupted pieces,
  \<open>breaker_step\<close> interleaves the pieces of any number of calls, and \<open>execute\<close> is one call on
  its own.
\<close>

section \<open>State and operations\<close>

datatype CircuitBreakerState = CLOSED | OPEN | HALF_OPEN

record breaker_options =
  bo_threshold :: int
  bo_timeout :: int

record breaker =
  failureCount :: int
  cb_state :: CircuitBreakerState
  lastFailureTime :: "int option"

definition default_options :: "int option \<Rightarrow> int option \<Rightarrow> breaker_options" where
  "default_options threshold timeout =
     \<lparr>bo_threshold = (case threshold of None \<Rightarrow> 5 | Some n \<Rightarrow> n),
      bo_timeout = (case timeout of None \<Rightarrow> 60000 | Some n \<Rightarrow> n)\<rparr>"

definition new_breaker :: breaker where
  "new_breaker = \<lparr>failureCount = 0, cb_state = CLOSED, lastFailureTime = None\<rparr>"

text \<open>\<open>CircuitBreakerOpenError\<close>, with the seconds that its message names.\<close>

record open_error =
  retry_seconds :: int
  error_state :: CircuitBreakerState

datatype 'e breaker_error = Open_Error open_error | Call_Error 'e

definition shouldAttemptRecovery :: "breaker_options \<Rightarrow> int \<Rightarrow> breaker \<Rightarrow> bool" where
  "shouldAttemptRecovery opts now b =
     (case lastFailureTime b of None \<Rightarrow> True | Some t \<Rightarrow> bo_timeout opts \<le> now - t)"

definition getTimeUntilRecovery :: "breaker_options \<Rightarrow> int \<Rightarrow> breaker \<Rightarrow> int" where
  "getTimeUntilRecovery opts now b =
     (case lastFailureTime b of None \<Rightarrow> 0 | Some t \<Rightarrow> max 0 (bo_timeout opts - (now - t)))"

definition ceil_div :: "int \<Rightarrow> int \<Rightarrow> int" where
  "ceil_div a b = - ((- a) div b)"

text \<open>The check at the start of \<open>execute\<close>: \<open>Inl\<close> is the thrown error, \<open>Inr\<close> runs the function.\<close>

definition execute_begin :: "breaker_options \<Rightarrow> int \<Rightarrow> breaker \<Rightarrow> open_error + breaker" where
  "execute_begin opts now b =
     (if cb_state b = OPEN then
        (if shouldAttemptRecovery opts now b then Inr (b\<lparr>cb_state := HALF_OPEN\<rparr>)
         else Inl \<lparr>retry_seconds = ceil_div (getTimeUntilRecovery opts now b) 1000,
                   error_state = cb_state b\<rparr>)
      else Inr b)"

definition onSuccess :: "breaker \<Rightarrow> breaker" where
  "onSuccess b = b\<lparr>failureCount := 0, cb_state := CLOSED, lastFailureTime := None\<rparr>"

definition onFailure :: "breaker_options \<Rightarrow> int \<Rightarrow> breaker \<Rightarrow> breaker" where
  "onFailure opts now b =
     (let b' = b\<lparr>failureCount := failureCount b + 1, lastFailureTime := Some now\<rparr>
      in if cb_state b = HALF_OPEN then b'\<lparr>cb_state := OPEN\<rparr>
         else if bo_threshold opts \<le> failureCount b' then b'\<lparr>cb_state := OPEN\<rparr>
         else b')"

definition reset_breaker :: "breaker \<Rightarrow> breaker" where
  "reset_breaker b = b\<lparr>failureCount := 0, cb_state := CLOSED, lastFailureTime := None\<rparr>"

text \<open>
  One call that nothing interrupts.  \<open>fn\<close> takes the state of the world and the time it starts;
  it answers with its result or error, the world after it and the time it ends.
\<close>

definition execute ::
  "breaker_options \<Rightarrow> ('w \<Rightarrow> int \<Rightarrow> ('e + 'a) \<times> 'w \<times> int) \<Rightarrow> int \<Rightarrow> breaker \<Rightarrow> 'w \<Rightarrow>
   ('e breaker_error + 'a) \<times> breaker \<times> 'w \<times> int" where
  "execute opts fn now b w =
     (case execute_begin opts now b of
        Inl e \<Rightarrow> (Inl (Open_Error e), b, w, now)
      | Inr b' \<Rightarrow>
          (case fn w now of
             (Inr result, w', now') \<Rightarrow> (Inr result, onSuccess b', w', now')
           | (Inl error, w', now') \<Rightarrow> (Inl (Call_Error error), onFailure opts now' b', w', now')))"

record breaker_stats =
  st_state :: CircuitBreakerState
  st_failureCount :: int
  st_threshold :: int
  st_timeout :: int
  st_lastFailureTime :: "int option"
  st_timeUntilRecovery :: int

definition getStats :: "breaker_options \<Rightarrow> int \<Rightarrow> breaker \<Rightarrow> breaker_stats" where
  "getStats opts now b =
     \<lparr>st_state = cb_state b, st_failureCount = failureCount b, st_threshold = bo_threshold opts,
      st_timeout = bo_timeout opts, st_lastFailureTime = lastFailureTime b,
      st_timeUntilRecovery = (if cb_state b = OPEN then getTimeUntilRecovery opts now b else 0)\<rparr>"

section \<open>Interleaved calls\<close>

text \<open>The breaker, the calls that are waiting for their function, and the clock.\<close>

record breaker_system =
  bs_breaker :: breaker
  bs_waiting :: nat
  bs_now :: int

inductive breaker_step :: "breaker_options \<Rightarrow> breaker_system \<Rightarrow> breaker_system \<Rightarrow> bool"
  for opts where
  start: "execute_begin opts (bs_now s) (bs_breaker s) = Inr b \<Longrightarrow>
     breaker_step opts s (s\<lparr>bs_breaker := b, bs_waiting := bs_waiting s + 1\<rparr>)"
| reject: "execute_begin opts (bs_now s) (bs_breaker s) = Inl e \<Longrightarrow> breaker_step opts s s"
| succeed: "0 < bs_waiting s \<Longrightarrow>
     breaker_step opts s
       (s\<lparr>bs_breaker := onSuccess (bs_breaker s), bs_waiting := bs_waiting s - 1\<rparr>)"
| fail: "0 < bs_waiting s \<Longrightarrow>
     breaker_step opts s
       (s\<lparr>bs_breaker := onFailure opts (bs_now s) (bs_breaker s), bs_waiting := bs_waiting s - 1\<rparr>)"
| reset: "breaker_step opts s (s\<lparr>bs_breaker := reset_breaker (bs_breaker s)\<rparr>)"
| tick: "bs_now s \<le> t \<Longrightarrow> breaker_step opts s (s\<lparr>bs_now := t\<rparr>)"

inductive_cases breaker_stepE: "breaker_step opts s t"

definition initial_system :: "breaker_system \<Rightarrow> bool" where
  "initial_system s \<longleftrightarrow> bs_breaker s = new_breaker \<and> bs_waiting s = 0"

lemmas breaker_defs = execute_begin_def onSuccess_def onFailure_def reset_breaker_def new_breaker_def

text \<open>The states a breaker can be in.\<close>

definition breaker_ok :: "breaker_options \<Rightarrow> int \<Rightarrow> breaker \<Rightarrow> bool" where
  "breaker_ok opts now b \<longleftrightarrow> 0 \<le> failureCount b \<and>
     (failureCount b = 0 \<longleftrightarrow> lastFailureTime b = None) \<and>
     (\<forall>t \<in> set_option (lastFailureTime b). t \<le> now) \<and>
     (if cb_state b = CLOSED then failureCount b = 0 \<or> failureCount b < bo_threshold opts
      else 0 < failureCount b \<and> bo_threshold opts \<le> failureCount b)"

lemma breaker_ok_keeps:
  "breaker_ok opts now new_breaker"
  "breaker_ok opts now b \<Longrightarrow> execute_begin opts now b = Inr b' \<Longrightarrow> breaker_ok opts now b'"
  "breaker_ok opts now (onSuccess b)"
  "breaker_ok opts now b \<Longrightarrow> breaker_ok opts now (onFailure opts now b)"
  "breaker_ok opts now (reset_breaker b)"
  "breaker_ok opts now b \<Longrightarrow> now \<le> t \<Longrightarrow> breaker_ok opts t b"
  by (auto simp: breaker_ok_def breaker_defs Let_def split: if_splits)

lemma breaker_step_ok:
  "breaker_step opts s t \<Longrightarrow> breaker_ok opts (bs_now s) (bs_breaker s) \<Longrightarrow>
   breaker_ok opts (bs_now t) (bs_breaker t)"
proof (induction rule: breaker_step.induct)
  case (start s b)
  then show ?case by (auto intro: breaker_ok_keeps(2))
next
  case (tick s t)
  then show ?case by (auto intro: breaker_ok_keeps(6))
qed (simp_all add: breaker_ok_keeps(3-5))

interpretation breaker_calls: transition_system
  initial_system "breaker_step opts" "\<lambda>s. breaker_ok opts (bs_now s) (bs_breaker s)" for opts
  by unfold_locales
    (auto simp: initial_system_def breaker_ok_keeps(1) intro: breaker_step_ok)

text \<open>
  Whatever the order in which concurrent calls start, succeed, fail, are rejected, or the
  breaker is reset, and however the clock advances, a breaker that started closed is always
  in a sound state: closed only below the threshold, open or half open only after at
  least \<open>threshold\<close> (and at least one) failures, with a recorded failure time exactly when there
  are failures, and that time never in the future.
\<close>

theorem breaker_always_sound:
  assumes "initial_system s" and "(breaker_step opts)\<^sup>*\<^sup>* s t"
  shows "breaker_ok opts (bs_now t) (bs_breaker t)"
  using breaker_calls.always [OF assms] .

theorem breaker_always_sound_witness:
  "\<exists>t :: breaker_system. cb_state (bs_breaker t) = OPEN \<and>
     breaker_ok \<lparr>bo_threshold = 1, bo_timeout = 10\<rparr> (bs_now t) (bs_breaker t)"
proof -
  let ?o = "\<lparr>bo_threshold = 1, bo_timeout = 10\<rparr> :: breaker_options"
  let ?s = "\<lparr>bs_breaker = new_breaker, bs_waiting = 0, bs_now = 5\<rparr> :: breaker_system"
  let ?t = "?s\<lparr>bs_breaker := new_breaker, bs_waiting := 1\<rparr>"
  let ?u = "?t\<lparr>bs_breaker := onFailure ?o 5 new_breaker, bs_waiting := 0\<rparr>"
  have 1: "breaker_step ?o ?s ?t"
    using breaker_step.start [of ?o ?s new_breaker] by (simp add: breaker_defs)
  have 2: "breaker_step ?o ?t ?u"
    using breaker_step.fail [of ?t ?o] by simp
  from 1 2 have "(breaker_step ?o)\<^sup>*\<^sup>* ?s ?u" by (rule converse_rtranclp_into_rtranclp [OF _ r_into_rtranclp])
  then have "breaker_ok ?o (bs_now ?u) (bs_breaker ?u)"
    by (rule breaker_always_sound [rotated]) (simp add: initial_system_def)
  moreover have "cb_state (bs_breaker ?u) = OPEN" by (simp add: breaker_defs)
  ultimately show ?thesis by (intro exI [of _ ?u] conjI)
qed

section \<open>Opening and recovery\<close>

text \<open>Consecutive calls of one function, each starting when the one before has ended.\<close>

primrec execute_times ::
  "nat \<Rightarrow> breaker_options \<Rightarrow> ('w \<Rightarrow> int \<Rightarrow> ('e + 'a) \<times> 'w \<times> int) \<Rightarrow> int \<Rightarrow> breaker \<Rightarrow> 'w \<Rightarrow>
   breaker \<times> 'w \<times> int" where
  "execute_times 0 opts fn now b w = (b, w, now)"
| "execute_times (Suc n) opts fn now b w =
     (case execute opts fn now b w of (_, b', w', now') \<Rightarrow> execute_times n opts fn now' b' w')"

definition always_fails :: "('w \<Rightarrow> int \<Rightarrow> ('e + 'a) \<times> 'w \<times> int) \<Rightarrow> bool" where
  "always_fails fn \<longleftrightarrow> (\<forall>w now. \<exists>e w' now'. fn w now = (Inl e, w', now'))"

lemma failing_calls:
  assumes "always_fails fn" and "cb_state b = CLOSED"
    and "failureCount b + int n < bo_threshold opts"
  shows "\<exists>b' w' now'. execute_times n opts fn now b w = (b', w', now') \<and>
     cb_state b' = CLOSED \<and> failureCount b' = failureCount b + int n"
  using assms(2,3)
proof (induction n arbitrary: b w now)
  case (Suc n)
  obtain e w' now' where fn: "fn w now = (Inl e, w', now')"
    using assms(1) unfolding always_fails_def by blast
  let ?b = "onFailure opts now' b"
  have "execute opts fn now b w = (Inl (Call_Error e), ?b, w', now')"
    using fn Suc.prems by (simp add: execute_def execute_begin_def)
  moreover have "cb_state ?b = CLOSED" "failureCount ?b = failureCount b + 1"
    using Suc.prems by (simp_all add: onFailure_def Let_def)
  ultimately show ?case using Suc.IH [of ?b now' w'] Suc.prems by (auto simp: algebra_simps)
qed simp

text \<open>
  C10. The breaker opens after exactly \<open>threshold\<close> consecutive failures and then protects the
  resource: fewer failing calls leave it closed; after \<open>threshold\<close> of them, the last ending at
  time \<open>t\<close>, it is open, and every call before \<open>t + timeout\<close> throws
  \<open>CircuitBreakerOpenError\<close> naming the seconds left, without running the function (the world is
  unchanged) and without changing the breaker.
\<close>

theorem breaker_opens_and_blocks:
  assumes "always_fails fn" and "0 < bo_threshold opts"
  shows "(\<forall>n. int n < bo_threshold opts \<longrightarrow>
        cb_state (fst (execute_times n opts fn now new_breaker w)) = CLOSED) \<and>
     (\<exists>b w' t. execute_times (nat (bo_threshold opts)) opts fn now new_breaker w = (b, w', t) \<and>
        cb_state b = OPEN \<and>
        (\<forall>now'. now' < t + bo_timeout opts \<longrightarrow> t \<le> now' \<longrightarrow>
           (\<forall>fn' w''. execute opts fn' now' b w'' =
              (Inl (Open_Error \<lparr>retry_seconds = ceil_div (t + bo_timeout opts - now') 1000,
                                error_state = OPEN\<rparr>), b, w'', now'))))"
proof -
  have less: "\<exists>b' w' now'. execute_times n opts fn now new_breaker w = (b', w', now') \<and>
     cb_state b' = CLOSED \<and> failureCount b' = int n" if "int n < bo_threshold opts" for n
    using failing_calls [OF assms(1), of new_breaker n opts now w] that
    by (simp add: new_breaker_def)
  obtain m where m: "nat (bo_threshold opts) = Suc m" "int m < bo_threshold opts"
    "bo_threshold opts \<le> int m + 1"
    using assms(2) by (cases "nat (bo_threshold opts)") auto
  have snoc: "execute_times (Suc n) opts fn now b w =
      (case execute_times n opts fn now b w of (b', w', now') \<Rightarrow>
        (case execute opts fn now' b' w' of (_, r) \<Rightarrow> r))" for n now b w
    by (induction n arbitrary: now b w) (simp_all add: case_prod_beta)
  from less [OF m(2)] obtain b' w' now' where
    b': "execute_times m opts fn now new_breaker w = (b', w', now')" "cb_state b' = CLOSED"
      "failureCount b' = int m" by blast
  obtain e w'' t where fn: "fn w' now' = (Inl e, w'', t)"
    using assms(1) unfolding always_fails_def by blast
  let ?b = "onFailure opts t b'"
  have b: "cb_state ?b = OPEN" "lastFailureTime ?b = Some t"
    using b' m(3) by (simp_all add: onFailure_def Let_def)
  have "execute_times (nat (bo_threshold opts)) opts fn now new_breaker w = (?b, w'', t)"
    unfolding m(1) snoc b'(1) using fn b'(2) by (simp add: execute_def execute_begin_def)
  moreover have "\<forall>now'. now' < t + bo_timeout opts \<longrightarrow> t \<le> now' \<longrightarrow>
           (\<forall>fn' w''. execute opts fn' now' ?b w'' =
              (Inl (Open_Error \<lparr>retry_seconds = ceil_div (t + bo_timeout opts - now') 1000,
                                error_state = OPEN\<rparr>), ?b, w'', now'))"
    by (simp add: execute_def execute_begin_def b shouldAttemptRecovery_def
        getTimeUntilRecovery_def algebra_simps)
  ultimately show ?thesis using b(1) less by fastforce
qed

theorem breaker_opens_and_blocks_witness:
  "cb_state (fst (execute_times 3 \<lparr>bo_threshold = 3, bo_timeout = 60000\<rparr>
     (\<lambda>w now. (Inl ''down'' :: string + unit, w + 1, now + 10)) 0 new_breaker (0 :: nat))) = OPEN"
proof -
  let ?o = "\<lparr>bo_threshold = 3, bo_timeout = 60000\<rparr> :: breaker_options"
  let ?fn = "\<lambda>(w :: nat) now. (Inl ''down'' :: string + unit, w + 1, now + (10 :: int))"
  have "always_fails ?fn" "0 < bo_threshold ?o" by (simp_all add: always_fails_def)
  from breaker_opens_and_blocks [OF this, of 0 0] show ?thesis by (auto simp: numeral_eq_Suc)
qed

text \<open>
  Recovery: once \<open>timeout\<close> has passed since the last failure, an open breaker lets a
  call through.  If the function succeeds, the breaker is as good as new; if it
  fails, its error is thrown and the breaker is open again from the end of that call on.
\<close>

theorem breaker_recovers:
  assumes "cb_state b = OPEN" and "lastFailureTime b = Some t" and "t + bo_timeout opts \<le> now"
  shows "(\<forall>r w' now'. fn w now = (Inr r, w', now') \<longrightarrow>
       execute opts fn now b w = (Inr r, new_breaker, w', now')) \<and>
     (\<forall>e w' now'. fn w now = (Inl e, w', now') \<longrightarrow>
       (\<exists>b'. execute opts fn now b w = (Inl (Call_Error e), b', w', now') \<and> cb_state b' = OPEN \<and>
          failureCount b' = failureCount b + 1 \<and> lastFailureTime b' = Some now'))"
  using assms
  by (auto simp: execute_def breaker_defs shouldAttemptRecovery_def Let_def)

theorem breaker_recovers_witness:
  "execute \<lparr>bo_threshold = 3, bo_timeout = 100\<rparr> (\<lambda>w now. (Inr ''ok'' :: unit + string, w, now + 1)) 150
     \<lparr>failureCount = 3, cb_state = OPEN, lastFailureTime = Some 50\<rparr> () =
   (Inr ''ok'', new_breaker, (), 151)"
  by (rule breaker_recovers [THEN conjunct1, rule_format, where t = 50]) simp_all

end
