(* ===== verification/Texts.thy ===== *)
theory Texts
  imports Prelude
begin

text \<open>
  The string helpers of \<open>src/utils/StringUtils.ts\<close>.  A \<open>null\<close> or \<open>undefined\<close> argument is
  \<open>None\<close>.  \<open>trim_chars\<close> models \<open>trim\<close> for character sets without \<open>-\<close> and a leading \<open>^\<close>,
  which a regular expression class would read as a range or a complement; the program passes
  blank and tab only.
\<close>

definition substringBetween :: "jstr option \<Rightarrow> jstr \<Rightarrow> jstr \<Rightarrow> jstr option" where
  "substringBetween str startTag endTag =
     (case str of
        None \<Rightarrow> None
      | Some s \<Rightarrow>
          if s = [] then None
          else case index_of startTag s of
              None \<Rightarrow> None
            | Some start \<Rightarrow>
                let contentStart = start + length startTag
                in case index_from endTag s contentStart of
                     None \<Rightarrow> None
                   | Some end_ \<Rightarrow>
                       if contentStart < end_ then Some (substring s contentStart end_) else None)"

text \<open>
  The loop of \<open>splitByDelimiterWithEscapeCharacter\<close>: \<open>prev\<close> is \<open>str[i - 1]\<close> (\<open>None\<close> at \<open>i = 0\<close>).
\<close>

fun split_loop :: "char \<Rightarrow> char \<Rightarrow> bool \<Rightarrow> char option \<Rightarrow> jstr \<Rightarrow> jstr \<Rightarrow> jstr list" where
  "split_loop delimiter escape preserve prev buffer [] =
     (if preserve \<or> buffer \<noteq> [] then [buffer] else [])"
| "split_loop delimiter escape preserve prev buffer (c # cs) =
     (if c = delimiter then
        (case prev of
           None \<Rightarrow> split_loop delimiter escape preserve (Some c) buffer cs
         | Some p \<Rightarrow>
             if p = escape then
               split_loop delimiter escape preserve (Some c) (butlast buffer @ [c]) cs
             else if preserve \<or> buffer \<noteq> [] then
               buffer # split_loop delimiter escape preserve (Some c) [] cs
             else split_loop delimiter escape preserve (Some c) buffer cs)
      else split_loop delimiter escape preserve (Some c) (buffer @ [c]) cs)"

definition splitByDelimiterWithEscapeCharacter ::
  "jstr option \<Rightarrow> char \<Rightarrow> char \<Rightarrow> bool \<Rightarrow> jstr list" where
  "splitByDelimiterWithEscapeCharacter str delimiter escape preserve =
     (case str of
        None \<Rightarrow> []
      | Some s \<Rightarrow> if s = [] then [] else split_loop delimiter escape preserve None [] s)"

definition regexp_special :: "char \<Rightarrow> bool" where
  "regexp_special c \<longleftrightarrow> List.member ''.*+?^${}()|[]'' c \<or> c = CHR 0x5C"

definition escapeRegExp :: "jstr \<Rightarrow> jstr" where
  "escapeRegExp s = concat (map (\<lambda>c. if regexp_special c then [CHR 0x5C, c] else [c]) s)"

definition is_blank :: "jstr option \<Rightarrow> bool" where
  "is_blank str = (case str of None \<Rightarrow> True | Some s \<Rightarrow> js_trim s = [])"

definition trim_chars :: "jstr \<Rightarrow> jstr \<Rightarrow> jstr" where
  "trim_chars str chars = trim_by (List.member chars) str"

section \<open>Splitting undoes joining\<close>

definition escape_delimiter :: "char \<Rightarrow> char \<Rightarrow> jstr \<Rightarrow> jstr" where
  "escape_delimiter d e w = concat (map (\<lambda>c. if c = d then [e, c] else [c]) w)"

lemma escape_delimiter_simps [simp]:
  "escape_delimiter d e [] = []"
  "escape_delimiter d e (c # w) = (if c = d then e # c # escape_delimiter d e w else c # escape_delimiter d e w)"
  by (simp_all add: escape_delimiter_def)

lemma split_loop_word:
  assumes "d \<noteq> e" and "e \<notin> set w" and "p \<noteq> Some e"
  shows "\<exists>p'. p' \<noteq> Some e \<and> (w \<noteq> [] \<longrightarrow> p' \<noteq> None) \<and>
     split_loop d e b p buf (escape_delimiter d e w @ s) = split_loop d e b p' (buf @ w) s"
  using assms(2,3)
proof (induction w arbitrary: p buf)
  case (Cons c w)
  have e: "c \<noteq> e" "e \<notin> set w" using Cons.prems by auto
  have step: "split_loop d e b p buf (escape_delimiter d e (c # w) @ s) =
      split_loop d e b (Some c) (buf @ [c]) (escape_delimiter d e w @ s)"
    using assms(1) by auto
  obtain p' where "p' \<noteq> Some e" "w \<noteq> [] \<longrightarrow> p' \<noteq> None" "w = [] \<longrightarrow> p' = Some c"
    "split_loop d e b (Some c) (buf @ [c]) (escape_delimiter d e w @ s) =
     split_loop d e b p' (buf @ c # w) s"
  proof (cases "w = []")
    case True
    then show thesis using that [of "Some c"] e(1) by simp
  next
    case False
    then show thesis using that Cons.IH [OF e(2), of "Some c" "buf @ [c]"] e(1) by auto
  qed
  then show ?case unfolding step by (intro exI [of _ p']) auto
next
  case Nil
  then show ?case by (intro exI [of _ p]) simp
qed

lemma split_loop_words:
  assumes "d \<noteq> e"
  shows "p \<noteq> Some e \<Longrightarrow> \<forall>w \<in> set ws. w \<noteq> [] \<and> e \<notin> set w \<Longrightarrow> ws \<noteq> [] \<Longrightarrow>
     split_loop d e b p [] (join_with [d] (map (escape_delimiter d e) ws)) = ws"
proof (induction ws arbitrary: p)
  case (Cons w ws)
  then have w: "w \<noteq> []" "e \<notin> set w" by auto
  show ?case
  proof (cases "ws = []")
    case True
    then show ?thesis using split_loop_word [OF assms w(2) Cons.prems(1), of b "[]" "[]"] w by auto
  next
    case False
    let ?rest = "join_with [d] (map (escape_delimiter d e) ws)"
    obtain p' where p': "p' \<noteq> Some e" "p' \<noteq> None"
      "split_loop d e b p [] (escape_delimiter d e w @ d # ?rest) = split_loop d e b p' w (d # ?rest)"
      using split_loop_word [OF assms w(2) Cons.prems(1), of b "[]" "d # ?rest"] w by auto
    then have "split_loop d e b p' w (d # ?rest) = w # split_loop d e b (Some d) [] ?rest"
      using w by (cases p') auto
    also have "split_loop d e b (Some d) [] ?rest = ws"
      using Cons.IH [of "Some d"] Cons.prems False assms by simp
    finally show ?thesis using p' False by (simp add: join_with_Cons)
  qed
qed simp

text \<open>
  Splitting is the inverse of joining: for any parts that are not empty and do not contain
  the escape character, escaping the delimiters inside them, joining them with the delimiter
  and splitting the text again gives the parts back, with and without \<open>preserveAllTokens\<close>.
\<close>

theorem split_undoes_join:
  assumes "d \<noteq> e" and "\<forall>w \<in> set ws. w \<noteq> [] \<and> e \<notin> set w"
  shows "splitByDelimiterWithEscapeCharacter
           (Some (join_with [d] (map (escape_delimiter d e) ws))) d e preserve = ws"
proof (cases ws)
  case Nil
  then show ?thesis by (simp add: splitByDelimiterWithEscapeCharacter_def)
next
  case (Cons w ws')
  then have "join_with [d] (map (escape_delimiter d e) ws) \<noteq> []"
    using assms(2) by (cases ws'; cases w) auto
  then show ?thesis using split_loop_words [OF assms(1), of None ws preserve] assms(2) Cons
    by (simp add: splitByDelimiterWithEscapeCharacter_def)
qed

theorem split_undoes_join_witness:
  "splitByDelimiterWithEscapeCharacter (Some ''script,domain=a!,b'') CHR '','' CHR ''!'' False =
     [''script'', ''domain=a,b'']"
  using split_undoes_join [of "CHR '',''" "CHR ''!''" "[''script'', ''domain=a,b'']" False] by simp

end
