(* ===== verification/RuleSyntax.thy ===== *)
theory RuleSyntax
  imports Texts Domains
begin

text \<open>
  Rules as the program sees them: \<open>src/utils/AGTreeParser.ts\<close> (a typed face of the parser
  library \<open>@adguard/agtree\<close>) and \<open>src/utils/RuleUtils.ts\<close>.  The library is not part of the
  repository: \<open>RuleParser.parse\<close> and \<open>RuleGenerator.generate\<close> are parameters, \<open>parser\<close> and
  \<open>generate\<close>; a thrown syntax error is \<open>Inl\<close>.  Of its syntax trees the model keeps the fields
  that the repository reads.  The host name of \<open>new URL(...)\<close> is the parameter \<open>url_hostname\<close>.
\<close>

section \<open>Syntax trees\<close>

datatype adblock_syntax = Adg | Ubo | Abp | Common

datatype comment_type = PlainComment | MetadataComment | HintComment | PreProcessorComment
  | AgentComment | ConfigComment

datatype cosmetic_type = ElementHidingRule | CssInjectionRule | ScriptletInjectionRule
  | HtmlFilteringRule | JsInjectionRule

record modifier =
  mod_name :: jstr
  mod_value :: "jstr option"
  mod_exception :: bool

record network_rule =
  nr_exception :: bool
  nr_pattern :: jstr
  nr_modifiers :: "modifier list option"
  nr_syntax :: adblock_syntax
  nr_raw :: "jstr option"

record host_rule =
  hr_ip :: jstr
  hr_hostnames :: "jstr list"
  hr_comment :: "jstr option"
  hr_raw :: "jstr option"

datatype cosmetic_body = NoBody | ValueBody jstr | SelectorBody

record cosmetic_rule =
  cr_exception :: bool
  cr_domains :: "(bool \<times> jstr) list"
  cr_separator :: jstr
  cr_body :: cosmetic_body
  cr_type :: cosmetic_type
  cr_syntax :: adblock_syntax
  cr_raw :: "jstr option"

datatype any_rule = EmptyRule
  | CommentRule comment_type
  | NetworkRule network_rule
  | HostRule host_rule
  | CosmeticRule cosmetic_rule
  | InvalidRule "jstr option"

type_synonym rule_parser = "jstr \<Rightarrow> jstr + any_rule"

section \<open>AGTreeParser\<close>

record parse_outcome =
  po_ast :: "any_rule option"
  po_success :: bool
  po_error :: "jstr option"
  po_ruleText :: jstr

definition ag_parse :: "rule_parser \<Rightarrow> jstr \<Rightarrow> parse_outcome" where
  "ag_parse parser ruleText =
     (case parser (js_trim ruleText) of
        Inr (InvalidRule e) \<Rightarrow>
          \<lparr>po_ast = Some (InvalidRule e), po_success = False,
           po_error = Some (case e of Some m \<Rightarrow> m | None \<Rightarrow> ''Invalid rule syntax''),
           po_ruleText = ruleText\<rparr>
      | Inr ast \<Rightarrow> \<lparr>po_ast = Some ast, po_success = True, po_error = None, po_ruleText = ruleText\<rparr>
      | Inl m \<Rightarrow> \<lparr>po_ast = None, po_success = False, po_error = Some m, po_ruleText = ruleText\<rparr>)"

text \<open>The tree of a text that parses, \<open>result.success && result.ast\<close>.\<close>

definition parsed :: "rule_parser \<Rightarrow> jstr \<Rightarrow> any_rule option" where
  "parsed parser ruleText =
     (let r = ag_parse parser ruleText in if po_success r then po_ast r else None)"

fun ag_isEmpty :: "any_rule \<Rightarrow> bool" where
  "ag_isEmpty EmptyRule = True" | "ag_isEmpty _ = False"

fun ag_isComment :: "any_rule \<Rightarrow> bool" where
  "ag_isComment (CommentRule _) = True" | "ag_isComment _ = False"

fun ag_isNetworkRule :: "any_rule \<Rightarrow> bool" where
  "ag_isNetworkRule (NetworkRule _) = True" | "ag_isNetworkRule _ = False"

fun ag_isHostRule :: "any_rule \<Rightarrow> bool" where
  "ag_isHostRule (HostRule _) = True" | "ag_isHostRule _ = False"

fun ag_isAnyNetworkRule :: "any_rule \<Rightarrow> bool" where
  "ag_isAnyNetworkRule (NetworkRule _) = True"
| "ag_isAnyNetworkRule (HostRule _) = True"
| "ag_isAnyNetworkRule _ = False"

fun ag_isCosmeticRule :: "any_rule \<Rightarrow> bool" where
  "ag_isCosmeticRule (CosmeticRule _) = True" | "ag_isCosmeticRule _ = False"

fun ag_isExceptionRule :: "any_rule \<Rightarrow> bool" where
  "ag_isExceptionRule (NetworkRule r) = nr_exception r"
| "ag_isExceptionRule (CosmeticRule r) = cr_exception r"
| "ag_isExceptionRule _ = False"

fun ag_isValid :: "any_rule \<Rightarrow> bool" where
  "ag_isValid (InvalidRule _) = False" | "ag_isValid _ = True"

record network_properties =
  np_pattern :: jstr
  np_isException :: bool
  np_modifiers :: "modifier list"
  np_syntax :: adblock_syntax
  np_ruleText :: jstr

definition raw_or_generated :: "(any_rule \<Rightarrow> jstr) \<Rightarrow> any_rule \<Rightarrow> jstr option \<Rightarrow> jstr" where
  "raw_or_generated generate rule raw = (case raw of Some t \<Rightarrow> t | None \<Rightarrow> generate rule)"

definition extractNetworkRuleProperties ::
  "(any_rule \<Rightarrow> jstr) \<Rightarrow> network_rule \<Rightarrow> network_properties" where
  "extractNetworkRuleProperties generate r =
     \<lparr>np_pattern = nr_pattern r, np_isException = nr_exception r,
      np_modifiers = (case nr_modifiers r of None \<Rightarrow> [] | Some ms \<Rightarrow> ms),
      np_syntax = nr_syntax r,
      np_ruleText = raw_or_generated generate (NetworkRule r) (nr_raw r)\<rparr>"

record host_properties =
  hp_ip :: jstr
  hp_hostnames :: "jstr list"
  hp_comment :: "jstr option"
  hp_ruleText :: jstr

definition extractHostRuleProperties :: "(any_rule \<Rightarrow> jstr) \<Rightarrow> host_rule \<Rightarrow> host_properties" where
  "extractHostRuleProperties generate r =
     \<lparr>hp_ip = hr_ip r, hp_hostnames = hr_hostnames r, hp_comment = hr_comment r,
      hp_ruleText = raw_or_generated generate (HostRule r) (hr_raw r)\<rparr>"

record cosmetic_properties =
  cp_domains :: "jstr list"
  cp_separator :: jstr
  cp_isException :: bool
  cp_body :: jstr
  cp_type :: cosmetic_type
  cp_syntax :: adblock_syntax
  cp_ruleText :: jstr

definition extractCosmeticRuleProperties ::
  "(any_rule \<Rightarrow> jstr) \<Rightarrow> cosmetic_rule \<Rightarrow> cosmetic_properties" where
  "extractCosmeticRuleProperties generate r =
     (let fullRule = raw_or_generated generate (CosmeticRule r) (cr_raw r);
          body = (case cr_body r of
                    NoBody \<Rightarrow> []
                  | ValueBody v \<Rightarrow> v
                  | SelectorBody \<Rightarrow>
                      (case index_of (cr_separator r) fullRule of
                         None \<Rightarrow> []
                       | Some i \<Rightarrow> drop (i + length (cr_separator r)) fullRule))
      in \<lparr>cp_domains = map (\<lambda>(e, d). if e then ''~'' @ d else d) (cr_domains r),
          cp_separator = cr_separator r, cp_isException = cr_exception r, cp_body = body,
          cp_type = cr_type r, cp_syntax = cr_syntax r, cp_ruleText = fullRule\<rparr>)"

definition ag_findModifier :: "network_rule \<Rightarrow> jstr \<Rightarrow> modifier option" where
  "ag_findModifier r name =
     (case nr_modifiers r of None \<Rightarrow> None | Some ms \<Rightarrow> List.find (\<lambda>m. mod_name m = name) ms)"

definition ag_hasModifier :: "network_rule \<Rightarrow> jstr \<Rightarrow> bool" where
  "ag_hasModifier r name \<longleftrightarrow> ag_findModifier r name \<noteq> None"

definition ag_getModifierValue :: "network_rule \<Rightarrow> jstr \<Rightarrow> jstr option" where
  "ag_getModifierValue r name = Option.bind (ag_findModifier r name) mod_value"

definition validateModifier :: "jstr \<Rightarrow> bool \<times> jstr list" where
  "validateModifier modifierName =
     (let errors = (if js_trim modifierName = [] then [''Modifier name cannot be empty''] else [])
      in (errors = [], errors))"

definition validateNetworkRuleModifiers :: "network_rule \<Rightarrow> bool \<times> jstr list" where
  "validateNetworkRuleModifiers r =
     (let errors = (case nr_modifiers r of
                      None \<Rightarrow> []
                    | Some ms \<Rightarrow> concat (map (\<lambda>m. snd (validateModifier (mod_name m))) ms))
      in (errors = [], errors))"

section \<open>RuleUtils: what a rule is\<close>

definition isComment :: "rule_parser \<Rightarrow> jstr \<Rightarrow> bool" where
  "isComment parser ruleText =
     (case parsed parser ruleText of
        Some ast \<Rightarrow> ag_isComment ast
      | None \<Rightarrow> starts_with ruleText ''!'' \<or> starts_with ruleText ''# '' \<or> ruleText = ''#'' \<or>
          starts_with ruleText ''####'')"

definition isAllowRule :: "rule_parser \<Rightarrow> jstr \<Rightarrow> bool" where
  "isAllowRule parser ruleText =
     (case parsed parser ruleText of
        Some ast \<Rightarrow> ag_isExceptionRule ast
      | None \<Rightarrow> starts_with ruleText ''@@'')"

text \<open>\<open>DOMAIN_REGEX\<close>: at most 255 characters, labels of at most 63, an optional final dot.\<close>

definition domain_pattern :: "jstr \<Rightarrow> bool" where
  "domain_pattern s \<longleftrightarrow> 1 \<le> length s \<and> length s \<le> 255 \<and>
     list_all (\<lambda>w. label_pattern w \<and> length w \<le> 63)
       (split_on CHR ''.'' (if last s = CHR ''.'' then butlast s else s))"

definition isJustDomain :: "jstr \<Rightarrow> bool" where
  "isJustDomain ruleText \<longleftrightarrow> str_includes ruleText ''.'' \<and> domain_pattern ruleText"

definition isEtcHostsRule :: "rule_parser \<Rightarrow> jstr \<Rightarrow> bool" where
  "isEtcHostsRule parser ruleText =
     (case parsed parser ruleText of Some ast \<Rightarrow> ag_isHostRule ast | None \<Rightarrow> False)"

definition containsNonAsciiCharacters :: "jstr \<Rightarrow> bool" where
  "containsNonAsciiCharacters ruleText \<longleftrightarrow> list_ex (\<lambda>c. \<not> code_in 0 127 c) ruleText"

definition isNetworkRule :: "rule_parser \<Rightarrow> jstr \<Rightarrow> bool" where
  "isNetworkRule parser ruleText =
     (case parsed parser ruleText of Some ast \<Rightarrow> ag_isNetworkRule ast | None \<Rightarrow> False)"

definition isCosmeticRule :: "rule_parser \<Rightarrow> jstr \<Rightarrow> bool" where
  "isCosmeticRule parser ruleText =
     (case parsed parser ruleText of Some ast \<Rightarrow> ag_isCosmeticRule ast | None \<Rightarrow> False)"

definition isValidRule :: "rule_parser \<Rightarrow> jstr \<Rightarrow> bool" where
  "isValidRule parser ruleText = po_success (ag_parse parser ruleText)"

definition parseToAST :: "rule_parser \<Rightarrow> jstr \<Rightarrow> any_rule option" where
  "parseToAST parser ruleText = parsed parser ruleText"

definition isEmpty_rule :: "rule_parser \<Rightarrow> jstr \<Rightarrow> bool" where
  "isEmpty_rule parser ruleText =
     (let trimmed = js_trim ruleText
      in if trimmed = [] then True
         else (case parsed parser trimmed of Some ast \<Rightarrow> ag_isEmpty ast | None \<Rightarrow> False))"

section \<open>RuleUtils: international domain names\<close>

text \<open>
  \<open>DOMAIN_PATTERN_REGEX\<close> matches a whole run of characters other than white space and
  \<open>^ $ | =\<close>, if the run has a dot with a character before and one after it; a leading \<open>*.\<close>
  is split off when the rest of the run still matches.
\<close>

definition domain_char :: "char \<Rightarrow> bool" where
  "domain_char c \<longleftrightarrow> \<not> is_ws c \<and> \<not> List.member ''^$|='' c"

definition dotted :: "jstr \<Rightarrow> bool" where
  "dotted r \<longleftrightarrow> list_ex (\<lambda>c. c = CHR ''.'') (butlast (tl r))"

definition domainToASCII :: "(jstr \<Rightarrow> jstr option) \<Rightarrow> jstr \<Rightarrow> jstr" where
  "domainToASCII url_hostname domain =
     (case url_hostname (''http://'' @ domain) of Some h \<Rightarrow> h | None \<Rightarrow> domain)"

definition convert_domain :: "(jstr \<Rightarrow> jstr option) \<Rightarrow> jstr \<Rightarrow> jstr" where
  "convert_domain url_hostname domain =
     (if containsNonAsciiCharacters domain then domainToASCII url_hostname domain else domain)"

definition convert_run :: "(jstr \<Rightarrow> jstr option) \<Rightarrow> jstr \<Rightarrow> jstr" where
  "convert_run url_hostname r =
     (if starts_with r ''*.'' \<and> dotted (drop 2 r) then ''*.'' @ convert_domain url_hostname (drop 2 r)
      else if dotted r then convert_domain url_hostname r
      else r)"

function convertNonAsciiToPunycode :: "(jstr \<Rightarrow> jstr option) \<Rightarrow> jstr \<Rightarrow> jstr" where
  "convertNonAsciiToPunycode url_hostname [] = []"
| "convertNonAsciiToPunycode url_hostname (c # cs) =
     (if domain_char c then
        convert_run url_hostname (takeWhile domain_char (c # cs)) @
        convertNonAsciiToPunycode url_hostname (dropWhile domain_char cs)
      else c # convertNonAsciiToPunycode url_hostname cs)"
  by pat_completeness auto
termination
  by (relation "measure (length \<circ> snd)") (auto simp: le_imp_less_Suc length_dropWhile_le)

section \<open>RuleUtils: the properties of a rule\<close>

record rule_option =
  ro_name :: jstr
  ro_value :: "jstr option"

record adblock_rule =
  ar_ruleText :: jstr
  ar_pattern :: jstr
  ar_whitelist :: bool
  ar_options :: "rule_option list option"
  ar_hostname :: "jstr option"

record etc_hosts_rule =
  eh_ruleText :: jstr
  eh_hostnames :: "jstr list"

record rule_tokens =
  rt_pattern :: jstr
  rt_options :: "jstr option"
  rt_whitelist :: bool

datatype rule_error = TypeError jstr

definition hostname_char :: "char \<Rightarrow> bool" where
  "hostname_char c \<longleftrightarrow> is_lower c \<or> is_digit c \<or> c = CHR ''-'' \<or> c = CHR ''.''"

text \<open>The regular expression of host patterns: \<open>||\<close>, host characters, an optional final \<open>^\<close>.\<close>

definition pattern_hostname :: "jstr \<Rightarrow> jstr option" where
  "pattern_hostname pattern =
     (let body = drop 2 pattern;
          host = (if ends_with body ''^'' then butlast body else body)
      in if starts_with pattern ''||'' \<and> host \<noteq> [] \<and> list_all hostname_char host
         then Some host else None)"

definition extractHostname :: "rule_parser \<Rightarrow> jstr \<Rightarrow> jstr option" where
  "extractHostname parser pattern =
     (case parsed parser pattern of
        Some (NetworkRule r) \<Rightarrow> pattern_hostname (nr_pattern r)
      | _ \<Rightarrow> if ends_with pattern ''^'' then pattern_hostname pattern else None)"

definition modifier_text :: "modifier \<Rightarrow> jstr" where
  "modifier_text m =
     (if mod_exception m then ''~'' else []) @ mod_name m @
     (case mod_value m of Some v \<Rightarrow> (if v = [] then [] else ''='' @ v) | None \<Rightarrow> [])"

definition parseRuleTokens :: "rule_parser \<Rightarrow> (any_rule \<Rightarrow> jstr) \<Rightarrow> jstr \<Rightarrow> rule_tokens" where
  "parseRuleTokens parser generate ruleText =
     (case parsed parser (js_trim ruleText) of
        Some (NetworkRule r) \<Rightarrow>
          (let props = extractNetworkRuleProperties generate r
           in \<lparr>rt_pattern = np_pattern props,
               rt_options = (if np_modifiers props = [] then None
                             else Some (join_with '','' (map modifier_text (np_modifiers props)))),
               rt_whitelist = np_isException props\<rparr>)
      | _ \<Rightarrow> \<lparr>rt_pattern = ruleText, rt_options = None, rt_whitelist = starts_with ruleText ''@@''\<rparr>)"

definition loadEtcHostsRuleProperties ::
  "rule_parser \<Rightarrow> (any_rule \<Rightarrow> jstr) \<Rightarrow> jstr \<Rightarrow> rule_error + etc_hosts_rule" where
  "loadEtcHostsRuleProperties parser generate ruleText =
     (case parsed parser (js_trim ruleText) of
        Some (HostRule r) \<Rightarrow>
          Inr \<lparr>eh_ruleText = ruleText,
               eh_hostnames = hp_hostnames (extractHostRuleProperties generate r)\<rparr>
      | _ \<Rightarrow> Inl (TypeError (''Invalid /etc/hosts rule: '' @ ruleText)))"

definition option_of_modifier :: "modifier \<Rightarrow> rule_option" where
  "option_of_modifier m =
     \<lparr>ro_name = (if mod_exception m then ''~'' @ mod_name m else mod_name m), ro_value = mod_value m\<rparr>"

definition loadAdblockRuleProperties ::
  "rule_parser \<Rightarrow> (any_rule \<Rightarrow> jstr) \<Rightarrow> jstr \<Rightarrow> adblock_rule" where
  "loadAdblockRuleProperties parser generate ruleText =
     (case parsed parser (js_trim ruleText) of
        Some (NetworkRule r) \<Rightarrow>
          (let props = extractNetworkRuleProperties generate r
           in \<lparr>ar_ruleText = ruleText, ar_pattern = np_pattern props,
               ar_whitelist = np_isException props,
               ar_options = (if np_modifiers props = [] then None
                             else Some (map option_of_modifier (np_modifiers props))),
               ar_hostname = pattern_hostname (np_pattern props)\<rparr>)
      | _ \<Rightarrow>
          (let isWhitelist = starts_with ruleText ''@@''
           in \<lparr>ar_ruleText = ruleText,
               ar_pattern = (if isWhitelist then drop 2 ruleText else ruleText),
               ar_whitelist = isWhitelist, ar_options = None, ar_hostname = None\<rparr>))"

definition names_option :: "jstr \<Rightarrow> rule_option \<Rightarrow> bool" where
  "names_option name opt \<longleftrightarrow> ro_name opt = name \<or> ro_name opt = ''~'' @ name"

definition findModifier :: "adblock_rule \<Rightarrow> jstr \<Rightarrow> rule_option option" where
  "findModifier props name =
     (case ar_options props of None \<Rightarrow> None | Some os \<Rightarrow> List.find (names_option name) os)"

text \<open>\<open>removeModifier\<close> answers whether it found one and removes all of that name.\<close>

definition removeModifier :: "adblock_rule \<Rightarrow> jstr \<Rightarrow> bool \<times> adblock_rule" where
  "removeModifier props name =
     (case ar_options props of
        None \<Rightarrow> (False, props)
      | Some os \<Rightarrow>
          (list_ex (names_option name) os,
           props\<lparr>ar_options := Some (filter (\<lambda>opt. \<not> names_option name opt) os)\<rparr>))"

definition option_text :: "rule_option \<Rightarrow> jstr" where
  "option_text opt = ro_name opt @
     (case ro_value opt of Some v \<Rightarrow> (if v = [] then [] else ''='' @ v) | None \<Rightarrow> [])"

definition adblockRuleToString :: "adblock_rule \<Rightarrow> jstr" where
  "adblockRuleToString props =
     (if ar_whitelist props then ''@@'' else []) @ ar_pattern props @
     (case ar_options props of
        Some os \<Rightarrow> if os = [] then [] else ''$'' @ join_with '','' (map option_text os)
      | None \<Rightarrow> [])"

section \<open>Printing a loaded rule\<close>

definition network_text :: "network_rule \<Rightarrow> jstr" where
  "network_text r = (if nr_exception r then ''@@'' else []) @ nr_pattern r @
     (case nr_modifiers r of
        Some ms \<Rightarrow> if ms = [] then [] else ''$'' @ join_with '','' (map modifier_text ms)
      | None \<Rightarrow> [])"

lemma option_text_of_modifier: "option_text (option_of_modifier m) = modifier_text m"
  by (simp add: option_text_def option_of_modifier_def modifier_text_def)

lemma adblockRuleToString_network:
  "parsed parser (js_trim t) = Some (NetworkRule r) \<Longrightarrow>
   adblockRuleToString (loadAdblockRuleProperties parser generate t) = network_text r"
  by (cases "nr_modifiers r")
    (simp_all add: loadAdblockRuleProperties_def adblockRuleToString_def network_text_def
      extractNetworkRuleProperties_def Let_def option_text_of_modifier comp_def)

lemma starts_with_drop: "starts_with t ''@@'' \<Longrightarrow> ''@@'' @ drop 2 t = t"
  by (auto elim!: prefixE)

lemma adblockRuleToString_other:
  "\<nexists>r. parsed parser (js_trim t) = Some (NetworkRule r) \<Longrightarrow>
   adblockRuleToString (loadAdblockRuleProperties parser generate t) = t"
  using starts_with_drop [of t]
  by (auto simp: loadAdblockRuleProperties_def adblockRuleToString_def Let_def
      split: option.split any_rule.split)

text \<open>
  Loading a rule and writing it back is the identity up to canonical spelling: for every
  text, \<open>adblockRuleToString (loadAdblockRuleProperties text)\<close> is the text itself when it does
  not parse as a network rule (cosmetic and hosts rules, comments, syntax errors), and the
  text of the syntax tree (exception mark, pattern, all modifiers in order with negation and
  value) when it does.
\<close>

theorem load_print_rule:
  "adblockRuleToString (loadAdblockRuleProperties parser generate t) =
     (case parsed parser (js_trim t) of Some (NetworkRule r) \<Rightarrow> network_text r | _ \<Rightarrow> t)"
  using adblockRuleToString_network [of parser t _ generate]
    adblockRuleToString_other [of parser t generate]
  by (auto split: option.split any_rule.split)

section \<open>International domain names\<close>

lemma takeWhile_stop: "\<forall>c \<in> set w. P c \<Longrightarrow> s = [] \<or> \<not> P (hd s) \<Longrightarrow> takeWhile P (w @ s) = w"
  by (cases s) (auto simp: takeWhile_append)

lemma dropWhile_stop: "\<forall>c \<in> set w. P c \<Longrightarrow> s = [] \<or> \<not> P (hd s) \<Longrightarrow> dropWhile P (w @ s) = s"
  by (cases s) (auto simp: dropWhile_append)

lemma convert_one_run:
  assumes "w \<noteq> []" "\<forall>c \<in> set w. domain_char c" "s = [] \<or> \<not> domain_char (hd s)"
  shows "convertNonAsciiToPunycode url (w @ s) = convert_run url w @ convertNonAsciiToPunycode url s"
proof -
  obtain c cs where w: "w = c # cs" using assms(1) by (cases w) auto
  have "takeWhile domain_char (c # cs @ s) = c # cs" "dropWhile domain_char (cs @ s) = s"
    using assms(2,3) w takeWhile_stop [of "c # cs" domain_char s] dropWhile_stop [of cs domain_char s]
    by simp_all
  then show ?thesis using assms(2) w by simp
qed

lemma convert_run_ascii: "\<not> containsNonAsciiCharacters r \<Longrightarrow> convert_run url r = r"
proof -
  assume a: "\<not> containsNonAsciiCharacters r"
  then have "\<not> containsNonAsciiCharacters (drop 2 r)"
    by (auto simp: containsNonAsciiCharacters_def list_ex_iff dest: in_set_dropD)
  moreover have "starts_with r ''*.'' \<Longrightarrow> ''*.'' @ drop 2 r = r" by (auto elim!: prefixE)
  ultimately show ?thesis using a by (simp add: convert_run_def convert_domain_def)
qed

text \<open>
  Converting to Punycode never touches an ASCII line: a line without characters above 127
  is returned as it is, whatever the URL library answers.
\<close>

theorem punycode_keeps_ascii:
  "\<not> containsNonAsciiCharacters line \<Longrightarrow> convertNonAsciiToPunycode url line = line"
proof (induction url line rule: convertNonAsciiToPunycode.induct)
  case (2 url c cs)
  have sub: "\<not> containsNonAsciiCharacters (takeWhile domain_char (c # cs))"
    "\<not> containsNonAsciiCharacters (dropWhile domain_char cs)" "\<not> containsNonAsciiCharacters cs"
    using 2(3) by (auto simp: containsNonAsciiCharacters_def list_ex_iff
        dest: set_takeWhileD set_dropWhileD split: if_splits)
  show ?case
  proof (cases "domain_char c")
    case True
    then show ?thesis using 2(1) sub(1,2) convert_run_ascii [OF sub(1), of url] by simp
  next
    case False
    then show ?thesis using 2(2) sub(3) by simp
  qed
qed simp

theorem punycode_keeps_ascii_witness:
  "convertNonAsciiToPunycode (\<lambda>u. None) ''||*.example.com^$third-party'' =
     ''||*.example.com^$third-party''"
  by (rule punycode_keeps_ascii) code_simp

lemma special_not_domain_char: "\<not> domain_char (CHR ''|'')" "\<not> domain_char (CHR ''^'')"
  by code_simp+

lemma slash_domain_char: "domain_char (CHR ''/'')"
  by code_simp

text \<open>
  The conversion loses the path of a rule: the pattern that finds domains also takes the
  slash and what follows, and the host name of that text replaces all of it.  Whatever the
  path \<open>p\<close>, the rule \<open>||host/p^\<close> for an international host becomes \<open>||ascii^\<close>, a rule for the
  whole host, when the URL library answers, as documented, the ASCII host of the URL.
\<close>

theorem punycode_drops_path:
  assumes "\<forall>c \<in> set host. domain_char c" and "\<forall>c \<in> set p. domain_char c"
    and "containsNonAsciiCharacters host" and "dotted host" and "\<not> starts_with host ''*.''"
    and "\<And>path. url_hostname (''http://'' @ host @ ''/'' @ path) = Some ascii"
  shows "convertNonAsciiToPunycode url_hostname (''||'' @ host @ ''/'' @ p @ ''^'') = ''||'' @ ascii @ ''^''"
proof -
  let ?w = "host @ ''/'' @ p"
  have ne: "host \<noteq> []" using assms(4) by (auto simp: dotted_def)
  have d: "dotted ?w" using assms(4) ne
    by (cases host; cases p) (auto simp: dotted_def list_ex_iff butlast_append dest: in_set_butlastD)
  have "\<not> starts_with ?w ''*.''"
  proof -
    obtain a b h where "host = a # b # h"
      using assms(4) by (cases host; cases "tl host") (auto simp: dotted_def)
    then show ?thesis using assms(5) by simp
  qed
  then have "convert_run url_hostname ?w = ascii"
    using d assms(3,6)
    by (simp add: convert_run_def convert_domain_def domainToASCII_def containsNonAsciiCharacters_def)
  moreover have "convertNonAsciiToPunycode url_hostname (?w @ ''^'') =
      convert_run url_hostname ?w @ convertNonAsciiToPunycode url_hostname ''^''"
    using assms(1,2) by (intro convert_one_run) (auto simp: special_not_domain_char slash_domain_char)
  ultimately show ?thesis by (simp add: special_not_domain_char)
qed

theorem punycode_drops_path_witness:
  "convertNonAsciiToPunycode (\<lambda>u. Some ''xn--caf-dma.example'')
     (''||'' @ [CHR ''c'', CHR ''a'', CHR ''f'', CHR 0xE9] @ ''.example/'' @ ''ads/banner^'') =
   ''||xn--caf-dma.example^''"
proof -
  let ?host = "[CHR ''c'', CHR ''a'', CHR ''f'', CHR 0xE9] @ ''.example''"
  have "\<forall>c \<in> set ?host. domain_char c" "\<forall>c \<in> set ''ads/banner''. domain_char c"
    "containsNonAsciiCharacters ?host" "dotted ?host" "\<not> starts_with ?host ''*.''"
    by code_simp+
  from punycode_drops_path [OF this, of "\<lambda>u. Some ''xn--caf-dma.example''"]
  show ?thesis by simp
qed

end
