(* ===== verification/Transforms.thy ===== *)
theory Transforms
  imports RuleSyntax
begin

text \<open>
  The rule transformations of \<open>src/transformations\<close> that work on one line or on the plain list:
  \<open>TrimLines\<close>, \<open>RemoveComments\<close>, \<open>RemoveEmptyLines\<close>, \<open>InsertFinalNewLine\<close>, \<open>ConvertToAscii\<close>,
  \<open>RemoveModifiers\<close>, \<open>InvertAllow\<close> and \<open>Deduplicate\<close>.  Each is the \<open>executeSync\<close> of its class;
  the counters that are only logged are left out.
\<close>

section \<open>Line by line\<close>

definition trimLines :: "lines \<Rightarrow> lines" where
  "trimLines rules = map (\<lambda>line. trim_chars line [CHR '' '', CHR 0x09]) rules"

definition removeComments :: "rule_parser \<Rightarrow> lines \<Rightarrow> lines" where
  "removeComments parser rules = filter (\<lambda>rule. \<not> isComment parser rule) rules"

definition removeEmptyLines :: "lines \<Rightarrow> lines" where
  "removeEmptyLines rules = filter (\<lambda>line. 0 < length (js_trim line)) rules"

definition insertFinalNewLine :: "lines \<Rightarrow> lines" where
  "insertFinalNewLine rules =
     (if rules = [] \<or> js_trim (last rules) \<noteq> [] then rules @ [[]] else rules)"

definition convertToAscii :: "rule_parser \<Rightarrow> (jstr \<Rightarrow> jstr option) \<Rightarrow> lines \<Rightarrow> lines" where
  "convertToAscii parser url_hostname rules =
     map (\<lambda>rule. if isComment parser rule \<or> length rule = 0 then rule
                  else if \<not> containsNonAsciiCharacters rule then rule
                  else convertNonAsciiToPunycode url_hostname rule) rules"

definition MODIFIERS_TO_REMOVE :: "jstr list" where
  "MODIFIERS_TO_REMOVE =
     [''third-party'', ''3p'', ''all'', ''document'', ''doc'', ''popup'', ''network'']"

definition removeModifiers_line :: "rule_parser \<Rightarrow> (any_rule \<Rightarrow> jstr) \<Rightarrow> jstr \<Rightarrow> jstr" where
  "removeModifiers_line parser generate rawRuleText =
     (let ruleText = js_trim rawRuleText
      in if is_blank (Some ruleText) \<or> isComment parser ruleText then ruleText
         else adblockRuleToString
                (fold (\<lambda>name props. snd (removeModifier props name)) MODIFIERS_TO_REMOVE
                   (loadAdblockRuleProperties parser generate ruleText)))"

definition removeModifiers :: "rule_parser \<Rightarrow> (any_rule \<Rightarrow> jstr) \<Rightarrow> lines \<Rightarrow> lines" where
  "removeModifiers parser generate rules = map (removeModifiers_line parser generate) rules"

definition invertAllow :: "rule_parser \<Rightarrow> lines \<Rightarrow> lines" where
  "invertAllow parser rules =
     map (\<lambda>rule. if rule \<noteq> [] \<and> \<not> isComment parser rule \<and> \<not> isEtcHostsRule parser rule \<and>
                     \<not> isAllowRule parser rule
                  then ''@@'' @ rule else rule) rules"

interpretation trimLines: line_rewriter trimLines
  by unfold_locales (simp_all add: trimLines_def)

interpretation convertToAscii: line_rewriter "convertToAscii parser url_hostname"
  for parser url_hostname
  by unfold_locales (simp_all add: convertToAscii_def)

interpretation removeModifiers: line_rewriter "removeModifiers parser generate" for parser generate
  by unfold_locales (simp_all add: removeModifiers_def)

interpretation invertAllow: line_rewriter "invertAllow parser" for parser
  by unfold_locales (simp_all add: invertAllow_def)

interpretation removeComments: line_remover "removeComments parser" for parser
  by unfold_locales (simp add: removeComments_def kept)

interpretation removeEmptyLines: line_remover removeEmptyLines
  by unfold_locales (simp add: removeEmptyLines_def kept)

section \<open>RemoveModifiers\<close>

text \<open>The name of a modifier without a negation mark.\<close>

definition bare_name :: "modifier \<Rightarrow> jstr" where
  "bare_name m =
     (if \<not> mod_exception m \<and> starts_with (mod_name m) ''~'' then tl (mod_name m) else mod_name m)"

definition without_removed :: "network_rule \<Rightarrow> network_rule" where
  "without_removed r = r\<lparr>nr_modifiers :=
     map_option (filter (\<lambda>m. \<not> List.member MODIFIERS_TO_REMOVE (bare_name m))) (nr_modifiers r)\<rparr>"

lemma fold_removeModifier:
  "fold (\<lambda>name props. snd (removeModifier props name)) ns props =
   props\<lparr>ar_options := map_option (filter (\<lambda>opt. \<forall>n \<in> set ns. \<not> names_option n opt)) (ar_options props)\<rparr>"
proof (induction ns arbitrary: props)
  case Nil
  then show ?case by (cases "ar_options props") (simp_all add: option.map_ident)
next
  case (Cons n ns)
  then show ?case
    by (cases "ar_options props")
      (simp_all add: removeModifier_def conj_commute)
qed

lemma names_option_bare:
  "n \<in> set MODIFIERS_TO_REMOVE \<Longrightarrow> names_option n (option_of_modifier m) \<longleftrightarrow> bare_name m = n"
  by (cases "mod_name m")
    (auto simp: names_option_def option_of_modifier_def bare_name_def MODIFIERS_TO_REMOVE_def)

lemma removed_options:
  "filter (\<lambda>opt. \<forall>n \<in> set MODIFIERS_TO_REMOVE. \<not> names_option n opt) (map option_of_modifier ms) =
   map option_of_modifier (filter (\<lambda>m. \<not> List.member MODIFIERS_TO_REMOVE (bare_name m)) ms)"
  by (induction ms) (auto simp: names_option_bare)

text \<open>
  \<open>RemoveModifiers\<close> removes exactly the listed modifiers: it works line by line on the trimmed
  text; comments, blank lines and everything that is not a network rule stay as they are; a
  network rule is rewritten with the same exception mark and pattern and, in order, those
  modifiers whose name, without negation, is not in the list.
\<close>

theorem removeModifiers_correct:
  "removeModifiers parser generate rules =
     map (\<lambda>raw. let t = js_trim raw
                in if is_blank (Some t) \<or> isComment parser t then t
                   else case parsed parser t of
                          Some (NetworkRule r) \<Rightarrow> network_text (without_removed r)
                        | _ \<Rightarrow> t) rules"
proof -
  have net: "adblockRuleToString (fold (\<lambda>name props. snd (removeModifier props name))
      MODIFIERS_TO_REMOVE (loadAdblockRuleProperties parser generate t)) = network_text (without_removed r)"
    if "parsed parser t = Some (NetworkRule r)" "js_trim t = t" for t r
    using that by (cases "nr_modifiers r")
      (simp_all add: fold_removeModifier loadAdblockRuleProperties_def adblockRuleToString_def
        network_text_def extractNetworkRuleProperties_def without_removed_def Let_def removed_options
        option_text_of_modifier comp_def)
  have other: "adblockRuleToString (fold (\<lambda>name props. snd (removeModifier props name))
      MODIFIERS_TO_REMOVE (loadAdblockRuleProperties parser generate t)) = t"
    if "\<nexists>r. parsed parser t = Some (NetworkRule r)" "js_trim t = t" for t
  proof -
    have "ar_options (loadAdblockRuleProperties parser generate t) = None"
      using that by (auto simp: loadAdblockRuleProperties_def Let_def split: option.split any_rule.split)
    then have "fold (\<lambda>name props. snd (removeModifier props name)) MODIFIERS_TO_REMOVE
        (loadAdblockRuleProperties parser generate t) = loadAdblockRuleProperties parser generate t"
      by (simp add: fold_removeModifier)
    then show ?thesis using adblockRuleToString_other [of parser t generate] that by simp
  qed
  show ?thesis
    unfolding removeModifiers_def removeModifiers_line_def Let_def
    by (rule map_cong [OF refl]) (auto simp: net other split: option.split any_rule.split)
qed

section \<open>The last lines\<close>

lemma js_trim_last_final: "js_trim (last (insertFinalNewLine rules)) = []"
  by (auto simp: insertFinalNewLine_def)

text \<open>
  \<open>InsertFinalNewLine\<close> makes the list end with a blank line and does nothing else: the result
  is the list itself when its last line is blank, and otherwise the list and one empty line;
  doing it again changes nothing.  After \<open>RemoveEmptyLines\<close> that empty line is the only
  blank one.
\<close>

theorem final_newline_correct:
  "(\<exists>tail. insertFinalNewLine rules = rules @ tail \<and> (tail = [] \<or> tail = [[]])) \<and>
   js_trim (last (insertFinalNewLine rules)) = [] \<and>
   insertFinalNewLine (insertFinalNewLine rules) = insertFinalNewLine rules \<and>
   insertFinalNewLine (removeEmptyLines rules) = removeEmptyLines rules @ [[]]"
proof -
  have "js_trim (last (removeEmptyLines rules)) \<noteq> []" if "removeEmptyLines rules \<noteq> []"
    using last_in_set [OF that] by (auto simp: removeEmptyLines_def)
  then have "insertFinalNewLine (removeEmptyLines rules) = removeEmptyLines rules @ [[]]"
    by (auto simp: insertFinalNewLine_def)
  moreover have "insertFinalNewLine (insertFinalNewLine rules) = insertFinalNewLine rules"
    by (simp add: insertFinalNewLine_def)
  ultimately show ?thesis using js_trim_last_final [of rules] by (auto simp: insertFinalNewLine_def)
qed

section \<open>Deduplicate\<close>

text \<open>Pass 1: the index of the first occurrence of every rule that is no comment and not blank.\<close>

definition isCommentOrEmpty :: "rule_parser \<Rightarrow> jstr \<Rightarrow> bool" where
  "isCommentOrEmpty parser rule \<longleftrightarrow> isComment parser rule \<or> is_blank (Some rule)"

fun first_occurrences :: "rule_parser \<Rightarrow> nat \<Rightarrow> (jstr \<rightharpoonup> nat) \<Rightarrow> lines \<Rightarrow> (jstr \<rightharpoonup> nat)" where
  "first_occurrences parser i m [] = m"
| "first_occurrences parser i m (rule # rules) =
     first_occurrences parser (Suc i)
       (if \<not> isComment parser rule \<and> \<not> is_blank (Some rule) \<and> m rule = None then m(rule \<mapsto> i) else m)
       rules"

text \<open>Pass 2: the comments since the last rule are pending until the next rule decides.\<close>

fun dedup_pass :: "rule_parser \<Rightarrow> (jstr \<rightharpoonup> nat) \<Rightarrow> nat \<Rightarrow> lines \<Rightarrow> lines \<Rightarrow> lines" where
  "dedup_pass parser firstOccurrence i pendingComments [] = pendingComments"
| "dedup_pass parser firstOccurrence i pendingComments (rule # rules) =
     (if isCommentOrEmpty parser rule then
        dedup_pass parser firstOccurrence (Suc i) (pendingComments @ [rule]) rules
      else if firstOccurrence rule = Some i then
        pendingComments @ rule # dedup_pass parser firstOccurrence (Suc i) [] rules
      else dedup_pass parser firstOccurrence (Suc i) [] rules)"

definition deduplicate :: "rule_parser \<Rightarrow> lines \<Rightarrow> lines" where
  "deduplicate parser rules =
     (if length rules = 0 then rules
      else dedup_pass parser (first_occurrences parser 0 (\<lambda>_. None) rules) 0 [] rules)"

text \<open>The specification: one pass with the set of rules already seen.\<close>

fun keep_new :: "rule_parser \<Rightarrow> jstr set \<Rightarrow> lines \<Rightarrow> lines \<Rightarrow> lines" where
  "keep_new parser seen pending [] = pending"
| "keep_new parser seen pending (rule # rules) =
     (if isCommentOrEmpty parser rule then keep_new parser seen (pending @ [rule]) rules
      else if rule \<in> seen then keep_new parser seen [] rules
      else pending @ rule # keep_new parser (insert rule seen) [] rules)"

fun first_of_each :: "'a set \<Rightarrow> 'a list \<Rightarrow> 'a list" where
  "first_of_each seen [] = []"
| "first_of_each seen (x # xs) =
     (if x \<in> seen then first_of_each seen xs else x # first_of_each (insert x seen) xs)"

lemma first_occurrences_old: "m rule = Some k \<Longrightarrow> first_occurrences parser i m rules rule = Some k"
proof (induction parser i m rules rule: first_occurrences.induct)
  case (2 parser i m r rules)
  have "(if \<not> isComment parser r \<and> \<not> is_blank (Some r) \<and> m r = None then m(r \<mapsto> i) else m) rule = Some k"
    using 2(2) by auto
  then show ?case using 2(1) by simp
qed simp

lemma dedup_pass_keep_new:
  "\<forall>rule. m rule = None \<longleftrightarrow> rule \<notin> seen \<Longrightarrow> \<forall>rule k. m rule = Some k \<longrightarrow> k < i \<Longrightarrow>
   dedup_pass parser (first_occurrences parser i m rules) i pending rules = keep_new parser seen pending rules"
proof (induction rules arbitrary: i m seen pending)
  case (Cons rule rules)
  let ?m = "if \<not> isComment parser rule \<and> \<not> is_blank (Some rule) \<and> m rule = None then m(rule \<mapsto> i) else m"
  have rec: "first_occurrences parser i m (rule # rules) = first_occurrences parser (Suc i) ?m rules"
    by simp
  consider (comment) "isCommentOrEmpty parser rule"
    | (old) "\<not> isCommentOrEmpty parser rule" "rule \<in> seen"
    | (new) "\<not> isCommentOrEmpty parser rule" "rule \<notin> seen" by blast
  then show ?case
  proof cases
    case comment
    then have "?m = m" by (auto simp: isCommentOrEmpty_def)
    then show ?thesis using comment Cons.prems Cons.IH [of m seen "Suc i" "pending @ [rule]"]
      by (simp add: less_SucI)
  next
    case old
    then obtain k where k: "m rule = Some k" "k < i" using Cons.prems by (cases "m rule") auto
    then have "first_occurrences parser (Suc i) ?m rules rule = Some k"
      by (intro first_occurrences_old) simp
    moreover have "dedup_pass parser (first_occurrences parser (Suc i) m rules) (Suc i) [] rules
        = keep_new parser seen [] rules"
      using Cons.prems by (intro Cons.IH) (auto simp: less_SucI)
    ultimately show ?thesis using old k by auto
  next
    case new
    then have m: "?m = m(rule \<mapsto> i)" using Cons.prems by (auto simp: isCommentOrEmpty_def)
    have "first_occurrences parser (Suc i) (m(rule \<mapsto> i)) rules rule = Some i"
      by (intro first_occurrences_old) simp
    moreover have "dedup_pass parser (first_occurrences parser (Suc i) (m(rule \<mapsto> i)) rules) (Suc i) [] rules
        = keep_new parser (insert rule seen) [] rules"
      using Cons.prems by (intro Cons.IH) (auto simp: less_SucI)
    ultimately show ?thesis using new unfolding rec m by simp
  qed
qed simp

lemma deduplicate_keep_new: "deduplicate parser rules = keep_new parser {} [] rules"
  by (simp add: deduplicate_def dedup_pass_keep_new)

lemma keep_new_subseq: "subseq (keep_new parser seen pending rules) (pending @ rules)"
proof (induction rules arbitrary: seen pending)
  case (Cons rule rules)
  show ?case
    using Cons.IH [of seen "pending @ [rule]"] Cons.IH [of seen "[]"] Cons.IH [of "insert rule seen" "[]"]
    by (auto intro: list_emb_append_mono subseq_order.trans [OF _ list_emb_append2])
qed simp

lemma keep_new_rules:
  "\<forall>c \<in> set pending. isCommentOrEmpty parser c \<Longrightarrow>
   filter (\<lambda>r. \<not> isCommentOrEmpty parser r) (keep_new parser seen pending rules) =
   first_of_each seen (filter (\<lambda>r. \<not> isCommentOrEmpty parser r) rules)"
  by (induction rules arbitrary: seen pending) auto

lemma keep_new_new:
  "distinct (filter (\<lambda>r. \<not> isCommentOrEmpty parser r) rules) \<Longrightarrow>
   \<forall>r \<in> set rules. \<not> isCommentOrEmpty parser r \<longrightarrow> r \<notin> seen \<Longrightarrow>
   keep_new parser seen pending rules = pending @ rules"
proof (induction rules arbitrary: seen pending)
  case (Cons r rules)
  show ?case
  proof (cases "isCommentOrEmpty parser r")
    case True
    then show ?thesis using Cons.prems Cons.IH [of seen "pending @ [r]"] by simp
  next
    case False
    then have "keep_new parser (insert r seen) [] rules = [] @ rules"
      using Cons.prems by (intro Cons.IH) auto
    then show ?thesis using False Cons.prems by simp
  qed
qed simp

lemma first_of_each_facts: "distinct (first_of_each seen xs) \<and> set (first_of_each seen xs) = set xs - seen"
  by (induction xs arbitrary: seen) auto

interpretation deduplicate: line_remover "deduplicate parser" for parser
  using keep_new_subseq [of parser "{}" "[]"]
  by unfold_locales (simp add: deduplicate_keep_new)

text \<open>
  C4. \<open>Deduplicate\<close> is correct.  It only removes lines; the rules of its result (the lines that are
  neither comments nor blank) are exactly the first occurrences of the rules of the input, in
  order, so each rule of the input is there once; running it again changes nothing; and it
  equals the one pass with a set of seen rules in which a duplicate takes with it the comments
  between it and the rule before, while comments at the end stay.
\<close>

theorem deduplicate_correct:
  "subseq (deduplicate parser rules) rules \<and>
   filter (\<lambda>r. \<not> isCommentOrEmpty parser r) (deduplicate parser rules) =
     first_of_each {} (filter (\<lambda>r. \<not> isCommentOrEmpty parser r) rules) \<and>
   distinct (filter (\<lambda>r. \<not> isCommentOrEmpty parser r) (deduplicate parser rules)) \<and>
   deduplicate parser (deduplicate parser rules) = deduplicate parser rules \<and>
   deduplicate parser rules = keep_new parser {} [] rules"
proof -
  have r: "filter (\<lambda>r. \<not> isCommentOrEmpty parser r) (deduplicate parser rules) =
      first_of_each {} (filter (\<lambda>r. \<not> isCommentOrEmpty parser r) rules)"
    by (simp add: deduplicate_keep_new keep_new_rules)
  then have d: "distinct (filter (\<lambda>r. \<not> isCommentOrEmpty parser r) (deduplicate parser rules))"
    by (simp add: first_of_each_facts)
  then have "deduplicate parser (deduplicate parser rules) = deduplicate parser rules"
    using keep_new_new [OF d, of "{}" "[]"] by (simp add: deduplicate_keep_new)
  then show ?thesis using r d deduplicate.removes by (auto simp: deduplicate_keep_new)
qed

end
