(* ===== verification/Compress.thy ===== *)
theory Compress
  imports Transforms
begin

text \<open>
  \<open>CompressTransformation\<close>: hosts rules and plain domains become \<open>||host^\<close> rules, duplicates and
  rules for subdomains of a blocked domain are removed.  The table \<open>byHostname\<close> is a plain
  JavaScript object, so reading it also finds the properties of \<open>Object.prototype\<close>.
\<close>

record blocklist_rule =
  bl_ruleText :: jstr
  bl_canCompress :: bool
  bl_hostname :: "jstr option"
  bl_originalRuleText :: jstr

definition toAdblockRules :: "rule_parser \<Rightarrow> (any_rule \<Rightarrow> jstr) \<Rightarrow> jstr \<Rightarrow> rule_error + blocklist_rule list" where
  "toAdblockRules parser generate ruleText =
     (if isEtcHostsRule parser ruleText then
        (case loadEtcHostsRuleProperties parser generate ruleText of
           Inl e \<Rightarrow> Inl e
         | Inr props \<Rightarrow>
             Inr (map (\<lambda>hostname. \<lparr>bl_ruleText = ''||'' @ hostname @ ''^'', bl_canCompress = True,
                         bl_hostname = Some hostname, bl_originalRuleText = ruleText\<rparr>)
                    (eh_hostnames props)))
      else if isJustDomain ruleText then
        Inr [\<lparr>bl_ruleText = ''||'' @ ruleText @ ''^'', bl_canCompress = True,
              bl_hostname = Some ruleText, bl_originalRuleText = ruleText\<rparr>]
      else
        (let props = loadAdblockRuleProperties parser generate ruleText
         in if ar_hostname props \<noteq> None \<and> ar_hostname props \<noteq> Some [] \<and> \<not> ar_whitelist props \<and>
               (ar_options props = None \<or> ar_options props = Some [])
            then Inr [\<lparr>bl_ruleText = ruleText, bl_canCompress = True,
                       bl_hostname = ar_hostname props, bl_originalRuleText = ruleText\<rparr>]
            else Inr [\<lparr>bl_ruleText = ruleText, bl_canCompress = False,
                       bl_hostname = None, bl_originalRuleText = ruleText\<rparr>]))"

text \<open>The table: the host names set so far, and the names every object inherits.\<close>

definition OBJECT_PROTOTYPE_KEYS :: "jstr list" where
  "OBJECT_PROTOTYPE_KEYS =
     [''constructor'', ''__defineGetter__'', ''__defineSetter__'', ''hasOwnProperty'',
      ''__lookupGetter__'', ''__lookupSetter__'', ''isPrototypeOf'', ''propertyIsEnumerable'',
      ''toString'', ''valueOf'', ''__proto__'', ''toLocaleString'']"

definition host_entry :: "jstr list \<Rightarrow> jstr \<Rightarrow> bool" where
  "host_entry byHostname h \<longleftrightarrow> List.member byHostname h \<or> List.member OBJECT_PROTOTYPE_KEYS h"

text \<open>\<open>hostname.indexOf('.', dotIndex + 1)\<close> from index 1 on: the rests after each dot but a leading one.\<close>

fun rests_after_dots :: "jstr \<Rightarrow> jstr list" where
  "rests_after_dots [] = []"
| "rests_after_dots (c # cs) = (if c = CHR ''.'' then cs # rests_after_dots cs else rests_after_dots cs)"

definition parent_domains :: "jstr \<Rightarrow> jstr list" where
  "parent_domains hostname = rests_after_dots (tl hostname)"

definition hasParentDomainRule :: "jstr \<Rightarrow> jstr list \<Rightarrow> bool" where
  "hasParentDomainRule hostname byHostname = list_ex (host_entry byHostname) (parent_domains hostname)"

text \<open>First pass, over the converted rules: keep the first rule for each host.\<close>

fun first_pass :: "jstr list \<Rightarrow> blocklist_rule list \<Rightarrow> blocklist_rule list \<times> jstr list" where
  "first_pass byHostname [] = ([], byHostname)"
| "first_pass byHostname (rule # rules) =
     (if bl_canCompress rule then
        (case bl_hostname rule of
           None \<Rightarrow> first_pass byHostname rules
         | Some h \<Rightarrow>
             if h \<noteq> [] \<and> \<not> host_entry byHostname h then
               (case first_pass (h # byHostname) rules of (kept_rules, t) \<Rightarrow> (rule # kept_rules, t))
             else first_pass byHostname rules)
      else (case first_pass byHostname rules of (kept_rules, t) \<Rightarrow> (rule # kept_rules, t)))"

definition redundant :: "jstr list \<Rightarrow> blocklist_rule \<Rightarrow> bool" where
  "redundant byHostname rule \<longleftrightarrow> bl_canCompress rule \<and>
     (case bl_hostname rule of None \<Rightarrow> False | Some h \<Rightarrow> h \<noteq> [] \<and> hasParentDomainRule h byHostname)"

definition compress_rules :: "blocklist_rule list \<Rightarrow> blocklist_rule list" where
  "compress_rules rules =
     (case first_pass [] rules of (filtered, byHostname) \<Rightarrow>
        filter (\<lambda>rule. \<not> redundant byHostname rule) filtered)"

fun sum_map :: "('a \<Rightarrow> 'e + 'b list) \<Rightarrow> 'a list \<Rightarrow> 'e + 'b list" where
  "sum_map f [] = Inr []"
| "sum_map f (x # xs) =
     (case f x of Inl e \<Rightarrow> Inl e
      | Inr ys \<Rightarrow> (case sum_map f xs of Inl e \<Rightarrow> Inl e | Inr zs \<Rightarrow> Inr (ys @ zs)))"

definition compress :: "rule_parser \<Rightarrow> (any_rule \<Rightarrow> jstr) \<Rightarrow> lines \<Rightarrow> rule_error + lines" where
  "compress parser generate rules =
     (case sum_map (toAdblockRules parser generate) rules of
        Inl e \<Rightarrow> Inl e
      | Inr adblockRules \<Rightarrow> Inr (map bl_ruleText (compress_rules adblockRules)))"

section \<open>Domains and their parents\<close>

lemma rests_suffix: "p \<in> set (rests_after_dots h) \<Longrightarrow> suffix p h \<and> length p < length h"
  by (induction h) (auto simp: suffix_Cons split: if_splits)

lemma rests_iff: "p \<in> set (rests_after_dots h) \<longleftrightarrow> (\<exists>a. h = a @ CHR ''.'' # p)"
proof (induction h)
  case (Cons c cs)
  show ?case
  proof
    assume "p \<in> set (rests_after_dots (c # cs))"
    then consider "c = CHR ''.''" "p = cs" | "p \<in> set (rests_after_dots cs)" by (auto split: if_splits)
    then show "\<exists>a. c # cs = a @ CHR ''.'' # p"
    proof cases
      case 1 then show ?thesis by (intro exI [of _ "[]"]) simp
    next
      case 2 then obtain a where "cs = a @ CHR ''.'' # p" using Cons by blast
      then show ?thesis by (intro exI [of _ "c # a"]) simp
    qed
  next
    assume "\<exists>a. c # cs = a @ CHR ''.'' # p"
    then obtain a where "c # cs = a @ CHR ''.'' # p" by blast
    then show "p \<in> set (rests_after_dots (c # cs))" using Cons by (cases a) auto
  qed
qed simp

lemma parent_iff: "p \<in> set (parent_domains h) \<longleftrightarrow> (\<exists>a. a \<noteq> [] \<and> h = a @ CHR ''.'' # p)"
proof (cases h)
  case (Cons c cs)
  have "p \<in> set (parent_domains h) \<longleftrightarrow> (\<exists>a. cs = a @ CHR ''.'' # p)"
    using Cons by (simp add: parent_domains_def rests_iff)
  also have "\<dots> \<longleftrightarrow> (\<exists>a. a \<noteq> [] \<and> h = a @ CHR ''.'' # p)"
    using Cons by (auto simp: neq_Nil_conv)
  finally show ?thesis .
qed (simp add: parent_domains_def)

lemma parent_trans:
  "q \<in> set (parent_domains p) \<Longrightarrow> p \<in> set (parent_domains h) \<Longrightarrow> q \<in> set (parent_domains h)"
  unfolding parent_iff by (elim exE conjE) (metis append.assoc append_Cons append_is_Nil_conv)

lemma parent_shorter: "p \<in> set (parent_domains h) \<Longrightarrow> length p < length h"
  by (auto simp: parent_iff)

text \<open>The host names that a list of converted rules blocks, subdomains included.\<close>

definition blocks_host :: "blocklist_rule list \<Rightarrow> jstr \<Rightarrow> bool" where
  "blocks_host rules h \<longleftrightarrow> (\<exists>rule \<in> set rules. bl_canCompress rule \<and>
     (\<exists>k. bl_hostname rule = Some k \<and> k \<noteq> [] \<and> (k = h \<or> k \<in> set (parent_domains h))))"

section \<open>What compression keeps\<close>

lemma first_pass_facts:
  assumes "first_pass t rules = (f, t')"
  shows "subseq f rules \<and> set t \<subseteq> set t' \<and>
    filter (\<lambda>r. \<not> bl_canCompress r) f = filter (\<lambda>r. \<not> bl_canCompress r) rules \<and>
    (\<forall>h \<in> set t'. h \<in> set t \<or> (h \<noteq> [] \<and> (\<exists>r \<in> set f. bl_canCompress r \<and> bl_hostname r = Some h))) \<and>
    (\<forall>r \<in> set rules. \<forall>h. bl_canCompress r \<longrightarrow> bl_hostname r = Some h \<longrightarrow> h \<noteq> [] \<longrightarrow>
       h \<notin> set OBJECT_PROTOTYPE_KEYS \<longrightarrow> h \<in> set t')"
  using assms
proof (induction t rules arbitrary: f t' rule: first_pass.induct)
  case (2 t rule rules)
  consider (plain) "\<not> bl_canCompress rule"
    | (fresh) h where "bl_canCompress rule" "bl_hostname rule = Some h" "h \<noteq> []" "\<not> host_entry t h"
    | (drop) "bl_canCompress rule" "\<And>h. bl_hostname rule = Some h \<Longrightarrow> h = [] \<or> host_entry t h"
    by blast
  then show ?case
  proof cases
    case plain
    obtain g u where g: "first_pass t rules = (g, u)" by force
    have "f = rule # g" "t' = u" using 2(5) plain g by auto
    then show ?thesis using 2(4) [OF plain g] plain by auto
  next
    case fresh
    obtain g u where g: "first_pass (h # t) rules = (g, u)" by force
    have "f = rule # g" "t' = u" using 2(5) fresh g by auto
    then show ?thesis using 2(2) [OF fresh(1,2) conjI [OF fresh(3,4)] g] fresh by auto
  next
    case drop
    have g: "first_pass t rules = (f, t')" using 2(5) drop by (auto split: option.splits if_splits)
    have ih: "subseq f rules \<and> set t \<subseteq> set t' \<and>
      filter (\<lambda>r. \<not> bl_canCompress r) f = filter (\<lambda>r. \<not> bl_canCompress r) rules \<and>
      (\<forall>h \<in> set t'. h \<in> set t \<or> (h \<noteq> [] \<and> (\<exists>r \<in> set f. bl_canCompress r \<and> bl_hostname r = Some h))) \<and>
      (\<forall>r \<in> set rules. \<forall>h. bl_canCompress r \<longrightarrow> bl_hostname r = Some h \<longrightarrow> h \<noteq> [] \<longrightarrow>
         h \<notin> set OBJECT_PROTOTYPE_KEYS \<longrightarrow> h \<in> set t')"
    proof (cases "bl_hostname rule")
      case None
      show ?thesis by (rule 2(1) [OF drop(1) None g])
    next
      case (Some h)
      have "\<not> (h \<noteq> [] \<and> \<not> host_entry t h)" using drop(2) Some by auto
      then show ?thesis using 2(3) [OF drop(1) Some _ g] by blast
    qed
    then show ?thesis using drop by (auto simp: host_entry_def)
  qed
qed auto

definition clean_hosts :: "blocklist_rule list \<Rightarrow> bool" where
  "clean_hosts rules \<longleftrightarrow> (\<forall>rule \<in> set rules. \<forall>h. bl_hostname rule = Some h \<longrightarrow>
     (\<forall>k \<in> insert h (set (parent_domains h)). k \<notin> set OBJECT_PROTOTYPE_KEYS))"

lemma shortest_kept:
  assumes "first_pass [] rules = (f, t)" and "clean_hosts rules"
  shows "h \<in> set t \<Longrightarrow> \<exists>rule \<in> set (filter (\<lambda>r. \<not> redundant t r) f). bl_canCompress rule \<and>
     (\<exists>k. bl_hostname rule = Some k \<and> k \<noteq> [] \<and> (k = h \<or> k \<in> set (parent_domains h)))"
proof (induction "length h" arbitrary: h rule: less_induct)
  case less
  note facts = first_pass_facts [OF assms(1)]
  obtain r where r: "r \<in> set f" "bl_canCompress r" "bl_hostname r = Some h" "h \<noteq> []"
    using facts less.prems by fastforce
  show ?case
  proof (cases "redundant t r")
    case False
    then show ?thesis using r by auto
  next
    case True
    then obtain p where p: "p \<in> set (parent_domains h)" "host_entry t p"
      using r by (auto simp: redundant_def hasParentDomainRule_def list_ex_iff)
    have "r \<in> set rules" using facts r(1) subseq_set by blast
    then have "p \<in> set t" using p assms(2) r(3) by (auto simp: clean_hosts_def host_entry_def)
    then obtain rule k where k: "rule \<in> set (filter (\<lambda>r. \<not> redundant t r) f)" "bl_canCompress rule"
      "bl_hostname rule = Some k" "k \<noteq> []" "k = p \<or> k \<in> set (parent_domains p)"
      using less.hyps [OF parent_shorter [OF p(1)]] by blast
    then have "k \<in> set (parent_domains h)" using p(1) parent_trans by blast
    then show ?thesis using k by blast
  qed
qed

text \<open>
  C1. Compression preserves what the list blocks: provided no blocked host or parent of one has the
  name of a property of \<open>Object.prototype\<close>, exactly the same hosts are blocked before and after
  (a rule blocks its host and all subdomains); the result is a subsequence of the converted
  rules that still has every rule that cannot be compressed; and it is minimal, no rule of it is
  for a subdomain of the host of another.
\<close>

theorem compress_preserves_blocking:
  assumes "clean_hosts rules"
  shows "(\<forall>h. blocks_host (compress_rules rules) h \<longleftrightarrow> blocks_host rules h) \<and>
    subseq (compress_rules rules) rules \<and>
    filter (\<lambda>r. \<not> bl_canCompress r) (compress_rules rules) = filter (\<lambda>r. \<not> bl_canCompress r) rules \<and>
    (\<forall>r \<in> set (compress_rules rules). \<forall>r' \<in> set (compress_rules rules). \<forall>h h'.
       bl_canCompress r \<longrightarrow> bl_canCompress r' \<longrightarrow> bl_hostname r = Some h \<longrightarrow> bl_hostname r' = Some h' \<longrightarrow>
       h \<noteq> [] \<longrightarrow> h' \<noteq> [] \<longrightarrow> h' \<notin> set (parent_domains h))"
proof -
  obtain f t where ft: "first_pass [] rules = (f, t)" by force
  note facts = first_pass_facts [OF ft]
  have res: "compress_rules rules = filter (\<lambda>r. \<not> redundant t r) f"
    by (simp add: compress_rules_def ft)
  have sub: "subseq (compress_rules rules) rules"
    unfolding res using facts subseq_order.trans subseq_filter by blast
  have to: "blocks_host (compress_rules rules) h" if b: "blocks_host rules h" for h
  proof -
    obtain r k where r: "r \<in> set rules" "bl_canCompress r" "bl_hostname r = Some k" "k \<noteq> []"
      "k = h \<or> k \<in> set (parent_domains h)" using b by (auto simp: blocks_host_def)
    then have "k \<in> set t" using facts assms by (auto simp: clean_hosts_def)
    from shortest_kept [OF ft assms this] show ?thesis
      using r(5) parent_trans by (fastforce simp: blocks_host_def res)
  qed
  have from_result: "blocks_host rules h" if "blocks_host (compress_rules rules) h" for h
    using that subseq_set [OF sub] by (auto simp: blocks_host_def)
  have "filter (\<lambda>r. \<not> bl_canCompress r) (filter (\<lambda>r. \<not> redundant t r) f) =
      filter (\<lambda>r. \<not> bl_canCompress r) f"
    by (auto simp: redundant_def intro!: filter_cong)
  moreover have "h' \<notin> set (parent_domains h)"
    if "r \<in> set (compress_rules rules)" "r' \<in> set (compress_rules rules)" "bl_canCompress r"
      "bl_canCompress r'" "bl_hostname r = Some h" "bl_hostname r' = Some h'" "h \<noteq> []" "h' \<noteq> []"
    for r r' h h'
  proof
    assume "h' \<in> set (parent_domains h)"
    moreover have "h' \<in> set t"
    proof -
      have "r' \<in> set rules" using that(2) subseq_set [OF sub] by blast
      then show ?thesis using that facts assms by (auto simp: clean_hosts_def)
    qed
    ultimately have "redundant t r"
      using that by (auto simp: redundant_def hasParentDomainRule_def list_ex_iff host_entry_def)
    then show False using that(1) by (simp add: res)
  qed
  ultimately show ?thesis using to from_result sub facts by (auto simp: res)
qed

abbreviation host_block :: "jstr \<Rightarrow> blocklist_rule" where
  "host_block h \<equiv> \<lparr>bl_ruleText = ''||'' @ h @ ''^'', bl_canCompress = True, bl_hostname = Some h,
     bl_originalRuleText = h\<rparr>"

theorem compress_preserves_blocking_witness:
  "compress_rules [host_block ''ads.example.org'', host_block ''example.org'', host_block ''example.org''] =
     [host_block ''example.org''] \<and>
   blocks_host (compress_rules [host_block ''ads.example.org'', host_block ''example.org'',
     host_block ''example.org'']) ''ads.example.org''"
proof -
  let ?rules = "[host_block ''ads.example.org'', host_block ''example.org'', host_block ''example.org'']"
  have "clean_hosts ?rules"
    by (simp add: clean_hosts_def parent_domains_def OBJECT_PROTOTYPE_KEYS_def)
  from compress_preserves_blocking [OF this]
  have "blocks_host (compress_rules ?rules) ''ads.example.org'' \<longleftrightarrow> blocks_host ?rules ''ads.example.org''"
    by blast
  moreover have "blocks_host ?rules ''ads.example.org''" by (simp add: blocks_host_def)
  moreover have "compress_rules ?rules = [host_block ''example.org'']"
    by (simp add: compress_rules_def host_entry_def OBJECT_PROTOTYPE_KEYS_def redundant_def
        hasParentDomainRule_def parent_domains_def)
  ultimately show ?thesis by blast
qed

text \<open>
  A rule for a host whose name is a property of every object is lost: the table is a plain
  object, so \<open>byHostname['constructor']\<close> is already truthy in the empty table, and the only rule
  of a list, \<open>||constructor^\<close>, is removed as a duplicate, although nothing else blocks that host.
\<close>

theorem compress_loses_constructor:
  assumes "parser ''||constructor^'' = Inr (NetworkRule r)"
    and "nr_pattern r = ''||constructor^''" and "\<not> nr_exception r" and "nr_modifiers r = None"
  shows "compress parser generate [''||constructor^''] = Inr []"
proof -
  have t: "js_trim ''||constructor^'' = ''||constructor^''" by code_simp
  have p: "parsed parser ''||constructor^'' = Some (NetworkRule r)"
    using assms(1) by (simp add: parsed_def ag_parse_def t Let_def)
  have h: "pattern_hostname ''||constructor^'' = Some ''constructor''"
    and d: "\<not> isJustDomain ''||constructor^''" by code_simp+
  show ?thesis using p h d assms
    by (simp add: compress_def toAdblockRules_def isEtcHostsRule_def loadAdblockRuleProperties_def t
        extractNetworkRuleProperties_def Let_def compress_rules_def host_entry_def
        OBJECT_PROTOTYPE_KEYS_def)
qed

theorem compress_loses_constructor_witness:
  "compress (\<lambda>t. Inr (NetworkRule \<lparr>nr_exception = False, nr_pattern = t, nr_modifiers = None,
     nr_syntax = Common, nr_raw = None\<rparr>)) (\<lambda>_. []) [''||constructor^''] = Inr []"
  by (rule compress_loses_constructor [where r = "\<lparr>nr_exception = False, nr_pattern = ''||constructor^'',
      nr_modifiers = None, nr_syntax = Common, nr_raw = None\<rparr>"]) simp_all

section \<open>No errors, and lists of domains\<close>

lemma parsed_trim: "parsed parser (js_trim t) = parsed parser t"
  by (auto simp: parsed_def ag_parse_def Let_def split: sum.split any_rule.split)

lemma toAdblockRules_total: "\<exists>rs. toAdblockRules parser generate t = Inr rs"
  by (auto simp: toAdblockRules_def isEtcHostsRule_def loadEtcHostsRuleProperties_def parsed_trim Let_def
      split: option.splits any_rule.splits)

lemma sum_map_total: "\<forall>x. \<exists>ys. f x = Inr ys \<Longrightarrow> \<exists>ys. sum_map f xs = Inr ys"
proof (induction xs)
  case (Cons x xs)
  then obtain ys zs where "f x = Inr ys" "sum_map f xs = Inr zs" by blast
  then show ?case by simp
qed simp

text \<open>
  Compression never throws: whatever the parser library answers, the error that
  \<open>loadEtcHostsRuleProperties\<close> can throw is unreachable from \<open>toAdblockRules\<close>, which asks
  \<open>isEtcHostsRule\<close> first; the result is the texts of the compressed converted rules.
\<close>

theorem compress_never_throws:
  "\<exists>rs. sum_map (toAdblockRules parser generate) rules = Inr rs \<and>
     compress parser generate rules = Inr (map bl_ruleText (compress_rules rs))"
proof -
  obtain rs where "sum_map (toAdblockRules parser generate) rules = Inr rs"
    using sum_map_total toAdblockRules_total by metis
  then show ?thesis by (simp add: compress_def)
qed

definition just_domains :: "rule_parser \<Rightarrow> lines \<Rightarrow> bool" where
  "just_domains parser rules \<longleftrightarrow>
     (\<forall>d \<in> set rules. isJustDomain d \<and> \<not> isEtcHostsRule parser d \<and>
        (\<forall>k \<in> insert d (set (parent_domains d)). k \<notin> set OBJECT_PROTOTYPE_KEYS))"

lemma sum_map_domains:
  "just_domains parser rules \<Longrightarrow> sum_map (toAdblockRules parser generate) rules = Inr (map host_block rules)"
  by (induction rules) (simp_all add: just_domains_def toAdblockRules_def)

lemma first_pass_domains:
  "\<forall>d \<in> set ds. d \<noteq> [] \<and> d \<notin> set OBJECT_PROTOTYPE_KEYS \<Longrightarrow>
   \<exists>t'. first_pass t (map host_block ds) = (map host_block (first_of_each (set t) ds), t') \<and>
        set t' = set t \<union> set ds"
proof (induction ds arbitrary: t)
  case (Cons d ds)
  show ?case
  proof (cases "d \<in> set t")
    case True
    then show ?thesis using Cons.IH [of t] Cons.prems by (auto simp: host_entry_def)
  next
    case False
    then show ?thesis using Cons.IH [of "d # t"] Cons.prems by (auto simp: host_entry_def)
  qed
qed simp

lemma filter_first_of_each: "filter P (first_of_each s xs) = first_of_each s (filter P xs)"
proof (induction xs arbitrary: s)
  case (Cons x xs)
  have drop: "first_of_each (insert x s) ys = first_of_each s ys" if "x \<notin> set ys" for ys
    using that
  proof (induction ys arbitrary: s)
    case (Cons a ys)
    have "insert a (insert x s) = insert x (insert a s)" by blast
    then show ?case using Cons by auto
  qed simp
  show ?case using Cons.IH drop [of "filter P xs"] by auto
qed simp

text \<open>
  The compression of a plain list of domains: one rule \<open>||domain^\<close>, in the order of the list,
  for each different domain none of whose parent domains is in the list (for domains that
  do not clash with the properties of \<open>Object.prototype\<close> and that the library does not take for
  hosts rules).
\<close>

theorem compress_domain_list:
  assumes "just_domains parser ds"
  shows "compress parser generate ds = Inr (map (\<lambda>d. ''||'' @ d @ ''^'')
     (first_of_each {} (filter (\<lambda>d. set (parent_domains d) \<inter> set ds = {}) ds)))"
proof -
  have ne: "\<forall>d \<in> set ds. d \<noteq> [] \<and> d \<notin> set OBJECT_PROTOTYPE_KEYS"
    using assms by (auto simp: just_domains_def isJustDomain_def domain_pattern_def)
  obtain t where t: "first_pass [] (map host_block ds) = (map host_block (first_of_each {} ds), t)"
    "set t = set ds" using first_pass_domains [OF ne, of "[]"] by auto
  have red: "\<not> redundant t (host_block d) \<longleftrightarrow> set (parent_domains d) \<inter> set ds = {}" if "d \<in> set ds" for d
    using that assms t(2)
    by (auto simp: redundant_def hasParentDomainRule_def list_ex_iff host_entry_def just_domains_def
        isJustDomain_def domain_pattern_def)
  have "compress_rules (map host_block ds) =
      map host_block (filter (\<lambda>d. \<not> redundant t (host_block d)) (first_of_each {} ds))"
    unfolding compress_rules_def t(1) by (simp add: filter_map comp_def)
  also have "filter (\<lambda>d. \<not> redundant t (host_block d)) (first_of_each {} ds) =
      filter (\<lambda>d. set (parent_domains d) \<inter> set ds = {}) (first_of_each {} ds)"
    using first_of_each_facts [of "{}" ds] by (intro filter_cong refl red) auto
  finally show ?thesis
    using sum_map_domains [OF assms]
    by (simp add: compress_def filter_first_of_each comp_def)
qed

theorem compress_domain_list_witness:
  "compress (\<lambda>t. Inl ''no rule'') (\<lambda>_. []) [''ads.example.org'', ''test.com'', ''example.org'', ''test.com''] =
     Inr [''||test.com^'', ''||example.org^'']"
proof -
  let ?ds = "[''ads.example.org'', ''test.com'', ''example.org'', ''test.com'']"
  have d: "isJustDomain ''ads.example.org''" "isJustDomain ''test.com''" "isJustDomain ''example.org''"
    by code_simp+
  have "just_domains (\<lambda>t. Inl ''no rule'') ?ds"
    by (simp add: just_domains_def d isEtcHostsRule_def parsed_def ag_parse_def Let_def
        parent_domains_def OBJECT_PROTOTYPE_KEYS_def)
  from compress_domain_list [OF this] show ?thesis by (simp add: parent_domains_def)
qed

end
