(* ===== verification/Validation.thy ===== *)
theory Validation
  imports RuleSyntax
begin

text \<open>
  \<open>src/transformations/ValidateTransformation.ts\<close>: the rules a DNS blocker can use, the removal
  of the others together with the comments before them, and the report.  \<open>executeSync\<close> walks
  the list from its end; \<open>validate_from\<close> does so by handling the rest of the list first.
  \<open>validation_ctx\<close> holds the fields of the object that the checks read.
\<close>

section \<open>Reports\<close>

datatype error_type = ParseError | SyntaxError | UnsupportedModifier | InvalidHostname | IpNotAllowed
  | PatternTooShort | PublicSuffixMatch | InvalidCharacters | CosmeticNotSupported
  | ModifierValidationFailed

datatype severity = SevError | SevWarning | SevInfo

record validation_error =
  ve_type :: error_type
  ve_severity :: severity
  ve_ruleText :: jstr
  ve_message :: jstr
  ve_details :: jstr
  ve_ast :: "any_rule option"
  ve_lineNumber :: nat
  ve_sourceName :: "jstr option"

record validation_report =
  vr_errorCount :: nat
  vr_warningCount :: nat
  vr_infoCount :: nat
  vr_errors :: "validation_error list"
  vr_totalRules :: nat
  vr_validRules :: nat
  vr_invalidRules :: nat

record validation_ctx =
  vc_allowIp :: bool
  vc_sourceName :: "jstr option"

definition ANY_PATTERN_MODIFIER :: "jstr list" where
  "ANY_PATTERN_MODIFIER = [''denyallow'', ''badfilter'', ''client'']"

definition SUPPORTED_MODIFIERS :: "jstr list" where
  "SUPPORTED_MODIFIERS =
     [''important'', ''~important'', ''ctag'', ''dnstype'', ''dnsrewrite''] @ ANY_PATTERN_MODIFIER"

definition validation_error_of ::
  "validation_ctx \<Rightarrow> error_type \<Rightarrow> severity \<Rightarrow> jstr \<Rightarrow> jstr \<Rightarrow> jstr \<Rightarrow> any_rule option \<Rightarrow> nat \<Rightarrow>
   validation_error" where
  "validation_error_of ctx ty sev ruleText message details ast lineNumber =
     \<lparr>ve_type = ty, ve_severity = sev, ve_ruleText = ruleText, ve_message = message,
      ve_details = details, ve_ast = ast, ve_lineNumber = lineNumber, ve_sourceName = vc_sourceName ctx\<rparr>"

text \<open>A check answers whether the rule is valid and the errors it adds.\<close>

type_synonym check = "bool \<times> validation_error list"

section \<open>Host names\<close>

definition validateHostname :: "validation_ctx \<Rightarrow> jstr \<Rightarrow> jstr \<Rightarrow> bool \<Rightarrow> nat \<Rightarrow> check" where
  "validateHostname ctx hostname ruleText hasLimitModifier lineNumber =
     (let result = parse_host hostname;
          err = (\<lambda>ty m d. (False, [validation_error_of ctx ty SevError ruleText m d None lineNumber]))
      in if ph_hostname result = None \<or> ph_hostname result = Some [] then
           err InvalidHostname (''Invalid hostname: '' @ hostname) ''The hostname format is not valid''
         else if \<not> vc_allowIp ctx \<and> ph_isIp result then
           err IpNotAllowed (''IP address not allowed: '' @ hostname)
             ''IP addresses are not permitted in this configuration''
         else if ph_hostname result = ph_publicSuffix result \<and> \<not> hasLimitModifier then
           err PublicSuffixMatch (''Public suffix matching not allowed: '' @ hostname)
             ''Matching entire public suffixes (like .com, .org) is too broad''
         else (True, []))"

fun validateHostnames :: "validation_ctx \<Rightarrow> jstr list \<Rightarrow> jstr \<Rightarrow> nat \<Rightarrow> check" where
  "validateHostnames ctx [] ruleText lineNumber = (True, [])"
| "validateHostnames ctx (h # hs) ruleText lineNumber =
     (case validateHostname ctx h ruleText False lineNumber of
        (False, es) \<Rightarrow> (False, es)
      | (True, es) \<Rightarrow>
          (case validateHostnames ctx hs ruleText lineNumber of (ok, es') \<Rightarrow> (ok, es @ es')))"

definition validateHostRule :: "validation_ctx \<Rightarrow> host_rule \<Rightarrow> jstr \<Rightarrow> nat \<Rightarrow> check" where
  "validateHostRule ctx rule ruleText lineNumber =
     (if hr_hostnames rule = [] then (False, [])
      else validateHostnames ctx (hr_hostnames rule) ruleText lineNumber)"

section \<open>Network rules\<close>

text \<open>The loop over the modifiers: \<open>Inl\<close> is the first unsupported one, \<open>Inr\<close> is \<open>hasLimitModifier\<close>.\<close>

definition supported :: "modifier \<Rightarrow> bool" where
  "supported m \<longleftrightarrow>
     List.member SUPPORTED_MODIFIERS (if mod_exception m then ''~'' @ mod_name m else mod_name m) \<or>
     List.member SUPPORTED_MODIFIERS (mod_name m)"

fun modifier_loop :: "bool \<Rightarrow> modifier list \<Rightarrow> modifier + bool" where
  "modifier_loop hasLimit [] = Inr hasLimit"
| "modifier_loop hasLimit (m # ms) =
     (if \<not> supported m then Inl m
      else modifier_loop (hasLimit \<or> List.member ANY_PATTERN_MODIFIER (mod_name m)) ms)"

definition domain_pattern_char :: "char \<Rightarrow> bool" where
  "domain_pattern_char c \<longleftrightarrow> is_alnum c \<or> List.member ''-.*|^'' c"

definition replace_first :: "jstr \<Rightarrow> jstr \<Rightarrow> jstr \<Rightarrow> jstr" where
  "replace_first p t s =
     (case index_of p s of None \<Rightarrow> s | Some i \<Rightarrow> take i s @ t @ drop (i + length p) s)"

definition nonempty_str :: "jstr option \<Rightarrow> bool" where
  "nonempty_str s \<longleftrightarrow> s \<noteq> None \<and> s \<noteq> Some []"

text \<open>The checks on the pattern, after those on the modifiers.\<close>

definition validatePattern :: "validation_ctx \<Rightarrow> network_rule \<Rightarrow> jstr \<Rightarrow> bool \<Rightarrow> nat \<Rightarrow> check" where
  "validatePattern ctx rule ruleText hasLimitModifier lineNumber =
     (let pattern = nr_pattern rule;
          err = (\<lambda>ty m d. (False, [validation_error_of ctx ty SevError ruleText m d
                                    (Some (NetworkRule rule)) lineNumber]));
          toTest = (if starts_with pattern ''://'' then drop 3 pattern else pattern);
          sepIdx = index_of ''^'' pattern;
          wildcardIdx = index_of ''*'' pattern;
          domainToCheck =
            (if sepIdx \<noteq> None then substringBetween (Some pattern) ''||'' ''^''
             else Some (drop 2 pattern))
      in if starts_with pattern ''/'' \<and> ends_with pattern ''/'' then (True, [])
         else if \<not> (toTest \<noteq> [] \<and> list_all domain_pattern_char toTest) then
           err InvalidCharacters ''Invalid characters in pattern''
             ''Pattern contains characters not allowed in domain names''
         else if sepIdx \<noteq> None \<and> wildcardIdx \<noteq> None \<and> the sepIdx < the wildcardIdx then (False, [])
         else if \<not> starts_with pattern ''||'' then (True, [])
         else if nonempty_str domainToCheck \<and> length (the domainToCheck) < 3 then
           err PatternTooShort ''Pattern too short'' ''Minimum domain length is 3 characters''
         else if sepIdx = None then (True, [])
         else if nonempty_str domainToCheck \<and> wildcardIdx \<noteq> None then
           (let d = the domainToCheck;
                tldPattern = replace_first ''*.'' [] d
            in if starts_with d ''*.'' \<and> getPublicSuffix tldPattern = Some tldPattern then
                 validateHostname ctx tldPattern ruleText hasLimitModifier lineNumber
               else (True, []))
         else
           (let host_check =
                  (if nonempty_str domainToCheck
                   then validateHostname ctx (the domainToCheck) ruleText hasLimitModifier lineNumber
                   else (True, []))
            in if \<not> fst host_check then host_check
               else (\<not> (the sepIdx + 1 < length pattern \<and> pattern ! (the sepIdx + 1) \<noteq> CHR ''|''),
                     snd host_check)))"

definition validateNetworkRule :: "validation_ctx \<Rightarrow> network_rule \<Rightarrow> jstr \<Rightarrow> nat \<Rightarrow> check" where
  "validateNetworkRule ctx rule ruleText lineNumber =
     (let modifiers = (case nr_modifiers rule of None \<Rightarrow> [] | Some ms \<Rightarrow> ms)
      in case modifier_loop False modifiers of
           Inl m \<Rightarrow>
             (False, [validation_error_of ctx UnsupportedModifier SevError ruleText
                (''Unsupported modifier: '' @ mod_name m)
                (''Supported modifiers: '' @ join_with '', '' SUPPORTED_MODIFIERS)
                (Some (NetworkRule rule)) lineNumber])
         | Inr hasLimitModifier \<Rightarrow>
             (let (valid, errors) = validateNetworkRuleModifiers rule;
                  warnings = (if modifiers \<noteq> [] \<and> \<not> valid then
                     [validation_error_of ctx ModifierValidationFailed SevWarning ruleText
                        ''Modifier validation warning'' (join_with '', '' errors)
                        (Some (NetworkRule rule)) lineNumber] else []);
                  (ok, es) = validatePattern ctx rule ruleText hasLimitModifier lineNumber
              in (ok, warnings @ es)))"

section \<open>Rules\<close>

definition comment_text :: "jstr \<Rightarrow> bool" where
  "comment_text ruleText \<longleftrightarrow> starts_with ruleText ''!'' \<or> starts_with ruleText ''# '' \<or>
     ruleText = ''#'' \<or> starts_with ruleText ''####''"

definition isValidParsedRule :: "validation_ctx \<Rightarrow> any_rule option \<Rightarrow> jstr \<Rightarrow> nat \<Rightarrow> check" where
  "isValidParsedRule ctx ast ruleText lineNumber =
     (if is_blank (Some (js_trim ruleText)) then (True, [])
      else case ast of
          None \<Rightarrow>
            if comment_text ruleText then (True, [])
            else (False, [validation_error_of ctx ParseError SevError ruleText ''Failed to parse rule''
                    ''The rule could not be parsed by AGTree'' None lineNumber])
        | Some (CommentRule _) \<Rightarrow> (True, [])
        | Some EmptyRule \<Rightarrow> (True, [])
        | Some (InvalidRule e) \<Rightarrow>
            (False, [validation_error_of ctx SyntaxError SevError ruleText ''Invalid rule syntax''
               ''The rule has syntax errors'' ast lineNumber])
        | Some (HostRule r) \<Rightarrow> validateHostRule ctx r ruleText lineNumber
        | Some (NetworkRule r) \<Rightarrow> validateNetworkRule ctx r ruleText lineNumber
        | Some (CosmeticRule r) \<Rightarrow>
            (False, [validation_error_of ctx CosmeticNotSupported SevError ruleText
               ''Cosmetic rules not supported''
               ''DNS blockers do not support cosmetic/element hiding rules'' ast lineNumber]))"

definition isCommentOrEmpty_ast :: "any_rule option \<Rightarrow> jstr \<Rightarrow> bool" where
  "isCommentOrEmpty_ast ast ruleText =
     (if is_blank (Some ruleText) then True
      else case ast of
          Some a \<Rightarrow> ag_isComment a \<or> ag_isEmpty a
        | None \<Rightarrow> comment_text ruleText)"

text \<open>The loop: the lines kept, \<open>previousRuleRemoved\<close>, and the errors in the order they are added.\<close>

fun validate_from ::
  "rule_parser \<Rightarrow> validation_ctx \<Rightarrow> nat \<Rightarrow> lines \<Rightarrow> lines \<times> bool \<times> validation_error list" where
  "validate_from parser ctx i [] = ([], False, [])"
| "validate_from parser ctx i (ruleText # rules) =
     (let (filtered, previousRuleRemoved, errors) = validate_from parser ctx (Suc i) rules;
          ast = po_ast (ag_parse parser ruleText);
          (isValid, es) = isValidParsedRule ctx ast ruleText (i + 1)
      in if \<not> isValid then (filtered, True, errors @ es)
         else if previousRuleRemoved \<and> isCommentOrEmpty_ast ast ruleText then
           (filtered, previousRuleRemoved, errors @ es)
         else (ruleText # filtered, False, errors @ es))"

definition count_severity :: "severity \<Rightarrow> validation_error list \<Rightarrow> nat" where
  "count_severity s es = length (filter (\<lambda>e. ve_severity e = s) es)"

definition validate :: "rule_parser \<Rightarrow> validation_ctx \<Rightarrow> lines \<Rightarrow> lines \<times> validation_report" where
  "validate parser ctx rules =
     (let (filtered, _, errors) = validate_from parser ctx 0 rules
      in (filtered,
          \<lparr>vr_errorCount = count_severity SevError errors,
           vr_warningCount = count_severity SevWarning errors,
           vr_infoCount = count_severity SevInfo errors,
           vr_errors = errors, vr_totalRules = length rules, vr_validRules = length filtered,
           vr_invalidRules = length rules - length filtered\<rparr>))"

definition validateAllowIp :: "rule_parser \<Rightarrow> lines \<Rightarrow> lines" where
  "validateAllowIp parser rules = fst (validate parser \<lparr>vc_allowIp = True, vc_sourceName = None\<rparr> rules)"

section \<open>What every check guarantees\<close>

text \<open>A check reports the line it is about, and an error of severity error only when it rejects.\<close>

definition honest :: "jstr \<Rightarrow> nat \<Rightarrow> check \<Rightarrow> bool" where
  "honest t n r \<longleftrightarrow> (\<forall>e \<in> set (snd r). ve_ruleText e = t \<and> ve_lineNumber e = n \<and>
     ve_severity e \<noteq> SevInfo \<and> (ve_severity e = SevError \<longrightarrow> \<not> fst r))"

lemma validateHostname_honest: "honest t n (validateHostname ctx h t l n)"
  by (simp add: validateHostname_def honest_def validation_error_of_def Let_def)

lemma validateHostname_line: "fst (validateHostname ctx h t l n) = fst (validateHostname ctx h t l m)"
  by (simp add: validateHostname_def Let_def)

lemma validateHostname_clean: "fst (validateHostname ctx h t l n) \<Longrightarrow> snd (validateHostname ctx h t l n) = []"
  by (auto simp: validateHostname_def Let_def split: if_splits)

lemma validateHostnames_honest: "honest t n (validateHostnames ctx hs t n)"
proof (induction hs)
  case (Cons h hs)
  then show ?case
    using validateHostname_honest [of t n ctx h False] validateHostname_clean [of ctx h t False n]
    by (auto simp: honest_def split: prod.splits bool.splits)
qed (simp add: honest_def)

lemma validateHostnames_line: "fst (validateHostnames ctx hs t n) = fst (validateHostnames ctx hs t m)"
proof (induction hs)
  case (Cons h hs)
  then show ?case using validateHostname_line [of ctx h t False n m]
    by (cases "validateHostname ctx h t False n"; cases "validateHostname ctx h t False m")
      (auto split: prod.splits bool.splits)
qed simp

lemma validatePattern_honest: "honest t n (validatePattern ctx r t l n)"
proof -
  have b: "honest t n (b, [])" for b by (simp add: honest_def)
  have e: "honest t n (False, [validation_error_of ctx ty SevError t m d a n])" for ty m d a
    by (simp add: honest_def validation_error_of_def)
  have h: "honest t n (c, snd (validateHostname ctx h t l n))" if "fst (validateHostname ctx h t l n)" for c h
    using validateHostname_clean [OF that] by (simp add: honest_def)
  show ?thesis unfolding validatePattern_def Let_def
    by (simp only: b e h validateHostname_honest if_split simp_thms split: if_split) (auto simp: b e h validateHostname_honest)
qed

lemma validatePattern_line: "fst (validatePattern ctx r t l n) = fst (validatePattern ctx r t l m)"
  using validateHostname_line [of ctx _ t l n m]
  unfolding validatePattern_def Let_def by (auto simp: validateHostname_line [of ctx _ t l n m])

lemma validateNetworkRule_honest: "honest t n (validateNetworkRule ctx r t n)"
proof (cases "modifier_loop False (case nr_modifiers r of None \<Rightarrow> [] | Some ms \<Rightarrow> ms)")
  case (Inl m)
  then show ?thesis by (simp add: validateNetworkRule_def honest_def validation_error_of_def)
next
  case (Inr l)
  obtain ok es where es: "validatePattern ctx r t l n = (ok, es)" by force
  with validatePattern_honest [of t n ctx r l] have "honest t n (ok, es)" by simp
  then show ?thesis using Inr es
    by (cases "validateNetworkRuleModifiers r")
      (auto simp: validateNetworkRule_def honest_def validation_error_of_def Let_def)
qed

lemma validateNetworkRule_line: "fst (validateNetworkRule ctx r t n) = fst (validateNetworkRule ctx r t m)"
proof (cases "modifier_loop False (case nr_modifiers r of None \<Rightarrow> [] | Some ms \<Rightarrow> ms)")
  case (Inr l)
  have "fst (validatePattern ctx r t l n) = fst (validatePattern ctx r t l m)"
    by (rule validatePattern_line)
  then show ?thesis using Inr by (simp add: validateNetworkRule_def case_prod_beta)
qed (simp add: validateNetworkRule_def)

lemma isValidParsedRule_honest: "honest t n (isValidParsedRule ctx a t n)"
proof -
  have b: "honest t n (b, [])" for b by (simp add: honest_def)
  have e: "honest t n (False, [validation_error_of ctx ty SevError t m d a n])" for ty m d a
    by (simp add: honest_def validation_error_of_def)
  show ?thesis
    by (auto simp: isValidParsedRule_def b e validateNetworkRule_honest validateHostRule_def
        validateHostnames_honest split: option.split any_rule.split)
qed

lemma isValidParsedRule_line: "fst (isValidParsedRule ctx a t n) = fst (isValidParsedRule ctx a t m)"
  using validateNetworkRule_line [of ctx _ t n m] validateHostnames_line [of ctx _ t n m]
  by (auto simp: isValidParsedRule_def validateHostRule_def split: option.split any_rule.split)

section \<open>The result of validation\<close>

abbreviation line_ast :: "rule_parser \<Rightarrow> jstr \<Rightarrow> any_rule option" where
  "line_ast parser t \<equiv> po_ast (ag_parse parser t)"

definition valid_line :: "rule_parser \<Rightarrow> validation_ctx \<Rightarrow> jstr \<Rightarrow> bool" where
  "valid_line parser ctx t = fst (isValidParsedRule ctx (line_ast parser t) t 0)"

definition comment_line :: "rule_parser \<Rightarrow> jstr \<Rightarrow> bool" where
  "comment_line parser t = isCommentOrEmpty_ast (line_ast parser t) t"

text \<open>The specification: a comment goes with the rule that follows it.\<close>

definition next_rule_valid :: "rule_parser \<Rightarrow> validation_ctx \<Rightarrow> lines \<Rightarrow> bool" where
  "next_rule_valid parser ctx ts =
     (case dropWhile (comment_line parser) ts of [] \<Rightarrow> True | t # _ \<Rightarrow> valid_line parser ctx t)"

fun keep_valid :: "rule_parser \<Rightarrow> validation_ctx \<Rightarrow> lines \<Rightarrow> lines" where
  "keep_valid parser ctx [] = []"
| "keep_valid parser ctx (t # ts) =
     (if (if comment_line parser t then next_rule_valid parser ctx ts else valid_line parser ctx t)
      then t # keep_valid parser ctx ts else keep_valid parser ctx ts)"

lemma comment_is_valid: "comment_line parser t \<Longrightarrow> valid_line parser ctx t"
  by (auto simp: comment_line_def valid_line_def isCommentOrEmpty_ast_def isValidParsedRule_def is_blank_def
      split: option.splits any_rule.splits if_splits)

lemma valid_line_any: "fst (isValidParsedRule ctx (line_ast parser t) t n) = valid_line parser ctx t"
  unfolding valid_line_def by (rule isValidParsedRule_line)

lemma validate_from_result:
  "fst (validate_from parser ctx i rules) = keep_valid parser ctx rules \<and>
   fst (snd (validate_from parser ctx i rules)) = (\<not> next_rule_valid parser ctx rules)"
proof (induction rules arbitrary: i)
  case (Cons t ts)
  obtain f p es where r: "validate_from parser ctx (Suc i) ts = (f, p, es)" by (metis prod_cases3)
  obtain ok es' where v: "isValidParsedRule ctx (line_ast parser t) t (i + 1) = (ok, es')" by force
  have ok: "ok = valid_line parser ctx t" using valid_line_any [of ctx parser t "i + 1"] v by simp
  have f: "f = keep_valid parser ctx ts" "p = (\<not> next_rule_valid parser ctx ts)"
    using Cons.IH [of "Suc i"] r by simp_all
  show ?case
    using r v ok f comment_is_valid [of parser t ctx]
    by (auto simp: Let_def comment_line_def [symmetric] next_rule_valid_def [of _ _ "t # ts"]
        next_rule_valid_def [of _ _ ts, symmetric])
qed (simp add: next_rule_valid_def)

lemma keep_valid_subseq: "subseq (keep_valid parser ctx rules) rules"
  by (induction rules) auto

lemma validate_from_errors:
  "e \<in> set (snd (snd (validate_from parser ctx i rules))) \<Longrightarrow>
   \<exists>k < length rules. ve_lineNumber e = i + k + 1 \<and> ve_ruleText e = rules ! k \<and>
     ve_severity e \<noteq> SevInfo \<and> (ve_severity e = SevError \<longrightarrow> \<not> valid_line parser ctx (rules ! k))"
proof (induction rules arbitrary: i)
  case (Cons t ts)
  obtain f p es where r: "validate_from parser ctx (Suc i) ts = (f, p, es)" by (metis prod_cases3)
  obtain ok es' where v: "isValidParsedRule ctx (line_ast parser t) t (i + 1) = (ok, es')" by force
  have ok: "ok = valid_line parser ctx t" using valid_line_any [of ctx parser t "i + 1"] v by simp
  have "e \<in> set es \<or> e \<in> set es'" using Cons.prems r v by (auto simp: Let_def split: if_splits)
  then show ?case
  proof
    assume "e \<in> set es"
    then obtain k where "k < length ts" "ve_lineNumber e = Suc i + k + 1" "ve_ruleText e = ts ! k"
      "ve_severity e \<noteq> SevInfo" "ve_severity e = SevError \<longrightarrow> \<not> valid_line parser ctx (ts ! k)"
      using Cons.IH [of "Suc i"] r by auto
    then show ?thesis by (intro exI [of _ "Suc k"]) simp
  next
    assume "e \<in> set es'"
    then have "ve_ruleText e = t" "ve_lineNumber e = i + 1" "ve_severity e \<noteq> SevInfo"
      "ve_severity e = SevError \<longrightarrow> \<not> ok"
      using isValidParsedRule_honest [of t "i + 1" ctx "line_ast parser t"] v by (auto simp: honest_def)
    then show ?thesis using ok by (intro exI [of _ 0]) simp
  qed
qed simp

interpretation validate: line_remover "\<lambda>rules. fst (validate parser ctx rules)" for parser ctx
  using validate_from_result keep_valid_subseq
  by unfold_locales (simp add: validate_def case_prod_beta)

lemma next_rule_keep_valid: "next_rule_valid parser ctx (keep_valid parser ctx ts)"
proof (induction ts)
  case (Cons t ts)
  then show ?case using comment_is_valid by (auto simp: next_rule_valid_def)
qed (simp add: next_rule_valid_def)

lemma keep_valid_idem: "keep_valid parser ctx (keep_valid parser ctx ts) = keep_valid parser ctx ts"
  by (induction ts) (auto simp: next_rule_keep_valid)

text \<open>
  C5. \<open>Validate\<close> keeps exactly the right lines: its result is the list of the valid rules, in
  order, together with those comments and blank lines whose next rule is valid or that no
  rule follows; a comment block before an invalid rule goes with it.  It only removes lines, and
  doing it again changes nothing.
\<close>

theorem validate_keeps:
  "fst (validate parser ctx rules) = keep_valid parser ctx rules \<and>
   filter (\<lambda>t. \<not> comment_line parser t) (fst (validate parser ctx rules)) =
     filter (\<lambda>t. \<not> comment_line parser t \<and> valid_line parser ctx t) rules \<and>
   fst (validate parser ctx (fst (validate parser ctx rules))) = fst (validate parser ctx rules)"
proof -
  have r: "fst (validate parser ctx xs) = keep_valid parser ctx xs" for xs
    using validate_from_result [of parser ctx 0 xs] by (simp add: validate_def case_prod_beta)
  have "filter (\<lambda>t. \<not> comment_line parser t) (keep_valid parser ctx xs) =
      filter (\<lambda>t. \<not> comment_line parser t \<and> valid_line parser ctx t) xs" for xs
    by (induction xs) auto
  then show ?thesis by (simp add: r keep_valid_idem)
qed

text \<open>
  The validation report is about the input: the counts add up (valid and removed lines to
  the lines given, errors, warnings and notes to the entries), and every entry names a line
  of the input by its number, starting at 1, and quotes that line; an entry of severity error
  is about a line that is not in the result as a valid rule.
\<close>

theorem validation_report_correct:
  "let (result, report) = validate parser ctx rules
   in vr_totalRules report = length rules \<and> vr_validRules report = length result \<and>
      vr_validRules report + vr_invalidRules report = vr_totalRules report \<and>
      vr_errorCount report + vr_warningCount report + vr_infoCount report = length (vr_errors report) \<and>
      vr_infoCount report = 0 \<and>
      list_all (\<lambda>e. 1 \<le> ve_lineNumber e \<and> ve_lineNumber e \<le> length rules \<and>
        ve_ruleText e = rules ! (ve_lineNumber e - 1) \<and>
        \<not> (ve_severity e = SevError \<and> valid_line parser ctx (rules ! (ve_lineNumber e - 1)))) (vr_errors report)"
proof -
  obtain f p es where r: "validate_from parser ctx 0 rules = (f, p, es)" by (metis prod_cases3)
  have errs: "1 \<le> ve_lineNumber e \<and> ve_lineNumber e \<le> length rules \<and>
      ve_ruleText e = rules ! (ve_lineNumber e - 1) \<and> ve_severity e \<noteq> SevInfo \<and>
      \<not> (ve_severity e = SevError \<and> valid_line parser ctx (rules ! (ve_lineNumber e - 1)))" if "e \<in> set es" for e
    using validate_from_errors [of e parser ctx 0 rules] that r by auto
  have "count_severity SevError xs + count_severity SevWarning xs + count_severity SevInfo xs = length xs"
    for xs :: "validation_error list"
    unfolding count_severity_def
  proof (induction xs)
    case (Cons x xs) then show ?case by (cases "ve_severity x") auto
  qed simp
  from this [of es] have "count_severity SevError es + count_severity SevWarning es + count_severity SevInfo es
      = length es" .
  moreover have "count_severity SevInfo es = 0" using errs by (auto simp: count_severity_def filter_empty_conv)
  moreover have "length f \<le> length rules"
    using validate.never_longer [of parser ctx rules] r by (simp add: validate_def)
  ultimately show ?thesis using errs r by (auto simp: validate_def list_all_iff)
qed

section \<open>Which domain rules are accepted\<close>

definition host_accepted :: "bool \<Rightarrow> bool \<Rightarrow> jstr \<Rightarrow> bool" where
  "host_accepted allowIp limited d \<longleftrightarrow>
     (let h = parse_host d
      in nonempty_str (ph_hostname h) \<and> (allowIp \<or> \<not> ph_isIp h) \<and>
         (limited \<or> ph_hostname h \<noteq> ph_publicSuffix h))"

definition modifiers_of :: "network_rule \<Rightarrow> modifier list" where
  "modifiers_of r = (case nr_modifiers r of None \<Rightarrow> [] | Some ms \<Rightarrow> ms)"

lemma modifier_loop_result:
  "modifier_loop b ms =
     (case List.find (\<lambda>m. \<not> supported m) ms of
        Some m \<Rightarrow> Inl m
      | None \<Rightarrow> Inr (b \<or> list_ex (\<lambda>m. List.member ANY_PATTERN_MODIFIER (mod_name m)) ms))"
  by (induction b ms rule: modifier_loop.induct) (simp_all add: disj_assoc split: option.split)

lemma validateHostname_accepted:
  "fst (validateHostname ctx d t l n) = host_accepted (vc_allowIp ctx) l d"
  by (auto simp: validateHostname_def host_accepted_def nonempty_str_def Let_def)

lemma index_of_char: "c \<notin> set s \<Longrightarrow> index_of [c] s = None"
  by (induction s) auto

lemma index_of_after: "c \<notin> set s \<Longrightarrow> index_of [c] (s @ c # u) = Some (length s)"
  by (induction s) auto

lemma domain_between:
  assumes "CHR ''^'' \<notin> set d" and "d \<noteq> []"
  shows "substringBetween (Some (''||'' @ d @ ''^'')) ''||'' ''^'' = Some d"
  using assms index_of_after [of "CHR ''^''" d "[]"]
  by (simp add: substringBetween_def index_from_def substring_def)

text \<open>
  Which domain rules pass: a network rule with pattern \<open>||d^\<close>, where \<open>d\<close> is not empty and has
  no \<open>^\<close> and no wildcard, is valid exactly when all its modifiers are supported, \<open>d\<close> has at
  least three characters, all of them allowed in a pattern, and \<open>d\<close> is a host name that is
  not an address (unless addresses are allowed) and not a whole public suffix (unless a modifier
  limits the rule).
\<close>

theorem domain_rule_accepted:
  assumes "nr_pattern r = ''||'' @ d @ ''^''" and "d \<noteq> []" and "CHR ''^'' \<notin> set d" and "CHR ''*'' \<notin> set d"
  shows "fst (validateNetworkRule ctx r t n) \<longleftrightarrow>
     list_all supported (modifiers_of r) \<and> 3 \<le> length d \<and> list_all domain_pattern_char d \<and>
     host_accepted (vc_allowIp ctx)
       (list_ex (\<lambda>m. List.member ANY_PATTERN_MODIFIER (mod_name m)) (modifiers_of r)) d"
proof -
  let ?p = "''||'' @ d @ ''^''"
  have sep: "index_of ''^'' ?p = Some (length d + 2)"
    using index_of_after [of "CHR ''^''" "''||'' @ d" "[]"] assms(3) by simp
  have wild: "index_of ''*'' ?p = None"
    using index_of_char [of "CHR ''*''" ?p] assms(4) by simp
  have chars: "list_all domain_pattern_char ?p \<longleftrightarrow> list_all domain_pattern_char d"
    by (simp add: domain_pattern_char_def)
  have pat: "fst (validatePattern ctx r t l n) \<longleftrightarrow>
      3 \<le> length d \<and> list_all domain_pattern_char d \<and> host_accepted (vc_allowIp ctx) l d" for l
    unfolding validatePattern_def assms(1) Let_def sep wild domain_between [OF assms(3,2)]
    using chars assms(2)
    by (auto simp: validateHostname_accepted nonempty_str_def)
  have rule: "fst (validateNetworkRule ctx r t n) \<longleftrightarrow>
      (case modifier_loop False (modifiers_of r) of Inl _ \<Rightarrow> False | Inr l \<Rightarrow> fst (validatePattern ctx r t l n))"
    unfolding validateNetworkRule_def Let_def modifiers_of_def [symmetric]
    by (cases "modifier_loop False (modifiers_of r)") (simp_all add: case_prod_beta)
  show ?thesis
  proof (cases "List.find (\<lambda>m. \<not> supported m) (modifiers_of r)")
    case None
    then have "list_all supported (modifiers_of r)" by (auto simp: find_None_iff list_all_iff)
    then show ?thesis using None by (simp add: rule modifier_loop_result pat)
  next
    case (Some m)
    then have "\<not> list_all supported (modifiers_of r)" by (auto simp: find_Some_iff list_all_length)
    then show ?thesis using Some by (simp add: rule modifier_loop_result)
  qed
qed

abbreviation plain_rule :: "jstr \<Rightarrow> network_rule" where
  "plain_rule p \<equiv> \<lparr>nr_exception = False, nr_pattern = p, nr_modifiers = None, nr_syntax = Common, nr_raw = None\<rparr>"

theorem domain_rule_accepted_witness:
  "fst (validateNetworkRule \<lparr>vc_allowIp = False, vc_sourceName = None\<rparr> (plain_rule ''||ads.example.org^'')
      ''||ads.example.org^'' 1) \<and>
   \<not> fst (validateNetworkRule \<lparr>vc_allowIp = False, vc_sourceName = None\<rparr> (plain_rule ''||co.uk^'') ''||co.uk^'' 1)"
proof -
  let ?c = "\<lparr>vc_allowIp = False, vc_sourceName = None\<rparr>"
  have "list_all domain_pattern_char ''ads.example.org''" "host_accepted False False ''ads.example.org''"
    "\<not> host_accepted False False ''co.uk''" by code_simp+
  then show ?thesis
    using domain_rule_accepted [of "plain_rule ''||ads.example.org^''" "''ads.example.org''" ?c]
      domain_rule_accepted [of "plain_rule ''||co.uk^''" "''co.uk''" ?c]
    by (simp add: modifiers_of_def)
qed

text \<open>
  Two checks can be passed by: a second final dot hides an address and a public suffix from
  the checks that reject them (\<open>||1.2.3.4..^\<close> and \<open>||com..^\<close> are valid rules although
  \<open>||1.2.3.4^\<close> and \<open>||com^\<close> are not), and the pattern \<open>||^\<close>, whose domain is empty, skips the
  domain checks and is valid, although it names no domain.
\<close>

theorem validation_bypass:
  "map (\<lambda>p. fst (validateNetworkRule \<lparr>vc_allowIp = False, vc_sourceName = src\<rparr> (plain_rule p) p n))
     [''||1.2.3.4^'', ''||1.2.3.4..^'', ''||com^'', ''||com..^'', ''||^''] =
   [False, True, False, True, True]"
proof -
  let ?c = "\<lparr>vc_allowIp = False, vc_sourceName = src\<rparr>"
  have h: "\<not> host_accepted False False ''1.2.3.4''" "host_accepted False False ''1.2.3.4..''"
    "\<not> host_accepted False False ''com''" "host_accepted False False ''com..''" by code_simp+
  have c: "list_all domain_pattern_char ''1.2.3.4..''" "list_all domain_pattern_char ''com..''"
    "list_all domain_pattern_char ''||^''" by code_simp+
  have "fst (validateNetworkRule ?c (plain_rule ''||^'') ''||^'' n)"
    using c(3) by (simp add: validateNetworkRule_def validatePattern_def Let_def substringBetween_def
        index_from_def nonempty_str_def case_prod_beta)
  moreover have "fst (validateNetworkRule ?c (plain_rule (''||'' @ d @ ''^'')) (''||'' @ d @ ''^'') n) \<longleftrightarrow>
      3 \<le> length d \<and> list_all domain_pattern_char d \<and> host_accepted False False d"
    if "d \<noteq> []" "CHR ''^'' \<notin> set d" "CHR ''*'' \<notin> set d" for d
    using domain_rule_accepted [of "plain_rule (''||'' @ d @ ''^'')" d ?c] that by (simp add: modifiers_of_def)
  note d = this [of "''1.2.3.4''"] this [of "''1.2.3.4..''"] this [of "''com''"] this [of "''com..''"]
  ultimately show ?thesis using h c d by simp
qed

end
