(* ===== verification/Conflicts.thy ===== *)
theory Conflicts
  imports Transforms
begin

text \<open>
  \<open>src/transformations/ConflictDetectionTransformation.ts\<close>: blocking and exception rules of the
  same domain, or an exception of a subdomain of a blocked domain, and their resolution.  The
  maps by domain are lists of entries in insertion order; \<open>keys\<close> and \<open>by_domain\<close> read them.
\<close>

datatype recommendation = Keep_Block | Keep_Allow | Manual_Review

datatype strategy = Strategy_Block | Strategy_Allow | Strategy_First

record conflict =
  cf_blockingRule :: jstr
  cf_allowingRule :: jstr
  cf_domain :: jstr
  cf_blockingIndex :: nat
  cf_allowingIndex :: nat
  cf_recommendation :: recommendation
  cf_reason :: jstr

record conflict_options =
  co_autoResolve :: bool
  co_resolutionStrategy :: strategy

definition default_conflict_options :: conflict_options where
  "default_conflict_options = \<lparr>co_autoResolve = False, co_resolutionStrategy = Strategy_Block\<rparr>"

text \<open>The regular expression \<open>/^\|\|([a-z0-9.-]+)\^?/i\<close> matches at the start of the rule.\<close>

definition leading_host :: "jstr \<Rightarrow> jstr option" where
  "leading_host s =
     (let h = takeWhile (\<lambda>c. is_alnum c \<or> c = CHR ''.'' \<or> c = CHR ''-'') (drop 2 s)
      in if starts_with s ''||'' \<and> h \<noteq> [] then Some h else None)"

definition extractDomain :: "rule_parser \<Rightarrow> (any_rule \<Rightarrow> jstr) \<Rightarrow> jstr \<Rightarrow> jstr option" where
  "extractDomain parser generate rule =
     (let cleanRule = (if starts_with rule ''@@'' then drop 2 rule else rule);
          props = loadAdblockRuleProperties parser generate
                    (if starts_with cleanRule ''@@'' then cleanRule else rule)
      in case ar_hostname props of
           Some (c # cs) \<Rightarrow> Some (to_lower (c # cs))
         | _ \<Rightarrow>
             (case leading_host cleanRule of
                Some h \<Rightarrow> Some (to_lower h)
              | None \<Rightarrow> if isJustDomain cleanRule then Some (to_lower cleanRule) else None))"

text \<open>The first pass on one line: whether it is an exception, its domain and its trimmed text.\<close>

definition categorize ::
  "rule_parser \<Rightarrow> (any_rule \<Rightarrow> jstr) \<Rightarrow> jstr \<Rightarrow> (bool \<times> jstr \<times> jstr) option" where
  "categorize parser generate line =
     (let rule = js_trim line
      in if rule = [] \<or> starts_with rule ''!'' \<or> starts_with rule ''#'' then None
         else case extractDomain parser generate rule of
             None \<Rightarrow> None
           | Some d \<Rightarrow> if d = [] then None else Some (isAllowRule parser rule, d, rule))"

type_synonym domain_map = "(jstr \<times> jstr \<times> nat) list"

fun collect_rules ::
  "rule_parser \<Rightarrow> (any_rule \<Rightarrow> jstr) \<Rightarrow> bool \<Rightarrow> nat \<Rightarrow> lines \<Rightarrow> domain_map" where
  "collect_rules parser generate exception i [] = []"
| "collect_rules parser generate exception i (line # rest) =
     (case categorize parser generate line of
        Some (e, d, rule) \<Rightarrow>
          (if e = exception then [(d, rule, i)] else []) @
          collect_rules parser generate exception (Suc i) rest
      | None \<Rightarrow> collect_rules parser generate exception (Suc i) rest)"

definition by_domain :: "domain_map \<Rightarrow> jstr \<Rightarrow> (jstr \<times> nat) list" where
  "by_domain m d = map snd (filter (\<lambda>(d', _). d' = d) m)"

definition keys :: "domain_map \<Rightarrow> jstr list" where
  "keys m = first_of_each {} (map fst m)"

definition options_text :: "jstr \<Rightarrow> jstr" where
  "options_text rule = (if str_includes rule ''$'' then split_on CHR ''$'' rule ! 1 else [])"

definition createConflict :: "jstr \<times> nat \<Rightarrow> jstr \<times> nat \<Rightarrow> jstr \<Rightarrow> conflict" where
  "createConflict blocking allowing domain =
     (let b = length (options_text (fst blocking)); a = length (options_text (fst allowing));
          (recommendation, reason) =
            (if b < a then (Keep_Allow, ''Exception rule is more specific'')
             else if a < b then (Keep_Block, ''Blocking rule is more specific'')
             else (Manual_Review, ''Both rules apply to the same domain''))
      in \<lparr>cf_blockingRule = fst blocking, cf_allowingRule = fst allowing, cf_domain = domain,
          cf_blockingIndex = snd blocking, cf_allowingIndex = snd allowing,
          cf_recommendation = recommendation, cf_reason = reason\<rparr>)"

definition strict_parents :: "jstr \<Rightarrow> jstr list" where
  "strict_parents domain =
     (let parts = split_on CHR ''.'' domain
      in map (\<lambda>i. join_with ''.'' (drop i parts)) [1 ..< length parts - 1])"

definition checkSubdomainConflicts ::
  "jstr \<Rightarrow> (jstr \<times> nat) list \<Rightarrow> domain_map \<Rightarrow> conflict list" where
  "checkSubdomainConflicts domain allowingRules blockingByDomain =
     concat (map (\<lambda>parentDomain.
       concat (map (\<lambda>blocking. map (\<lambda>allowing.
         (createConflict blocking allowing domain)
           \<lparr>cf_reason := ''Exception for subdomain \"'' @ domain @
              ''\" conflicts with parent domain blocking rule'',
            cf_recommendation := Manual_Review\<rparr>) allowingRules)
         (by_domain blockingByDomain parentDomain)))
       (strict_parents domain))"

definition find_conflicts :: "rule_parser \<Rightarrow> (any_rule \<Rightarrow> jstr) \<Rightarrow> lines \<Rightarrow> conflict list" where
  "find_conflicts parser generate rules =
     (let blockingByDomain = collect_rules parser generate False 0 rules;
          allowingByDomain = collect_rules parser generate True 0 rules
      in concat (map (\<lambda>domain.
           let allowingRules = by_domain allowingByDomain domain
           in concat (map (\<lambda>blocking. map (\<lambda>allowing. createConflict blocking allowing domain)
                        allowingRules) (by_domain blockingByDomain domain)) @
              checkSubdomainConflicts domain allowingRules blockingByDomain)
           (keys allowingByDomain)))"

definition index_to_remove :: "strategy \<Rightarrow> conflict \<Rightarrow> nat" where
  "index_to_remove s c =
     (case s of
        Strategy_Block \<Rightarrow> cf_allowingIndex c
      | Strategy_Allow \<Rightarrow> cf_blockingIndex c
      | Strategy_First \<Rightarrow>
          if cf_blockingIndex c < cf_allowingIndex c then cf_allowingIndex c else cf_blockingIndex c)"

definition resolveConflicts :: "strategy \<Rightarrow> conflict list \<Rightarrow> lines \<Rightarrow> lines" where
  "resolveConflicts s conflicts rules = nths rules (- set (map (index_to_remove s) conflicts))"

definition detect_conflicts ::
  "rule_parser \<Rightarrow> (any_rule \<Rightarrow> jstr) \<Rightarrow> conflict_options \<Rightarrow> lines \<Rightarrow> lines \<times> conflict list" where
  "detect_conflicts parser generate opts rules =
     (let conflicts = find_conflicts parser generate rules
      in (if co_autoResolve opts \<and> 0 < length conflicts
          then resolveConflicts (co_resolutionStrategy opts) conflicts rules else rules, conflicts))"

section \<open>Lemmas\<close>

lemma collect_rules_iff:
  "(d, rule, k) \<in> set (collect_rules parser generate e i rules) \<longleftrightarrow>
   (\<exists>j < length rules. k = i + j \<and> categorize parser generate (rules ! j) = Some (e, d, rule))"
proof (induction rules arbitrary: i)
  case (Cons line rest)
  have ex: "(\<exists>j < length (line # rest). k = i + j \<and> categorize parser generate ((line # rest) ! j) = Some (e, d, rule))
      \<longleftrightarrow> (k = i \<and> categorize parser generate line = Some (e, d, rule)) \<or>
      (\<exists>j < length rest. k = Suc i + j \<and> categorize parser generate (rest ! j) = Some (e, d, rule))"
    by (auto simp: less_Suc_eq_0_disj)
  show ?case unfolding ex using Cons.IH [of "Suc i"]
    by (auto split: option.splits)
qed simp

lemma by_domain_iff: "(rule, k) \<in> set (by_domain m d) \<longleftrightarrow> (d, rule, k) \<in> set m"
  by (force simp: by_domain_def)

lemma keys_set: "set (keys m) = fst ` set m"
  by (simp add: keys_def first_of_each_facts)

lemma createConflict_fields [simp]:
  "cf_blockingIndex (createConflict b a d) = snd b" "cf_allowingIndex (createConflict b a d) = snd a"
  "cf_blockingRule (createConflict b a d) = fst b" "cf_allowingRule (createConflict b a d) = fst a"
  "cf_domain (createConflict b a d) = d"
  by (simp_all add: createConflict_def Let_def)

text \<open>What a conflict is: a blocking and an exception line whose domains clash.\<close>

definition clash :: "rule_parser \<Rightarrow> (any_rule \<Rightarrow> jstr) \<Rightarrow> jstr \<Rightarrow> jstr \<Rightarrow> bool" where
  "clash parser generate blocking allowing \<longleftrightarrow> (\<exists>d r d' r'.
     categorize parser generate blocking = Some (False, d, r) \<and>
     categorize parser generate allowing = Some (True, d', r') \<and>
     (d = d' \<or> d \<in> set (strict_parents d')))"

lemma find_conflicts_sound:
  assumes "c \<in> set (find_conflicts parser generate rules)"
  shows "cf_blockingIndex c < length rules \<and> cf_allowingIndex c < length rules \<and>
    cf_blockingRule c = js_trim (rules ! cf_blockingIndex c) \<and>
    cf_allowingRule c = js_trim (rules ! cf_allowingIndex c) \<and>
    clash parser generate (rules ! cf_blockingIndex c) (rules ! cf_allowingIndex c)"
proof -
  have trim: "r = js_trim line" if "categorize parser generate line = Some (e, d, r)" for e d r line
    using that by (auto simp: categorize_def Let_def split: if_splits option.splits)
  let ?B = "collect_rules parser generate False 0 rules" and ?A = "collect_rules parser generate True 0 rules"
  obtain d where "c \<in> (\<Union>b \<in> set (by_domain ?B d). (\<lambda>a. createConflict b a d) ` set (by_domain ?A d)) \<or>
      c \<in> set (checkSubdomainConflicts d (by_domain ?A d) ?B)"
    using assms by (auto simp: find_conflicts_def Let_def)
  then obtain b i a j p where
    c: "cf_blockingIndex c = i" "cf_allowingIndex c = j" "cf_blockingRule c = b" "cf_allowingRule c = a"
    and al: "(a, j) \<in> set (by_domain ?A d)" and bl: "(b, i) \<in> set (by_domain ?B p)"
    and p: "p = d \<or> p \<in> set (strict_parents d)"
  proof
    assume "c \<in> (\<Union>b \<in> set (by_domain ?B d). (\<lambda>a. createConflict b a d) ` set (by_domain ?A d))"
    then show ?thesis using that by (auto simp: split_paired_all)
  next
    assume "c \<in> set (checkSubdomainConflicts d (by_domain ?A d) ?B)"
    then show ?thesis using that by (auto simp: checkSubdomainConflicts_def split_paired_all)
  qed
  from al bl have "j < length rules" "categorize parser generate (rules ! j) = Some (True, d, a)"
    "i < length rules" "categorize parser generate (rules ! i) = Some (False, p, b)"
    by (simp_all add: by_domain_iff collect_rules_iff)
  then show ?thesis using c p trim by (auto simp: clash_def)
qed

lemma find_conflicts_complete:
  assumes "i < length rules" and "j < length rules" and "clash parser generate (rules ! i) (rules ! j)"
  shows "\<exists>c \<in> set (find_conflicts parser generate rules). cf_blockingIndex c = i \<and> cf_allowingIndex c = j"
proof -
  obtain d r d' r' where d: "categorize parser generate (rules ! i) = Some (False, d, r)"
    "categorize parser generate (rules ! j) = Some (True, d', r')" "d = d' \<or> d \<in> set (strict_parents d')"
    using assms(3) by (auto simp: clash_def)
  let ?B = "collect_rules parser generate False 0 rules" and ?A = "collect_rules parser generate True 0 rules"
  have A: "(d', r', j) \<in> set ?A" and B: "(d, r, i) \<in> set ?B"
    using d assms(1,2) by (auto simp: collect_rules_iff)
  then have b: "(r, i) \<in> set (by_domain ?B d)" and a: "(r', j) \<in> set (by_domain ?A d')"
    by (simp_all add: by_domain_iff)
  have k: "d' \<in> set (keys ?A)" using A by (auto simp: keys_set intro: rev_image_eqI)
  show ?thesis
  proof (cases "d = d'")
    case True
    then have "createConflict (r, i) (r', j) d' \<in> set (find_conflicts parser generate rules)"
      using a b k by (auto simp: find_conflicts_def Let_def intro!: bexI [of _ d'] bexI [of _ "(r, i)"])
    then show ?thesis by (intro bexI) auto
  next
    case False
    let ?c = "(createConflict (r, i) (r', j) d')
           \<lparr>cf_reason := ''Exception for subdomain \"'' @ d' @
              ''\" conflicts with parent domain blocking rule'', cf_recommendation := Manual_Review\<rparr>"
    have "?c \<in> set (checkSubdomainConflicts d' (by_domain ?A d') ?B)"
      using d(3) False a b
      by (auto simp: checkSubdomainConflicts_def intro!: bexI [of _ d] bexI [of _ "(r, i)"] imageI)
    then have "?c \<in> set (find_conflicts parser generate rules)"
      using k by (auto simp: find_conflicts_def Let_def)
    then show ?thesis by (intro bexI) auto
  qed
qed

text \<open>
  C12. Conflict detection is exact: there is a conflict that names a blocking line \<open>i\<close> and an
  exception line \<open>j\<close> exactly when both lines are in the list and their domains clash, that is,
  line \<open>i\<close> blocks the domain of the exception or one of its parents with at least two labels.
\<close>

theorem conflicts_exact:
  "(\<exists>c \<in> set (find_conflicts parser generate rules). cf_blockingIndex c = i \<and> cf_allowingIndex c = j) \<longleftrightarrow>
   i < length rules \<and> j < length rules \<and> clash parser generate (rules ! i) (rules ! j)"
proof
  assume "\<exists>c \<in> set (find_conflicts parser generate rules). cf_blockingIndex c = i \<and> cf_allowingIndex c = j"
  then obtain c where "c \<in> set (find_conflicts parser generate rules)"
    "cf_blockingIndex c = i" "cf_allowingIndex c = j" by blast
  then show "i < length rules \<and> j < length rules \<and> clash parser generate (rules ! i) (rules ! j)"
    using find_conflicts_sound [of c parser generate rules] by simp
next
  assume "i < length rules \<and> j < length rules \<and> clash parser generate (rules ! i) (rules ! j)"
  then show "\<exists>c \<in> set (find_conflicts parser generate rules). cf_blockingIndex c = i \<and> cf_allowingIndex c = j"
    using find_conflicts_complete [of i rules j parser generate] by simp
qed

lemma resolved_line:
  assumes "l \<in> set (resolveConflicts s cs rules)"
  obtains k where "k < length rules" "rules ! k = l" "k \<notin> index_to_remove s ` set cs"
  using assms by (auto simp: resolveConflicts_def set_nths)

lemma no_conflict_left:
  "find_conflicts parser generate (resolveConflicts s (find_conflicts parser generate rules) rules) = []"
proof (rule ccontr)
  let ?cs = "find_conflicts parser generate rules" and ?out = "resolveConflicts s (find_conflicts parser generate rules) rules"
  assume "find_conflicts parser generate ?out \<noteq> []"
  then obtain c where "c \<in> set (find_conflicts parser generate ?out)"
    by (cases "find_conflicts parser generate ?out") auto
  from find_conflicts_sound [OF this] obtain b a where
    ba: "b \<in> set ?out" "a \<in> set ?out" "clash parser generate b a" by (meson nth_mem)
  obtain i where i: "i < length rules" "rules ! i = b" "i \<notin> index_to_remove s ` set ?cs"
    by (rule resolved_line [OF ba(1)])
  obtain j where j: "j < length rules" "rules ! j = a" "j \<notin> index_to_remove s ` set ?cs"
    by (rule resolved_line [OF ba(2)])
  obtain d where d: "d \<in> set ?cs" "cf_blockingIndex d = i" "cf_allowingIndex d = j"
    using find_conflicts_complete [of i rules j parser generate] i j ba(3) by blast
  then have "index_to_remove s d = i \<or> index_to_remove s d = j"
    by (simp add: index_to_remove_def split: strategy.split)
  then show False using i(3) j(3) d(1) by blast
qed

interpretation detect_conflicts: line_remover "\<lambda>rules. fst (detect_conflicts parser generate opts rules)"
  for parser generate opts
  by unfold_locales (simp add: detect_conflicts_def resolveConflicts_def Let_def kept)

text \<open>
  C13. Resolving conflicts resolves all of them: with \<open>autoResolve\<close> and any of the three
  strategies, detection on the result finds nothing, and the lines removed are exactly the
  losers of a conflict: the exceptions under \<open>keep-block\<close>, the blocking rules under \<open>keep-allow\<close>,
  the later line of the two under \<open>keep-first\<close>.
\<close>

theorem resolution_complete:
  assumes "co_autoResolve opts"
  shows "find_conflicts parser generate (fst (detect_conflicts parser generate opts rules)) = [] \<and>
    fst (detect_conflicts parser generate opts rules) =
      nths rules {k. \<not> (\<exists>i < length rules. \<exists>j < length rules.
        clash parser generate (rules ! i) (rules ! j) \<and>
        k = (case co_resolutionStrategy opts of Strategy_Block \<Rightarrow> j | Strategy_Allow \<Rightarrow> i
             | Strategy_First \<Rightarrow> max i j))}"
proof -
  let ?cs = "find_conflicts parser generate rules" and ?s = "co_resolutionStrategy opts"
  have out: "fst (detect_conflicts parser generate opts rules) = resolveConflicts ?s ?cs rules"
    using assms by (cases "?cs = []") (simp_all add: detect_conflicts_def resolveConflicts_def Let_def nths_all)
  have rm: "index_to_remove ?s c = (case ?s of Strategy_Block \<Rightarrow> cf_allowingIndex c
      | Strategy_Allow \<Rightarrow> cf_blockingIndex c | Strategy_First \<Rightarrow> max (cf_blockingIndex c) (cf_allowingIndex c))" for c
    by (simp add: index_to_remove_def split: strategy.split)
  have "k \<in> index_to_remove ?s ` set ?cs \<longleftrightarrow> (\<exists>i < length rules. \<exists>j < length rules.
        clash parser generate (rules ! i) (rules ! j) \<and>
        k = (case ?s of Strategy_Block \<Rightarrow> j | Strategy_Allow \<Rightarrow> i | Strategy_First \<Rightarrow> max i j))" (is "_ \<longleftrightarrow> ?R") for k
  proof
    assume "k \<in> index_to_remove ?s ` set ?cs"
    then obtain c where c: "c \<in> set ?cs" "k = index_to_remove ?s c" by blast
    show ?R using find_conflicts_sound [OF c(1)] c(2) by (auto simp: rm)
  next
    assume ?R
    then obtain i j where ij: "i < length rules" "j < length rules" "clash parser generate (rules ! i) (rules ! j)"
      "k = (case ?s of Strategy_Block \<Rightarrow> j | Strategy_Allow \<Rightarrow> i | Strategy_First \<Rightarrow> max i j)" by blast
    obtain c where c: "c \<in> set ?cs" "cf_blockingIndex c = i" "cf_allowingIndex c = j"
      using find_conflicts_complete [OF ij(1-3)] by blast
    have "k = index_to_remove ?s c" unfolding rm c(2,3) by (rule ij(4))
    then show "k \<in> index_to_remove ?s ` set ?cs" using c(1) by (rule image_eqI)
  qed
  then have "- set (map (index_to_remove ?s) ?cs) = {k. \<not> (\<exists>i < length rules. \<exists>j < length rules.
        clash parser generate (rules ! i) (rules ! j) \<and>
        k = (case ?s of Strategy_Block \<Rightarrow> j | Strategy_Allow \<Rightarrow> i | Strategy_First \<Rightarrow> max i j))}" by auto
  then show ?thesis using no_conflict_left [of parser generate ?s rules] by (simp add: out resolveConflicts_def)
qed

definition demo_parser :: rule_parser where
  "demo_parser t = Inr (NetworkRule
     \<lparr>nr_exception = starts_with t ''@@'', nr_pattern = (if starts_with t ''@@'' then drop 2 t else t),
      nr_modifiers = None, nr_syntax = Common, nr_raw = Some t\<rparr>)"

theorem resolution_complete_witness:
  "find_conflicts demo_parser (\<lambda>_. []) [''||example.org^'', ''||test.com^'', ''@@||a.example.org^''] \<noteq> [] \<and>
   find_conflicts demo_parser (\<lambda>_. []) (fst (detect_conflicts demo_parser (\<lambda>_. [])
     \<lparr>co_autoResolve = True, co_resolutionStrategy = Strategy_Allow\<rparr>
     [''||example.org^'', ''||test.com^'', ''@@||a.example.org^''])) = []"
proof -
  have "find_conflicts demo_parser (\<lambda>_. []) [''||example.org^'', ''||test.com^'', ''@@||a.example.org^''] \<noteq> []"
    by code_simp
  moreover have "find_conflicts demo_parser (\<lambda>_. []) (fst (detect_conflicts demo_parser (\<lambda>_. [])
     \<lparr>co_autoResolve = True, co_resolutionStrategy = Strategy_Allow\<rparr>
     [''||example.org^'', ''||test.com^'', ''@@||a.example.org^''])) = []"
    by (rule resolution_complete [THEN conjunct1]) simp
  ultimately show ?thesis by simp
qed

end
