(* ===== verification/Optimizer.thy ===== *)
theory Optimizer
  imports Conflicts
begin

text \<open>
  \<open>src/transformations/RuleOptimizerTransformation.ts\<close>: redundant host rules, pattern rewriting,
  duplicate modifiers and the optional merge of \<open>domain\<close> rules.  The counters of the statistics
  are results of the steps; the size reduction in percent, a ratio of two of them, is left out.
\<close>

record optimizer_options =
  oo_removeRedundant :: bool
  oo_mergeRules :: bool
  oo_simplifyModifiers :: bool
  oo_optimizePatterns :: bool
  oo_mergeThreshold :: nat

definition default_optimizer_options :: optimizer_options where
  "default_optimizer_options =
     \<lparr>oo_removeRedundant = True, oo_mergeRules = False, oo_simplifyModifiers = True,
      oo_optimizePatterns = True, oo_mergeThreshold = 3\<rparr>"

record optimization_stats =
  os_rulesOptimized :: nat
  os_redundantRemoved :: nat
  os_rulesMerged :: nat
  os_modifiersSimplified :: nat
  os_originalCount :: nat
  os_finalCount :: nat

definition comment_or_blank :: "jstr \<Rightarrow> bool" where
  "comment_or_blank t \<longleftrightarrow> t = [] \<or> starts_with t ''!'' \<or> starts_with t ''#''"

section \<open>Redundant rules\<close>

text \<open>The host of a line that the first pass puts into the map; other lines are kept.\<close>

definition plain_host :: "rule_parser \<Rightarrow> (any_rule \<Rightarrow> jstr) \<Rightarrow> jstr \<Rightarrow> jstr option" where
  "plain_host parser generate line =
     (let rule = js_trim line
      in if comment_or_blank rule \<or> starts_with rule ''@@'' then None
         else let props = loadAdblockRuleProperties parser generate rule
              in if ar_hostname props \<noteq> Some [] \<and> (ar_options props = None \<or> ar_options props = Some [])
                 then ar_hostname props else None)"

fun collect_hosts ::
  "rule_parser \<Rightarrow> (any_rule \<Rightarrow> jstr) \<Rightarrow> nat \<Rightarrow> (jstr \<times> nat) list \<Rightarrow> nat list \<Rightarrow> lines \<Rightarrow>
   (jstr \<times> nat) list \<times> nat list" where
  "collect_hosts parser generate i domainRules keepIndices [] = (domainRules, keepIndices)"
| "collect_hosts parser generate i domainRules keepIndices (line # rest) =
     (case plain_host parser generate line of
        None \<Rightarrow> collect_hosts parser generate (Suc i) domainRules (keepIndices @ [i]) rest
      | Some h \<Rightarrow>
          collect_hosts parser generate (Suc i)
            (if map_of domainRules h = None then domainRules @ [(h, i)] else domainRules) keepIndices rest)"

definition has_parent_rule :: "(jstr \<times> nat) list \<Rightarrow> jstr \<Rightarrow> bool" where
  "has_parent_rule domainRules hostname =
     list_ex (\<lambda>p. map_of domainRules p \<noteq> None) (strict_parents hostname)"

definition kept_indices :: "rule_parser \<Rightarrow> (any_rule \<Rightarrow> jstr) \<Rightarrow> lines \<Rightarrow> nat list" where
  "kept_indices parser generate rules =
     (let (domainRules, keepIndices) = collect_hosts parser generate 0 [] [] rules
      in keepIndices @ map snd (filter (\<lambda>(h, _). \<not> has_parent_rule domainRules h) domainRules))"

definition removeRedundantRules ::
  "rule_parser \<Rightarrow> (any_rule \<Rightarrow> jstr) \<Rightarrow> lines \<Rightarrow> lines \<times> nat" where
  "removeRedundantRules parser generate rules =
     (let (domainRules, _) = collect_hosts parser generate 0 [] [] rules
      in (nths rules (set (kept_indices parser generate rules)),
          length (filter (\<lambda>(h, _). has_parent_rule domainRules h) domainRules)))"

section \<open>Patterns and modifiers\<close>

definition host_slash :: "jstr \<Rightarrow> bool" where
  "host_slash s \<longleftrightarrow> starts_with s ''||'' \<and> ends_with s ''/'' \<and> 4 \<le> length s \<and>
     list_all (\<lambda>c. is_alnum c \<or> c = CHR ''.'' \<or> c = CHR ''-'') (butlast (drop 2 s))"

definition optimizePattern :: "jstr \<Rightarrow> jstr \<times> nat" where
  "optimizePattern rule =
     (let trimmed = js_trim rule
      in if comment_or_blank trimmed then (rule, 0)
         else let (o1, n1) = (if host_slash trimmed then (butlast trimmed @ ''^'', 1) else (trimmed, 0));
                  (o2, n2) = (if starts_with o1 ''||*'' then (''||'' @ drop 3 o1, 1) else (o1, 0));
                  (o3, n3) = (if ends_with o2 ''*^'' then (take (length o2 - 2) o2 @ ''^'', 1) else (o2, 0))
              in (o3, n1 + n2 + n3))"

definition optimizePatterns :: "lines \<Rightarrow> lines \<times> nat" where
  "optimizePatterns rules =
     (map (\<lambda>r. fst (optimizePattern r)) rules, sum_list (map (\<lambda>r. snd (optimizePattern r)) rules))"

fun unique_options :: "jstr set \<Rightarrow> rule_option list \<Rightarrow> rule_option list" where
  "unique_options seen [] = []"
| "unique_options seen (opt # opts) =
     (if option_text opt \<in> seen then unique_options seen opts
      else opt # unique_options (insert (option_text opt) seen) opts)"

definition TYPE_MODIFIERS :: "jstr list" where
  "TYPE_MODIFIERS = [''script'', ''image'', ''stylesheet'', ''font'', ''xmlhttprequest'', ''media'']"

definition remove_first_tilde :: "jstr \<Rightarrow> jstr" where
  "remove_first_tilde s =
     (case index_of ''~'' s of None \<Rightarrow> s | Some i \<Rightarrow> take i s @ drop (i + 1) s)"

definition simplifyModifier ::
  "rule_parser \<Rightarrow> (any_rule \<Rightarrow> jstr) \<Rightarrow> jstr \<Rightarrow> jstr \<times> nat" where
  "simplifyModifier parser generate rule =
     (let trimmed = js_trim rule
      in if comment_or_blank trimmed \<or> \<not> str_includes trimmed ''$'' then (rule, 0)
         else let props = loadAdblockRuleProperties parser generate trimmed
              in case ar_options props of
                   None \<Rightarrow> (rule, 0)
                 | Some opts \<Rightarrow>
                     if opts = [] then (rule, 0)
                     else let uniqueOptions = unique_options {} opts;
                              typeModifiers = filter (\<lambda>opt. List.member TYPE_MODIFIERS
                                 (remove_first_tilde (ro_name opt))) uniqueOptions;
                              negated = length (filter (\<lambda>opt. starts_with (ro_name opt) ''~'') typeModifiers);
                              n = length opts - length uniqueOptions +
                                (if negated = 5 \<and> length typeModifiers = negated then 1 else 0)
                          in (if length uniqueOptions \<noteq> length opts
                              then adblockRuleToString (props\<lparr>ar_options := Some uniqueOptions\<rparr>)
                              else rule, n))"

definition simplifyModifiers ::
  "rule_parser \<Rightarrow> (any_rule \<Rightarrow> jstr) \<Rightarrow> lines \<Rightarrow> lines \<times> nat" where
  "simplifyModifiers parser generate rules =
     (map (\<lambda>r. fst (simplifyModifier parser generate r)) rules,
      sum_list (map (\<lambda>r. snd (simplifyModifier parser generate r)) rules))"

section \<open>Merging\<close>

text \<open>The pattern and the \<open>domain\<close> value of a line that takes part in merging.\<close>

definition merge_key :: "rule_parser \<Rightarrow> (any_rule \<Rightarrow> jstr) \<Rightarrow> jstr \<Rightarrow> (jstr \<times> jstr) option" where
  "merge_key parser generate line =
     (let rule = js_trim line
      in if comment_or_blank rule then None
         else let props = loadAdblockRuleProperties parser generate rule;
                  domainOption = List.find (\<lambda>opt. ro_name opt = ''domain'')
                    (case ar_options props of None \<Rightarrow> [] | Some os \<Rightarrow> os)
              in case Option.bind domainOption ro_value of
                   None \<Rightarrow> None
                 | Some v \<Rightarrow> if ar_pattern props = [] \<or> v = [] then None else Some (ar_pattern props, v))"

record merge_group =
  mg_pattern :: jstr
  mg_domains :: "jstr list"
  mg_indices :: "nat list"

fun add_to_group :: "jstr \<Rightarrow> jstr \<Rightarrow> nat \<Rightarrow> merge_group list \<Rightarrow> merge_group list" where
  "add_to_group pattern domain i [] = [\<lparr>mg_pattern = pattern, mg_domains = [domain], mg_indices = [i]\<rparr>]"
| "add_to_group pattern domain i (g # gs) =
     (if mg_pattern g = pattern
      then g\<lparr>mg_domains := mg_domains g @ [domain], mg_indices := mg_indices g @ [i]\<rparr> # gs
      else g # add_to_group pattern domain i gs)"

fun merge_groups ::
  "rule_parser \<Rightarrow> (any_rule \<Rightarrow> jstr) \<Rightarrow> nat \<Rightarrow> merge_group list \<Rightarrow> lines \<Rightarrow> merge_group list" where
  "merge_groups parser generate i gs [] = gs"
| "merge_groups parser generate i gs (line # rest) =
     merge_groups parser generate (Suc i)
       (case merge_key parser generate line of None \<Rightarrow> gs | Some (p, d) \<Rightarrow> add_to_group p d i gs) rest"

definition mergeSimilarRules ::
  "rule_parser \<Rightarrow> (any_rule \<Rightarrow> jstr) \<Rightarrow> nat \<Rightarrow> lines \<Rightarrow> lines \<times> nat" where
  "mergeSimilarRules parser generate mergeThreshold rules =
     (let groups = filter (\<lambda>g. mergeThreshold \<le> length (mg_domains g))
                     (merge_groups parser generate 0 [] rules);
          indicesToRemove = concat (map (\<lambda>g. tl (mg_indices g)) groups);
          mergedRules = map (\<lambda>g. (hd (mg_indices g),
             mg_pattern g @ ''$domain='' @ join_with ''|'' (mg_domains g))) groups;
          rewritten = map (\<lambda>(rule, i). case map_of mergedRules i of Some m \<Rightarrow> m | None \<Rightarrow> rule)
             (zip rules [0 ..< length rules])
      in (nths rewritten (- set indicesToRemove),
          sum_list (map (\<lambda>g. length (mg_indices g) - 1) groups)))"

definition optimize ::
  "rule_parser \<Rightarrow> (any_rule \<Rightarrow> jstr) \<Rightarrow> optimizer_options \<Rightarrow> lines \<Rightarrow> lines \<times> optimization_stats" where
  "optimize parser generate opts rules =
     (let (r1, redundant) = (if oo_removeRedundant opts then removeRedundantRules parser generate rules
                             else (rules, 0));
          (r2, optimized) = (if oo_optimizePatterns opts then optimizePatterns r1 else (r1, 0));
          (r3, simplified) = (if oo_simplifyModifiers opts then simplifyModifiers parser generate r2
                              else (r2, 0));
          (r4, merged) = (if oo_mergeRules opts
                          then mergeSimilarRules parser generate (oo_mergeThreshold opts) r3 else (r3, 0))
      in (r4, \<lparr>os_rulesOptimized = optimized, os_redundantRemoved = redundant, os_rulesMerged = merged,
               os_modifiersSimplified = simplified, os_originalCount = length rules,
               os_finalCount = length r4\<rparr>))"

section \<open>Removing redundant rules loses no host\<close>

lemma collect_hosts_facts:
  assumes "collect_hosts parser generate i m keep rules = (m', keep')"
  shows "(\<forall>h. h \<in> fst ` set m' \<longleftrightarrow> h \<in> fst ` set m \<or>
       (\<exists>j < length rules. plain_host parser generate (rules ! j) = Some h)) \<and>
    (\<forall>h k. (h, k) \<in> set m' \<longrightarrow> (h, k) \<in> set m \<or>
       (\<exists>j < length rules. k = i + j \<and> plain_host parser generate (rules ! j) = Some h)) \<and>
    (\<forall>k. k \<in> set keep' \<longleftrightarrow> k \<in> set keep \<or>
       (\<exists>j < length rules. k = i + j \<and> plain_host parser generate (rules ! j) = None))"
  using assms
proof (induction rules arbitrary: i m keep)
  case (Cons line rest)
  note ex = length_Cons Ex_less_Suc2 nth_Cons_0 nth_Cons_Suc add_0_right
  show ?case
  proof (cases "plain_host parser generate line")
    case None
    then have "collect_hosts parser generate (Suc i) m (keep @ [i]) rest = (m', keep')"
      using Cons.prems by simp
    from Cons.IH [OF this] None show ?thesis unfolding ex by auto
  next
    case (Some h)
    let ?d = "if map_of m h = None then m @ [(h, i)] else m"
    have "collect_hosts parser generate (Suc i) ?d keep rest = (m', keep')"
      using Cons.prems Some by simp
    from Cons.IH [OF this]
    have ih: "(\<forall>h. h \<in> fst ` set m' \<longleftrightarrow> h \<in> fst ` set ?d \<or>
         (\<exists>j < length rest. plain_host parser generate (rest ! j) = Some h))"
      "(\<forall>h k. (h, k) \<in> set m' \<longrightarrow> (h, k) \<in> set ?d \<or>
         (\<exists>j < length rest. k = Suc i + j \<and> plain_host parser generate (rest ! j) = Some h))"
      "(\<forall>k. k \<in> set keep' \<longleftrightarrow> k \<in> set keep \<or>
         (\<exists>j < length rest. k = Suc i + j \<and> plain_host parser generate (rest ! j) = None))"
      by blast+
    have d: "fst ` set ?d = insert h (fst ` set m)" by (auto simp: map_of_eq_None_iff)
    have d2: "(h', k) \<in> set m \<or> (h' = h \<and> k = i)" if "(h', k) \<in> set ?d" for h' k
      using that by (auto split: if_splits)
    have c2: "(h', k) \<in> set m \<or> (h' = h \<and> k = i) \<or>
        (\<exists>j < length rest. k = Suc i + j \<and> plain_host parser generate (rest ! j) = Some h')"
      if "(h', k) \<in> set m'" for h' k using ih(2) d2 that by blast
    have mid: "\<forall>h' k. (h', k) \<in> set m' \<longrightarrow> (h', k) \<in> set m \<or> k = i \<and> Some h = Some h' \<or>
        (\<exists>j < length rest. k = i + Suc j \<and> plain_host parser generate (rest ! j) = Some h')"
      using c2 by fastforce
    show ?thesis unfolding ex Some
    proof (intro conjI)
      show "\<forall>h' k. (h', k) \<in> set m' \<longrightarrow> (h', k) \<in> set m \<or> k = i \<and> Some h = Some h' \<or>
        (\<exists>j < length rest. k = i + Suc j \<and> plain_host parser generate (rest ! j) = Some h')"
        by (rule mid)
    qed (use ih(1,3) in \<open>auto simp: d\<close>)
  qed
qed simp

lemma strict_parents_iff:
  "p \<in> set (strict_parents h) \<longleftrightarrow>
   (\<exists>j. 1 \<le> j \<and> j + 1 < length (split_on CHR ''.'' h) \<and> p = join_with ''.'' (drop j (split_on CHR ''.'' h)))"
  by (auto simp: strict_parents_def Let_def image_iff less_diff_conv Bex_def)

lemma split_join_drop:
  "j < length (split_on d h) \<Longrightarrow> split_on d (join_with [d] (drop j (split_on d h))) = drop j (split_on d h)"
  by (rule split_join) (auto dest: in_set_dropD split_on_no_sep)

lemma strict_parents_trans:
  assumes "q \<in> set (strict_parents p)" and "p \<in> set (strict_parents h)"
  shows "q \<in> set (strict_parents h)"
proof -
  let ?s = "split_on CHR ''.''"
  obtain j where j: "1 \<le> j" "j + 1 < length (?s h)" "p = join_with ''.'' (drop j (?s h))"
    using assms(2) by (auto simp: strict_parents_iff)
  obtain k where k: "1 \<le> k" "k + 1 < length (?s p)" "q = join_with ''.'' (drop k (?s p))"
    using assms(1) by (auto simp: strict_parents_iff)
  have p: "?s p = drop j (?s h)" using j split_join_drop [of j "CHR ''.''" h] by simp
  have "q = join_with ''.'' (drop (j + k) (?s h))" "j + k + 1 < length (?s h)"
    using k p by (simp_all add: add.commute)
  then show ?thesis using j(1) unfolding strict_parents_iff by (intro exI [of _ "j + k"]) simp
qed

lemma strict_parents_fewer:
  "p \<in> set (strict_parents h) \<Longrightarrow> length (split_on CHR ''.'' p) < length (split_on CHR ''.'' h)"
  by (auto simp: strict_parents_iff split_join_drop)

text \<open>
  Removing redundant rules loses no blocked host: every line that goes is a rule for one host
  without modifiers, and a line that stays is a rule without modifiers for the same host or
  for one of its parent domains; the lines that stay keep their order.
\<close>

theorem redundant_rules_covered:
  "subseq (fst (removeRedundantRules parser generate rules)) rules \<and>
   list_all (\<lambda>line. line \<in> set (fst (removeRedundantRules parser generate rules)) \<or>
     (\<exists>h. plain_host parser generate line = Some h \<and>
       (\<exists>line' \<in> set (fst (removeRedundantRules parser generate rules)). \<exists>p.
          plain_host parser generate line' = Some p \<and> (p = h \<or> p \<in> set (strict_parents h))))) rules"
proof -
  let ?P = "plain_host parser generate"
  obtain m keep where ck: "collect_hosts parser generate 0 [] [] rules = (m, keep)" by force
  note facts = collect_hosts_facts [OF ck, simplified]
  let ?K = "set (kept_indices parser generate rules)"
  have K: "?K = set keep \<union> snd ` {(h, k) \<in> set m. \<not> has_parent_rule m h}"
    by (force simp: kept_indices_def ck)
  have out: "fst (removeRedundantRules parser generate rules) = nths rules ?K"
    by (simp add: removeRedundantRules_def ck)
  have cover: "\<exists>k < length rules. k \<in> ?K \<and> (\<exists>p. ?P (rules ! k) = Some p \<and> (p = h \<or> p \<in> set (strict_parents h)))"
    if "h \<in> fst ` set m" for h
    using that
  proof (induction "length (split_on CHR ''.'' h)" arbitrary: h rule: less_induct)
    case less
    then obtain k where k: "(h, k) \<in> set m" by force
    show ?case
    proof (cases "has_parent_rule m h")
      case False
      then have "k \<in> ?K" using k unfolding K by force
      then show ?thesis using k facts by blast
    next
      case True
      then obtain p where p: "p \<in> set (strict_parents h)" "p \<in> fst ` set m"
        by (auto simp: has_parent_rule_def list_ex_iff map_of_eq_None_iff)
      from less.hyps [OF strict_parents_fewer [OF p(1)] p(2)] obtain k q where
        "k < length rules" "k \<in> ?K" "?P (rules ! k) = Some q" "q = p \<or> q \<in> set (strict_parents p)" by blast
      then show ?thesis using p(1) strict_parents_trans by blast
    qed
  qed
  have "line \<in> set (nths rules ?K) \<or> (\<exists>h. ?P line = Some h \<and> (\<exists>line' \<in> set (nths rules ?K). \<exists>p.
      ?P line' = Some p \<and> (p = h \<or> p \<in> set (strict_parents h))))" if line: "line \<in> set rules" for line
  proof -
    obtain j where j: "j < length rules" "line = rules ! j" using line by (auto simp: in_set_conv_nth)
    show ?thesis
    proof (cases "?P line")
      case None
      then have "j \<in> ?K" using facts j K by blast
      then show ?thesis using j by (auto simp: set_nths)
    next
      case (Some h)
      then have "h \<in> fst ` set m" using facts j by blast
      from cover [OF this] obtain k p where "k < length rules" "k \<in> ?K" "?P (rules ! k) = Some p"
        "p = h \<or> p \<in> set (strict_parents h)" by blast
      then show ?thesis using Some by (auto simp: set_nths)
    qed
  qed
  then show ?thesis by (simp add: out kept list_all_iff)
qed

section \<open>Modifiers and patterns\<close>

lemma unique_options_facts:
  "set (map option_text (unique_options seen opts)) = set (map option_text opts) - seen \<and>
   distinct (map option_text (unique_options seen opts)) \<and> subseq (unique_options seen opts) opts"
  by (induction seen opts rule: unique_options.induct) auto

text \<open>
  Simplifying modifiers only removes repetitions: each line stays as it is, or it becomes the
  text of the same rule (exception mark and pattern) with a subsequence of its modifiers in
  which every modifier text of the rule is there exactly once.
\<close>

theorem simplify_removes_repetitions:
  "fst (simplifyModifier parser generate line) = line \<or>
   (\<exists>opts opts'. let props = loadAdblockRuleProperties parser generate (js_trim line)
      in ar_options props = Some opts \<and> subseq opts' opts \<and> distinct (map option_text opts') \<and>
         set (map option_text opts') = set (map option_text opts) \<and>
         fst (simplifyModifier parser generate line) = adblockRuleToString (props\<lparr>ar_options := Some opts'\<rparr>))"
proof -
  let ?props = "loadAdblockRuleProperties parser generate (js_trim line)"
  have u: "subseq (unique_options {} os) os" "distinct (map option_text (unique_options {} os))"
    "set (map option_text (unique_options {} os)) = set (map option_text os)" for os
    using unique_options_facts [of "{}" os] by auto
  show ?thesis
  proof (cases "fst (simplifyModifier parser generate line) = line")
    case False
    then obtain opts where "ar_options ?props = Some opts"
      "fst (simplifyModifier parser generate line) =
       adblockRuleToString (?props\<lparr>ar_options := Some (unique_options {} opts)\<rparr>)"
      by (cases "ar_options ?props") (auto simp: simplifyModifier_def Let_def split: if_splits)
    then show ?thesis unfolding Let_def using u by blast
  qed simp
qed

text \<open>
  The pattern step breaks the rules for the subdomains of a host: \<open>||*.host^\<close> loses its star
  as an unnecessary wildcard and becomes \<open>||.host^\<close>, a rule for a host that starts with a
  dot.
\<close>

theorem optimize_breaks_subdomain_rules:
  assumes "d = [] \<or> last d \<noteq> CHR ''*''"
  shows "optimizePattern (''||*.'' @ d @ ''^'') = (''||.'' @ d @ ''^'', 1)"
proof -
  have "js_trim (''||*.'' @ d @ ''^'') = ''||*.'' @ d @ ''^''"
    by (rule js_trim_tight) (simp add: is_ws_def)
  moreover have "\<not> ends_with (''||.'' @ d @ ''^'') ''*^''"
    using assms by (cases d rule: rev_cases) (auto simp: suffix_def append_eq_append_conv2 Cons_eq_append_conv)
  moreover have "\<not> host_slash (''||*.'' @ d @ ''^'')"
    by (auto simp: host_slash_def is_alnum_def is_letter_def is_lower_def is_upper_def is_digit_def code_in_def)
  ultimately show ?thesis by (simp add: optimizePattern_def comment_or_blank_def Let_def)
qed

theorem optimize_breaks_subdomain_rules_witness:
  "optimizePattern ''||*.example.org^'' = (''||.example.org^'', 1)"
  using optimize_breaks_subdomain_rules [of "''example.org''"] by simp

definition exception_for :: "jstr \<Rightarrow> jstr \<Rightarrow> network_rule" where
  "exception_for p d = \<lparr>nr_exception = True, nr_pattern = p,
     nr_modifiers = Some [\<lparr>mod_name = ''domain'', mod_value = Some d, mod_exception = False\<rparr>],
     nr_syntax = Common, nr_raw = Some (''@@'' @ p @ ''$domain='' @ d)\<rparr>"

lemma merge_key_exception:
  assumes "parser (''@@'' @ p @ ''$domain='' @ d) = Inr (NetworkRule (exception_for p d))"
    and "p \<noteq> []" and "d \<noteq> []" and "\<not> is_ws (last d)"
  shows "merge_key parser generate (''@@'' @ p @ ''$domain='' @ d) = Some (p, d)"
proof -
  have "js_trim (''@@'' @ p @ ''$domain='' @ d) = ''@@'' @ p @ ''$domain='' @ d"
    using assms(3,4) by (intro js_trim_tight) (simp add: is_ws_def)
  moreover from this have "parsed parser (''@@'' @ p @ ''$domain='' @ d) = Some (NetworkRule (exception_for p d))"
    using assms(1) by (simp add: parsed_def ag_parse_def Let_def)
  ultimately show ?thesis using assms(2,3)
    by (simp add: merge_key_def comment_or_blank_def loadAdblockRuleProperties_def exception_for_def
        extractNetworkRuleProperties_def option_of_modifier_def Let_def)
qed

text \<open>
  Merging turns exceptions into blocking rules: three exception rules of one pattern, each for
  a \<open>domain\<close>, are merged into one rule made of the pattern and the domains, without the
  exception mark, which blocks what the three allowed.
\<close>

theorem merge_blocks_exceptions:
  assumes "\<forall>d \<in> {a, b, c}. parser (''@@'' @ p @ ''$domain='' @ d) = Inr (NetworkRule (exception_for p d))"
    and "p \<noteq> []" and "\<forall>d \<in> {a, b, c}. d \<noteq> [] \<and> \<not> is_ws (last d)"
  shows "fst (mergeSimilarRules parser generate 3 (map (\<lambda>d. ''@@'' @ p @ ''$domain='' @ d) [a, b, c])) =
    [p @ ''$domain='' @ a @ ''|'' @ b @ ''|'' @ c]"
proof -
  have k: "merge_key parser generate (''@@'' @ p @ ''$domain='' @ d) = Some (p, d)" if "d \<in> {a, b, c}" for d
    using assms that by (intro merge_key_exception) auto
  then have "merge_groups parser generate 0 [] (map (\<lambda>d. ''@@'' @ p @ ''$domain='' @ d) [a, b, c]) =
      [\<lparr>mg_pattern = p, mg_domains = [a, b, c], mg_indices = [0, 1, 2]\<rparr>]"
    by (simp add: numeral_2_eq_2)
  then show ?thesis by (simp add: mergeSimilarRules_def Let_def upt_rec nths_Cons)
qed

theorem merge_blocks_exceptions_witness:
  "fst (mergeSimilarRules (\<lambda>t. Inr (NetworkRule (exception_for ''||cdn.net^'' (drop 20 t)))) (\<lambda>_. []) 3
     [''@@||cdn.net^$domain=a.com'', ''@@||cdn.net^$domain=b.com'', ''@@||cdn.net^$domain=c.com'']) =
   [''||cdn.net^$domain=a.com|b.com|c.com'']"
  using merge_blocks_exceptions [of "''a.com''" "''b.com''" "''c.com''"
      "\<lambda>t. Inr (NetworkRule (exception_for ''||cdn.net^'' (drop 20 t)))" "''||cdn.net^''"]
  by (simp add: is_ws_def)

end
