(* ===== verification/Patterns.thy ===== *)
theory Patterns
  imports RuleSyntax
begin

text \<open>
  Exclusion and inclusion patterns: \<open>src/utils/Wildcard.ts\<close>, \<open>src/services/FilterService.ts\<close>,
  \<open>src/filters/RuleFilter.ts\<close> and the transformations \<open>Exclude\<close> and \<open>Include\<close>.

  A regular expression that a user writes between slashes is the parameter \<open>regexp\<close>: it gives
  the test of an expression compiled with the flags \<open>mi\<close>, or the message of the syntax error.
  The download of a pattern list is the parameter \<open>download\<close>.  The downloads of several sources
  run in parallel in the code; the model reports the first failing source in list order.
\<close>

section \<open>Wildcards\<close>

type_synonym regexp_engine = "jstr \<Rightarrow> jstr + (jstr \<Rightarrow> bool)"

datatype matcher = PlainMatcher | GlobMatcher "jstr list" | RegexMatcher jstr

record wildcard =
  wc_plainStr :: jstr
  wc_matcher :: matcher

datatype pattern_error = EmptyWildcard | BadRegexp jstr | SourceDownloadError jstr jstr

text \<open>\<open>pattern.split(/\*+/)\<close>: runs of stars separate.\<close>

fun collapse_stars :: "jstr \<Rightarrow> jstr" where
  "collapse_stars (a # b # s) =
     (if a = CHR ''*'' \<and> b = CHR ''*'' then collapse_stars (b # s) else a # collapse_stars (b # s))"
| "collapse_stars s = s"

definition split_stars :: "jstr \<Rightarrow> jstr list" where
  "split_stars pattern = split_on CHR ''*'' (collapse_stars pattern)"

definition new_wildcard :: "regexp_engine \<Rightarrow> jstr \<Rightarrow> pattern_error + wildcard" where
  "new_wildcard regexp pattern =
     (if pattern = [] then Inl EmptyWildcard
      else if starts_with pattern ''/'' \<and> ends_with pattern ''/'' \<and> 2 < length pattern then
        (let src = substring pattern 1 (length pattern - 1)
         in case regexp src of
              Inl m \<Rightarrow> Inl (BadRegexp m)
            | Inr _ \<Rightarrow> Inr \<lparr>wc_plainStr = pattern, wc_matcher = RegexMatcher src\<rparr>)
      else if str_includes pattern ''*'' then
        Inr \<lparr>wc_plainStr = pattern, wc_matcher = GlobMatcher (split_stars pattern)\<rparr>
      else Inr \<lparr>wc_plainStr = pattern, wc_matcher = PlainMatcher\<rparr>)"

text \<open>The expression \<open>^p1[\s\S]*p2 ... $\<close> with the flag \<open>i\<close>, for the escaped parts.\<close>

definition ci_prefix :: "jstr \<Rightarrow> jstr \<Rightarrow> bool" where
  "ci_prefix p s \<longleftrightarrow> prefix (to_lower p) (to_lower s)"

fun match_parts :: "jstr list \<Rightarrow> jstr \<Rightarrow> bool" where
  "match_parts [] s = (s = [])"
| "match_parts [p] s = (to_lower p = to_lower s)"
| "match_parts (p # q # ps) s =
     (ci_prefix p s \<and>
      (let rest = drop (length p) s
       in list_ex (\<lambda>i. match_parts (q # ps) (drop i rest)) [0 ..< length rest + 1]))"

definition wildcard_test :: "regexp_engine \<Rightarrow> wildcard \<Rightarrow> jstr \<Rightarrow> bool" where
  "wildcard_test regexp w s =
     (case wc_matcher w of
        RegexMatcher src \<Rightarrow> (case regexp src of Inr test \<Rightarrow> test s | Inl _ \<Rightarrow> False)
      | GlobMatcher parts \<Rightarrow> match_parts parts s
      | PlainMatcher \<Rightarrow> str_includes s (wc_plainStr w))"

definition wc_isRegex :: "wildcard \<Rightarrow> bool" where
  "wc_isRegex w \<longleftrightarrow> wc_matcher w \<noteq> PlainMatcher \<and> starts_with (wc_plainStr w) ''/''"

definition wc_isWildcard :: "wildcard \<Rightarrow> bool" where
  "wc_isWildcard w \<longleftrightarrow> wc_matcher w \<noteq> PlainMatcher \<and> \<not> starts_with (wc_plainStr w) ''/''"

definition wc_isPlain :: "wildcard \<Rightarrow> bool" where
  "wc_isPlain w \<longleftrightarrow> wc_matcher w = PlainMatcher"

section \<open>FilterService\<close>

type_synonym list_download = "jstr \<Rightarrow> jstr + lines"

fun downloadAll :: "rule_parser \<Rightarrow> list_download \<Rightarrow> jstr list \<Rightarrow> pattern_error + lines" where
  "downloadAll parser download [] = Inr []"
| "downloadAll parser download (source # sources) =
     (case download source of
        Inl m \<Rightarrow> Inl (SourceDownloadError source m)
      | Inr rulesStr \<Rightarrow>
          (case downloadAll parser download sources of
             Inl e \<Rightarrow> Inl e
           | Inr rest \<Rightarrow>
               Inr (filter (\<lambda>el. 0 < length (js_trim el) \<and> \<not> isComment parser el) rulesStr @ rest)))"

text \<open>\<open>new Set(xs)\<close> keeps the first occurrence of each element.\<close>

fun set_order :: "jstr set \<Rightarrow> jstr list \<Rightarrow> jstr list" where
  "set_order seen [] = []"
| "set_order seen (x # xs) = (if x \<in> seen then set_order seen xs else x # set_order (insert x seen) xs)"

fun sum_list_map :: "('a \<Rightarrow> 'e + 'b) \<Rightarrow> 'a list \<Rightarrow> 'e + 'b list" where
  "sum_list_map f [] = Inr []"
| "sum_list_map f (x # xs) =
     (case f x of Inl e \<Rightarrow> Inl e
      | Inr y \<Rightarrow> (case sum_list_map f xs of Inl e \<Rightarrow> Inl e | Inr ys \<Rightarrow> Inr (y # ys)))"

definition prepareWildcards ::
  "rule_parser \<Rightarrow> list_download \<Rightarrow> regexp_engine \<Rightarrow> jstr list \<Rightarrow> jstr list \<Rightarrow>
   pattern_error + wildcard list" where
  "prepareWildcards parser download regexp rulesList sources =
     (case downloadAll parser download sources of
        Inl e \<Rightarrow> Inl e
      | Inr downloadedList \<Rightarrow>
          sum_list_map (new_wildcard regexp)
            (filter (\<lambda>r. r \<noteq> []) (set_order {} (rulesList @ downloadedList))))"

section \<open>The three filters\<close>

datatype filter_mode = Exclusion | Inclusion

text \<open>\<open>RuleFilter\<close>: plain patterns first, then the others.\<close>

definition ruleMatches :: "regexp_engine \<Rightarrow> jstr \<Rightarrow> jstr list \<Rightarrow> wildcard list \<Rightarrow> bool" where
  "ruleMatches regexp rule plainPatterns regexWildcards \<longleftrightarrow>
     (if list_ex (\<lambda>p. str_includes rule p) plainPatterns then True
      else list_ex (\<lambda>w. wildcard_test regexp w rule) regexWildcards)"

definition filterRules :: "regexp_engine \<Rightarrow> lines \<Rightarrow> wildcard list \<Rightarrow> filter_mode \<Rightarrow> lines" where
  "filterRules regexp rules wildcards mode =
     (let plainPatterns = map wc_plainStr (filter wc_isPlain wildcards);
          regexWildcards = filter (\<lambda>w. \<not> wc_isPlain w) wildcards
      in filter (\<lambda>rule. let matches = ruleMatches regexp rule plainPatterns regexWildcards
                        in if mode = Exclusion then \<not> matches else matches) rules)"

definition rulefilter_apply ::
  "rule_parser \<Rightarrow> list_download \<Rightarrow> regexp_engine \<Rightarrow> filter_mode \<Rightarrow> lines \<Rightarrow> jstr list \<Rightarrow> jstr list \<Rightarrow> lines" where
  "rulefilter_apply parser download regexp mode rules patterns sources =
     (if patterns = [] \<and> sources = [] then rules
      else case prepareWildcards parser download regexp patterns sources of
          Inl _ \<Rightarrow> rules
        | Inr wildcards \<Rightarrow> if wildcards = [] then rules else filterRules regexp rules wildcards mode)"

text \<open>\<open>ExcludeTransformation\<close> and \<open>IncludeTransformation\<close>.\<close>

definition exclude_execute ::
  "rule_parser \<Rightarrow> list_download \<Rightarrow> regexp_engine \<Rightarrow> lines \<Rightarrow> jstr list \<Rightarrow> jstr list \<Rightarrow> pattern_error + lines" where
  "exclude_execute parser download regexp rules patterns sources =
     (if patterns = [] \<and> sources = [] then Inr rules
      else case prepareWildcards parser download regexp patterns sources of
          Inl e \<Rightarrow> Inl e
        | Inr wildcards \<Rightarrow>
            if wildcards = [] then Inr rules
            else Inr (filter (\<lambda>rule. \<not> list_ex (\<lambda>w. wildcard_test regexp w rule) wildcards) rules))"

definition include_execute ::
  "rule_parser \<Rightarrow> list_download \<Rightarrow> regexp_engine \<Rightarrow> lines \<Rightarrow> jstr list \<Rightarrow> jstr list \<Rightarrow> pattern_error + lines" where
  "include_execute parser download regexp rules patterns sources =
     (if patterns = [] \<and> sources = [] then Inr rules
      else case prepareWildcards parser download regexp patterns sources of
          Inl e \<Rightarrow> Inl e
        | Inr wildcards \<Rightarrow>
            if wildcards = [] then Inr rules
            else Inr (filter (\<lambda>rule. list_ex (\<lambda>w. wildcard_test regexp w rule) wildcards) rules))"

definition excludeWithWildcards :: "regexp_engine \<Rightarrow> lines \<Rightarrow> wildcard list \<Rightarrow> lines" where
  "excludeWithWildcards regexp rules wildcards =
     (if wildcards = [] then rules
      else filter (\<lambda>rule. \<not> list_ex (\<lambda>w. wildcard_test regexp w rule) wildcards) rules)"

definition includeWithWildcards :: "regexp_engine \<Rightarrow> lines \<Rightarrow> wildcard list \<Rightarrow> lines" where
  "includeWithWildcards regexp rules wildcards =
     (if wildcards = [] then []
      else filter (\<lambda>rule. list_ex (\<lambda>w. wildcard_test regexp w rule) wildcards) rules)"

text \<open>\<open>TransformationPipeline.applyPatternFilter\<close>: the plain patterns become one escaped alternation.\<close>

definition applyPatternFilter ::
  "rule_parser \<Rightarrow> list_download \<Rightarrow> regexp_engine \<Rightarrow> filter_mode \<Rightarrow> lines \<Rightarrow> jstr list \<Rightarrow> jstr list \<Rightarrow>
   pattern_error + lines" where
  "applyPatternFilter parser download regexp mode rules patterns sources =
     (if patterns = [] \<and> sources = [] then Inr rules
      else case prepareWildcards parser download regexp patterns sources of
          Inl e \<Rightarrow> Inl e
        | Inr wildcards \<Rightarrow>
            if wildcards = [] then Inr rules
            else let plainPatterns = map wc_plainStr (filter wc_isPlain wildcards);
                     regexWildcards = filter (\<lambda>w. \<not> wc_isPlain w) wildcards;
                     matchesPattern = (\<lambda>rule.
                       if plainPatterns \<noteq> [] \<and> list_ex (str_includes rule) plainPatterns then True
                       else list_ex (\<lambda>w. wildcard_test regexp w rule) regexWildcards)
                 in Inr (if mode = Exclusion then filter (\<lambda>rule. \<not> matchesPattern rule) rules
                         else filter matchesPattern rules))"

section \<open>What a wildcard matches\<close>

text \<open>The specification of a pattern with stars: a star matches any text, case does not matter.\<close>

fun glob :: "jstr \<Rightarrow> jstr \<Rightarrow> bool" where
  "glob [] s = (s = [])"
| "glob (c # p) s =
     (if c = CHR ''*'' then list_ex (\<lambda>i. glob p (drop i s)) [0 ..< length s + 1]
      else (case s of [] \<Rightarrow> False | d # s' \<Rightarrow> lower_char c = lower_char d \<and> glob p s'))"

lemma list_ex_upto: "list_ex Q [0 ..< n + 1] \<longleftrightarrow> (\<exists>i \<le> n. Q i)"
  by (auto simp: list_ex_iff less_Suc_eq_le simp del: upt_Suc)

lemma glob_star_iff: "glob (CHR ''*'' # p) s \<longleftrightarrow> (\<exists>i \<le> length s. glob p (drop i s))"
  by (simp only: glob.simps if_True list_ex_upto simp_thms)

lemma glob_two_stars: "glob (CHR ''*'' # CHR ''*'' # p) s = glob (CHR ''*'' # p) s"
proof
  assume "glob (CHR ''*'' # CHR ''*'' # p) s"
  then obtain i j where "i \<le> length s" "j \<le> length (drop i s)" "glob p (drop j (drop i s))"
    unfolding glob_star_iff by blast
  then show "glob (CHR ''*'' # p) s" unfolding glob_star_iff
    by (intro exI [of _ "j + i"]) auto
next
  assume "glob (CHR ''*'' # p) s"
  then show "glob (CHR ''*'' # CHR ''*'' # p) s"
    unfolding glob_star_iff [of "CHR ''*'' # p"] by (intro exI [of _ 0]) simp
qed

lemma glob_cong_tail: "(\<And>s. glob p s = glob q s) \<Longrightarrow> glob (c # p) s = glob (c # q) s"
  by (cases s) simp_all

lemma glob_collapse: "glob (collapse_stars p) s = glob p s"
proof (induction p arbitrary: s rule: collapse_stars.induct)
  case (1 a b p)
  show ?case
  proof (cases "a = CHR ''*'' \<and> b = CHR ''*''")
    case True
    then show ?thesis using 1(1) glob_two_stars [of p s] by simp
  next
    case False
    then have "collapse_stars (a # b # p) = a # collapse_stars (b # p)" by simp
    then show ?thesis using glob_cong_tail [of "collapse_stars (b # p)" "b # p" a s] 1(2) [OF False] by simp
  qed
qed simp_all

lemma glob_literal:
  "CHR ''*'' \<notin> set w \<Longrightarrow> glob (w @ p) s \<longleftrightarrow> ci_prefix w s \<and> glob p (drop (length w) s)"
proof (induction w arbitrary: s)
  case (Cons c w)
  then show ?case by (cases s) (auto simp: ci_prefix_def to_lower_def)
qed (simp add: ci_prefix_def)

lemma glob_literal_only: "CHR ''*'' \<notin> set w \<Longrightarrow> glob w s \<longleftrightarrow> to_lower w = to_lower s"
proof (induction w arbitrary: s)
  case (Cons c w)
  then show ?case by (cases s) (auto simp: to_lower_def)
qed (auto simp: to_lower_def)

lemma str_includes_char: "str_includes s [c] \<longleftrightarrow> c \<in> set s"
  by (induction s) (auto simp: str_includes_def)

lemma match_parts_glob:
  "ws \<noteq> [] \<Longrightarrow> \<forall>w \<in> set ws. CHR ''*'' \<notin> set w \<Longrightarrow> match_parts ws s = glob (join_with ''*'' ws) s"
proof (induction ws s rule: match_parts.induct)
  case (3 p q ps s)
  have "match_parts (q # ps) t = glob (join_with ''*'' (q # ps)) t" if "t = drop i (drop (length p) s)"
    "i \<in> set [0 ..< length (drop (length p) s) + 1]" for i t
    using 3 that by auto
  then have "list_ex (\<lambda>i. match_parts (q # ps) (drop i (drop (length p) s))) [0 ..< length (drop (length p) s) + 1]
      = list_ex (\<lambda>i. glob (join_with ''*'' (q # ps)) (drop i (drop (length p) s))) [0 ..< length (drop (length p) s) + 1]"
    by (auto simp: list_ex_iff)
  moreover have "glob (join_with ''*'' (p # q # ps)) s \<longleftrightarrow> ci_prefix p s \<and>
      glob (CHR ''*'' # join_with ''*'' (q # ps)) (drop (length p) s)"
    using glob_literal [of p "CHR ''*'' # join_with ''*'' (q # ps)" s] 3(3) by simp
  ultimately show ?case by (simp add: Let_def)
qed (simp_all add: glob_literal_only)

text \<open>
  C21. A wildcard pattern means what it says: a pattern that is not between slashes and has a star
  matches a rule exactly when the whole rule can be read along the pattern, each star standing
  for any text and letters compared without case; a pattern without star matches the rules that
  contain it.
\<close>

theorem wildcard_meaning:
  assumes "pattern \<noteq> []" and "\<not> starts_with pattern ''/''"
  shows "\<exists>w. new_wildcard regexp pattern = Inr w \<and> wc_plainStr w = pattern \<and>
    (\<forall>s. wildcard_test regexp w s =
       (if CHR ''*'' \<in> set pattern then glob pattern s else str_includes s pattern))"
proof (cases "CHR ''*'' \<in> set pattern")
  case True
  then have inc: "str_includes pattern ''*''" by (simp add: str_includes_char)
  have "match_parts (split_stars pattern) s = glob pattern s" for s
    using match_parts_glob [of "split_stars pattern" s] split_on_no_sep [of _ "CHR ''*''" "collapse_stars pattern"]
    by (auto simp: split_stars_def glob_collapse)
  then show ?thesis using True inc assms
    by (auto simp: new_wildcard_def wildcard_test_def)
next
  case False
  then have "\<not> str_includes pattern ''*''" by (simp add: str_includes_char)
  then show ?thesis using False assms
    by (auto simp: new_wildcard_def wildcard_test_def)
qed

theorem wildcard_meaning_witness:
  "\<exists>w. new_wildcard (\<lambda>_. Inl ''none'') ''||*.Ad**^'' = Inr w \<and>
     wildcard_test (\<lambda>_. Inl ''none'') w ''||e.ads^'' \<and>
     \<not> wildcard_test (\<lambda>_. Inl ''none'') w ''@@||e.ads^''"
proof -
  have "''||*.Ad**^'' \<noteq> []" "\<not> starts_with ''||*.Ad**^'' ''/''" by simp_all
  from wildcard_meaning [OF this, of "\<lambda>_. Inl ''none''"] obtain w where
    w: "new_wildcard (\<lambda>_. Inl ''none'') ''||*.Ad**^'' = Inr w"
    "\<forall>s. wildcard_test (\<lambda>_. Inl ''none'') w s = glob ''||*.Ad**^'' s" by auto
  have "glob ''||*.Ad**^'' ''||e.ads^''" "\<not> glob ''||*.Ad**^'' ''@@||e.ads^''"
    by code_simp+
  then show ?thesis using w by auto
qed

section \<open>The three filters agree\<close>

lemma partition_matches:
  "list_ex (str_includes rule) (map wc_plainStr (filter wc_isPlain ws)) \<or>
   list_ex (\<lambda>w. wildcard_test regexp w rule) (filter (\<lambda>w. \<not> wc_isPlain w) ws) \<longleftrightarrow>
   list_ex (\<lambda>w. wildcard_test regexp w rule) ws"
  by (induction ws) (auto simp: wc_isPlain_def wildcard_test_def)

lemma ruleMatches_any:
  "ruleMatches regexp rule (map wc_plainStr (filter wc_isPlain ws)) (filter (\<lambda>w. \<not> wc_isPlain w) ws) =
   list_ex (\<lambda>w. wildcard_test regexp w rule) ws"
  using partition_matches [of rule ws regexp] by (auto simp: ruleMatches_def)

lemma filterRules_any:
  "filterRules regexp rules ws mode =
   filter (\<lambda>rule. list_ex (\<lambda>w. wildcard_test regexp w rule) ws \<noteq> (mode = Exclusion)) rules"
  by (auto simp: filterRules_def ruleMatches_any Let_def intro!: filter_cong)

lemma pattern_matches:
  "(if map wc_plainStr (filter wc_isPlain ws) \<noteq> [] \<and> list_ex (str_includes rule) (map wc_plainStr (filter wc_isPlain ws))
    then True else list_ex (\<lambda>w. wildcard_test regexp w rule) (filter (\<lambda>w. \<not> wc_isPlain w) ws)) =
   list_ex (\<lambda>w. wildcard_test regexp w rule) ws"
  using partition_matches [of rule ws regexp] by (cases "filter wc_isPlain ws") auto

lemma applyPatternFilter_any:
  "applyPatternFilter parser download regexp mode rules patterns sources =
     (if patterns = [] \<and> sources = [] then Inr rules
      else case prepareWildcards parser download regexp patterns sources of
          Inl e \<Rightarrow> Inl e
        | Inr ws \<Rightarrow> if ws = [] then Inr rules else
            Inr (filter (\<lambda>rule. list_ex (\<lambda>w. wildcard_test regexp w rule) ws \<noteq> (mode = Exclusion)) rules))"
  unfolding applyPatternFilter_def Let_def pattern_matches
  by (auto split: sum.split intro!: filter_cong)

text \<open>
  The program has three filters for exclusions and inclusions and they agree: the optimised one of
  the pipeline (plain patterns in one expression, tested first) gives exactly the result of
  \<open>ExcludeTransformation\<close> and \<open>IncludeTransformation\<close>, errors included, and \<open>RuleFilter\<close> gives the
  same except that it answers an error with the unfiltered rules.
\<close>

theorem pattern_filters_agree:
  "applyPatternFilter parser download regexp Exclusion rules patterns sources =
     exclude_execute parser download regexp rules patterns sources \<and>
   applyPatternFilter parser download regexp Inclusion rules patterns sources =
     include_execute parser download regexp rules patterns sources \<and>
   rulefilter_apply parser download regexp mode rules patterns sources =
     (case applyPatternFilter parser download regexp mode rules patterns sources of Inl _ \<Rightarrow> rules | Inr out \<Rightarrow> out)"
  by (auto simp: applyPatternFilter_any exclude_execute_def include_execute_def rulefilter_apply_def
      filterRules_any split: sum.split intro!: filter_cong)

lemma applyPatternFilter_subseq:
  "applyPatternFilter parser download regexp mode rules patterns sources = Inr out \<Longrightarrow> subseq out rules"
  by (auto simp: applyPatternFilter_any kept split: if_splits sum.splits)

end
