(* ===== verification/Pipeline.thy ===== *)
theory Pipeline
  imports Compress Validation Conflicts Optimizer Patterns
begin

text \<open>
  The transformation pipeline: \<open>src/transformations/TransformationRegistry.ts\<close> and the hook manager
  of \<open>src/transformations/TransformationHooks.ts\<close>.  \<open>library\<close> collects the parameters of the model
  (rule parser and generator, URL host names, regular expressions, downloads).  A hook acts on
  the world \<open>'w\<close> and may throw; the time stamps and durations of its context are left out.
  \<open>NoOpHookManager\<close> is the manager without hooks.
\<close>

section \<open>Registry\<close>

datatype TransformationType = RemoveComments | Compress | RemoveModifiers | Validate | ValidateAllowIp
  | Deduplicate | InvertAllow | RemoveEmptyLines | TrimLines | InsertFinalNewLine | ConvertToAscii
  | ConflictDetection | RuleOptimizer

datatype pipeline_error = RuleError rule_error | PatternError pattern_error | HookError jstr

record library =
  lib_parser :: rule_parser
  lib_generate :: "any_rule \<Rightarrow> jstr"
  lib_url_hostname :: "jstr \<Rightarrow> jstr option"
  lib_regexp :: regexp_engine
  lib_download :: list_download

type_synonym transformation = "lines \<Rightarrow> pipeline_error + lines"
type_synonym registry = "TransformationType \<Rightarrow> transformation option"

definition register :: "TransformationType \<Rightarrow> transformation \<Rightarrow> registry \<Rightarrow> registry" where
  "register t f r = r(t \<mapsto> f)"

definition registry_has :: "registry \<Rightarrow> TransformationType \<Rightarrow> bool" where
  "registry_has r t \<longleftrightarrow> r t \<noteq> None"

definition registerDefaultTransformations :: "library \<Rightarrow> registry" where
  "registerDefaultTransformations lib =
     (let p = lib_parser lib; g = lib_generate lib
      in fold (\<lambda>(t, f). register t f)
           [(RemoveComments, \<lambda>rules. Inr (removeComments p rules)),
            (TrimLines, \<lambda>rules. Inr (trimLines rules)),
            (RemoveEmptyLines, \<lambda>rules. Inr (removeEmptyLines rules)),
            (InsertFinalNewLine, \<lambda>rules. Inr (insertFinalNewLine rules)),
            (ConvertToAscii, \<lambda>rules. Inr (convertToAscii p (lib_url_hostname lib) rules)),
            (InvertAllow, \<lambda>rules. Inr (invertAllow p rules)),
            (RemoveModifiers, \<lambda>rules. Inr (removeModifiers p g rules)),
            (Deduplicate, \<lambda>rules. Inr (deduplicate p rules)),
            (Validate, \<lambda>rules. Inr (fst (validate p \<lparr>vc_allowIp = False, vc_sourceName = None\<rparr> rules))),
            (ValidateAllowIp, \<lambda>rules. Inr (validateAllowIp p rules)),
            (Compress, \<lambda>rules. (case compress p g rules of Inl e \<Rightarrow> Inl (RuleError e) | Inr out \<Rightarrow> Inr out)),
            (ConflictDetection, \<lambda>rules. Inr (fst (detect_conflicts p g default_conflict_options rules))),
            (RuleOptimizer, \<lambda>rules. Inr (fst (optimize p g default_optimizer_options rules)))]
           (\<lambda>_. None))"

section \<open>Hooks\<close>

record hook_context =
  hc_type :: TransformationType
  hc_ruleCount :: nat

text \<open>What one hook call does to the world, and the message of what it throws, if it does.\<close>

type_synonym 'w hook_call = "'w \<Rightarrow> jstr option \<times> 'w"

record 'w hook_manager =
  beforeHooks :: "(hook_context \<Rightarrow> 'w hook_call) list"
  afterHooks :: "(hook_context \<Rightarrow> nat \<Rightarrow> nat \<Rightarrow> 'w hook_call) list"
  errorHooks :: "(hook_context \<Rightarrow> pipeline_error \<Rightarrow> 'w hook_call) list"

definition no_hooks :: "'w hook_manager" where
  "no_hooks = \<lparr>beforeHooks = [], afterHooks = [], errorHooks = []\<rparr>"

definition hasHooks :: "'w hook_manager \<Rightarrow> bool" where
  "hasHooks m \<longleftrightarrow> 0 < length (beforeHooks m) \<or> 0 < length (afterHooks m) \<or> 0 < length (errorHooks m)"

fun run_hooks :: "'w hook_call list \<Rightarrow> 'w hook_call" where
  "run_hooks [] w = (None, w)"
| "run_hooks (h # hs) w = (case h w of (Some m, w') \<Rightarrow> (Some m, w') | (None, w') \<Rightarrow> run_hooks hs w')"

definition executeBeforeHooks :: "'w hook_manager \<Rightarrow> hook_context \<Rightarrow> 'w hook_call" where
  "executeBeforeHooks m ctx = run_hooks (map (\<lambda>h. h ctx) (beforeHooks m))"

definition executeAfterHooks :: "'w hook_manager \<Rightarrow> hook_context \<Rightarrow> nat \<Rightarrow> nat \<Rightarrow> 'w hook_call" where
  "executeAfterHooks m ctx inputCount outputCount =
     run_hooks (map (\<lambda>h. h ctx inputCount outputCount) (afterHooks m))"

definition executeErrorHooks :: "'w hook_manager \<Rightarrow> hook_context \<Rightarrow> pipeline_error \<Rightarrow> 'w hook_call" where
  "executeErrorHooks m ctx error = run_hooks (map (\<lambda>h. h ctx error) (errorHooks m))"

section \<open>The pipeline\<close>

record pattern_config =
  exclusions :: "jstr list"
  exclusions_sources :: "jstr list"
  inclusions :: "jstr list"
  inclusions_sources :: "jstr list"

record progress =
  pg_current :: nat
  pg_total :: nat
  pg_type :: TransformationType

definition execution_order :: "TransformationType list" where
  "execution_order =
     [ConvertToAscii, TrimLines, RemoveComments, Compress, RemoveModifiers, InvertAllow, Validate,
      ValidateAllowIp, Deduplicate, ConflictDetection, RuleOptimizer, RemoveEmptyLines,
      InsertFinalNewLine]"

definition getOrderedTransformations :: "TransformationType list \<Rightarrow> TransformationType list" where
  "getOrderedTransformations requested = filter (\<lambda>t. t \<in> set requested) execution_order"

text \<open>One round of the loop, for a registered transformation.\<close>

definition apply_one ::
  "'w hook_manager \<Rightarrow> TransformationType \<Rightarrow> transformation \<Rightarrow> lines \<Rightarrow> 'w \<Rightarrow> (pipeline_error + lines) \<times> 'w" where
  "apply_one m t f rules w =
     (if hasHooks m then
        (let ctx = \<lparr>hc_type = t, hc_ruleCount = length rules\<rparr>
         in case executeBeforeHooks m ctx w of
              (Some msg, w1) \<Rightarrow> (Inl (HookError msg), w1)
            | (None, w1) \<Rightarrow>
                (case f rules of
                   Inl e \<Rightarrow>
                     (case executeErrorHooks m ctx e w1 of
                        (Some msg, w2) \<Rightarrow> (Inl (HookError msg), w2)
                      | (None, w2) \<Rightarrow> (Inl e, w2))
                 | Inr out \<Rightarrow>
                     (case executeAfterHooks m (ctx\<lparr>hc_ruleCount := length out\<rparr>) (length rules) (length out) w1 of
                        (Some msg, w2) \<Rightarrow> (Inl (HookError msg), w2)
                      | (None, w2) \<Rightarrow> (Inr out, w2))))
      else (f rules, w))"

fun run_transformations ::
  "registry \<Rightarrow> 'w hook_manager \<Rightarrow> (progress \<Rightarrow> 'w \<Rightarrow> 'w) \<Rightarrow> nat \<Rightarrow> nat \<Rightarrow> TransformationType list \<Rightarrow> lines \<Rightarrow>
   'w \<Rightarrow> (pipeline_error + lines) \<times> 'w" where
  "run_transformations reg m emit n i [] rules w = (Inr rules, w)"
| "run_transformations reg m emit n i (t # ts) rules w =
     (case reg t of
        None \<Rightarrow> run_transformations reg m emit n (Suc i) ts rules w
      | Some f \<Rightarrow>
          (case apply_one m t f rules (emit \<lparr>pg_current = i + 1, pg_total = n, pg_type = t\<rparr> w) of
             (Inl e, w') \<Rightarrow> (Inl e, w')
           | (Inr out, w') \<Rightarrow> run_transformations reg m emit n (Suc i) ts out w'))"

definition pipeline_transform ::
  "library \<Rightarrow> registry \<Rightarrow> 'w hook_manager \<Rightarrow> (progress \<Rightarrow> 'w \<Rightarrow> 'w) \<Rightarrow> pattern_config \<Rightarrow>
   TransformationType list \<Rightarrow> lines \<Rightarrow> 'w \<Rightarrow> (pipeline_error + lines) \<times> 'w" where
  "pipeline_transform lib reg m emit config transformations rules w =
     (case applyPatternFilter (lib_parser lib) (lib_download lib) (lib_regexp lib) Exclusion rules
             (exclusions config) (exclusions_sources config) of
        Inl e \<Rightarrow> (Inl (PatternError e), w)
      | Inr r1 \<Rightarrow>
          (case applyPatternFilter (lib_parser lib) (lib_download lib) (lib_regexp lib) Inclusion r1
                  (inclusions config) (inclusions_sources config) of
             Inl e \<Rightarrow> (Inl (PatternError e), w)
           | Inr r2 \<Rightarrow>
               (let ordered = getOrderedTransformations transformations
                in run_transformations reg m emit (length ordered) 0 ordered r2 w)))"

section \<open>Order\<close>

text \<open>
  The result of the pipeline depends on which transformations are requested, not on the order or
  the number of times they are: two requests with the same set of types behave the same, and
  each requested type runs once, at its place in the fixed order.
\<close>

theorem pipeline_order_canonical:
  "(set ts = set ts' \<longrightarrow>
      pipeline_transform lib reg m emit config ts rules w = pipeline_transform lib reg m emit config ts' rules w) \<and>
   subseq (getOrderedTransformations ts) execution_order \<and>
   distinct (getOrderedTransformations ts) \<and> set (getOrderedTransformations ts) = set ts"
proof -
  have all: "t \<in> set execution_order" for t by (cases t) (simp_all add: execution_order_def)
  have "distinct execution_order" by (simp add: execution_order_def)
  moreover have "pipeline_transform lib reg m emit config ts rules w =
      pipeline_transform lib reg m emit config ts' rules w" if "set ts = set ts'"
    unfolding pipeline_transform_def getOrderedTransformations_def that ..
  ultimately show ?thesis using all
    by (auto simp: getOrderedTransformations_def kept)
qed

theorem pipeline_order_canonical_witness:
  "getOrderedTransformations [InsertFinalNewLine, Deduplicate, RemoveComments, Deduplicate] =
     [RemoveComments, Deduplicate, InsertFinalNewLine] \<and>
   (\<lambda>lib reg m emit config rules w. pipeline_transform lib reg m emit config [Deduplicate, RemoveComments] rules w) =
   (\<lambda>lib reg m emit config rules w.
      pipeline_transform lib reg m emit config [RemoveComments, Deduplicate, RemoveComments] rules w)"
proof
  show "getOrderedTransformations [InsertFinalNewLine, Deduplicate, RemoveComments, Deduplicate] =
     [RemoveComments, Deduplicate, InsertFinalNewLine]"
    by (simp add: getOrderedTransformations_def execution_order_def)
  show "(\<lambda>lib reg m emit config rules w. pipeline_transform lib reg m emit config [Deduplicate, RemoveComments] rules w) =
   (\<lambda>lib reg m emit config rules w.
      pipeline_transform lib reg m emit config [RemoveComments, Deduplicate, RemoveComments] rules w)"
    by (intro ext, rule pipeline_order_canonical [THEN conjunct1, rule_format]) auto
qed

definition demo_library :: library where
  "demo_library =
     \<lparr>lib_parser = (\<lambda>t. if starts_with t ''!'' then Inr (CommentRule PlainComment)
        else Inr (NetworkRule \<lparr>nr_exception = False, nr_pattern = t, nr_modifiers = None,
                                nr_syntax = Common, nr_raw = Some t\<rparr>)),
      lib_generate = (\<lambda>_. []), lib_url_hostname = (\<lambda>_. None), lib_regexp = (\<lambda>_. Inl ''none''),
      lib_download = (\<lambda>_. Inl ''offline'')\<rparr>"

definition demo_config :: pattern_config where
  "demo_config = \<lparr>exclusions = [''*.net^''], exclusions_sources = [], inclusions = [], inclusions_sources = []\<rparr>"

section \<open>Hooks observe\<close>

definition silent :: "'w hook_call \<Rightarrow> bool" where
  "silent h \<longleftrightarrow> (\<forall>w. fst (h w) = None)"

definition silent_hooks :: "'w hook_manager \<Rightarrow> bool" where
  "silent_hooks m \<longleftrightarrow>
     (\<forall>h \<in> set (beforeHooks m). \<forall>ctx. silent (h ctx)) \<and>
     (\<forall>h \<in> set (afterHooks m). \<forall>ctx a b. silent (h ctx a b)) \<and>
     (\<forall>h \<in> set (errorHooks m). \<forall>ctx e. silent (h ctx e))"

lemma run_hooks_silent: "\<forall>h \<in> set hs. silent h \<Longrightarrow> fst (run_hooks hs w) = None"
  by (induction hs arbitrary: w) (auto simp: silent_def split: prod.splits option.splits, metis fst_conv option.distinct(1))

lemma silent_pair: "silent h \<Longrightarrow> \<exists>w'. h w = (None, w')"
  by (metis prod.collapse silent_def)

lemma apply_one_silent:
  assumes "silent_hooks m"
  shows "fst (apply_one m t f rules w) = f rules"
proof -
  have b: "silent (executeBeforeHooks m ctx)" and a: "silent (executeAfterHooks m ctx i j)"
    and e: "silent (executeErrorHooks m ctx err)" for ctx i j err
    using assms
    by (auto simp: silent_hooks_def executeBeforeHooks_def executeAfterHooks_def executeErrorHooks_def
        silent_def [of "run_hooks _"] intro!: run_hooks_silent)
  obtain w1 where w1: "executeBeforeHooks m \<lparr>hc_type = t, hc_ruleCount = length rules\<rparr> w = (None, w1)"
    using silent_pair [OF b] by blast
  show ?thesis
  proof (cases "f rules")
    case (Inl er)
    obtain w2 where "executeErrorHooks m \<lparr>hc_type = t, hc_ruleCount = length rules\<rparr> er w1 = (None, w2)"
      using silent_pair [OF e] by blast
    then show ?thesis using Inl w1 by (simp add: apply_one_def)
  next
    case (Inr out)
    obtain w2 where "executeAfterHooks m \<lparr>hc_type = t, hc_ruleCount = length out\<rparr> (length rules) (length out) w1 = (None, w2)"
      using silent_pair [OF a] by blast
    then show ?thesis using Inr w1 by (simp add: apply_one_def)
  qed
qed

text \<open>The plain run: the transformations one after the other, without hooks and events.\<close>

fun plain_run :: "registry \<Rightarrow> TransformationType list \<Rightarrow> lines \<Rightarrow> pipeline_error + lines" where
  "plain_run reg [] rules = Inr rules"
| "plain_run reg (t # ts) rules =
     (case reg t of
        None \<Rightarrow> plain_run reg ts rules
      | Some f \<Rightarrow> (case f rules of Inl e \<Rightarrow> Inl e | Inr out \<Rightarrow> plain_run reg ts out))"

lemma run_transformations_plain:
  "silent_hooks m \<Longrightarrow> fst (run_transformations reg m emit n i ts rules w) = plain_run reg ts rules"
proof (induction ts arbitrary: i rules w)
  case (Cons t ts)
  show ?case
  proof (cases "reg t")
    case (Some f)
    let ?w = "emit \<lparr>pg_current = i + 1, pg_total = n, pg_type = t\<rparr> w"
    obtain r w' where r: "apply_one m t f rules ?w = (r, w')" by force
    then have "f rules = r" using apply_one_silent [OF Cons.prems, of t f rules ?w] by simp
    then show ?thesis using Some r Cons.IH [OF Cons.prems] by (cases r) simp_all
  qed (use Cons in simp)
qed simp

text \<open>
  Hooks are observers: as long as no hook throws, the outcome of the pipeline, result or error, is
  the one without hooks, whatever the hooks and event listeners do to the world.
\<close>

theorem hooks_observe:
  assumes "silent_hooks m"
  shows "fst (pipeline_transform lib reg m emit config ts rules w) =
    fst (pipeline_transform lib reg no_hooks emit' config ts rules w')"
proof -
  have n: "silent_hooks no_hooks" by (simp add: silent_hooks_def no_hooks_def)
  show ?thesis
    by (auto simp: pipeline_transform_def Let_def run_transformations_plain assms n split: sum.split)
qed

theorem hooks_observe_witness:
  "fst (pipeline_transform demo_library (registerDefaultTransformations demo_library)
      \<lparr>beforeHooks = [\<lambda>ctx w. (None, w + hc_ruleCount ctx)], afterHooks = [], errorHooks = []\<rparr>
      (\<lambda>_ w. w) demo_config [RemoveComments] [''! x'', ''||a.net^''] (0 :: nat)) =
   fst (pipeline_transform demo_library (registerDefaultTransformations demo_library)
      no_hooks (\<lambda>_ w. w) demo_config [RemoveComments] [''! x'', ''||a.net^''] ())"
  by (rule hooks_observe) (simp add: silent_hooks_def silent_def)

section \<open>The built-in transformations\<close>

lemma default_registry:
  "registerDefaultTransformations lib RemoveComments = Some (\<lambda>rules. Inr (removeComments (lib_parser lib) rules))"
  "registerDefaultTransformations lib TrimLines = Some (\<lambda>rules. Inr (trimLines rules))"
  "registerDefaultTransformations lib RemoveEmptyLines = Some (\<lambda>rules. Inr (removeEmptyLines rules))"
  "registerDefaultTransformations lib InsertFinalNewLine = Some (\<lambda>rules. Inr (insertFinalNewLine rules))"
  "registerDefaultTransformations lib ConvertToAscii =
     Some (\<lambda>rules. Inr (convertToAscii (lib_parser lib) (lib_url_hostname lib) rules))"
  "registerDefaultTransformations lib InvertAllow = Some (\<lambda>rules. Inr (invertAllow (lib_parser lib) rules))"
  "registerDefaultTransformations lib RemoveModifiers =
     Some (\<lambda>rules. Inr (removeModifiers (lib_parser lib) (lib_generate lib) rules))"
  "registerDefaultTransformations lib Deduplicate = Some (\<lambda>rules. Inr (deduplicate (lib_parser lib) rules))"
  "registerDefaultTransformations lib Validate =
     Some (\<lambda>rules. Inr (fst (validate (lib_parser lib) \<lparr>vc_allowIp = False, vc_sourceName = None\<rparr> rules)))"
  "registerDefaultTransformations lib ValidateAllowIp = Some (\<lambda>rules. Inr (validateAllowIp (lib_parser lib) rules))"
  "registerDefaultTransformations lib Compress =
     Some (\<lambda>rules. case compress (lib_parser lib) (lib_generate lib) rules of
        Inl e \<Rightarrow> Inl (RuleError e) | Inr out \<Rightarrow> Inr out)"
  "registerDefaultTransformations lib ConflictDetection =
     Some (\<lambda>rules. Inr (fst (detect_conflicts (lib_parser lib) (lib_generate lib) default_conflict_options rules)))"
  "registerDefaultTransformations lib RuleOptimizer =
     Some (\<lambda>rules. Inr (fst (optimize (lib_parser lib) (lib_generate lib) default_optimizer_options rules)))"
  by (simp_all add: registerDefaultTransformations_def register_def Let_def)

lemma compress_Inr: "\<exists>out. compress parser generate rules = Inr out"
proof -
  obtain rs where "sum_map (toAdblockRules parser generate) rules = Inr rs"
    using sum_map_total [of "toAdblockRules parser generate" rules] toAdblockRules_total by blast
  then show ?thesis by (simp add: compress_def)
qed

lemma default_total: "\<exists>f. registerDefaultTransformations lib t = Some f \<and> (\<forall>rules. \<exists>out. f rules = Inr out)"
proof (cases t)
  case Compress
  have "\<exists>out. (case compress (lib_parser lib) (lib_generate lib) rules of
      Inl e \<Rightarrow> Inl (RuleError e) | Inr out \<Rightarrow> Inr out) = Inr out" for rules
    using compress_Inr [of "lib_parser lib" "lib_generate lib" rules] by auto
  then show ?thesis using Compress by (simp add: default_registry)
qed (simp_all add: default_registry)

lemma plain_run_total: "\<exists>out. plain_run (registerDefaultTransformations lib) ts rules = Inr out"
proof (induction ts arbitrary: rules)
  case (Cons t ts)
  obtain f out where "registerDefaultTransformations lib t = Some f" "f rules = Inr out"
    using default_total [of lib t] by blast
  then show ?case using Cons by simp
qed simp

lemma plain_run_append:
  "plain_run reg (ts @ us) rules = (case plain_run reg ts rules of Inl e \<Rightarrow> Inl e | Inr out \<Rightarrow> plain_run reg us out)"
  by (induction ts arbitrary: rules) (auto split: option.split sum.split)

lemma silent_no_hooks: "silent_hooks no_hooks"
  by (simp add: silent_hooks_def no_hooks_def)

lemma no_hooks_run:
  "fst (pipeline_transform lib reg no_hooks emit config ts rules w) =
   (case applyPatternFilter (lib_parser lib) (lib_download lib) (lib_regexp lib) Exclusion rules
             (exclusions config) (exclusions_sources config) of
      Inl e \<Rightarrow> Inl (PatternError e)
    | Inr r1 \<Rightarrow>
        (case applyPatternFilter (lib_parser lib) (lib_download lib) (lib_regexp lib) Inclusion r1
                  (inclusions config) (inclusions_sources config) of
           Inl e \<Rightarrow> Inl (PatternError e)
         | Inr r2 \<Rightarrow> plain_run reg (getOrderedTransformations ts) r2))"
  by (simp add: pipeline_transform_def Let_def run_transformations_plain [OF silent_no_hooks] split: sum.split)

text \<open>
  The built-in transformations never fail: without hooks the pipeline of the default registry
  either returns a list or reports an error in the exclusion or inclusion patterns, whatever
  the rules and whatever the parser library answers; without patterns it always returns.
\<close>

theorem default_pipeline_total:
  "case fst (pipeline_transform lib (registerDefaultTransformations lib) no_hooks emit config ts rules w) of
     Inr _ \<Rightarrow> True
   | Inl (PatternError _) \<Rightarrow> exclusions config @ exclusions_sources config @
        inclusions config @ inclusions_sources config \<noteq> []
   | Inl _ \<Rightarrow> False"
proof -
  have a: "applyPatternFilter p d r mode rules [] [] = Inr rules" for p d r mode rules
    by (simp add: applyPatternFilter_def)
  note run = plain_run_total [of lib "getOrderedTransformations ts"]
  show ?thesis
  proof (cases "exclusions config @ exclusions_sources config @ inclusions config @ inclusions_sources config = []")
    case True
    then show ?thesis using run [of rules] by (auto simp: no_hooks_run a)
  next
    case False
    have "fst (pipeline_transform lib (registerDefaultTransformations lib) no_hooks emit config ts rules w) \<noteq>
        Inl e" if "\<forall>pe. e \<noteq> PatternError pe" for e
      unfolding no_hooks_run using run that by (auto split: sum.split) (metis Inl_Inr_False)
    then show ?thesis using False by (auto split: sum.split pipeline_error.split)
  qed
qed

section \<open>What a run guarantees\<close>

definition removing :: "TransformationType set" where
  "removing = {RemoveComments, RemoveEmptyLines, Validate, ValidateAllowIp, Deduplicate, ConflictDetection}"

lemma removing_step:
  "t \<in> removing \<Longrightarrow> registerDefaultTransformations lib t = Some f \<Longrightarrow> f rules = Inr out \<Longrightarrow> subseq out rules"
  by (auto simp: removing_def default_registry removeComments.removes removeEmptyLines.removes
      deduplicate.removes validate.removes validateAllowIp_def detect_conflicts.removes)

lemma removing_run:
  "set ts \<subseteq> removing \<Longrightarrow> plain_run (registerDefaultTransformations lib) ts rules = Inr out \<Longrightarrow> subseq out rules"
proof (induction ts arbitrary: rules)
  case (Cons t ts)
  obtain f mid where f: "registerDefaultTransformations lib t = Some f" "f rules = Inr mid"
    using default_total [of lib t] by blast
  then have "subseq out mid" using Cons by simp
  then show ?case using removing_step [of t lib f rules mid] f Cons.prems(1) subseq_order.trans by auto
qed simp

text \<open>
  A request of removing transformations only removes lines: if all requested types are among
  \<open>RemoveComments\<close>, \<open>RemoveEmptyLines\<close>, \<open>Validate\<close>, \<open>ValidateAllowIp\<close>, \<open>Deduplicate\<close> and
  \<open>ConflictDetection\<close>, then whatever exclusions and inclusions are configured, the result is a
  subsequence of the input: no line is added, changed or moved.
\<close>

theorem removing_pipeline:
  assumes "set ts \<subseteq> removing"
    and "fst (pipeline_transform lib (registerDefaultTransformations lib) no_hooks emit config ts rules w) = Inr out"
  shows "subseq out rules"
proof -
  have o: "set (getOrderedTransformations ts) \<subseteq> removing"
    using assms(1) by (auto simp: getOrderedTransformations_def)
  obtain r1 r2 where
    "applyPatternFilter (lib_parser lib) (lib_download lib) (lib_regexp lib) Exclusion rules
       (exclusions config) (exclusions_sources config) = Inr r1"
    "applyPatternFilter (lib_parser lib) (lib_download lib) (lib_regexp lib) Inclusion r1
       (inclusions config) (inclusions_sources config) = Inr r2"
    "plain_run (registerDefaultTransformations lib) (getOrderedTransformations ts) r2 = Inr out"
    using assms(2) by (auto simp: no_hooks_run split: sum.splits)
  from removing_run [OF o this(3)] this(1,2) show ?thesis
    by (meson applyPatternFilter_subseq subseq_order.trans)
qed

theorem removing_pipeline_witness:
  "subseq [''||a.com^''] [''! list'', ''||a.com^'', ''||b.net^'', ''||a.com^'']"
proof (rule removing_pipeline [where ts = "[Deduplicate, RemoveComments]" and lib = demo_library
      and config = demo_config and emit = "\<lambda>_ w. w" and w = "()"])
  show "fst (pipeline_transform demo_library (registerDefaultTransformations demo_library) no_hooks
      (\<lambda>_ w. w) demo_config [Deduplicate, RemoveComments]
      [''! list'', ''||a.com^'', ''||b.net^'', ''||a.com^''] ()) = Inr [''||a.com^'']"
    by code_simp
qed (simp add: removing_def)

text \<open>
  What a published list looks like: if the request has \<open>Deduplicate\<close>, \<open>RemoveEmptyLines\<close> and
  \<open>InsertFinalNewLine\<close> and not \<open>RuleOptimizer\<close>, then every result of the pipeline is a body
  without blank lines, in which no rule (a line that is no comment) occurs twice, and one empty
  line at the end.
\<close>

theorem published_list_shape:
  assumes "{Deduplicate, RemoveEmptyLines, InsertFinalNewLine} \<subseteq> set ts" and "RuleOptimizer \<notin> set ts"
    and "fst (pipeline_transform lib (registerDefaultTransformations lib) no_hooks emit config ts rules w) = Inr out"
  shows "\<exists>body. out = body @ [[]] \<and> (\<forall>l \<in> set body. js_trim l \<noteq> []) \<and>
    distinct (filter (\<lambda>l. \<not> isComment (lib_parser lib) l) body)"
proof -
  let ?R = "registerDefaultTransformations lib" and ?p = "lib_parser lib"
  let ?pre = "filter (\<lambda>t. t \<in> set ts) [ConvertToAscii, TrimLines, RemoveComments, Compress, RemoveModifiers,
      InvertAllow, Validate, ValidateAllowIp]"
  let ?cd = "if ConflictDetection \<in> set ts then [ConflictDetection] else []"
  have ord: "getOrderedTransformations ts = ?pre @ Deduplicate # ?cd @ [RemoveEmptyLines, InsertFinalNewLine]"
    using assms(1,2) by (simp add: getOrderedTransformations_def execution_order_def)
  obtain r2 where "plain_run ?R (getOrderedTransformations ts) r2 = Inr out"
    using assms(3) by (auto simp: no_hooks_run split: sum.splits)
  moreover obtain x where "plain_run ?R ?pre r2 = Inr x" using plain_run_total by blast
  moreover have "fst (detect_conflicts ?p (lib_generate lib) default_conflict_options l) = l" for l
    by (simp add: detect_conflicts_def default_conflict_options_def Let_def)
  ultimately have out: "out = insertFinalNewLine (removeEmptyLines (deduplicate ?p x))"
    by (simp add: ord plain_run_append default_registry split: if_splits)
  let ?body = "removeEmptyLines (deduplicate ?p x)"
  have blank: "\<forall>l \<in> set ?body. js_trim l \<noteq> []" by (auto simp: removeEmptyLines_def)
  then have "out = ?body @ [[]]" unfolding out by (auto simp: insertFinalNewLine_def)
  moreover have "distinct (filter (\<lambda>l. \<not> isComment ?p l) ?body)"
  proof -
    have "filter (\<lambda>l. \<not> isComment ?p l) ?body =
        filter (\<lambda>l. \<not> isCommentOrEmpty ?p l) (deduplicate ?p x)"
      by (auto simp: removeEmptyLines_def isCommentOrEmpty_def is_blank_def intro: filter_cong)
    also have "\<dots> = first_of_each {} (filter (\<lambda>l. \<not> isCommentOrEmpty ?p l) x)"
      by (simp add: deduplicate_keep_new keep_new_rules)
    finally show ?thesis by (simp add: first_of_each_facts)
  qed
  ultimately show ?thesis using blank by blast
qed

theorem published_list_shape_witness:
  "\<exists>body. [''! list'', ''||a.com^'', []] = body @ [[]] \<and> (\<forall>l \<in> set body. js_trim l \<noteq> []) \<and>
    distinct (filter (\<lambda>l. \<not> isComment (lib_parser demo_library) l) body)"
proof (rule published_list_shape [where lib = demo_library and config = demo_config
      and ts = "[Deduplicate, RemoveEmptyLines, InsertFinalNewLine]" and emit = "\<lambda>_ w. w" and w = "()"])
  show "fst (pipeline_transform demo_library (registerDefaultTransformations demo_library) no_hooks
      (\<lambda>_ w. w) demo_config [Deduplicate, RemoveEmptyLines, InsertFinalNewLine]
      [''! list'', ''||a.com^'', [], ''||a.com^'', ''||b.net^''] ()) = Inr [''! list'', ''||a.com^'', []]"
    by code_simp
qed simp_all

text \<open>
  An error hook can hide the error it observes: when a transformation fails and an error hook throws,
  the caller gets the error of the hook, although the hooks are meant to be observers after
  which the original error is thrown again.
\<close>

theorem throwing_error_hook_masks:
  assumes "f rules = Inl e" and "beforeHooks m = []" and "errorHooks m = [\<lambda>ctx err w. (Some msg, w)]"
  shows "fst (apply_one m t f rules w) = Inl (HookError msg)"
  using assms by (simp add: apply_one_def hasHooks_def executeBeforeHooks_def executeErrorHooks_def)

theorem throwing_error_hook_masks_witness:
  "fst (apply_one \<lparr>beforeHooks = [], afterHooks = [], errorHooks = [\<lambda>ctx err w. (Some ''hook'', w)]\<rparr>
     Compress (\<lambda>_. Inl (RuleError (TypeError ''bad''))) [] ()) = Inl (HookError ''hook'')"
  by (rule throwing_error_hook_masks) simp_all

end
