(* ===== verification/Directives.thy ===== *)
theory Directives
  imports Conditions
begin

text \<open>
  Preprocessor directives of filter lists: \<open>processDirectives\<close>, \<open>parseConditionalBlock\<close> and
  \<open>findEndIfIndex\<close> of \<open>src/downloader/FilterDownloader.ts\<close>.  The functions of the code walk an index
  over one array and only look at it from that index on; here they take the lines from the
  index on.  What an include does is the argument \<open>inc\<close>, which may change the state \<open>'s\<close> of the
  downloader and may throw an error \<open>'e\<close>; \<open>Downloader\<close> supplies it.
\<close>

section \<open>Directives\<close>

definition D_If :: jstr where "D_If = ''!#if''"
definition D_Else :: jstr where "D_Else = ''!#else''"
definition D_EndIf :: jstr where "D_EndIf = ''!#endif''"
definition D_Include :: jstr where "D_Include = ''!#include''"
definition D_Safari :: jstr where "D_Safari = ''!#safari_cb_affinity''"

record conditional_block =
  blk_condition :: jstr
  blk_ifLines :: lines
  blk_elseLines :: lines

definition evaluateCondition :: "jstr \<Rightarrow> jstr option \<Rightarrow> bool" where
  "evaluateCondition condition platform = evaluateBooleanExpression condition platform"

definition argument_of :: "jstr \<Rightarrow> jstr \<Rightarrow> jstr" where
  "argument_of directive line = js_trim (drop (length directive) (js_trim line))"

definition put_line :: "bool \<Rightarrow> jstr \<Rightarrow> lines \<times> lines \<Rightarrow> lines \<times> lines" where
  "put_line inElse line = (\<lambda>(ifLines, elseLines).
     if inElse then (ifLines, line # elseLines) else (line # ifLines, elseLines))"

fun block_loop :: "nat \<Rightarrow> bool \<Rightarrow> lines \<Rightarrow> lines \<times> lines" where
  "block_loop depth inElse [] = ([], [])"
| "block_loop depth inElse (line # rest) =
     (if depth = 0 then ([], [])
      else let trimmed = js_trim line
           in if starts_with trimmed D_If then put_line inElse line (block_loop (depth + 1) inElse rest)
              else if trimmed = D_EndIf then
                (if 0 < depth - 1 then put_line inElse line (block_loop (depth - 1) inElse rest)
                 else block_loop (depth - 1) inElse rest)
              else if trimmed = D_Else \<and> depth = 1 then block_loop depth True rest
              else put_line inElse line (block_loop depth inElse rest))"

definition parseConditionalBlock :: "lines \<Rightarrow> conditional_block" where
  "parseConditionalBlock ls =
     (let (ifLines, elseLines) = block_loop 1 False (tl ls)
      in \<lparr>blk_condition = argument_of D_If (hd ls), blk_ifLines = ifLines, blk_elseLines = elseLines\<rparr>)"

fun endif_loop :: "nat \<Rightarrow> nat \<Rightarrow> lines \<Rightarrow> nat option" where
  "endif_loop depth i [] = None"
| "endif_loop depth i (line # rest) =
     (let trimmed = js_trim line;
          depth' = (if starts_with trimmed D_If then depth + 1
                    else if trimmed = D_EndIf then depth - 1 else depth)
      in if depth' = 0 then Some i else endif_loop depth' (Suc i) rest)"

definition findEndIfIndex :: "lines \<Rightarrow> nat" where
  "findEndIfIndex ls = (case endif_loop 1 1 (tl ls) of Some i \<Rightarrow> i | None \<Rightarrow> length ls - 1)"

fun skip_safari :: "lines \<Rightarrow> lines" where
  "skip_safari [] = []"
| "skip_safari (line # rest) = (if js_trim line = D_Safari then rest else skip_safari rest)"

definition after :: "lines \<Rightarrow> ('e + lines) \<times> 's \<Rightarrow> ('e + lines) \<times> 's" where
  "after out r = (case r of (Inl e, s) \<Rightarrow> (Inl e, s) | (Inr out2, s) \<Rightarrow> (Inr (out @ out2), s))"

lemma block_loop_length:
  "length (fst (block_loop d e ls)) \<le> length ls \<and> length (snd (block_loop d e ls)) \<le> length ls"
proof (induction d e ls rule: block_loop.induct)
  case (2 d e line rest)
  have put: "length (fst (put_line e line r)) \<le> Suc n \<and> length (snd (put_line e line r)) \<le> Suc n"
    if "length (fst r) \<le> n \<and> length (snd r) \<le> n" for r n
    using that by (cases r) (auto simp: put_line_def)
  show ?case using 2 by (auto simp: Let_def put le_SucI)
qed simp

lemma parseConditionalBlock_length:
  "length (blk_ifLines (parseConditionalBlock (line # rest))) \<le> length rest"
  "length (blk_elseLines (parseConditionalBlock (line # rest))) \<le> length rest"
  using block_loop_length [of 1 False rest]
  by (cases "block_loop 1 False rest"; simp add: parseConditionalBlock_def)+

lemma skip_safari_length: "length (skip_safari ls) \<le> length ls"
  by (induction ls) auto

text \<open>The main loop, on the lines from \<open>i\<close> on.\<close>

function processDirectives ::
  "(jstr \<Rightarrow> 's \<Rightarrow> ('e + lines) \<times> 's) \<Rightarrow> lines \<Rightarrow> 's \<Rightarrow> ('e + lines) \<times> 's" where
  "processDirectives inc [] s = (Inr [], s)"
| "processDirectives inc (line # rest) s =
     (let trimmed = js_trim line
      in if starts_with trimmed D_If then
           (let block = parseConditionalBlock (line # rest);
                chosen = (if evaluateCondition (argument_of D_If line) None then blk_ifLines block
                          else blk_elseLines block)
            in case processDirectives inc chosen s of
                 (Inl e, s') \<Rightarrow> (Inl e, s')
               | (Inr out, s') \<Rightarrow>
                   after out (processDirectives inc (drop (findEndIfIndex (line # rest)) rest) s'))
         else if starts_with trimmed D_Include then
           (case inc (argument_of D_Include line) s of
              (Inl e, s') \<Rightarrow> (Inl e, s')
            | (Inr out, s') \<Rightarrow> after out (processDirectives inc rest s'))
         else if starts_with trimmed D_Safari then processDirectives inc (skip_safari rest) s
         else if trimmed = D_Else \<or> trimmed = D_EndIf then processDirectives inc rest s
         else after [line] (processDirectives inc rest s))"
  by pat_completeness auto
termination
  by (relation "measure (\<lambda>(_, ls, _). length ls)")
    (auto simp: less_Suc_eq_le skip_safari_length parseConditionalBlock_length)

declare processDirectives.simps(2) [simp del]

text \<open>Two runs whose includes answer alike and keep a relation of their states do so, too.\<close>

definition related :: "('s \<Rightarrow> 't \<Rightarrow> bool) \<Rightarrow> 'a \<times> 's \<Rightarrow> 'a \<times> 't \<Rightarrow> bool" where
  "related R x y \<longleftrightarrow> fst x = fst y \<and> R (snd x) (snd y)"

lemma related_after: "related R x y \<Longrightarrow> related R (after out x) (after out y)"
  by (auto simp: related_def after_def split: prod.splits sum.splits)

lemma related_if:
  "related R x x' \<Longrightarrow> related R y y' \<Longrightarrow> related R (if c then x else y) (if c then x' else y')"
  by simp

lemma related_bind:
  assumes "related R x y" and "\<And>s t. R s t \<Longrightarrow> related R (f s) (g t)"
  shows "related R (case x of (Inl e, s) \<Rightarrow> (Inl e, s) | (Inr out, s) \<Rightarrow> after out (f s))
     (case y of (Inl e, s) \<Rightarrow> (Inl e, s) | (Inr out, s) \<Rightarrow> after out (g s))"
proof -
  obtain r s t where xy: "x = (r, s)" "y = (r, t)" "R s t"
    using assms(1) by (cases x; cases y) (auto simp: related_def)
  then have "related R (after out (f s)) (after out (g t))" for out
    by (intro related_after assms(2))
  then show ?thesis using xy by (cases r) (simp_all add: related_def [of R "(_, s)"])
qed

lemma processDirectives_related:
  assumes inc: "\<And>path s t. R s t \<Longrightarrow> related R (inc path s) (inc' path t)" and "R s t"
  shows "related R (processDirectives inc ls s) (processDirectives inc' ls t)"
  using assms(2)
proof (induction "length ls" arbitrary: ls s t rule: less_induct)
  case less
  show ?case
  proof (cases ls)
    case (Cons line rest)
    have shorter: "length (blk_ifLines (parseConditionalBlock (line # rest))) < length ls"
      "length (blk_elseLines (parseConditionalBlock (line # rest))) < length ls"
      "length (skip_safari rest) < length ls" "length rest < length ls"
      "length (drop n rest) < length ls" for n
      using Cons parseConditionalBlock_length [of line rest] skip_safari_length [of rest] by simp_all
    note IH = less.hyps [OF shorter(1)] less.hyps [OF shorter(2)] less.hyps [OF shorter(3)]
      less.hyps [OF shorter(4)] less.hyps [OF shorter(5)]
    show ?thesis
      unfolding Cons processDirectives.simps(2) Let_def
      by (intro related_if related_bind related_after IH inc less.prems)
        (simp add: IH less.prems)
  qed (simp add: related_def less.prems)
qed

section \<open>Structured lists\<close>

text \<open>
  The abstract specification: a filter list as its author structures it, its text, and what it
  stands for.
\<close>

datatype item = Rule jstr | IncludeLine jstr | Safari jstr lines
  | If jstr "item list" | IfElse jstr "item list" "item list"

fun render :: "item list \<Rightarrow> lines" where
  "render [] = []"
| "render (Rule l # r) = l # render r"
| "render (IncludeLine l # r) = l # render r"
| "render (Safari l body # r) = l # body @ D_Safari # render r"
| "render (If l a # r) = l # render a @ D_EndIf # render r"
| "render (IfElse l a b # r) = l # render a @ D_Else # render b @ D_EndIf # render r"

definition plain_line :: "jstr \<Rightarrow> bool" where
  "plain_line l \<longleftrightarrow> (let t = js_trim l in \<not> starts_with t D_If \<and> \<not> starts_with t D_Include \<and>
     \<not> starts_with t D_Safari \<and> t \<noteq> D_Else \<and> t \<noteq> D_EndIf)"

fun well_formed :: "item list \<Rightarrow> bool" where
  "well_formed [] = True"
| "well_formed (Rule l # r) = (plain_line l \<and> well_formed r)"
| "well_formed (IncludeLine l # r) = (starts_with (js_trim l) D_Include \<and> well_formed r)"
| "well_formed (Safari l body # r) =
     (starts_with (js_trim l) D_Safari \<and> list_all plain_line body \<and> well_formed r)"
| "well_formed (If l a # r) = (starts_with (js_trim l) D_If \<and> well_formed a \<and> well_formed r)"
| "well_formed (IfElse l a b # r) =
     (starts_with (js_trim l) D_If \<and> well_formed a \<and> well_formed b \<and> well_formed r)"

definition and_then :: "('e + lines) \<times> 's \<Rightarrow> ('s \<Rightarrow> ('e + lines) \<times> 's) \<Rightarrow> ('e + lines) \<times> 's" where
  "and_then r f = (case r of (Inl e, s) \<Rightarrow> (Inl e, s) | (Inr out, s) \<Rightarrow> after out (f s))"

fun meaning ::
  "(jstr \<Rightarrow> 's \<Rightarrow> ('e + lines) \<times> 's) \<Rightarrow> item list \<Rightarrow> 's \<Rightarrow> ('e + lines) \<times> 's" where
  "meaning inc [] s = (Inr [], s)"
| "meaning inc (Rule l # r) s = after [l] (meaning inc r s)"
| "meaning inc (IncludeLine l # r) s =
     and_then (inc (argument_of D_Include l) s) (meaning inc r)"
| "meaning inc (Safari l body # r) s = meaning inc r s"
| "meaning inc (If l a # r) s =
     and_then (if evaluateCondition (argument_of D_If l) None then meaning inc a s else (Inr [], s))
       (meaning inc r)"
| "meaning inc (IfElse l a b # r) s =
     and_then (if evaluateCondition (argument_of D_If l) None then meaning inc a s
               else meaning inc b s)
       (meaning inc r)"

lemma directive_trims:
  "js_trim D_If = D_If" "js_trim D_Else = D_Else" "js_trim D_EndIf = D_EndIf" "js_trim D_Safari = D_Safari"
  by code_simp+

lemma directive_distinct:
  "\<not> prefix D_If D_EndIf" "\<not> prefix D_If D_Else" "D_Else \<noteq> D_EndIf" "\<not> prefix D_If D_Safari"
  "D_Safari \<noteq> D_EndIf" "D_Safari \<noteq> D_Else" "\<not> prefix D_Include D_Safari"
  by code_simp+

lemma include_line: "starts_with t D_Include \<Longrightarrow> \<not> starts_with t D_If \<and> t \<noteq> D_EndIf \<and> t \<noteq> D_Else \<and> \<not> starts_with t D_Safari"
  by (auto simp: D_Include_def D_If_def D_EndIf_def D_Else_def D_Safari_def prefix_def)

lemma safari_line: "starts_with t D_Safari \<Longrightarrow> \<not> starts_with t D_If \<and> t \<noteq> D_EndIf \<and> t \<noteq> D_Else \<and> \<not> starts_with t D_Include"
  by (auto simp: D_Include_def D_If_def D_EndIf_def D_Else_def D_Safari_def prefix_def)

lemmas directive_facts = directive_trims directive_distinct

definition put_lines :: "bool \<Rightarrow> lines \<Rightarrow> lines \<times> lines \<Rightarrow> lines \<times> lines" where
  "put_lines e ls = (\<lambda>(a, b). if e then (a, ls @ b) else (ls @ a, b))"

lemma put_line_lines: "put_line e l = put_lines e [l]"
  by (auto simp: put_line_def put_lines_def)

lemma put_lines_append: "put_lines e xs (put_lines e ys r) = put_lines e (xs @ ys) r"
  by (cases r) (simp add: put_lines_def)

lemma put_lines_Nil: "put_lines e [] r = r"
  by (cases r) (simp add: put_lines_def)

lemma block_loop_0 [simp]: "block_loop 0 e ls = ([], [])"
  by (cases ls) simp_all

lemma block_loop_plain:
  "list_all plain_line body \<Longrightarrow> 0 < d \<Longrightarrow>
   block_loop d e (body @ rest) = put_lines e body (block_loop d e rest)"
  by (induction body)
    (auto simp: put_lines_Nil put_line_lines put_lines_append plain_line_def Let_def)

lemma block_loop_render:
  "well_formed items \<Longrightarrow> 0 < d \<Longrightarrow>
   block_loop d e (render items @ rest) = put_lines e (render items) (block_loop d e rest)"
proof (induction items arbitrary: d rest rule: render.induct)
  case (2 l r)
  then show ?case by (auto simp: plain_line_def Let_def put_line_lines put_lines_append)
next
  case (3 l r)
  then show ?case using include_line [of "js_trim l"]
    by (auto simp: Let_def put_line_lines put_lines_append)
next
  case (4 l body r)
  then show ?case using safari_line [of "js_trim l"]
    by (auto simp: Let_def put_line_lines put_lines_append block_loop_plain directive_facts)
next
  case (5 l a r)
  then show ?case
    by (auto simp: Let_def put_line_lines put_lines_append directive_facts)
next
  case (6 l a b r)
  then show ?case
    by (auto simp: Let_def put_line_lines put_lines_append directive_facts)
qed (simp add: put_lines_Nil)

lemma endif_loop_plain:
  "list_all plain_line body \<Longrightarrow> 0 < d \<Longrightarrow>
   endif_loop d i (body @ rest) = endif_loop d (i + length body) rest"
  by (induction body arbitrary: i) (auto simp: plain_line_def Let_def)

lemma endif_loop_render:
  "well_formed items \<Longrightarrow> 0 < d \<Longrightarrow>
   endif_loop d i (render items @ rest) = endif_loop d (i + length (render items)) rest"
proof (induction items arbitrary: d i rest rule: render.induct)
  case (2 l r)
  then show ?case by (auto simp: plain_line_def Let_def)
next
  case (3 l r)
  then show ?case using include_line [of "js_trim l"] by (auto simp: Let_def)
next
  case (4 l body r)
  then show ?case using safari_line [of "js_trim l"]
    by (auto simp: Let_def endif_loop_plain directive_facts add.assoc)
next
  case (5 l a r)
  then show ?case by (auto simp: Let_def directive_facts add.commute add.left_commute)
next
  case (6 l a b r)
  then show ?case by (auto simp: Let_def directive_facts add.commute add.left_commute)
qed simp

lemma skip_safari_body: "list_all plain_line body \<Longrightarrow> skip_safari (body @ D_Safari # rest) = rest"
  by (induction body) (auto simp: directive_facts plain_line_def Let_def)

lemma after_and_then: "after out (and_then r f) = and_then (after out r) f"
  by (auto simp: after_def and_then_def split: prod.split sum.split)

text \<open>
  C8. Directives mean what their structure says: for every well-formed list (rules, includes, skipped
  Safari blocks, conditional blocks nested to any depth, with or without else), processing its
  text gives exactly the rules of the branches whose conditions hold and of the includes on
  the way, in order, with the effects of these includes only, and stops at the first error.
\<close>

theorem directives_meaning:
  assumes "well_formed items"
  shows "processDirectives inc (render items) s = meaning inc items s"
  using assms
proof (induction inc items s rule: meaning.induct)
  case (2 inc l r s)
  then show ?case by (auto simp: processDirectives.simps(2) plain_line_def Let_def)
next
  case (3 inc l r s)
  then show ?case using include_line [of "js_trim l"]
    by (auto simp: processDirectives.simps(2) Let_def and_then_def split: prod.split sum.split)
next
  case (4 inc l body r s)
  then show ?case using safari_line [of "js_trim l"]
    by (auto simp: processDirectives.simps(2) Let_def skip_safari_body)
next
  case (5 inc l a r s)
  have blk: "parseConditionalBlock (render (If l a # r)) =
      \<lparr>blk_condition = argument_of D_If l, blk_ifLines = render a, blk_elseLines = []\<rparr>"
    using 5 by (simp add: parseConditionalBlock_def block_loop_render put_lines_def directive_facts Let_def)
  have fin: "findEndIfIndex (render (If l a # r)) = Suc (length (render a))"
    using 5 by (simp add: findEndIfIndex_def endif_loop_render directive_facts Let_def)
  show ?case using 5 blk fin
    by (auto simp: processDirectives.simps(2) Let_def and_then_def split: prod.split sum.split)
next
  case (6 inc l a b r s)
  have blk: "parseConditionalBlock (render (IfElse l a b # r)) =
      \<lparr>blk_condition = argument_of D_If l, blk_ifLines = render a, blk_elseLines = render b\<rparr>"
    using 6 by (simp add: parseConditionalBlock_def block_loop_render put_lines_def directive_facts Let_def)
  have fin: "findEndIfIndex (render (IfElse l a b # r)) = Suc (Suc (length (render a) + length (render b)))"
    using 6 by (simp add: findEndIfIndex_def endif_loop_render directive_facts Let_def)
  show ?case using 6 blk fin
    by (auto simp: processDirectives.simps(2) Let_def and_then_def split: prod.split sum.split)
qed simp

text \<open>Two nested blocks, one with an else branch, a Safari block and an include that counts.\<close>

theorem directives_meaning_witness:
  "processDirectives (\<lambda>path n :: nat. (Inr [path @ ''.''] :: unit + lines, Suc n))
     [''a'', ''!#if adguard || !false'', ''b'', '' !#if false'', ''c'', ''!#else'', ''!#include x'',
      ''!#endif'', ''!#endif'', ''!#safari_cb_affinity(all)'', ''d'', ''!#safari_cb_affinity'', ''e''] 4 =
   (Inr [''a'', ''b'', ''x.'', ''e''], 5)"
proof -
  let ?inc = "\<lambda>path n :: nat. (Inr [path @ ''.''] :: unit + lines, Suc n)"
  let ?items = "[Rule ''a'', If ''!#if adguard || !false'' [Rule ''b'',
      IfElse '' !#if false'' [Rule ''c''] [IncludeLine ''!#include x'']],
      Safari ''!#safari_cb_affinity(all)'' [''d''], Rule ''e'']"
  have 1: "well_formed ?items" by code_simp
  have 2: "render ?items = [''a'', ''!#if adguard || !false'', ''b'', '' !#if false'', ''c'',
      ''!#else'', ''!#include x'', ''!#endif'', ''!#endif'', ''!#safari_cb_affinity(all)'', ''d'',
      ''!#safari_cb_affinity'', ''e'']" by code_simp
  have 3: "argument_of D_If ''!#if adguard || !false'' = ''adguard || !false''"
    "argument_of D_If '' !#if false'' = ''false''" "argument_of D_Include ''!#include x'' = ''x''"
    by code_simp+
  have 4: "evaluateCondition ''false'' None = bexp_value None BFalse"
    unfolding evaluateCondition_def by (rule evaluates_text; code_simp)
  have 5: "evaluateCondition ''adguard || !false'' None = bexp_value None (BOr (BIdent ''adguard'') (BNot BFalse))"
    unfolding evaluateCondition_def by (rule evaluates_text; code_simp)
  show ?thesis
    using directives_meaning [OF 1, of ?inc 4] by (simp add: 2 [unfolded D_Else_def D_EndIf_def D_Safari_def] 3 4 5 after_def and_then_def
      D_Else_def D_EndIf_def D_Safari_def)
qed

end
