(* ===== verification/Downloader.thy ===== *)
theory Downloader
  imports Directives Paths Breaker
begin

text \<open>
  The downloader of filter lists (\<open>src/downloader/FilterDownloader.ts\<close>): one circuit breaker per
  URL, the retry loop of \<open>fetchUrl\<close>, \<open>readFile\<close>, and \<open>downloadInternal\<close> with its set of visited
  sources and its depth limit.  What the program asks of its host is the record \<open>host\<close>, whose
  operations take the state \<open>'w\<close> of the outside world and the clock, and return them changed:
  \<open>host_fetch\<close> is one \<open>fetch\<close> with the reading of the body and the abort of the timer,
  \<open>host_wait\<close> the pause before the next attempt, \<open>host_read\<close> is \<open>Deno.readTextFile\<close>, and
  \<open>host_url\<close> the class \<open>URL\<close> as in \<open>Paths\<close>.  Log messages are left out.
\<close>

section \<open>Options and errors\<close>

record downloader_options =
  do_timeout :: int
  do_allowEmptyResponse :: bool
  do_maxIncludeDepth :: nat
  do_maxRetries :: int
  do_enableCircuitBreaker :: bool
  do_circuitBreakerThreshold :: int
  do_circuitBreakerTimeout :: int

definition DEFAULT_OPTIONS :: downloader_options where
  "DEFAULT_OPTIONS = \<lparr>do_timeout = 30000, do_allowEmptyResponse = False, do_maxIncludeDepth = 10,
     do_maxRetries = 3, do_enableCircuitBreaker = True, do_circuitBreakerThreshold = 5,
     do_circuitBreakerTimeout = 60000\<rparr>"

datatype error_code = FILE_NOT_FOUND | PERMISSION_DENIED

datatype download_error =
    NetworkError jstr jstr "nat option" bool
  | FileSystemError jstr jstr error_code
  | PathTraversalError path_error
  | HostError jstr jstr

fun error_name :: "download_error \<Rightarrow> jstr" where
  "error_name (NetworkError m url status retryable) = ''NetworkError''"
| "error_name (FileSystemError m path code) = ''FileSystemError''"
| "error_name (PathTraversalError e) = ''Error''"
| "error_name (HostError n m) = n"

fun error_message :: "download_error \<Rightarrow> jstr" where
  "error_message (NetworkError m url status retryable) = m"
| "error_message (FileSystemError m path code) = m"
| "error_message (PathTraversalError (PathTraversal path dir)) =
     ''Path traversal detected: '' @ [CHR 0x27] @ path @ [CHR 0x27] @ '' escapes base directory '' @
     [CHR 0x27] @ dir @ [CHR 0x27]"
| "error_message (HostError n m) = m"

function decimal :: "nat \<Rightarrow> jstr" where
  "decimal n = (if n < 10 then [char_of (48 + n)] else decimal (n div 10) @ [char_of (48 + n mod 10)])"
  by pat_completeness auto
termination by (relation "measure id") auto

declare decimal.simps [simp del]

definition httpError :: "jstr \<Rightarrow> nat \<Rightarrow> jstr \<Rightarrow> download_error" where
  "httpError url statusCode statusText =
     NetworkError (''HTTP '' @ decimal statusCode @ '': '' @ statusText) url (Some statusCode)
       (500 \<le> statusCode \<or> statusCode = 429)"

definition timeoutError :: "jstr \<Rightarrow> int \<Rightarrow> download_error" where
  "timeoutError url timeoutMs =
     NetworkError (''Request timeout after '' @ decimal (nat timeoutMs) @ ''ms'') url None True"

definition fileNotFoundError :: "jstr \<Rightarrow> download_error" where
  "fileNotFoundError path = FileSystemError (''File not found: '' @ path) path FILE_NOT_FOUND"

definition permissionDeniedError :: "jstr \<Rightarrow> jstr \<Rightarrow> download_error" where
  "permissionDeniedError path operation =
     FileSystemError (''Permission denied: '' @ operation @ '' on '' @ path) path PERMISSION_DENIED"

section \<open>The host\<close>

text \<open>
  A reply is a response with its status, status text and body, or an exception of \<open>fetch\<close> or
  of the reading of the body, with its name and message.
\<close>

datatype reply = Response nat jstr jstr | Throws jstr jstr

datatype read_error = NotFound | NotCapable | OtherReadError jstr jstr

record 'w host =
  host_fetch :: "jstr \<Rightarrow> 'w \<Rightarrow> int \<Rightarrow> reply \<times> 'w \<times> int"
  host_wait :: "int \<Rightarrow> 'w \<Rightarrow> int \<Rightarrow> 'w \<times> int"
  host_read :: "jstr \<Rightarrow> 'w \<Rightarrow> int \<Rightarrow> (read_error + jstr) \<times> 'w \<times> int"
  host_url :: "jstr \<Rightarrow> jstr \<Rightarrow> jstr option"

section \<open>Fetching a URL\<close>

definition response_ok :: "nat \<Rightarrow> bool" where
  "response_ok status \<longleftrightarrow> 200 \<le> status \<and> status \<le> 299"

text \<open>
  One attempt: it returns the text, throws out of the loop, or falls through to the pause with
  the error as \<open>lastError\<close>.
\<close>

datatype attempt = Return jstr | Throw download_error | Retry download_error

definition try_block :: "downloader_options \<Rightarrow> jstr \<Rightarrow> int \<Rightarrow> reply \<Rightarrow> attempt" where
  "try_block opts url attempt r =
     (case r of
        Response status statusText body \<Rightarrow>
          if \<not> response_ok status then
            (let shouldRetry = 500 \<le> status \<or> status = 429
             in if \<not> shouldRetry \<or> attempt = do_maxRetries opts
                then Throw (httpError url status statusText)
                else Retry (httpError url status statusText))
          else if body = [] \<and> \<not> do_allowEmptyResponse opts
               then Throw (NetworkError ''Empty response received'' url None False)
          else Return body
      | Throws name message \<Rightarrow> Throw (HostError name message))"

definition catch_block :: "downloader_options \<Rightarrow> jstr \<Rightarrow> int \<Rightarrow> download_error \<Rightarrow> attempt" where
  "catch_block opts url attempt error =
     (let isTimeoutError = error_name error = ''AbortError'' \<or> str_includes (error_message error) ''aborted'';
          lastError = (if isTimeoutError then timeoutError url (do_timeout opts) else error)
      in if \<not> isTimeoutError \<and> str_includes (error_message lastError) ''HTTP 4'' then Throw lastError
         else if attempt = do_maxRetries opts then Throw lastError
         else Retry lastError)"

definition one_attempt :: "downloader_options \<Rightarrow> jstr \<Rightarrow> int \<Rightarrow> reply \<Rightarrow> attempt" where
  "one_attempt opts url attempt r =
     (case try_block opts url attempt r of
        Throw e \<Rightarrow> catch_block opts url attempt e
      | a \<Rightarrow> a)"

text \<open>The loop, on the number of attempts that are left.\<close>

primrec fetch_attempts ::
  "'w host \<Rightarrow> downloader_options \<Rightarrow> jstr \<Rightarrow> nat \<Rightarrow> download_error option \<Rightarrow> 'w \<Rightarrow> int \<Rightarrow>
   (download_error + jstr) \<times> 'w \<times> int" where
  "fetch_attempts h opts url 0 lastError w now =
     (Inl (case lastError of Some e \<Rightarrow> e
           | None \<Rightarrow> NetworkError ''Failed to fetch URL after retries'' url None False), w, now)"
| "fetch_attempts h opts url (Suc n) lastError w now =
     (let attempt = do_maxRetries opts - int n;
          (r, w', now') = host_fetch h url w now
      in case one_attempt opts url attempt r of
           Return text \<Rightarrow> (Inr text, w', now')
         | Throw e \<Rightarrow> (Inl e, w', now')
         | Retry e \<Rightarrow>
             let (w'', now'') = (if attempt < do_maxRetries opts then host_wait h attempt w' now' else (w', now'))
             in fetch_attempts h opts url n (Some e) w'' now'')"

definition fetchFn ::
  "'w host \<Rightarrow> downloader_options \<Rightarrow> jstr \<Rightarrow> 'w \<Rightarrow> int \<Rightarrow> (download_error + jstr) \<times> 'w \<times> int" where
  "fetchFn h opts url w now = fetch_attempts h opts url (nat (do_maxRetries opts + 1)) None w now"

section \<open>The downloader\<close>

record 'w downloader =
  visitedUrls :: "jstr list"
  circuitBreakers :: "jstr \<Rightarrow> breaker option"
  dl_world :: 'w
  dl_now :: int

definition new_downloader :: "'w \<Rightarrow> int \<Rightarrow> 'w downloader" where
  "new_downloader w now = \<lparr>visitedUrls = [], circuitBreakers = Map.empty, dl_world = w, dl_now = now\<rparr>"

definition breaker_opts :: "downloader_options \<Rightarrow> breaker_options" where
  "breaker_opts opts = default_options (Some (do_circuitBreakerThreshold opts)) (Some (do_circuitBreakerTimeout opts))"

definition getCircuitBreaker ::
  "downloader_options \<Rightarrow> jstr \<Rightarrow> 'w downloader \<Rightarrow> breaker option \<times> 'w downloader" where
  "getCircuitBreaker opts url s =
     (if \<not> do_enableCircuitBreaker opts then (None, s)
      else case circuitBreakers s url of
             Some b \<Rightarrow> (Some b, s)
           | None \<Rightarrow> (Some new_breaker, s\<lparr>circuitBreakers := (circuitBreakers s)(url \<mapsto> new_breaker)\<rparr>))"

definition open_breaker_error :: "jstr \<Rightarrow> open_error \<Rightarrow> download_error" where
  "open_breaker_error url e =
     NetworkError (''Circuit breaker is OPEN for '' @ url @ '': [FilterDownloader:'' @ url @
       ''] Circuit breaker is OPEN. Retry in '' @ decimal (nat (retry_seconds e)) @ ''s'') url None False"

definition fetchUrl ::
  "'w host \<Rightarrow> downloader_options \<Rightarrow> jstr \<Rightarrow> 'w downloader \<Rightarrow> (download_error + jstr) \<times> 'w downloader" where
  "fetchUrl h opts url s =
     (case getCircuitBreaker opts url s of
        (Some b, s') \<Rightarrow>
          (let (result, b', w', now') = execute (breaker_opts opts) (fetchFn h opts url) (dl_now s') b (dl_world s');
               s'' = s'\<lparr>circuitBreakers := (circuitBreakers s')(url \<mapsto> b'), dl_world := w', dl_now := now'\<rparr>
           in case result of
                Inr text \<Rightarrow> (Inr text, s'')
              | Inl (Open_Error e) \<Rightarrow> (Inl (open_breaker_error url e), s'')
              | Inl (Call_Error e) \<Rightarrow> (Inl e, s''))
      | (None, s') \<Rightarrow>
          (let (result, w', now') = fetchFn h opts url (dl_world s') (dl_now s')
           in (result, s'\<lparr>dl_world := w', dl_now := now'\<rparr>)))"

definition readFile ::
  "'w host \<Rightarrow> downloader_options \<Rightarrow> jstr \<Rightarrow> 'w downloader \<Rightarrow> (download_error + jstr) \<times> 'w downloader" where
  "readFile h opts path s =
     (let (r, w', now') = host_read h path (dl_world s) (dl_now s);
          result = (case r of
              Inr content \<Rightarrow>
                if content = [] \<and> \<not> do_allowEmptyResponse opts
                then Inl (FileSystemError ''Empty file'' path FILE_NOT_FOUND) else Inr content
            | Inl NotFound \<Rightarrow> Inl (fileNotFoundError path)
            | Inl NotCapable \<Rightarrow> Inl (permissionDeniedError path ''read'')
            | Inl (OtherReadError n m) \<Rightarrow> Inl (HostError n m))
      in (result, s\<lparr>dl_world := w', dl_now := now'\<rparr>))"

definition load ::
  "'w host \<Rightarrow> downloader_options \<Rightarrow> jstr \<Rightarrow> 'w downloader \<Rightarrow> (download_error + jstr) \<times> 'w downloader" where
  "load h opts source s = (if isUrl source then fetchUrl h opts source s else readFile h opts source s)"

text \<open>\<open>content.split(/\r?\n/)\<close> without the empty line after a final line break.\<close>

definition drop_cr :: "jstr \<Rightarrow> jstr" where
  "drop_cr w = (if w \<noteq> [] \<and> last w = CHR 0x0D then butlast w else w)"

definition split_lines :: "jstr \<Rightarrow> lines" where
  "split_lines s = (let ws = split_on CHR 0x0A s in map drop_cr (butlast ws) @ [last ws])"

definition content_lines :: "jstr \<Rightarrow> lines" where
  "content_lines content =
     (let ls = split_lines content in if ls \<noteq> [] \<and> last ls = [] then butlast ls else ls)"

text \<open>
  \<open>left\<close> is the number of levels that may still be opened, \<open>maxIncludeDepth + 1 - depth\<close>.  A path
  that escapes the list's directory throws out of \<open>processDirectives\<close>; an error of the
  included list is caught there and the list is skipped.
\<close>

primrec downloadInternal ::
  "nat \<Rightarrow> 'w host \<Rightarrow> downloader_options \<Rightarrow> jstr \<Rightarrow> 'w downloader \<Rightarrow> (download_error + lines) \<times> 'w downloader" where
  "downloadInternal 0 h opts source s = (Inr [], s)"
| "downloadInternal (Suc left) h opts source s =
     (if source \<in> set (visitedUrls s) then (Inr [], s)
      else case load h opts source (s\<lparr>visitedUrls := source # visitedUrls s\<rparr>) of
             (Inl e, s') \<Rightarrow> (Inl e, s')
           | (Inr content, s') \<Rightarrow>
               processDirectives
                 (\<lambda>includePath t.
                    case resolveIncludePath (host_url h) includePath source of
                      Inl e \<Rightarrow> (Inl (PathTraversalError e), t)
                    | Inr resolvedPath \<Rightarrow>
                        (case downloadInternal left h opts resolvedPath t of
                           (Inr included, t') \<Rightarrow> (Inr included, t')
                         | (Inl e, t') \<Rightarrow> (Inr [], t')))
                 (content_lines content) s')"

definition download ::
  "'w host \<Rightarrow> downloader_options \<Rightarrow> jstr \<Rightarrow> 'w downloader \<Rightarrow> (download_error + lines) \<times> 'w downloader" where
  "download h opts source s =
     downloadInternal (do_maxIncludeDepth opts + 1) h opts source (s\<lparr>visitedUrls := []\<rparr>)"

text \<open>The static method, which the compiler calls for every source.\<close>

definition download_once ::
  "'w host \<Rightarrow> downloader_options \<Rightarrow> bool \<Rightarrow> jstr \<Rightarrow> 'w \<Rightarrow> int \<Rightarrow> (download_error + lines) \<times> 'w downloader" where
  "download_once h opts allowEmptyResponse source w now =
     download h (opts\<lparr>do_allowEmptyResponse := allowEmptyResponse\<rparr>) source (new_downloader w now)"

definition getCircuitBreakerStats :: "downloader_options \<Rightarrow> 'w downloader \<Rightarrow> jstr \<Rightarrow> breaker_stats option" where
  "getCircuitBreakerStats opts s url =
     map_option (getStats (breaker_opts opts) (dl_now s)) (circuitBreakers s url)"

definition resetCircuitBreakers :: "'w downloader \<Rightarrow> 'w downloader" where
  "resetCircuitBreakers s = s\<lparr>circuitBreakers := (\<lambda>url. map_option reset_breaker (circuitBreakers s url))\<rparr>"

section \<open>Two runs side by side\<close>

text \<open>
  What a download asks of the loading of one source to run in step with another download: the
  relation \<open>R\<close> of their states, which agree on the visited sources, is kept by every load of a
  source that was not visited, and the loads answer alike.
\<close>

lemma related_catch:
  "related R x y \<Longrightarrow>
   related R (case x of (Inr l, s) \<Rightarrow> (Inr l, s) | (Inl e, s) \<Rightarrow> (Inr [], s))
     (case y of (Inr l, s) \<Rightarrow> (Inr l, s) | (Inl e, s) \<Rightarrow> (Inr [], s))"
  by (cases x; cases y) (auto simp: related_def split: sum.split)

locale download_simulation =
  fixes h :: "'w host" and h' :: "'v host"
    and opts :: downloader_options and opts' :: downloader_options
    and R :: "'w downloader \<Rightarrow> 'v downloader \<Rightarrow> bool"
  assumes same_urls: "host_url h' = host_url h"
    and same_visited: "R s t \<Longrightarrow> visitedUrls t = visitedUrls s"
    and load_related: "R s t \<Longrightarrow> source \<notin> set (visitedUrls s) \<Longrightarrow>
       related R (load h opts source (s\<lparr>visitedUrls := source # visitedUrls s\<rparr>))
         (load h' opts' source (t\<lparr>visitedUrls := source # visitedUrls t\<rparr>))"
begin

lemma internal_related:
  "R s t \<Longrightarrow> related R (downloadInternal n h opts source s) (downloadInternal n h' opts' source t)"
proof (induction n arbitrary: source s t)
  case (Suc n)
  show ?case
  proof (cases "source \<in> set (visitedUrls s)")
    case False
    obtain r s' where l: "load h opts source (s\<lparr>visitedUrls := source # visitedUrls s\<rparr>) = (r, s')"
      by (cases "load h opts source (s\<lparr>visitedUrls := source # visitedUrls s\<rparr>)")
    obtain t' where l': "load h' opts' source (t\<lparr>visitedUrls := source # visitedUrls t\<rparr>) = (r, t')" "R s' t'"
      using load_related [OF Suc.prems False] l
      by (cases "load h' opts' source (t\<lparr>visitedUrls := source # visitedUrls t\<rparr>)")
        (auto simp: related_def)
    show ?thesis
    proof (cases r)
      case (Inr content)
      have "related R
          (case resolveIncludePath (host_url h) path source of
             Inl e \<Rightarrow> (Inl (PathTraversalError e), u)
           | Inr p \<Rightarrow> (case downloadInternal n h opts p u of
               (Inr included, u') \<Rightarrow> (Inr included, u') | (Inl e, u') \<Rightarrow> (Inr [], u')))
          (case resolveIncludePath (host_url h') path source of
             Inl e \<Rightarrow> (Inl (PathTraversalError e), v)
           | Inr p \<Rightarrow> (case downloadInternal n h' opts' p v of
               (Inr included, v') \<Rightarrow> (Inr included, v') | (Inl e, v') \<Rightarrow> (Inr [], v')))"
        if uv: "R u v" for path u v
        using uv by (cases "resolveIncludePath (host_url h) path source")
          (simp_all add: same_urls related_catch [OF Suc.IH [OF uv]] related_def [of R "(_, u)"])
      then show ?thesis using l l' Inr False same_visited [OF Suc.prems]
        by (simp add: processDirectives_related)
    qed (use l l' False same_visited [OF Suc.prems] in \<open>simp add: related_def\<close>)
  qed (use same_visited [OF Suc.prems] Suc.prems in \<open>simp add: related_def\<close>)
qed (simp add: related_def)

end

section \<open>How often a source is asked for\<close>

text \<open>A host that writes down every request, in front of the ones before.\<close>

definition with_log :: "'w host \<Rightarrow> ('w \<times> jstr list) host" where
  "with_log h =
     \<lparr>host_fetch = (\<lambda>url (w, log) now. case host_fetch h url w now of (r, w', now') \<Rightarrow> (r, (w', url # log), now')),
      host_wait = (\<lambda>attempt (w, log) now. case host_wait h attempt w now of (w', now') \<Rightarrow> ((w', log), now')),
      host_read = (\<lambda>path (w, log) now. case host_read h path w now of (r, w', now') \<Rightarrow> (r, (w', path # log), now')),
      host_url = host_url h\<rparr>"

abbreviation requests :: "('w \<times> jstr list) downloader \<Rightarrow> jstr \<Rightarrow> nat" where
  "requests s u \<equiv> count_list (snd (dl_world s)) u"

definition request_limit :: "downloader_options \<Rightarrow> jstr \<Rightarrow> nat" where
  "request_limit opts u = (if isUrl u then nat (do_maxRetries opts + 1) else 1)"

lemma fetch_attempts_log:
  "fetch_attempts (with_log h) opts url n e wl now = (r, wl', now') \<Longrightarrow>
   count_list (snd wl') u \<le> count_list (snd wl) u + (if u = url then n else 0)"
proof (induction n arbitrary: e wl now)
  case (Suc n)
  obtain w l where wl: "wl = (w, l)" by (cases wl)
  obtain rep w1 now1 where f: "host_fetch h url w now = (rep, w1, now1)" by (metis prod_cases3)
  show ?case
  proof (cases "one_attempt opts url (do_maxRetries opts - int n) rep")
    case (Retry e')
    obtain w2 now2 where "host_wait h (do_maxRetries opts - int n) w1 now1 = (w2, now2)"
      by (cases "host_wait h (do_maxRetries opts - int n) w1 now1")
    then have "\<exists>w3 now3. fetch_attempts (with_log h) opts url n (Some e') (w3, url # l) now3 = (r, wl', now')"
      using Suc.prems f Retry by (cases "0 < n") (auto simp: wl Let_def with_log_def)
    then obtain w3 now3 where
      "fetch_attempts (with_log h) opts url n (Some e') (w3, url # l) now3 = (r, wl', now')" by blast
    from Suc.IH [OF this] show ?thesis by (auto simp: wl)
  qed (use Suc.prems f in \<open>auto simp: wl Let_def with_log_def\<close>)
qed simp

lemma load_log:
  assumes "load (with_log h) opts source s = (r, s')"
  shows "requests s' u \<le> requests s u + (if u = source then request_limit opts u else 0) \<and>
    visitedUrls s' = visitedUrls s"
proof (cases "isUrl source")
  case True
  then have f: "fetchUrl (with_log h) opts source s = (r, s')" using assms by (simp add: load_def)
  have log: "fetchFn (with_log h) opts source w now = (x, w', now') \<Longrightarrow>
      count_list (snd w') u \<le> count_list (snd w) u + (if u = source then request_limit opts u else 0)"
    for w now x w' now'
    using fetch_attempts_log [of h opts source "nat (do_maxRetries opts + 1)" None w now x w' now' u] True
    by (auto simp: fetchFn_def request_limit_def)
  show ?thesis
  proof (cases "getCircuitBreaker opts source s")
    case (Pair b t)
    then have t: "dl_world t = dl_world s" "visitedUrls t = visitedUrls s"
      by (auto simp: getCircuitBreaker_def split: if_splits option.splits)
    obtain x w' now' where x: "fetchFn (with_log h) opts source (dl_world t) (dl_now t) = (x, w', now')"
      by (metis prod_cases3)
    show ?thesis
      using f Pair log [OF x] t x
      by (auto simp: fetchUrl_def execute_def Let_def split: option.splits sum.splits breaker_error.splits)
  qed
next
  case False
  obtain w l where wl: "dl_world s = (w, l)" by (cases "dl_world s")
  show ?thesis using False assms wl
    by (auto simp: load_def readFile_def with_log_def request_limit_def Let_def split: prod.splits)
qed

definition within_limits ::
  "downloader_options \<Rightarrow> (jstr \<Rightarrow> nat) \<Rightarrow> ('w \<times> jstr list) downloader \<Rightarrow> ('w \<times> jstr list) downloader \<Rightarrow> bool" where
  "within_limits opts before s t \<longleftrightarrow> t = s \<and>
     (\<forall>u. requests s u \<le> before u + (if u \<in> set (visitedUrls s) then request_limit opts u else 0))"

interpretation logged: download_simulation "with_log h" "with_log h" opts opts "within_limits opts before"
  for h :: "'w host" and opts before
proof unfold_locales
  fix s t :: "('w \<times> jstr list) downloader" and source
  assume st: "within_limits opts before s t" and new: "source \<notin> set (visitedUrls s)"
  let ?s = "s\<lparr>visitedUrls := source # visitedUrls s\<rparr>"
  obtain r s' where l: "load (with_log h) opts source ?s = (r, s')" by (cases "load (with_log h) opts source ?s")
  have "requests s' u \<le> before u + (if u \<in> set (visitedUrls s') then request_limit opts u else 0)" for u
  proof -
    have "requests s u \<le> before u + (if u \<in> set (visitedUrls s) then request_limit opts u else 0)"
      using st by (simp add: within_limits_def)
    then show ?thesis using load_log [OF l, of u] new by (auto split: if_splits)
  qed
  then show "related (within_limits opts before) (load (with_log h) opts source ?s)
     (load (with_log h) opts source (t\<lparr>visitedUrls := source # visitedUrls t\<rparr>))"
    using st l by (simp add: related_def within_limits_def)
qed (simp_all add: within_limits_def)

text \<open>
  C14. One download asks for nothing twice: whatever the host answers, with includes nested and
  repeated in any way, it sends at most \<open>maxRetries + 1\<close> requests for any URL, the retries of one
  fetch, and reads any file at most once.
\<close>

theorem download_request_bound:
  "requests (snd (download (with_log h) opts source s)) u \<le> requests s u + request_limit opts u"
proof -
  let ?s = "s\<lparr>visitedUrls := []\<rparr>" and ?b = "\<lambda>u. requests s u"
  have "within_limits opts ?b ?s ?s" by (simp add: within_limits_def)
  from logged.internal_related [OF this]
  have "within_limits opts ?b (snd (download (with_log h) opts source s)) (snd (download (with_log h) opts source s))"
    unfolding download_def related_def by blast
  then have "requests (snd (download (with_log h) opts source s)) u \<le> requests s u +
      (if u \<in> set (visitedUrls (snd (download (with_log h) opts source s))) then request_limit opts u else 0)"
    by (simp add: within_limits_def)
  then show ?thesis by (simp split: if_splits)
qed

section \<open>The breakers of one download\<close>

text \<open>
  The runs with and without breakers: the same sources visited, the same world and time, and in
  the first run only closed breakers, of visited sources.
\<close>

definition breakers_idle :: "'w downloader \<Rightarrow> 'w downloader \<Rightarrow> bool" where
  "breakers_idle s t \<longleftrightarrow> visitedUrls t = visitedUrls s \<and> dl_world t = dl_world s \<and> dl_now t = dl_now s \<and>
     (\<forall>u b. circuitBreakers s u = Some b \<longrightarrow> u \<in> set (visitedUrls s) \<and> cb_state b = CLOSED)"

definition patient :: "downloader_options \<Rightarrow> downloader_options" where
  "patient opts = opts\<lparr>do_circuitBreakerThreshold := max 2 (do_circuitBreakerThreshold opts)\<rparr>"

lemma fresh_breaker_execute:
  "1 < bo_threshold bo \<Longrightarrow> execute bo fn now new_breaker w = (r, b, w', now') \<Longrightarrow>
   \<exists>x. fn w now = (x, w', now') \<and> cb_state b = CLOSED \<and>
     r = (case x of Inl e \<Rightarrow> Inl (Call_Error e) | Inr y \<Rightarrow> Inr y)"
  by (auto simp: execute_def breaker_defs Let_def split: prod.splits sum.splits)

lemma fetchFn_same:
  "do_timeout o1 = do_timeout o2 \<Longrightarrow> do_allowEmptyResponse o1 = do_allowEmptyResponse o2 \<Longrightarrow>
   do_maxRetries o1 = do_maxRetries o2 \<Longrightarrow> fetchFn h o1 url w now = fetchFn h o2 url w now"
proof -
  assume o: "do_timeout o1 = do_timeout o2" "do_allowEmptyResponse o1 = do_allowEmptyResponse o2"
    "do_maxRetries o1 = do_maxRetries o2"
  have "one_attempt o1 url a r = one_attempt o2 url a r" for a r
    by (simp add: one_attempt_def try_block_def catch_block_def o cong: if_cong reply.case_cong attempt.case_cong)
  then have "fetch_attempts h o1 url n e w now = fetch_attempts h o2 url n e w now" for n e
    by (induction n arbitrary: e w now) (simp_all add: o Let_def cong: attempt.case_cong)
  then show ?thesis by (simp add: fetchFn_def o)
qed

lemma fetchUrl_idle:
  assumes "breakers_idle s t" and "circuitBreakers s url = None" and "1 < do_circuitBreakerThreshold opts"
    and "url \<in> set (visitedUrls s)"
  shows "related breakers_idle (fetchUrl h opts url s) (fetchUrl h (opts\<lparr>do_enableCircuitBreaker := False\<rparr>) url t)"
proof -
  let ?o = "opts\<lparr>do_enableCircuitBreaker := False\<rparr>"
  have same: "fetchFn h ?o = fetchFn h opts" by (intro ext fetchFn_same) simp_all
  obtain x w' now' where x: "fetchFn h opts url (dl_world s) (dl_now s) = (x, w', now')" by (metis prod_cases3)
  have t: "fetchUrl h ?o url t = (x, t\<lparr>dl_world := w', dl_now := now'\<rparr>)"
    using assms(1) x by (simp add: fetchUrl_def getCircuitBreaker_def same breakers_idle_def)
  show ?thesis
  proof (cases "do_enableCircuitBreaker opts")
    case False
    then show ?thesis using x t assms(1)
      by (simp add: fetchUrl_def getCircuitBreaker_def related_def breakers_idle_def)
  next
    case True
    obtain r b w2 now2 where e: "execute (breaker_opts opts) (fetchFn h opts url) (dl_now s) new_breaker (dl_world s)
        = (r, b, w2, now2)" by (metis prod_cases4)
    have "1 < bo_threshold (breaker_opts opts)"
      using assms(3) by (simp add: breaker_opts_def default_options_def)
    from fresh_breaker_execute [OF this e] x
    have b: "cb_state b = CLOSED" "w2 = w'" "now2 = now'"
      "r = (case x of Inl e \<Rightarrow> Inl (Call_Error e) | Inr y \<Rightarrow> Inr y)" by auto
    have "fetchUrl h opts url s = (x, s\<lparr>circuitBreakers := (circuitBreakers s)(url \<mapsto> b),
        dl_world := w', dl_now := now'\<rparr>)"
      using True assms(2) e b by (simp add: fetchUrl_def getCircuitBreaker_def split: sum.split)
    then show ?thesis using t assms(1,4) b(1) by (simp add: related_def breakers_idle_def)
  qed
qed

interpretation idle: download_simulation h h "patient opts" "(patient opts)\<lparr>do_enableCircuitBreaker := False\<rparr>"
  breakers_idle for h :: "'w host" and opts
proof unfold_locales
  fix s t :: "'w downloader" and source
  assume st: "breakers_idle s t" and new: "source \<notin> set (visitedUrls s)"
  let ?o = "(patient opts)\<lparr>do_enableCircuitBreaker := False\<rparr>"
  let ?s = "s\<lparr>visitedUrls := source # visitedUrls s\<rparr>" and ?t = "t\<lparr>visitedUrls := source # visitedUrls t\<rparr>"
  have idle: "breakers_idle ?s ?t" "circuitBreakers ?s source = None"
    using st new by (auto simp: breakers_idle_def) (metis option.exhaust)
  show "related breakers_idle (load h (patient opts) source ?s) (load h ?o source ?t)"
  proof (cases "isUrl source")
    case True
    then show ?thesis
      using fetchUrl_idle [OF idle, of "patient opts" h] by (simp add: load_def patient_def)
  next
    case False
    obtain r w' now' where "host_read h source (dl_world s) (dl_now s) = (r, w', now')" by (metis prod_cases3)
    then show ?thesis using False idle
      by (simp add: load_def readFile_def related_def breakers_idle_def Let_def cong: sum.case_cong if_cong)
  qed
qed (simp_all add: breakers_idle_def)

text \<open>
  The circuit breakers never protect a source that the compiler downloads: the static method
  starts every download with new breakers, a download fetches each URL at most once, so with any
  threshold above 1 the download has the same result and the same requests, at the same times,
  as one with the breakers switched off, and no breaker is open at its end.
\<close>

theorem compiler_breakers_idle:
  assumes "1 < do_circuitBreakerThreshold opts"
  shows "fst (download_once h opts allow source w now) =
      fst (download_once h (opts\<lparr>do_enableCircuitBreaker := False\<rparr>) allow source w now) \<and>
    dl_world (snd (download_once h opts allow source w now)) =
      dl_world (snd (download_once h (opts\<lparr>do_enableCircuitBreaker := False\<rparr>) allow source w now)) \<and>
    (\<forall>u b. circuitBreakers (snd (download_once h opts allow source w now)) u = Some b \<longrightarrow> cb_state b = CLOSED)"
proof -
  let ?o = "opts\<lparr>do_allowEmptyResponse := allow\<rparr>"
  have "breakers_idle ((new_downloader w now)\<lparr>visitedUrls := []\<rparr>) ((new_downloader w now)\<lparr>visitedUrls := []\<rparr>)"
    by (simp add: breakers_idle_def new_downloader_def)
  note rel = idle.internal_related [OF this, of "do_maxIncludeDepth opts + 1" h ?o source]
  have "patient ?o = ?o" using assms by (simp add: patient_def max_def)
  moreover have "(opts\<lparr>do_enableCircuitBreaker := False\<rparr>)\<lparr>do_allowEmptyResponse := allow\<rparr> =
      ?o\<lparr>do_enableCircuitBreaker := False\<rparr>" by simp
  moreover have "do_maxIncludeDepth (o'\<lparr>do_enableCircuitBreaker := False\<rparr>) = do_maxIncludeDepth o'"
    "do_maxIncludeDepth (o'\<lparr>do_allowEmptyResponse := allow\<rparr>) = do_maxIncludeDepth o'" for o' :: downloader_options
    by simp_all
  ultimately have "related breakers_idle (download_once h opts allow source w now)
      (download_once h (opts\<lparr>do_enableCircuitBreaker := False\<rparr>) allow source w now)"
    using rel by (simp only: download_once_def download_def)
  then show ?thesis by (simp add: related_def breakers_idle_def)
qed

text \<open>A host with one list that includes another one, which never answers.\<close>

definition demo_host :: "unit host" where
  "demo_host =
     \<lparr>host_fetch = (\<lambda>url w now. if url = ''http://a/l.txt'' then (Response 200 ''OK'' (''x'' @ [CHR 0x0D, CHR 0x0A] @
          ''!#include http://b/l.txt''), w, now + 1) else (Response 503 ''Busy'' [], w, now + 1)),
      host_wait = (\<lambda>attempt w now. (w, now + 1000)),
      host_read = (\<lambda>path w now. (Inl NotFound, w, now)),
      host_url = (\<lambda>base rel. None)\<rparr>"

theorem compiler_breakers_idle_witness:
  "fst (download_once demo_host (DEFAULT_OPTIONS\<lparr>do_enableCircuitBreaker := False\<rparr>) True ''http://a/l.txt'' () 0) =
     Inr [''x''] \<and>
   fst (download_once demo_host DEFAULT_OPTIONS True ''http://a/l.txt'' () 0) = Inr [''x'']"
proof -
  have a: "fst (download_once demo_host (DEFAULT_OPTIONS\<lparr>do_enableCircuitBreaker := False\<rparr>) True ''http://a/l.txt'' () 0) =
     Inr [''x'']" by code_simp
  have "1 < do_circuitBreakerThreshold DEFAULT_OPTIONS" by (simp add: DEFAULT_OPTIONS_def)
  from compiler_breakers_idle [OF this, of demo_host True "''http://a/l.txt''" "()" 0] a
  show ?thesis by simp
qed

section \<open>Retries\<close>

text \<open>
  Replies after which the code tries again, and replies that settle the fetch.  A status text
  with the word \<open>aborted\<close> reads as a timeout, so it does not settle it.
\<close>

fun transient :: "reply \<Rightarrow> bool" where
  "transient (Response status statusText body) \<longleftrightarrow> 500 \<le> status \<or> status = 429"
| "transient (Throws name message) \<longleftrightarrow>
     name = ''AbortError'' \<or> str_includes message ''aborted'' \<or> \<not> str_includes message ''HTTP 4''"

fun settled :: "reply \<Rightarrow> bool" where
  "settled (Response status statusText body) \<longleftrightarrow>
     (if response_ok status then body \<noteq> []
      else 400 \<le> status \<and> status \<le> 499 \<and> status \<noteq> 429 \<and>
        \<not> str_includes (''HTTP '' @ decimal status @ '': '' @ statusText) ''aborted'')"
| "settled (Throws name message) \<longleftrightarrow> False"

fun verdict :: "jstr \<Rightarrow> reply \<Rightarrow> download_error + jstr" where
  "verdict url (Response status statusText body) =
     (if response_ok status then Inr body else Inl (httpError url status statusText))"
| "verdict url (Throws name message) = Inl (HostError name message)"

definition scripted :: "reply list host \<Rightarrow> bool" where
  "scripted h \<longleftrightarrow>
     (\<forall>url r rs now. \<exists>now'. host_fetch h url (r # rs) now = (r, rs, now')) \<and>
     (\<forall>a rs now. fst (host_wait h a rs now) = rs)"

lemma decimal_4xx: "400 \<le> n \<Longrightarrow> n \<le> 499 \<Longrightarrow> \<exists>x y. decimal n = [CHR ''4'', x, y]"
proof -
  assume n: "400 \<le> n" "n \<le> 499"
  then have "n div 10 div 10 = 4" by linarith
  moreover have "\<not> n < 10" "\<not> n div 10 < 10" using n by auto
  moreover have "decimal 4 = ''4''" by code_simp
  ultimately show ?thesis by (simp add: decimal.simps [of n] decimal.simps [of "n div 10"])
qed

lemma one_attempt_transient:
  assumes "transient r" and "a \<noteq> do_maxRetries opts"
  shows "\<exists>e. one_attempt opts url a r = Retry e"
proof (cases r)
  case (Response status statusText body)
  then have "\<not> response_ok status" using assms(1) by (auto simp: response_ok_def)
  then show ?thesis using assms Response by (auto simp: one_attempt_def try_block_def)
next
  case (Throws name message)
  then show ?thesis using assms
    by (auto simp: one_attempt_def try_block_def catch_block_def Let_def)
qed

lemma one_attempt_settled:
  assumes "settled r"
  shows "one_attempt opts url a r = (case verdict url r of Inl e \<Rightarrow> Throw e | Inr text \<Rightarrow> Return text)"
proof (cases r)
  case (Response status statusText body)
  show ?thesis
  proof (cases "response_ok status")
    case False
    then have s: "400 \<le> status" "status \<le> 499" "status \<noteq> 429"
      "\<not> str_includes (''HTTP '' @ decimal status @ '': '' @ statusText) ''aborted''"
      using assms Response by (simp_all split: if_splits)
    obtain x y where "decimal status = [CHR ''4'', x, y]" using decimal_4xx s by blast
    then have "str_includes (''HTTP '' @ decimal status @ '': '' @ statusText) ''HTTP 4''"
      by (simp add: str_includes_iff sublist_def) (rule exI [of _ "[]"], simp)
    then show ?thesis using s False Response
      by (simp add: one_attempt_def try_block_def catch_block_def httpError_def Let_def)
  qed (use assms Response in \<open>auto simp: one_attempt_def try_block_def\<close>)
qed (use assms in simp)

lemma fetch_attempts_script:
  assumes "scripted h" and "settled final"
  shows "\<forall>r \<in> set rs. transient r \<Longrightarrow> length rs < n \<Longrightarrow>
    \<exists>now'. fetch_attempts h opts url n e (rs @ final # rest) now = (verdict url final, rest, now')"
proof (induction rs arbitrary: n e now)
  case Nil
  obtain m where m: "n = Suc m" using Nil by (cases n) auto
  obtain now' where "host_fetch h url (final # rest) now = (final, rest, now')"
    using assms(1) unfolding scripted_def by blast
  then show ?case using one_attempt_settled [OF assms(2)]
    by (cases "verdict url final") (simp_all add: m Let_def)
next
  case (Cons r rs)
  then obtain m where m: "n = Suc m" "length rs < m" by (cases n) auto
  obtain now' where f: "host_fetch h url (r # rs @ final # rest) now = (r, rs @ final # rest, now')"
    using assms(1) unfolding scripted_def by blast
  obtain e' where "one_attempt opts url (do_maxRetries opts - int m) r = Retry e'"
    using one_attempt_transient [of r "do_maxRetries opts - int m" opts url] Cons.prems m by auto
  moreover obtain now2 where "host_wait h (do_maxRetries opts - int m) (rs @ final # rest) now' = (rs @ final # rest, now2)"
    using assms(1) unfolding scripted_def by (metis prod.collapse)
  moreover obtain now3 where "fetch_attempts h opts url m (Some e') (rs @ final # rest) now2 = (verdict url final, rest, now3)"
    using Cons m by auto blast
  ultimately show ?case using f m by (simp add: Let_def)
qed

text \<open>
  Retries end with the first reply that settles the fetch: after up to \<open>maxRetries\<close> server
  errors, rate limits, timeouts or failures of the network, a text is returned and a client
  error is thrown as it came, with no further request; in particular a client error that comes
  first is not retried.
\<close>

theorem fetch_follows_replies:
  assumes "scripted h" and "\<forall>r \<in> set rs. transient r" and "settled final"
    and "int (length rs) \<le> do_maxRetries opts"
  shows "fst (fetchFn h opts url (rs @ final # rest) now) = verdict url final \<and>
    fst (snd (fetchFn h opts url (rs @ final # rest) now)) = rest"
proof -
  have "length rs < nat (do_maxRetries opts + 1)" using assms(4) by linarith
  from fetch_attempts_script [OF assms(1,3,2) this, of opts url None rest now]
  show ?thesis by (auto simp: fetchFn_def)
qed

theorem fetch_follows_replies_witness:
  "fst (fetchFn \<lparr>host_fetch = (\<lambda>url w now. (hd w, tl w, now)), host_wait = (\<lambda>a w now. (w, now + 1)),
       host_read = (\<lambda>path w now. (Inl NotFound, w, now)), host_url = (\<lambda>base rel. None)\<rparr>
     DEFAULT_OPTIONS ''http://a/l.txt''
     [Response 503 ''Busy'' [], Throws ''AbortError'' ''late'', Response 200 ''OK'' ''||a.com^'', Response 200 ''OK'' ''x''] 0) =
   Inr ''||a.com^''"
proof -
  let ?h = "\<lparr>host_fetch = (\<lambda>url w now. (hd w, tl w, now)), host_wait = (\<lambda>a w now. (w, now + 1)),
       host_read = (\<lambda>path w now. (Inl NotFound, w, now)), host_url = (\<lambda>base rel. None)\<rparr> :: reply list host"
  have "scripted ?h" by (simp add: scripted_def)
  from fetch_follows_replies [OF this, of "[Response 503 ''Busy'' [], Throws ''AbortError'' ''late'']"
      "Response 200 ''OK'' ''||a.com^''" DEFAULT_OPTIONS "''http://a/l.txt''" "[Response 200 ''OK'' ''x'']" 0]
  show ?thesis by (simp add: DEFAULT_OPTIONS_def response_ok_def)
qed

end
