(* ===== verification/Headers.thy ===== *)
theory Headers
  imports Prelude
begin

text \<open>
  Metadata of lists: \<open>src/utils/headerFilter.ts\<close> (metadata lines of the sources are dropped),
  \<open>src/compiler/HeaderGenerator.ts\<close> (the header of the compiled list and of its sources, and the
  reading of a header) and \<open>src/utils/checksum.ts\<close>.  \<open>hash\<close> stands for the Base64 text of the
  SHA-256 digest of a text, \<open>timestamp\<close> for the ISO text of the date.
\<close>

section \<open>Metadata of a source\<close>

definition METADATA_HEADER_PREFIXES :: "jstr list" where
  "METADATA_HEADER_PREFIXES =
     [''! Title:'', ''! Description:'', ''! Homepage:'', ''! License:'', ''! Version:'',
      ''! Last modified:'', ''! Expires:'', ''! TimeUpdated:'', ''! Checksum:'', ''! Compiled by '',
      ''! Source name:'', ''! Source:'', ''! Diff-Path:'', ''! Diff-Expires:'']"

definition isMetadataHeader :: "jstr \<Rightarrow> bool" where
  "isMetadataHeader line =
     (let trimmed = js_trim line in list_ex (\<lambda>p. starts_with trimmed p) METADATA_HEADER_PREFIXES)"

text \<open>The loop, with \<open>inHeaderSection\<close> and \<open>consecutiveEmptyComments\<close>.\<close>

fun strip_loop :: "bool \<Rightarrow> nat \<Rightarrow> lines \<Rightarrow> lines" where
  "strip_loop inHeader empties [] = []"
| "strip_loop inHeader empties (line # rest) =
     (let trimmed = js_trim line
      in if isMetadataHeader line then strip_loop inHeader empties rest
         else if trimmed = ''!'' \<and> inHeader then
           (if 1 < empties + 1 then strip_loop inHeader (empties + 1) rest
            else line # strip_loop inHeader (empties + 1) rest)
         else if trimmed \<noteq> [] \<and> \<not> starts_with trimmed ''!'' then line # strip_loop False 0 rest
         else if starts_with trimmed ''!'' \<and> trimmed \<noteq> ''!'' then line # strip_loop inHeader 0 rest
         else if trimmed = [] then line # strip_loop inHeader empties rest
         else line # strip_loop inHeader empties rest)"

definition empty_comment :: "jstr \<Rightarrow> bool" where
  "empty_comment line \<longleftrightarrow> js_trim line = ''!''"

definition stripUpstreamHeaders :: "lines \<Rightarrow> lines" where
  "stripUpstreamHeaders ls = dropWhile empty_comment (strip_loop True 0 ls)"

definition looksLikeUpstreamHeader :: "jstr \<Rightarrow> bool" where
  "looksLikeUpstreamHeader line =
     (let trimmed = js_trim line
      in if isMetadataHeader line then True else if trimmed = ''!'' then False else False)"

lemma strip_loop_subseq: "subseq (strip_loop h n ls) ls"
  by (induction h n ls rule: strip_loop.induct) (auto simp: Let_def)

lemma subseq_dropWhile: "subseq (dropWhile P xs) xs"
  by (metis suffix_dropWhile suffix_imp_subseq)

lemma filter_dropWhile: "filter (\<lambda>x. \<not> P x) (dropWhile P xs) = filter (\<lambda>x. \<not> P x) xs"
  by (induction xs) auto

lemma take_dropWhile: "\<not> list_ex P (take 1 (dropWhile P xs))"
  by (induction xs) auto

lemma strip_loop_filter:
  "filter (\<lambda>l. \<not> empty_comment l) (strip_loop h n ls) =
     filter (\<lambda>l. \<not> empty_comment l \<and> \<not> isMetadataHeader l) ls"
  by (induction h n ls rule: strip_loop.induct) (auto simp: Let_def empty_comment_def)

lemma strip_loop_metadata: "l \<in> set (strip_loop h n ls) \<Longrightarrow> \<not> isMetadataHeader l"
  by (induction h n ls rule: strip_loop.induct) (auto simp: Let_def split: if_splits)

text \<open>A second pass sees no more empty comments in a row than the first.\<close>

lemma strip_loop_again: "m \<le> n \<Longrightarrow> strip_loop h m (strip_loop h n ls) = strip_loop h n ls"
proof (induction h n ls arbitrary: m rule: strip_loop.induct)
  case (2 h n line rest)
  show ?case
  proof (cases "isMetadataHeader line")
    case False
    then show ?thesis using 2 by (cases "js_trim line = ''!'' \<and> h") (auto simp: Let_def)
  qed (use 2 in \<open>auto simp: Let_def\<close>)
qed simp

lemma strip_loop_dropWhile:
  "strip_loop True 0 (dropWhile empty_comment (strip_loop True n ls)) = dropWhile empty_comment (strip_loop True n ls)"
proof (induction ls arbitrary: n)
  case (Cons line rest)
  show ?case
  proof (cases "empty_comment line")
    case True
    then show ?thesis using Cons by (auto simp: Let_def empty_comment_def)
  next
    case False
    have "strip_loop True 0 (strip_loop True 0 (line # rest)) = strip_loop True 0 (line # rest)"
      by (rule strip_loop_again) simp
    then show ?thesis using False Cons strip_loop_again [of 0 n True rest] strip_loop_again [of 0 0]
      by (auto simp: Let_def empty_comment_def)
  qed
qed simp

text \<open>
  Stripping removes the metadata of a source and nothing it says about its rules: except for
  comments without text, the result has exactly the lines that are no metadata, in their order;
  it starts with no empty comment, adds no line, and stripping again changes nothing.
\<close>

theorem strip_headers_correct:
  "filter (\<lambda>l. \<not> empty_comment l) (stripUpstreamHeaders ls) =
     filter (\<lambda>l. \<not> empty_comment l \<and> \<not> isMetadataHeader l) ls \<and>
   subseq (stripUpstreamHeaders ls) ls \<and>
   list_all (\<lambda>l. \<not> isMetadataHeader l) (stripUpstreamHeaders ls) \<and>
   \<not> list_ex empty_comment (take 1 (stripUpstreamHeaders ls)) \<and>
   stripUpstreamHeaders (stripUpstreamHeaders ls) = stripUpstreamHeaders ls"
proof (intro conjI)
  show "filter (\<lambda>l. \<not> empty_comment l) (stripUpstreamHeaders ls) =
      filter (\<lambda>l. \<not> empty_comment l \<and> \<not> isMetadataHeader l) ls"
    by (simp add: stripUpstreamHeaders_def filter_dropWhile strip_loop_filter)
  show "subseq (stripUpstreamHeaders ls) ls"
    unfolding stripUpstreamHeaders_def using strip_loop_subseq subseq_dropWhile by (rule subseq_order.trans [rotated])
  show "list_all (\<lambda>l. \<not> isMetadataHeader l) (stripUpstreamHeaders ls)"
    using strip_loop_metadata by (auto simp: stripUpstreamHeaders_def list_all_iff dest!: set_dropWhileD)
  show "\<not> list_ex empty_comment (take 1 (stripUpstreamHeaders ls))"
    unfolding stripUpstreamHeaders_def by (rule take_dropWhile)
  show "stripUpstreamHeaders (stripUpstreamHeaders ls) = stripUpstreamHeaders ls"
    by (simp add: stripUpstreamHeaders_def strip_loop_dropWhile)
qed

section \<open>The header of the list\<close>

definition VERSION :: jstr where "VERSION = ''0.88.0''"
definition PACKAGE_NAME :: jstr where "PACKAGE_NAME = ''@jk-com/adblock-compiler''"

record list_metadata =
  md_name :: jstr
  md_description :: "jstr option"
  md_version :: "jstr option"
  md_homepage :: "jstr option"
  md_license :: "jstr option"

text \<open>An optional line: \<open>null\<close>, \<open>undefined\<close> and the empty text are falsy.\<close>

definition optional_line :: "jstr \<Rightarrow> jstr option \<Rightarrow> lines" where
  "optional_line label value =
     (case value of None \<Rightarrow> [] | Some v \<Rightarrow> if v = [] then [] else [label @ v])"

definition metadata_lines :: "list_metadata \<Rightarrow> jstr \<Rightarrow> lines" where
  "metadata_lines c timestamp =
     [''!'', ''! Title: '' @ md_name c] @
     optional_line ''! Description: '' (md_description c) @ optional_line ''! Version: '' (md_version c) @
     optional_line ''! Homepage: '' (md_homepage c) @ optional_line ''! License: '' (md_license c) @
     [''! Last modified: '' @ timestamp]"

definition generateListHeader :: "list_metadata \<Rightarrow> jstr \<Rightarrow> jstr list option \<Rightarrow> lines" where
  "generateListHeader c timestamp customLines =
     metadata_lines c timestamp @
     [''!'', ''! Compiled by '' @ PACKAGE_NAME @ '' v'' @ VERSION] @
     (case customLines of None \<Rightarrow> [] | Some ls \<Rightarrow> map (\<lambda>l. ''! '' @ l) ls) @ [''!'']"

definition generateSourceHeader :: "jstr option \<Rightarrow> jstr \<Rightarrow> lines" where
  "generateSourceHeader name source =
     [''!''] @ optional_line ''! Source name: '' name @ [''! Source: '' @ source, ''!'']"

definition generateSectionSeparator :: "jstr option \<Rightarrow> lines" where
  "generateSectionSeparator title =
     (case title of
        None \<Rightarrow> [''!'']
      | Some t \<Rightarrow> if t = [] then [''!''] else [''!'', ''! ========== '' @ t @ '' =========='', ''!''])"

text \<open>
  \<open>/^!\s*([^:]+):\s*(.+)$/\<close> on a line: the key is the text between \<open>!\<close> and the first colon, the
  value the rest, of which all but white space must be one line; both are trimmed afterwards.
\<close>

definition line_break :: "char \<Rightarrow> bool" where
  "line_break c \<longleftrightarrow> c = CHR 0x0A \<or> c = CHR 0x0D"

definition match_header :: "jstr \<Rightarrow> (jstr \<times> jstr) option" where
  "match_header line =
     (if \<not> starts_with line ''!'' then None
      else let key = takeWhile (\<lambda>c. c \<noteq> CHR '':'') (tl line);
               value = drop (length key + 1) (tl line);
               last_line = rev (takeWhile (\<lambda>c. \<not> line_break c) (rev value))
           in if key \<noteq> [] \<and> length key < length (tl line) \<and> last_line \<noteq> [] \<and>
                 list_all is_ws (take (length value - length last_line) value)
              then Some (key, value) else None)"

text \<open>
  The metadata object; the last line for a key wins.  Assigning a text to \<open>__proto__\<close> of a plain
  object does nothing.
\<close>

fun parse_header_from :: "(jstr \<Rightarrow> jstr option) \<Rightarrow> lines \<Rightarrow> jstr \<Rightarrow> jstr option" where
  "parse_header_from metadata [] = metadata"
| "parse_header_from metadata (line # rest) =
     (if \<not> starts_with line ''!'' then metadata
      else case match_header line of
             None \<Rightarrow> parse_header_from metadata rest
           | Some (key, value) \<Rightarrow>
               let k = to_lower (js_trim key)
               in parse_header_from (if k = ''__proto__'' then metadata else metadata(k \<mapsto> js_trim value)) rest)"

definition parseHeader :: "lines \<Rightarrow> jstr \<Rightarrow> jstr option" where
  "parseHeader ls = parse_header_from (\<lambda>_. None) ls"

definition one_line :: "jstr \<Rightarrow> bool" where
  "one_line s \<longleftrightarrow> \<not> list_ex line_break s"

lemma is_ws_space: "is_ws CHR '' ''" by (simp add: is_ws_def)

lemma js_trim_space: "js_trim (CHR '' '' # s) = js_trim s"
  by (simp add: js_trim_def trim_by_def is_ws_space)

lemma match_header_field:
  assumes "one_line v" and "CHR '':'' \<notin> set key" and "key \<noteq> []"
  shows "match_header (CHR ''!'' # key @ CHR '':'' # CHR '' '' # v) = Some (key, CHR '' '' # v)"
proof -
  have t: "takeWhile (\<lambda>c. c \<noteq> CHR '':'') (key @ CHR '':'' # CHR '' '' # v) = key"
    using assms(2) by (subst takeWhile_append2) auto
  have all: "\<not> line_break c" if "c \<in> set (rev (CHR '' '' # v))" for c
    using assms(1) that by (auto simp: one_line_def list_ex_iff line_break_def)
  have "takeWhile (\<lambda>c. \<not> line_break c) (rev (CHR '' '' # v)) = rev (CHR '' '' # v)"
    by (rule takeWhile_eq_all_conv [THEN iffD2]) (use all in blast)
  then have tw: "takeWhile (\<lambda>c. \<not> line_break c) (rev v @ '' '') = rev v @ '' ''" by simp
  show ?thesis using t assms(3) by (simp add: match_header_def Let_def tw)
qed

definition value_of :: "jstr option \<Rightarrow> jstr option" where
  "value_of v = (case v of None \<Rightarrow> None | Some t \<Rightarrow> if t = [] then None else Some (js_trim t))"

definition metadata_ok :: "list_metadata \<Rightarrow> jstr \<Rightarrow> bool" where
  "metadata_ok c timestamp \<longleftrightarrow>
     list_all one_line (timestamp # md_name c #
       concat (map (\<lambda>v. case v of None \<Rightarrow> [] | Some t \<Rightarrow> [t])
         [md_description c, md_version c, md_homepage c, md_license c]))"

lemma parse_header_append:
  "list_all (\<lambda>l. starts_with l ''!'') xs \<Longrightarrow>
   parse_header_from m (xs @ ys) = parse_header_from (parse_header_from m xs) ys"
proof (induction xs arbitrary: m)
  case (Cons x xs)
  then show ?case by (cases "match_header x") (auto simp: Let_def)
qed simp

lemma parse_header_concat:
  "list_all (list_all (\<lambda>l. starts_with l ''!'')) xss \<Longrightarrow>
   parse_header_from m (concat xss) = foldl parse_header_from m xss"
  by (induction xss arbitrary: m) (simp_all add: parse_header_append)

lemma parse_header_field:
  assumes "one_line v" and "CHR '':'' \<notin> set key" and "key \<noteq> []" and "to_lower (js_trim key) = k" and "k \<noteq> ''__proto__''"
  shows "parse_header_from m [CHR ''!'' # key @ CHR '':'' # CHR '' '' # v] = m(k \<mapsto> js_trim v)"
  using assms(4,5) by (simp add: match_header_field [OF assms(1-3)] js_trim_space)

lemma parse_header_optional:
  assumes "\<And>t. v = Some t \<Longrightarrow> one_line t" and "CHR '':'' \<notin> set key" and "key \<noteq> []"
    and "to_lower (js_trim key) = k" and "k \<noteq> ''__proto__''" and "m k = None"
  shows "parse_header_from m (optional_line (CHR ''!'' # key @ '': '') v) = m(k := value_of v)"
  using assms parse_header_field [OF assms(1) assms(2-5)]
  by (cases v) (auto simp: optional_line_def value_of_def)

lemma optional_line_marked: "list_all (\<lambda>l. starts_with l ''!'') (optional_line (CHR ''!'' # label) v)"
  by (cases v) (auto simp: optional_line_def)

text \<open>
  A generated header reads back: parsing the header of a list returns exactly its metadata,
  title, description, version, homepage, licence and time, each trimmed and each under its own
  key, and nothing else, provided that no value contains a line break.
\<close>

theorem header_reads_back:
  assumes "metadata_ok c timestamp"
  shows "parseHeader (generateListHeader c timestamp None) =
    (\<lambda>_. None)(''title'' \<mapsto> js_trim (md_name c), ''description'' := value_of (md_description c),
      ''version'' := value_of (md_version c), ''homepage'' := value_of (md_homepage c),
      ''license'' := value_of (md_license c), ''last modified'' \<mapsto> js_trim timestamp)"
proof -
  have ok: "one_line timestamp" "one_line (md_name c)" "\<And>t. md_description c = Some t \<Longrightarrow> one_line t"
    "\<And>t. md_version c = Some t \<Longrightarrow> one_line t" "\<And>t. md_homepage c = Some t \<Longrightarrow> one_line t"
    "\<And>t. md_license c = Some t \<Longrightarrow> one_line t"
    using assms by (auto simp: metadata_ok_def split: option.splits)
  have keys: "to_lower (js_trim '' Title'') = ''title''" "to_lower (js_trim '' Description'') = ''description''"
    "to_lower (js_trim '' Version'') = ''version''" "to_lower (js_trim '' Homepage'') = ''homepage''"
    "to_lower (js_trim '' License'') = ''license''" "to_lower (js_trim '' Last modified'') = ''last modified''"
    by code_simp+
  have none: "match_header ''!'' = None" "match_header (''! Compiled by '' @ PACKAGE_NAME @ '' v'' @ VERSION) = None"
    by code_simp+
  let ?ls = "[[''!''], [''! Title: '' @ md_name c], optional_line ''! Description: '' (md_description c),
      optional_line ''! Version: '' (md_version c), optional_line ''! Homepage: '' (md_homepage c),
      optional_line ''! License: '' (md_license c), [''! Last modified: '' @ timestamp],
      [''!''], [''! Compiled by '' @ PACKAGE_NAME @ '' v'' @ VERSION], [''!'']]"
  have plain: "parse_header_from m [''!''] = m"
      "parse_header_from m [''! Compiled by '' @ PACKAGE_NAME @ '' v'' @ VERSION] = m" for m
    by (simp_all add: none del: append.simps)
  have fields: "parse_header_from m [''! Title: '' @ md_name c] = m(''title'' \<mapsto> js_trim (md_name c))"
      "parse_header_from m [''! Last modified: '' @ timestamp] = m(''last modified'' \<mapsto> js_trim timestamp)" for m
    using parse_header_field [OF ok(2) _ _ keys(1), of m] parse_header_field [OF ok(1) _ _ keys(6), of m]
    by (simp_all del: parse_header_from.simps)
  have options:
    "m ''description'' = None \<Longrightarrow> parse_header_from m (optional_line ''! Description: '' (md_description c)) =
       m(''description'' := value_of (md_description c))"
    "m ''version'' = None \<Longrightarrow> parse_header_from m (optional_line ''! Version: '' (md_version c)) =
       m(''version'' := value_of (md_version c))"
    "m ''homepage'' = None \<Longrightarrow> parse_header_from m (optional_line ''! Homepage: '' (md_homepage c)) =
       m(''homepage'' := value_of (md_homepage c))"
    "m ''license'' = None \<Longrightarrow> parse_header_from m (optional_line ''! License: '' (md_license c)) =
       m(''license'' := value_of (md_license c))" for m
    using parse_header_optional [OF ok(3) _ _ keys(2), of _ m] parse_header_optional [OF ok(4) _ _ keys(3), of _ m]
      parse_header_optional [OF ok(5) _ _ keys(4), of _ m] parse_header_optional [OF ok(6) _ _ keys(5), of _ m]
    by (simp_all del: parse_header_from.simps)
  have "generateListHeader c timestamp None = concat ?ls"
    by (simp add: generateListHeader_def metadata_lines_def)
  moreover have "list_all (list_all (\<lambda>l. starts_with l ''!'')) ?ls"
    using optional_line_marked by simp
  ultimately have "parseHeader (generateListHeader c timestamp None) = foldl parse_header_from (\<lambda>_. None) ?ls"
    by (simp only: parseHeader_def parse_header_concat)
  also have "\<dots> = (\<lambda>_. None)(''title'' \<mapsto> js_trim (md_name c), ''description'' := value_of (md_description c),
      ''version'' := value_of (md_version c), ''homepage'' := value_of (md_homepage c),
      ''license'' := value_of (md_license c), ''last modified'' \<mapsto> js_trim timestamp)"
    by (simp add: plain fields options del: parse_header_from.simps append_Cons append_Nil)
  finally show ?thesis .
qed

text \<open>A header in a test.\<close>

theorem header_reads_back_witness:
  "parseHeader (generateListHeader \<lparr>md_name = ''My list '', md_description = None, md_version = Some ''1.0'',
       md_homepage = Some ''https://a.b/c'', md_license = Some []\<rparr> ''2024-01-01T00:00:00.000Z'' None) ''homepage'' =
     Some ''https://a.b/c''"
proof -
  let ?c = "\<lparr>md_name = ''My list '', md_description = None, md_version = Some ''1.0'',
       md_homepage = Some ''https://a.b/c'', md_license = Some []\<rparr>"
  have "metadata_ok ?c ''2024-01-01T00:00:00.000Z''" by code_simp
  moreover have "value_of (md_homepage ?c) = Some ''https://a.b/c''" by code_simp
  ultimately show ?thesis by (simp add: header_reads_back)
qed

section \<open>Checksum\<close>

definition calculateChecksum :: "(jstr \<Rightarrow> jstr) \<Rightarrow> lines \<Rightarrow> jstr" where
  "calculateChecksum hash ls =
     substring (hash (join_with [CHR 0x0A] (filter (\<lambda>l. \<not> starts_with l ''! Checksum:'') ls))) 0 27"

fun find_index :: "('a \<Rightarrow> bool) \<Rightarrow> 'a list \<Rightarrow> nat option" where
  "find_index P [] = None"
| "find_index P (x # xs) = (if P x then Some 0 else map_option Suc (find_index P xs))"

definition checksum_index :: "lines \<Rightarrow> nat" where
  "checksum_index ls =
     (case find_index (\<lambda>l. str_includes l ''! Compiled by'') ls of
        None \<Rightarrow>
          (case find_index (\<lambda>l. js_trim l \<noteq> [] \<and> \<not> starts_with l ''!'') ls of
             None \<Rightarrow> length ls | Some i \<Rightarrow> i)
      | Some i \<Rightarrow> if 0 < i \<and> ls ! (i - 1) = ''!'' then i - 1 else i)"

definition addChecksumToHeader :: "(jstr \<Rightarrow> jstr) \<Rightarrow> lines \<Rightarrow> lines" where
  "addChecksumToHeader hash ls =
     (let i = checksum_index ls
      in take i ls @ [''! Checksum: '' @ calculateChecksum hash ls] @ drop i ls)"

lemma find_index_append:
  "find_index P (xs @ ys) =
     (case find_index P xs of Some i \<Rightarrow> Some i | None \<Rightarrow> map_option (\<lambda>i. length xs + i) (find_index P ys))"
  by (induction xs; cases "find_index P ys") (auto split: option.splits)

lemma find_index_None: "find_index P xs = None \<longleftrightarrow> list_all (\<lambda>x. \<not> P x) xs"
  by (induction xs) auto

lemma checksum_unchanged [simp]:
  "calculateChecksum hash (addChecksumToHeader hash ls) = calculateChecksum hash ls"
proof -
  let ?i = "checksum_index ls"
  have "filter (\<lambda>l. \<not> starts_with l ''! Checksum:'') (addChecksumToHeader hash ls) =
      filter (\<lambda>l. \<not> starts_with l ''! Checksum:'') (take ?i ls @ drop ?i ls)"
    unfolding addChecksumToHeader_def Let_def filter_append by simp
  then show ?thesis by (simp add: calculateChecksum_def)
qed

text \<open>
  The checksum of a list can be checked: adding it changes nothing else in the list, and
  computing the checksum of the finished list, or adding it a second time, gives the same value,
  because lines with a checksum do not count.
\<close>

theorem checksum_verifies:
  "\<exists>xs ys. ls = xs @ ys \<and> addChecksumToHeader hash ls = xs @ [''! Checksum: '' @ calculateChecksum hash ls] @ ys \<and>
     calculateChecksum hash (addChecksumToHeader hash ls) = calculateChecksum hash ls"
proof (intro exI conjI)
  let ?i = "checksum_index ls"
  show "ls = take ?i ls @ drop ?i ls" by simp
  show "addChecksumToHeader hash ls =
      take ?i ls @ [''! Checksum: '' @ calculateChecksum hash ls] @ drop ?i ls"
    by (simp add: addChecksumToHeader_def Let_def)
qed simp

end
