(* ===== verification/Schemas.thy ===== *)
theory Schemas
  imports Pipeline Headers
begin

text \<open>
  Configurations and their validation: the interfaces of \<open>src/types/index.ts\<close>, the schemas of
  \<open>src/configuration/schemas.ts\<close> that \<open>ConfigurationValidator.validate\<close> runs.  The schemas are
  written with the library zod, whose combinators the definitions below spell out: an object
  schema with \<open>strict()\<close> rejects unknown keys, \<open>optional()\<close> accepts a missing key, \<open>refine\<close> adds
  a check.  \<open>url_parses\<close> says whether \<open>new URL(...)\<close> accepts a text, \<open>url_format\<close> whether the
  check \<open>z.string().url()\<close> does.
\<close>

section \<open>Configurations\<close>

datatype source_type = Adblock | Hosts

record source_config = pattern_config +
  src_source :: jstr
  src_name :: "jstr option"
  src_type :: "source_type option"
  src_useBrowser :: "bool option"
  src_transformations :: "TransformationType list option"
  src_precompiled :: "lines option"

record configuration = pattern_config +
  cfg_metadata :: list_metadata
  cfg_sources :: "source_config list"
  cfg_transformations :: "TransformationType list option"

fun type_name :: "TransformationType \<Rightarrow> jstr" where
  "type_name RemoveComments = ''RemoveComments''"
| "type_name Compress = ''Compress''"
| "type_name RemoveModifiers = ''RemoveModifiers''"
| "type_name Validate = ''Validate''"
| "type_name ValidateAllowIp = ''ValidateAllowIp''"
| "type_name Deduplicate = ''Deduplicate''"
| "type_name InvertAllow = ''InvertAllow''"
| "type_name RemoveEmptyLines = ''RemoveEmptyLines''"
| "type_name TrimLines = ''TrimLines''"
| "type_name InsertFinalNewLine = ''InsertFinalNewLine''"
| "type_name ConvertToAscii = ''ConvertToAscii''"
| "type_name ConflictDetection = ''ConflictDetection''"
| "type_name RuleOptimizer = ''RuleOptimizer''"

fun source_type_name :: "source_type \<Rightarrow> jstr" where
  "source_type_name Adblock = ''adblock''"
| "source_type_name Hosts = ''hosts''"

definition type_names :: "jstr list" where
  "type_names = map type_name
     [RemoveComments, Compress, RemoveModifiers, Validate, ValidateAllowIp, Deduplicate, InvertAllow,
      RemoveEmptyLines, TrimLines, InsertFinalNewLine, ConvertToAscii, ConflictDetection, RuleOptimizer]"

section \<open>JSON objects\<close>

text \<open>The objects that the validator sees; a field that is \<open>undefined\<close> is not there.\<close>

datatype json = JNull | JBool bool | JNum int | JStr jstr | JArr "json list" | JObj "(jstr \<times> json) list"

definition strings_json :: "jstr list \<Rightarrow> json" where
  "strings_json xs = JArr (map JStr xs)"

definition optional_field :: "jstr \<Rightarrow> ('a \<Rightarrow> json) \<Rightarrow> 'a option \<Rightarrow> (jstr \<times> json) list" where
  "optional_field key f v = (case v of None \<Rightarrow> [] | Some x \<Rightarrow> [(key, f x)])"

definition types_json :: "TransformationType list \<Rightarrow> json" where
  "types_json ts = strings_json (map type_name ts)"

definition patterns_fields :: "pattern_config \<Rightarrow> (jstr \<times> json) list" where
  "patterns_fields p =
     [(''exclusions'', strings_json (exclusions p)), (''exclusions_sources'', strings_json (exclusions_sources p)),
      (''inclusions'', strings_json (inclusions p)), (''inclusions_sources'', strings_json (inclusions_sources p))]"

definition source_json :: "source_config \<Rightarrow> json" where
  "source_json s = JObj (
     [(''source'', JStr (src_source s))] @ optional_field ''name'' JStr (src_name s) @
     optional_field ''type'' (\<lambda>t. JStr (source_type_name t)) (src_type s) @
     optional_field ''useBrowser'' JBool (src_useBrowser s) @
     patterns_fields (pattern_config.truncate s) @
     optional_field ''transformations'' types_json (src_transformations s) @
     optional_field ''_precompiled'' strings_json (src_precompiled s))"

definition configuration_json :: "configuration \<Rightarrow> json" where
  "configuration_json c = JObj (
     [(''name'', JStr (md_name (cfg_metadata c)))] @
     optional_field ''description'' JStr (md_description (cfg_metadata c)) @
     optional_field ''homepage'' JStr (md_homepage (cfg_metadata c)) @
     optional_field ''license'' JStr (md_license (cfg_metadata c)) @
     optional_field ''version'' JStr (md_version (cfg_metadata c)) @
     [(''sources'', JArr (map source_json (cfg_sources c)))] @
     patterns_fields (pattern_config.truncate c) @
     optional_field ''transformations'' types_json (cfg_transformations c))"

section \<open>Schemas\<close>

definition strict :: "jstr list \<Rightarrow> (jstr \<times> json) list \<Rightarrow> bool" where
  "strict allowed fs \<longleftrightarrow> list_all (\<lambda>(k, v). List.member allowed k) fs"

definition required :: "jstr \<Rightarrow> (json \<Rightarrow> bool) \<Rightarrow> (jstr \<times> json) list \<Rightarrow> bool" where
  "required key check fs \<longleftrightarrow> (case map_of fs key of None \<Rightarrow> False | Some v \<Rightarrow> check v)"

definition optional :: "jstr \<Rightarrow> (json \<Rightarrow> bool) \<Rightarrow> (jstr \<times> json) list \<Rightarrow> bool" where
  "optional key check fs \<longleftrightarrow> (case map_of fs key of None \<Rightarrow> True | Some v \<Rightarrow> check v)"

fun is_string :: "(jstr \<Rightarrow> bool) \<Rightarrow> json \<Rightarrow> bool" where
  "is_string check (JStr s) = check s" | "is_string check _ = False"

fun is_bool :: "json \<Rightarrow> bool" where
  "is_bool (JBool b) = True" | "is_bool _ = False"

fun is_array :: "(json \<Rightarrow> bool) \<Rightarrow> json \<Rightarrow> bool" where
  "is_array check (JArr xs) = list_all check xs" | "is_array check _ = False"

fun is_record :: "json \<Rightarrow> bool" where
  "is_record (JObj fs) = True" | "is_record _ = False"

definition filterable :: "(jstr \<times> json) list \<Rightarrow> bool" where
  "filterable fs \<longleftrightarrow> list_all (\<lambda>k. optional k (is_array (is_string (\<lambda>_. True))) fs)
     [''exclusions'', ''exclusions_sources'', ''inclusions'', ''inclusions_sources'']"

definition transformable :: "(jstr \<times> json) list \<Rightarrow> bool" where
  "transformable fs \<longleftrightarrow> optional ''transformations'' (is_array (is_string (List.member type_names))) fs"

fun position :: "json \<Rightarrow> json list \<Rightarrow> nat option" where
  "position x [] = None"
| "position x (y # ys) = (if x = y then Some 0 else map_option Suc (position x ys))"

definition hasValidTransformationOrdering :: "(jstr \<times> json) list \<Rightarrow> bool" where
  "hasValidTransformationOrdering fs =
     (case map_of fs ''transformations'' of
        Some (JArr t) \<Rightarrow>
          (case position (JStr ''Compress'') t of
             None \<Rightarrow> True
           | Some compressIndex \<Rightarrow>
               (case position (JStr ''Deduplicate'') t of
                  None \<Rightarrow> False
                | Some deduplicateIndex \<Rightarrow> deduplicateIndex < compressIndex))
      | _ \<Rightarrow> True)"

definition source_text_ok :: "(jstr \<Rightarrow> bool) \<Rightarrow> jstr \<Rightarrow> bool" where
  "source_text_ok url_parses text \<longleftrightarrow>
     (let val = js_trim text
      in val \<noteq> [] \<and> (url_parses val \<or> starts_with val ''/'' \<or> starts_with val ''./'' \<or> starts_with val ''../''))"

definition source_keys :: "jstr list" where
  "source_keys = [''source'', ''name'', ''type'', ''useBrowser'', ''exclusions'', ''exclusions_sources'',
     ''inclusions'', ''inclusions_sources'', ''transformations'']"

fun source_schema :: "(jstr \<Rightarrow> bool) \<Rightarrow> json \<Rightarrow> bool" where
  "source_schema url_parses (JObj fs) \<longleftrightarrow>
     required ''source'' (is_string (source_text_ok url_parses)) fs \<and>
     optional ''name'' (is_string (\<lambda>s. js_trim s \<noteq> [])) fs \<and>
     optional ''type'' (is_string (List.member [''adblock'', ''hosts''])) fs \<and>
     optional ''useBrowser'' is_bool fs \<and>
     filterable fs \<and> transformable fs \<and> strict source_keys fs \<and> hasValidTransformationOrdering fs"
| "source_schema url_parses _ \<longleftrightarrow> False"

text \<open>\<open>/^\d+\.\d+(\.\d+)?/\<close>, which is not anchored at the end.\<close>

definition version_ok :: "jstr \<Rightarrow> bool" where
  "version_ok s \<longleftrightarrow>
     (let major = takeWhile is_digit s; rest = dropWhile is_digit s
      in major \<noteq> [] \<and> (case rest of c # d # _ \<Rightarrow> c = CHR ''.'' \<and> is_digit d | _ \<Rightarrow> False))"

definition configuration_keys :: "jstr list" where
  "configuration_keys = [''name'', ''description'', ''homepage'', ''license'', ''version'', ''sources'', ''extensions'',
     ''exclusions'', ''exclusions_sources'', ''inclusions'', ''inclusions_sources'', ''transformations'']"

fun configuration_schema :: "(jstr \<Rightarrow> bool) \<Rightarrow> (jstr \<Rightarrow> bool) \<Rightarrow> json \<Rightarrow> bool" where
  "configuration_schema url_parses url_format (JObj fs) \<longleftrightarrow>
     required ''name'' (is_string (\<lambda>s. s \<noteq> [])) fs \<and>
     optional ''description'' (is_string (\<lambda>_. True)) fs \<and>
     optional ''homepage'' (is_string url_format) fs \<and>
     optional ''license'' (is_string (\<lambda>_. True)) fs \<and>
     optional ''version'' (is_string version_ok) fs \<and>
     required ''sources'' (\<lambda>v. is_array (source_schema url_parses) v \<and> v \<noteq> JArr []) fs \<and>
     optional ''extensions'' is_record fs \<and>
     filterable fs \<and> transformable fs \<and> strict configuration_keys fs \<and> hasValidTransformationOrdering fs"
| "configuration_schema url_parses url_format _ \<longleftrightarrow> False"

text \<open>\<open>ConfigurationValidator.validate\<close>; \<open>errors_text\<close> stands for the messages of zod, formatted.\<close>

definition validate_configuration ::
  "(jstr \<Rightarrow> bool) \<Rightarrow> (jstr \<Rightarrow> bool) \<Rightarrow> (json \<Rightarrow> jstr) \<Rightarrow> json \<Rightarrow> jstr option" where
  "validate_configuration url_parses url_format errors_text j =
     (case j of
        JObj fs \<Rightarrow> if configuration_schema url_parses url_format j then None else Some (errors_text j)
      | JArr xs \<Rightarrow> Some (errors_text j)
      | _ \<Rightarrow> Some ''Configuration must be an object'')"

section \<open>Which configurations are valid\<close>

lemma map_of_optional [simp]:
  "map_of (optional_field key f v) k = (if k = key then map_option f v else None)"
  by (cases v) (simp_all add: optional_field_def)

lemma case_map_option: "(case v of None \<Rightarrow> None | Some x \<Rightarrow> Some (f x)) = map_option f v"
  by (cases v) simp_all

lemma map_of_patterns [simp]:
  "map_of (patterns_fields p) k =
     (if k = ''exclusions'' then Some (strings_json (exclusions p))
      else if k = ''exclusions_sources'' then Some (strings_json (exclusions_sources p))
      else if k = ''inclusions'' then Some (strings_json (inclusions p))
      else if k = ''inclusions_sources'' then Some (strings_json (inclusions_sources p)) else None)"
  by (simp add: patterns_fields_def)

lemma strings_checked [simp]:
  "is_array (is_string P) (strings_json xs) \<longleftrightarrow> list_all P xs"
  by (simp add: strings_json_def list_all_iff)

lemma type_name_known [simp]: "type_name t \<in> set type_names"
  by (cases t) (simp_all add: type_names_def)

lemma type_name_inject [simp]: "type_name t = type_name t' \<longleftrightarrow> t = t'"
  by (cases t; cases t') simp_all

lemma filterable_patterns:
  "map_of fs ''exclusions'' = Some (strings_json a) \<Longrightarrow> map_of fs ''exclusions_sources'' = Some (strings_json b) \<Longrightarrow>
   map_of fs ''inclusions'' = Some (strings_json c) \<Longrightarrow> map_of fs ''inclusions_sources'' = Some (strings_json d) \<Longrightarrow>
   filterable fs"
  by (simp add: filterable_def optional_def list_all_iff)

lemma transformable_types:
  "map_of fs ''transformations'' = map_option types_json ts \<Longrightarrow> transformable fs"
  by (cases ts) (simp_all add: transformable_def optional_def types_json_def list_all_iff)

lemma strict_patterns:
  "strict ks (patterns_fields p) \<longleftrightarrow>
     list_all (List.member ks) [''exclusions'', ''exclusions_sources'', ''inclusions'', ''inclusions_sources'']"
  by (simp add: strict_def patterns_fields_def)

lemma strict_append: "strict ks (xs @ ys) \<longleftrightarrow> strict ks xs \<and> strict ks ys"
  by (simp add: strict_def)

lemma strict_optional:
  "strict ks (optional_field key f v) \<longleftrightarrow> (case v of None \<Rightarrow> True | Some x \<Rightarrow> List.member ks key)"
  by (cases v) (simp_all add: strict_def optional_field_def)

text \<open>The order that the schemas demand of a list of transformations.\<close>

definition order_ok :: "TransformationType list option \<Rightarrow> bool" where
  "order_ok ts \<longleftrightarrow> (case ts of
     None \<Rightarrow> True
   | Some ts \<Rightarrow> Compress \<in> set ts \<longrightarrow> Deduplicate \<in> set (takeWhile (\<lambda>t. t \<noteq> Compress) ts))"

lemma position_types:
  "position (JStr (type_name t)) (map JStr (map type_name ts)) =
     (if t \<in> set ts then Some (length (takeWhile (\<lambda>u. u \<noteq> t) ts)) else None)"
  by (induction ts) auto

lemma takeWhile_before:
  "t \<in> set ts \<Longrightarrow> u \<in> set ts \<Longrightarrow> t \<noteq> u \<Longrightarrow>
   length (takeWhile (\<lambda>x. x \<noteq> t) ts) < length (takeWhile (\<lambda>x. x \<noteq> u) ts) \<longleftrightarrow>
   t \<in> set (takeWhile (\<lambda>x. x \<noteq> u) ts)"
  by (induction ts) auto

lemma ordering_types:
  assumes "map_of fs ''transformations'' = map_option types_json ts"
  shows "hasValidTransformationOrdering fs \<longleftrightarrow> order_ok ts"
proof (cases ts)
  case (Some us)
  have "position (JStr ''Compress'') (map JStr (map type_name us)) =
      (if Compress \<in> set us then Some (length (takeWhile (\<lambda>u. u \<noteq> Compress) us)) else None)"
    "position (JStr ''Deduplicate'') (map JStr (map type_name us)) =
      (if Deduplicate \<in> set us then Some (length (takeWhile (\<lambda>u. u \<noteq> Deduplicate) us)) else None)"
    using position_types [of Compress us] position_types [of Deduplicate us] by simp_all
  then show ?thesis using assms Some takeWhile_before [of Deduplicate us Compress] set_takeWhileD [of Deduplicate _ us]
    by (auto simp: hasValidTransformationOrdering_def types_json_def strings_json_def order_ok_def split: if_splits)
qed (use assms in \<open>simp add: hasValidTransformationOrdering_def order_ok_def\<close>)

definition source_ok :: "(jstr \<Rightarrow> bool) \<Rightarrow> source_config \<Rightarrow> bool" where
  "source_ok url_parses s \<longleftrightarrow> source_text_ok url_parses (src_source s) \<and>
     (case src_name s of None \<Rightarrow> True | Some n \<Rightarrow> js_trim n \<noteq> []) \<and>
     src_precompiled s = None \<and> order_ok (src_transformations s)"

lemma source_schema_iff: "source_schema url_parses (source_json s) \<longleftrightarrow> source_ok url_parses s"
proof -
  obtain fs where fs: "source_json s = JObj fs" by (simp add: source_json_def)
  note unfold_fs = fs [unfolded source_json_def json.inject, symmetric]
  have lookup:
    "map_of fs ''source'' = Some (JStr (src_source s))" "map_of fs ''name'' = map_option JStr (src_name s)"
    "map_of fs ''type'' = map_option (\<lambda>t. JStr (source_type_name t)) (src_type s)"
    "map_of fs ''useBrowser'' = map_option JBool (src_useBrowser s)"
    "map_of fs ''exclusions'' = Some (strings_json (exclusions s))"
    "map_of fs ''exclusions_sources'' = Some (strings_json (exclusions_sources s))"
    "map_of fs ''inclusions'' = Some (strings_json (inclusions s))"
    "map_of fs ''inclusions_sources'' = Some (strings_json (inclusions_sources s))"
    "map_of fs ''transformations'' = map_option types_json (src_transformations s)"
    by (simp_all add: unfold_fs map_add_def pattern_config.truncate_def case_map_option cong: option.case_cong)
  have allowed: "strict source_keys fs \<longleftrightarrow> src_precompiled s = None"
    unfolding unfold_fs strict_append strict_patterns strict_optional
    by (simp add: strict_def source_keys_def split: option.split)
  have "source_type_name t \<in> {''adblock'', ''hosts''}" for t by (cases t) simp_all
  then show ?thesis unfolding fs
    by (auto simp: lookup allowed required_def optional_def source_ok_def filterable_patterns [OF lookup(5-8)]
        transformable_types [OF lookup(9)] ordering_types [OF lookup(9)] split: option.splits)
qed

definition configuration_ok :: "(jstr \<Rightarrow> bool) \<Rightarrow> (jstr \<Rightarrow> bool) \<Rightarrow> configuration \<Rightarrow> bool" where
  "configuration_ok url_parses url_format c \<longleftrightarrow>
     md_name (cfg_metadata c) \<noteq> [] \<and> cfg_sources c \<noteq> [] \<and> list_all (source_ok url_parses) (cfg_sources c) \<and>
     (case md_homepage (cfg_metadata c) of None \<Rightarrow> True | Some u \<Rightarrow> url_format u) \<and>
     (case md_version (cfg_metadata c) of None \<Rightarrow> True | Some v \<Rightarrow> version_ok v) \<and>
     order_ok (cfg_transformations c)"

lemma configuration_schema_iff:
  "configuration_schema url_parses url_format (configuration_json c) \<longleftrightarrow> configuration_ok url_parses url_format c"
proof -
  obtain fs where fs: "configuration_json c = JObj fs" by (simp add: configuration_json_def)
  note unfold_fs = fs [unfolded configuration_json_def json.inject, symmetric]
  have lookup:
    "map_of fs ''name'' = Some (JStr (md_name (cfg_metadata c)))"
    "map_of fs ''description'' = map_option JStr (md_description (cfg_metadata c))"
    "map_of fs ''homepage'' = map_option JStr (md_homepage (cfg_metadata c))"
    "map_of fs ''license'' = map_option JStr (md_license (cfg_metadata c))"
    "map_of fs ''version'' = map_option JStr (md_version (cfg_metadata c))"
    "map_of fs ''sources'' = Some (JArr (map source_json (cfg_sources c)))"
    "map_of fs ''extensions'' = None"
    "map_of fs ''exclusions'' = Some (strings_json (exclusions c))"
    "map_of fs ''exclusions_sources'' = Some (strings_json (exclusions_sources c))"
    "map_of fs ''inclusions'' = Some (strings_json (inclusions c))"
    "map_of fs ''inclusions_sources'' = Some (strings_json (inclusions_sources c))"
    "map_of fs ''transformations'' = map_option types_json (cfg_transformations c)"
    by (simp_all add: unfold_fs map_add_def pattern_config.truncate_def case_map_option cong: option.case_cong)
  have allowed: "strict configuration_keys fs"
    unfolding unfold_fs strict_append strict_patterns strict_optional
    by (simp add: strict_def configuration_keys_def split: option.split)
  show ?thesis unfolding fs
    by (auto simp: lookup allowed required_def optional_def configuration_ok_def source_schema_iff list_all_iff
        filterable_patterns [OF lookup(8-11)] transformable_types [OF lookup(12)] ordering_types [OF lookup(12)]
        split: option.splits)
qed

lemma configuration_checked:
  "validate_configuration url_parses url_format errors_text (configuration_json c) = None \<longleftrightarrow>
     configuration_ok url_parses url_format c"
  by (simp add: validate_configuration_def configuration_schema_iff [symmetric] configuration_json_def)


end
