(* ===== verification/Compiler.thy ===== *)
theory Compiler
  imports Schemas Downloader
begin

text \<open>
  The compiler: \<open>src/compiler/SourceCompiler.ts\<close>, \<open>src/compiler/FilterCompiler.ts\<close>
  (\<open>compileWithMetrics\<close>) and \<open>src/compiler/IncrementalCompiler.ts\<close>.  The pipeline is the default
  one, without hooks.  \<open>environment\<close> collects what a compilation takes from outside: the library of
  the pipeline, the outcome of the download of a source, the checks of URLs and the error texts of
  the configuration validator, the hash and the time of the header.
  Diagnostics, events, metrics and log messages are left out.
\<close>

section \<open>Environment\<close>

record environment =
  env_library :: library
  env_download :: "jstr \<Rightarrow> download_error + lines"
  env_url_parses :: "jstr \<Rightarrow> bool"
  env_url_format :: "jstr \<Rightarrow> bool"
  env_errors_text :: "json \<Rightarrow> jstr"
  env_hash :: "jstr \<Rightarrow> jstr"
  env_timestamp :: jstr

definition or_empty :: "'a list option \<Rightarrow> 'a list" where
  "or_empty xs = (case xs of None \<Rightarrow> [] | Some ys \<Rightarrow> ys)"

definition transform ::
  "library \<Rightarrow> lines \<Rightarrow> pattern_config \<Rightarrow> TransformationType list \<Rightarrow> pipeline_error + lines" where
  "transform lib rules config ts =
     fst (pipeline_transform lib (registerDefaultTransformations lib) no_hooks (\<lambda>_ w. w) config ts rules ())"

section \<open>Compiling a source\<close>

text \<open>The causes of a \<open>SourceError\<close>, with the source it names.\<close>

datatype source_error = DownloadFailed jstr download_error | CompileFailed jstr pipeline_error

definition compile_source :: "environment \<Rightarrow> source_config \<Rightarrow> source_error + lines" where
  "compile_source env source =
     (case env_download env (src_source source) of
        Inl e \<Rightarrow> Inl (DownloadFailed (src_source source) e)
      | Inr downloaded \<Rightarrow>
          (let rules = stripUpstreamHeaders downloaded;
               transformations = or_empty (src_transformations source)
           in if 0 < length transformations then
                (case transform (env_library env) rules (pattern_config.truncate source) transformations of
                   Inl e \<Rightarrow> Inl (CompileFailed (src_source source) e)
                 | Inr out \<Rightarrow> Inr out)
              else Inr rules))"

section \<open>Compiling a list\<close>

datatype compile_cause = SourceFailure source_error | TransformationFailure pipeline_error

datatype compile_error = ConfigurationError jstr jstr | CompilationError compile_cause

text \<open>
  \<open>Promise.all\<close>: the sources are compiled at the same time and end in some order, a list of their
  indices; the first that fails in this order decides the error.
\<close>

definition first_failure :: "nat list \<Rightarrow> ('e + 'a) list \<Rightarrow> 'e option" where
  "first_failure order results =
     (case filter (\<lambda>i. isl (results ! i)) order of [] \<Rightarrow> None | i # _ \<Rightarrow> Some (projl (results ! i)))"

definition promise_all :: "nat list \<Rightarrow> ('e + 'a) list \<Rightarrow> 'e + 'a list" where
  "promise_all order results =
     (case first_failure order results of Some e \<Rightarrow> Inl e | None \<Rightarrow> Inr (map projr results))"

fun combine_sources :: "source_config list \<Rightarrow> lines list \<Rightarrow> lines" where
  "combine_sources (source # sources) (rules # results) =
     generateSourceHeader (src_name source) (src_source source) @ rules @ combine_sources sources results"
| "combine_sources _ _ = []"

definition prepareHeader :: "environment \<Rightarrow> configuration \<Rightarrow> lines" where
  "prepareHeader env config = generateListHeader (cfg_metadata config) (env_timestamp env) None"

definition compile_list :: "environment \<Rightarrow> nat list \<Rightarrow> configuration \<Rightarrow> compile_error + lines" where
  "compile_list env order config =
     (case validate_configuration (env_url_parses env) (env_url_format env) (env_errors_text env)
             (configuration_json config) of
        Some errorsText \<Rightarrow> Inl (ConfigurationError errorsText (md_name (cfg_metadata config)))
      | None \<Rightarrow>
          (case promise_all order (map (compile_source env) (cfg_sources config)) of
             Inl e \<Rightarrow> Inl (CompilationError (SourceFailure e))
           | Inr results \<Rightarrow>
               (case transform (env_library env) (combine_sources (cfg_sources config) results)
                       (pattern_config.truncate config) (or_empty (cfg_transformations config)) of
                  Inl e \<Rightarrow> Inl (CompilationError (TransformationFailure e))
                | Inr finalList \<Rightarrow>
                    Inr (addChecksumToHeader (env_hash env) (prepareHeader env config @ finalList)))))"

text \<open>An order in which the sources of a configuration can end.\<close>

definition complete_order :: "configuration \<Rightarrow> nat list \<Rightarrow> bool" where
  "complete_order config order \<longleftrightarrow> distinct order \<and> set order = {..< length (cfg_sources config)}"

lemma complete_order_set: "complete_order config order \<Longrightarrow> set order = {..< length (cfg_sources config)}"
  by (simp add: complete_order_def)

lemma promise_all_cases:
  assumes "set order = {..< length results}"
  shows "promise_all order results =
    (if list_all (\<lambda>r. \<not> isl r) results then Inr (map projr results)
     else Inl (the (first_failure order results)))"
proof (cases "list_all (\<lambda>r. \<not> isl r) results")
  case True
  then have "filter (\<lambda>i. isl (results ! i)) order = []"
    using assms by (auto simp: filter_empty_conv list_all_length)
  then show ?thesis using True by (simp add: promise_all_def first_failure_def)
next
  case False
  then obtain i where "i \<in> set order" "isl (results ! i)"
    using assms by (auto simp: list_all_length)
  then have "filter (\<lambda>i. isl (results ! i)) order \<noteq> []" by (auto simp: filter_empty_conv)
  then show ?thesis using False by (auto simp: promise_all_def first_failure_def split: list.split)
qed

text \<open>
  The order in which the parallel downloads end does not matter for what is published: for any
  two orders, either both compilations succeed with the same list, which has the sources in the
  order of the configuration, or both fail.
\<close>

theorem compile_order_independent:
  assumes "complete_order config order" and "complete_order config order'"
  shows "compile_list env order config = compile_list env order' config \<or>
    isl (compile_list env order config) \<and> isl (compile_list env order' config)"
proof -
  let ?rs = "map (compile_source env) (cfg_sources config)"
  have "set order = {..< length ?rs}" "set order' = {..< length ?rs}"
    using assms by (simp_all add: complete_order_set)
  then show ?thesis
    by (simp add: compile_list_def promise_all_cases split: option.split sum.split)
qed

text \<open>
  C15. What is published: a compilation that succeeds returns the metadata of the configuration,
  a checksum line, the line of the compiler, and the transformed concatenation of the sources,
  each behind its own header and in the order of the configuration; the checksum is the one of
  the published list.  No metadata text may contain the mark of the compiler's line.
\<close>

theorem compile_published:
  assumes "complete_order config order" and "compile_list env order config = Inr out"
    and "list_all (\<lambda>l. \<not> str_includes l ''! Compiled by'') (metadata_lines (cfg_metadata config) (env_timestamp env))"
  shows "\<exists>results body.
    map (compile_source env) (cfg_sources config) = map Inr results \<and>
    transform (env_library env) (combine_sources (cfg_sources config) results) (pattern_config.truncate config)
      (or_empty (cfg_transformations config)) = Inr body \<and>
    out = metadata_lines (cfg_metadata config) (env_timestamp env) @
      [''! Checksum: '' @ calculateChecksum (env_hash env) out,
       ''!'', ''! Compiled by '' @ PACKAGE_NAME @ '' v'' @ VERSION, ''!''] @ body"
proof -
  let ?rs = "map (compile_source env) (cfg_sources config)" and ?h = "prepareHeader env config"
  let ?m = "metadata_lines (cfg_metadata config) (env_timestamp env)"
  have "set order = {..< length ?rs}" using assms(1) by (simp add: complete_order_set)
  then obtain body where all: "list_all (\<lambda>r. \<not> isl r) ?rs"
    and body: "transform (env_library env) (combine_sources (cfg_sources config) (map projr ?rs))
        (pattern_config.truncate config) (or_empty (cfg_transformations config)) = Inr body"
    and out: "out = addChecksumToHeader (env_hash env) (?h @ body)"
    using assms(2) by (auto simp: compile_list_def promise_all_cases split: option.splits sum.splits if_splits)
  have rs: "?rs = map Inr (map projr ?rs)"
    using all by (intro nth_equalityI) (auto simp: list_all_length isl_def)
  define tail where "tail = [''! Compiled by '' @ PACKAGE_NAME @ '' v'' @ VERSION, ''!''] @ body"
  have h: "?h @ body = ?m @ ''!'' # tail" by (simp add: prepareHeader_def generateListHeader_def tail_def)
  have "find_index (\<lambda>l. str_includes l ''! Compiled by'') (''!'' # tail) = Some 1"
    by (simp add: tail_def) code_simp
  then have "find_index (\<lambda>l. str_includes l ''! Compiled by'') (?h @ body) = Some (length ?m + 1)"
    using assms(3) unfolding h find_index_append by (simp add: find_index_None [THEN iffD2])
  then have "checksum_index (?h @ body) = length ?m"
    by (simp add: checksum_index_def h)
  then have "out = ?m @ [''! Checksum: '' @ calculateChecksum (env_hash env) (?h @ body)] @ ''!'' # tail"
    by (simp add: out addChecksumToHeader_def h)
  moreover have "calculateChecksum (env_hash env) (?h @ body) = calculateChecksum (env_hash env) out"
    unfolding out by (simp add: checksum_unchanged)
  ultimately show ?thesis using rs body by (intro exI [of _ "map projr ?rs"] exI [of _ body]) (simp add: tail_def)
qed

text \<open>A compilation of two sources.\<close>

definition demo_environment :: environment where
  "demo_environment =
     \<lparr>env_library = demo_library,
      env_download = (\<lambda>s. if s = ''http://a/l'' then Inr [''! Title: x'', ''||a.com^''] else Inr [''||b.com^'', ''||c.net^'']),
      env_url_parses = (\<lambda>s. starts_with s ''http://''), env_url_format = (\<lambda>s. True), env_errors_text = (\<lambda>j. ''invalid''),
      env_hash = (\<lambda>s. ''abc''), env_timestamp = ''2024-01-01''\<rparr>"

definition demo_source :: "jstr \<Rightarrow> source_config" where
  "demo_source url = \<lparr>exclusions = [''*.net^''], exclusions_sources = [], inclusions = [], inclusions_sources = [],
     src_source = url, src_name = None, src_type = None, src_useBrowser = None,
     src_transformations = None, src_precompiled = None\<rparr>"

definition demo_configuration :: configuration where
  "demo_configuration = \<lparr>exclusions = [], exclusions_sources = [], inclusions = [], inclusions_sources = [],
     cfg_metadata = \<lparr>md_name = ''demo'', md_description = None, md_version = None, md_homepage = None, md_license = None\<rparr>,
     cfg_sources = [demo_source ''http://a/l'', demo_source ''http://b/l''], cfg_transformations = None\<rparr>"

text \<open>
  A source without transformations loses its filters: \<open>SourceCompiler\<close> calls the pipeline,
  which applies exclusions and inclusions, only if there are transformations, so the rules of the
  source are the same whatever its exclusions and inclusions are.
\<close>

theorem source_filters_ignored:
  assumes "or_empty (src_transformations s) = []"
  shows "compile_source env (s\<lparr>exclusions := e, exclusions_sources := es, inclusions := i, inclusions_sources := is'\<rparr>) =
    compile_source env s"
  using assms by (cases s) (simp add: compile_source_def split: sum.split)

theorem source_filters_ignored_witness:
  "compile_source demo_environment (demo_source ''http://b/l'') = Inr [''||b.com^'', ''||c.net^'']"
proof -
  have "compile_source demo_environment ((demo_source ''http://b/l'')\<lparr>exclusions := [], exclusions_sources := [],
      inclusions := [], inclusions_sources := []\<rparr>) = Inr [''||b.com^'', ''||c.net^'']"
    by (simp add: compile_source_def demo_environment_def demo_source_def or_empty_def) code_simp
  moreover have "or_empty (src_transformations (demo_source ''http://b/l'')) = []"
    by (simp add: demo_source_def or_empty_def)
  note source_filters_ignored [OF this, of demo_environment "[]" "[]" "[]" "[]"]
  ultimately show ?thesis by simp
qed

theorem compile_order_independent_witness:
  "compile_list demo_environment [0, 1] demo_configuration = compile_list demo_environment [1, 0] demo_configuration \<or>
    isl (compile_list demo_environment [0, 1] demo_configuration) \<and>
    isl (compile_list demo_environment [1, 0] demo_configuration)"
  by (rule compile_order_independent)
    (auto simp: complete_order_def demo_configuration_def lessThan_Suc numeral_2_eq_2)

theorem compile_published_witness:
  "\<exists>body. [''!'', ''! Title: demo'', ''! Last modified: 2024-01-01'', ''! Checksum: abc'', ''!'',
      ''! Compiled by @jk-com/adblock-compiler v0.88.0'', ''!'', ''!'', ''! Source: http://a/l'', ''!'', ''||a.com^'',
      ''!'', ''! Source: http://b/l'', ''!'', ''||b.com^'', ''||c.net^''] =
    metadata_lines (cfg_metadata demo_configuration) ''2024-01-01'' @
      [''! Checksum: abc'', ''!'', ''! Compiled by '' @ PACKAGE_NAME @ '' v'' @ VERSION, ''!''] @ body"
    (is "\<exists>body. ?out = _ @ _ @ body")
proof -
  have 1: "complete_order demo_configuration [1, 0]"
    by (auto simp: complete_order_def demo_configuration_def lessThan_Suc numeral_2_eq_2)
  have 2: "compile_list demo_environment [1, 0] demo_configuration = Inr ?out" by code_simp
  have 3: "list_all (\<lambda>l. \<not> str_includes l ''! Compiled by'')
      (metadata_lines (cfg_metadata demo_configuration) (env_timestamp demo_environment))" by code_simp
  have 4: "calculateChecksum (env_hash demo_environment) ?out = ''abc''" by code_simp
  have 5: "env_timestamp demo_environment = ''2024-01-01''" by code_simp
  show ?thesis using compile_published [OF 1 2 3] unfolding 4 5 by fastforce
qed

section \<open>Incremental compilation\<close>

record cache_entry =
  ce_source :: jstr
  ce_contentHash :: jstr
  ce_rules :: lines
  ce_timestamp :: int

text \<open>\<open>MemoryCacheStorage\<close>: a \<open>Map\<close> keeps the order in which its keys were first set.\<close>

type_synonym cache = "(jstr \<times> cache_entry) list"

definition cache_get :: "cache \<Rightarrow> jstr \<Rightarrow> cache_entry option" where
  "cache_get c key = map_of c key"

fun cache_set :: "jstr \<Rightarrow> cache_entry \<Rightarrow> cache \<Rightarrow> cache" where
  "cache_set key e [] = [(key, e)]"
| "cache_set key e ((k, v) # c) = (if k = key then (k, e) # c else (k, v) # cache_set key e c)"

definition cache_delete :: "jstr \<Rightarrow> cache \<Rightarrow> cache" where
  "cache_delete key c = filter (\<lambda>(k, _). k \<noteq> key) c"

definition cache_clear :: "cache \<Rightarrow> cache" where
  "cache_clear c = []"

definition cache_keys :: "cache \<Rightarrow> jstr list" where
  "cache_keys c = map fst c"

definition cache_size :: "cache \<Rightarrow> nat" where
  "cache_size c = length c"

text \<open>What the compiler relies on of an \<open>ICacheStorage\<close>.\<close>

locale cache_storage =
  fixes get :: "'c \<Rightarrow> jstr \<Rightarrow> 'e option"
    and put :: "jstr \<Rightarrow> 'e \<Rightarrow> 'c \<Rightarrow> 'c"
    and remove :: "jstr \<Rightarrow> 'c \<Rightarrow> 'c"
    and clear :: "'c \<Rightarrow> 'c"
    and all_keys :: "'c \<Rightarrow> jstr list"
  assumes get_put: "get (put k e c) k' = (if k' = k then Some e else get c k')"
    and get_remove: "get (remove k c) k' = (if k' = k then None else get c k')"
    and get_clear: "get (clear c) k = None"
    and set_keys: "set (all_keys c) = {k. get c k \<noteq> None}"
begin

lemma entry_kept: "get c k \<noteq> None \<Longrightarrow> get (put k' e c) k \<noteq> None"
  by (simp add: get_put)

lemma keys_put: "set (all_keys (put k e c)) = insert k (set (all_keys c))"
  by (auto simp: set_keys get_put)

lemma keys_clear: "all_keys (clear c) = []"
  using set_keys [of "clear c"] by (simp add: get_clear)

end

interpretation memory_cache: cache_storage cache_get cache_set cache_delete cache_clear cache_keys
proof unfold_locales
  fix k e c k'
  show "cache_get (cache_set k e c) k' = (if k' = k then Some e else cache_get c k')"
    unfolding cache_get_def by (induction k e c rule: cache_set.induct) auto
  show "cache_get (cache_delete k c) k' = (if k' = k then None else cache_get c k')"
    unfolding cache_get_def cache_delete_def by (induction c) auto
  show "set (cache_keys c) = {k. cache_get c k \<noteq> None}"
    unfolding cache_get_def cache_keys_def by (auto simp: map_of_eq_None_iff)
qed (simp add: cache_get_def cache_clear_def)

record incremental_options =
  io_maxCacheAge :: int
  io_forceRefresh :: "jstr list"

definition getCacheKey :: "source_config \<Rightarrow> jstr" where
  "getCacheKey s =
     (let transformations = (case src_transformations s of None \<Rightarrow> [] | Some ts \<Rightarrow> join_with '','' (map type_name ts))
      in ''source:'' @ src_source s @ '':'' @
         (case src_type s of None \<Rightarrow> ''adblock'' | Some t \<Rightarrow> source_type_name t) @ '':'' @ transformations)"

definition shouldRecompile :: "incremental_options \<Rightarrow> int \<Rightarrow> source_config \<Rightarrow> cache_entry \<Rightarrow> bool" where
  "shouldRecompile opts now s cached =
     (if List.member (io_forceRefresh opts) (src_source s) then True
      else io_maxCacheAge opts < now - ce_timestamp cached)"

record source_result =
  sr_source :: source_config
  sr_rules :: lines
  sr_fromCache :: bool

record incremental_result =
  ir_results :: "source_result list"
  ir_recompiled :: "jstr list"
  ir_cached :: "jstr list"
  ir_timeSaved :: nat

text \<open>
  The loop over the sources.  \<open>clock i\<close> is the time at source number \<open>i\<close>, \<open>fetch i\<close> the outcome of a
  download with the default options then.
\<close>

fun process_sources ::
  "incremental_options \<Rightarrow> (nat \<Rightarrow> jstr \<Rightarrow> download_error + lines) \<Rightarrow> (jstr \<Rightarrow> jstr) \<Rightarrow> (nat \<Rightarrow> int) \<Rightarrow> nat \<Rightarrow>
   source_config list \<Rightarrow> cache \<Rightarrow> (download_error + incremental_result) \<times> cache" where
  "process_sources opts fetch hash clock i [] cache =
     (Inr \<lparr>ir_results = [], ir_recompiled = [], ir_cached = [], ir_timeSaved = 0\<rparr>, cache)"
| "process_sources opts fetch hash clock i (s # sources) cache =
     (let key = getCacheKey s;
          cached = cache_get cache key;
          reuse = (case cached of None \<Rightarrow> False | Some e \<Rightarrow> \<not> shouldRecompile opts (clock i) s e);
          add = (\<lambda>rules fromCache recompiled used saved (r, c).
            (map_sum id (\<lambda>res. \<lparr>ir_results = \<lparr>sr_source = s, sr_rules = rules, sr_fromCache = fromCache\<rparr> # ir_results res,
               ir_recompiled = recompiled @ ir_recompiled res, ir_cached = used @ ir_cached res,
               ir_timeSaved = saved + ir_timeSaved res\<rparr>) r, c))
      in if reuse then
           add (ce_rules (the cached)) True [] [src_source s] 500
             (process_sources opts fetch hash clock (Suc i) sources cache)
         else case fetch i (src_source s) of
           Inr rules \<Rightarrow>
             add rules False [src_source s] [] 0
               (process_sources opts fetch hash clock (Suc i) sources
                 (cache_set key \<lparr>ce_source = src_source s, ce_contentHash = hash (join_with [CHR 0x0A] rules),
                    ce_rules = rules, ce_timestamp = clock i\<rparr> cache))
         | Inl e \<Rightarrow>
             (case cached of
                Some c \<Rightarrow>
                  add (ce_rules c) True [src_source s] [src_source s] 0
                    (process_sources opts fetch hash clock (Suc i) sources cache)
              | None \<Rightarrow> (Inl e, cache)))"

lemma process_step:
  assumes "process_sources opts fetch hash clock i (s # sources) c = (r, c')"
  obtains (cached) r' e where "cache_get c (getCacheKey s) = Some e"
      "process_sources opts fetch hash clock (Suc i) sources c = (r', c')" "isl r' \<longleftrightarrow> isl r"
  | (stored) r' e where
      "process_sources opts fetch hash clock (Suc i) sources (cache_set (getCacheKey s) e c) = (r', c')" "isl r' \<longleftrightarrow> isl r"
  | (failed) "isl r" "c' = c"
proof -
  have map_isl: "isl (map_sum id f x) \<longleftrightarrow> isl x" for f and x :: "download_error + incremental_result"
    by (cases x) simp_all
  let ?go = "process_sources opts fetch hash clock (Suc i) sources"
  show ?thesis
  proof (cases "cache_get c (getCacheKey s)")
    case None
    then show ?thesis
    proof (cases "fetch i (src_source s)")
      case (Inr rules)
      let ?e = "\<lparr>ce_source = src_source s, ce_contentHash = hash (join_with [CHR 0x0A] rules), ce_rules = rules,
        ce_timestamp = clock i\<rparr>"
      obtain r' c2 where "?go (cache_set (getCacheKey s) ?e c) = (r', c2)" by force
      then show ?thesis using assms None Inr by (intro stored [of ?e r']) (auto simp: Let_def map_isl)
    qed (use assms failed in \<open>auto simp: Let_def\<close>)
  next
    case (Some e)
    obtain r1 c1 where go: "?go c = (r1, c1)" by force
    show ?thesis
    proof (cases "shouldRecompile opts (clock i) s e")
      case False
      then show ?thesis using assms Some go by (intro cached [OF Some, of r1]) (auto simp: Let_def map_isl)
    next
      case True
      show ?thesis
      proof (cases "fetch i (src_source s)")
        case (Inl x)
        then show ?thesis using True assms Some go by (intro cached [OF Some, of r1]) (auto simp: Let_def map_isl)
      next
        case (Inr rules)
        let ?e = "\<lparr>ce_source = src_source s, ce_contentHash = hash (join_with [CHR 0x0A] rules), ce_rules = rules,
          ce_timestamp = clock i\<rparr>"
        obtain r' c2 where "?go (cache_set (getCacheKey s) ?e c) = (r', c2)" by force
        then show ?thesis using True assms Some Inr by (intro stored [of ?e r']) (auto simp: Let_def map_isl)
      qed
    qed
  qed
qed

lemma process_keeps:
  "process_sources opts fetch hash clock i sources c = (r, c') \<Longrightarrow> cache_get c k \<noteq> None \<Longrightarrow> cache_get c' k \<noteq> None"
proof (induction sources arbitrary: i c r)
  case (Cons s sources)
  from Cons.prems(1) show ?case
    by (cases rule: process_step) (use Cons.IH Cons.prems memory_cache.entry_kept in blast)+
qed simp

lemma process_caches:
  "process_sources opts fetch hash clock i sources c = (r, c') \<Longrightarrow> \<not> isl r \<Longrightarrow> s \<in> set sources \<Longrightarrow>
   cache_get c' (getCacheKey s) \<noteq> None"
proof (induction sources arbitrary: i c r)
  case (Cons t sources)
  from Cons.prems(1) show ?case
  proof (cases rule: process_step)
    case (cached r' e)
    then show ?thesis using Cons.IH [OF cached(2)] Cons.prems process_keeps [OF cached(2)] by auto
  next
    case (stored r' e)
    have "cache_get (cache_set (getCacheKey t) e c) (getCacheKey t) \<noteq> None"
      by (simp add: memory_cache.get_put)
    then show ?thesis using Cons.IH [OF stored(1)] Cons.prems stored(2) process_keeps [OF stored(1)] by auto
  qed (use Cons.prems in simp)
qed simp

lemma process_hits:
  assumes "io_forceRefresh opts = []"
    and "\<And>k e j. cache_get c k = Some e \<Longrightarrow> clock j - ce_timestamp e \<le> io_maxCacheAge opts"
  shows "(\<And>s. s \<in> set sources \<Longrightarrow> cache_get c (getCacheKey s) \<noteq> None) \<Longrightarrow>
    \<exists>res. process_sources opts fetch hash clock i sources c = (Inr res, c) \<and> ir_recompiled res = [] \<and>
      ir_cached res = map src_source sources \<and>
      map sr_rules (ir_results res) = map (\<lambda>s. ce_rules (the (cache_get c (getCacheKey s)))) sources"
proof (induction sources arbitrary: i)
  case (Cons s sources)
  obtain e where e: "cache_get c (getCacheKey s) = Some e" using Cons.prems [of s] by auto
  then have "\<not> shouldRecompile opts (clock i) s e" using assms by (simp add: shouldRecompile_def not_less)
  moreover obtain res where "process_sources opts fetch hash clock (Suc i) sources c = (Inr res, c)"
    "ir_recompiled res = []" "ir_cached res = map src_source sources"
    "map sr_rules (ir_results res) = map (\<lambda>s. ce_rules (the (cache_get c (getCacheKey s)))) sources"
    using Cons.IH [of "Suc i"] Cons.prems by auto
  ultimately show ?case using e by (simp add: Let_def)
qed simp

text \<open>
  The cache of the incremental compiler works: after a run over the sources that succeeds, a
  second run in which no entry has expired and no refresh is forced downloads nothing and
  changes no entry; every source counts as cached and gets the rules of its entry.
\<close>

theorem incremental_second_run:
  assumes "process_sources opts fetch hash clock 0 sources cache = (Inr res, cache')"
    and "io_forceRefresh opts = []"
    and "\<forall>k e j. cache_get cache' k = Some e \<longrightarrow> clock' j - ce_timestamp e \<le> io_maxCacheAge opts"
  shows "\<exists>res'. process_sources opts fetch' hash clock' 0 sources cache' = (Inr res', cache') \<and>
    ir_recompiled res' = [] \<and> ir_cached res' = map src_source sources \<and>
    map sr_rules (ir_results res') = map (\<lambda>s. ce_rules (the (cache_get cache' (getCacheKey s)))) sources"
  using assms(2,3) process_caches [OF assms(1)] by (intro process_hits) auto

theorem incremental_second_run_witness:
  "\<exists>cache res. process_sources \<lparr>io_maxCacheAge = 60, io_forceRefresh = []\<rparr> (\<lambda>i s. Inl (HostError ''x'' ''y''))
       (\<lambda>s. s) (\<lambda>j. 30) 0 [demo_source ''http://b/l''] cache = (Inr res, cache) \<and>
     ir_recompiled res = [] \<and> ir_cached res = [''http://b/l''] \<and> map sr_rules (ir_results res) = [[''||b.com^'']]"
proof -
  let ?o = "\<lparr>io_maxCacheAge = 60, io_forceRefresh = []\<rparr>" and ?s = "demo_source ''http://b/l''"
  let ?c = "cache_set (getCacheKey ?s) \<lparr>ce_source = ''http://b/l'', ce_contentHash = ''||b.com^'',
    ce_rules = [''||b.com^''], ce_timestamp = 5\<rparr> []"
  have "process_sources ?o (\<lambda>i s. Inr [''||b.com^'']) (\<lambda>s. s) (\<lambda>j. 5) 0 [?s] [] =
     (Inr \<lparr>ir_results = [\<lparr>sr_source = ?s, sr_rules = [''||b.com^''], sr_fromCache = False\<rparr>],
        ir_recompiled = [''http://b/l''], ir_cached = [], ir_timeSaved = 0\<rparr>, ?c)"
    by (simp add: cache_get_def demo_source_def)
  from incremental_second_run [OF this, of "\<lambda>j. 30" "\<lambda>i s. Inl (HostError ''x'' ''y'')"]
  show ?thesis by (intro exI [of _ ?c]) (auto simp: cache_get_def demo_source_def)
qed

datatype incremental_error = SourceDownload download_error | Compile compile_error

definition incremental_compile ::
  "environment \<Rightarrow> nat list \<Rightarrow> incremental_options \<Rightarrow> (nat \<Rightarrow> jstr \<Rightarrow> download_error + lines) \<Rightarrow>
   (nat \<Rightarrow> int) \<Rightarrow> configuration \<Rightarrow> cache \<Rightarrow> (incremental_error + lines \<times> incremental_result) \<times> cache" where
  "incremental_compile env order opts fetch clock config cache =
     (case process_sources opts fetch (env_hash env) clock 0 (cfg_sources config) cache of
        (Inl e, c) \<Rightarrow> (Inl (SourceDownload e), c)
      | (Inr res, c) \<Rightarrow>
          (case compile_list env order
                  (config\<lparr>cfg_sources := map (\<lambda>sr. (sr_source sr)\<lparr>src_precompiled := Some (sr_rules sr)\<rparr>) (ir_results res)\<rparr>) of
             Inl e \<Rightarrow> (Inl (Compile e), c)
           | Inr rules \<Rightarrow> (Inr (rules, res), c)))"

definition clearCache :: "cache \<Rightarrow> cache" where
  "clearCache cache = cache_clear cache"

text \<open>
  C16. Incremental compilation never succeeds: whatever the sources, the cache and the downloads are,
  it throws, because it hands the cached rules to the compiler as a field \<open>_precompiled\<close> of the
  sources, a key that the strict schema of sources rejects.
\<close>

theorem incremental_never_succeeds:
  "isl (fst (incremental_compile env order opts fetch clock config cache))"
proof (cases "process_sources opts fetch (env_hash env) clock 0 (cfg_sources config) cache")
  case (Pair r c)
  show ?thesis
  proof (cases r)
    case (Inr res)
    let ?c = "config\<lparr>cfg_sources := map (\<lambda>sr. (sr_source sr)\<lparr>src_precompiled := Some (sr_rules sr)\<rparr>) (ir_results res)\<rparr>"
    have "\<not> configuration_ok (env_url_parses env) (env_url_format env) ?c"
      by (cases "ir_results res") (simp_all add: configuration_ok_def source_ok_def)
    then obtain t where "validate_configuration (env_url_parses env) (env_url_format env) (env_errors_text env)
        (configuration_json ?c) = Some t"
      using configuration_checked [of "env_url_parses env" "env_url_format env" "env_errors_text env" ?c] by auto
    then have "compile_list env order ?c = Inl (ConfigurationError t (md_name (cfg_metadata ?c)))"
      by (simp add: compile_list_def)
    then show ?thesis using Pair Inr by (simp add: incremental_compile_def)
  qed (use Pair in \<open>simp add: incremental_compile_def\<close>)
qed

end
