(* ===== verification/Health.thy ===== *)
theory Health
  imports Complex_Main Prelude
begin

text \<open>
  The history of sources: their health (\<open>src/storage/SourceHealthMonitor.ts\<close>) and their changes
  (\<open>src/storage/ChangeDetector.ts\<close>).  The storage adapter is a map per key prefix.  Times are
  milliseconds; the rates and averages, floating-point numbers in the code, are exact rationals:
  the quotient of two integers below \<open>2 ^ 48\<close> rounds below 0.95 or 0.80 exactly when it is below.
\<close>

section \<open>Attempts and metrics\<close>

datatype health_status = Healthy | Degraded | Unhealthy | Unknown

record attempt =
  at_timestamp :: int
  at_success :: bool
  at_duration :: rat
  at_error :: "jstr option"
  at_ruleCount :: "nat option"
  at_etag :: "jstr option"

record metrics =
  hm_source :: jstr
  hm_status :: health_status
  hm_totalAttempts :: nat
  hm_successfulAttempts :: nat
  hm_failedAttempts :: nat
  hm_successRate :: rat
  hm_averageDuration :: rat
  hm_lastAttempt :: "int option"
  hm_lastSuccess :: "int option"
  hm_lastFailure :: "int option"
  hm_recentAttempts :: "attempt list"
  hm_averageRuleCount :: "rat option"
  hm_isCurrentlyFailing :: bool
  hm_consecutiveFailures :: nat

type_synonym health_store = "jstr \<Rightarrow> metrics option"

definition calculateHealthStatus :: "rat \<Rightarrow> nat \<Rightarrow> health_status" where
  "calculateHealthStatus successRate consecutiveFailures =
     (if 3 \<le> consecutiveFailures then Unhealthy
      else if 0 < consecutiveFailures then Degraded
      else if 95 / 100 \<le> successRate then Healthy
      else if 80 / 100 \<le> successRate then Degraded
      else Unhealthy)"

definition unknown_health :: "jstr \<Rightarrow> metrics" where
  "unknown_health source =
     \<lparr>hm_source = source, hm_status = Unknown, hm_totalAttempts = 0, hm_successfulAttempts = 0,
      hm_failedAttempts = 0, hm_successRate = 0, hm_averageDuration = 0, hm_lastAttempt = None,
      hm_lastSuccess = None, hm_lastFailure = None, hm_recentAttempts = [],
      hm_averageRuleCount = None, hm_isCurrentlyFailing = False, hm_consecutiveFailures = 0\<rparr>"

definition getHealthMetrics :: "jstr \<Rightarrow> health_store \<Rightarrow> metrics" where
  "getHealthMetrics source store =
     (case store source of Some m \<Rightarrow> m | None \<Rightarrow> unknown_health source)"

definition average :: "rat list \<Rightarrow> rat" where
  "average xs = foldl (+) 0 xs / of_nat (length xs)"

definition rule_counts :: "attempt list \<Rightarrow> rat list" where
  "rule_counts as =
     concat (map (\<lambda>a. case at_ruleCount a of
        Some n \<Rightarrow> if at_success a \<and> n \<noteq> 0 then [of_nat n] else []
      | None \<Rightarrow> []) as)"

text \<open>The loop that counts failures from the latest attempt on.\<close>

primrec leading_failures :: "attempt list \<Rightarrow> nat" where
  "leading_failures [] = 0"
| "leading_failures (a # as) = (if \<not> at_success a then Suc (leading_failures as) else 0)"

text \<open>\<open>keep\<close> is \<open>maxRecentAttempts\<close>, positive.\<close>

definition recordAttempt :: "nat \<Rightarrow> jstr \<Rightarrow> attempt \<Rightarrow> health_store \<Rightarrow> health_store" where
  "recordAttempt keep source a store =
     (let m = getHealthMetrics source store;
          success = at_success a;
          recent = take keep (a # hm_recentAttempts m);
          total = hm_totalAttempts m + 1;
          successful = hm_successfulAttempts m + (if success then 1 else 0);
          failed = hm_failedAttempts m + (if success then 0 else 1);
          successRate = of_nat successful / of_nat total;
          failures = leading_failures recent;
          counts = rule_counts recent
      in store(source \<mapsto>
           \<lparr>hm_source = source, hm_status = calculateHealthStatus successRate failures,
            hm_totalAttempts = total, hm_successfulAttempts = successful, hm_failedAttempts = failed,
            hm_successRate = successRate, hm_averageDuration = average (map at_duration recent),
            hm_lastAttempt = Some (at_timestamp a),
            hm_lastSuccess = (if success then Some (at_timestamp a) else hm_lastSuccess m),
            hm_lastFailure = (if \<not> success then Some (at_timestamp a) else hm_lastFailure m),
            hm_recentAttempts = recent,
            hm_averageRuleCount = (if 0 < length counts then Some (average counts) else None),
            hm_isCurrentlyFailing = (\<not> success), hm_consecutiveFailures = failures\<rparr>))"

definition clearSourceHealth :: "jstr \<Rightarrow> health_store \<Rightarrow> health_store" where
  "clearSourceHealth source store = store(source := None)"

text \<open>\<open>sources\<close> is the order in which the adapter lists the keys.\<close>

definition getAllSources :: "jstr list \<Rightarrow> health_store \<Rightarrow> metrics list" where
  "getAllSources sources store =
     concat (map (\<lambda>s. case store s of Some m \<Rightarrow> [m] | None \<Rightarrow> []) sources)"

definition getUnhealthySources :: "jstr list \<Rightarrow> health_store \<Rightarrow> metrics list" where
  "getUnhealthySources sources store =
     filter (\<lambda>m. hm_status m = Unhealthy \<or> hm_status m = Degraded) (getAllSources sources store)"

definition getFailingSources :: "jstr list \<Rightarrow> health_store \<Rightarrow> metrics list" where
  "getFailingSources sources store = filter hm_isCurrentlyFailing (getAllSources sources store)"

section \<open>Health as a function of the history\<close>

text \<open>The specification: what the metrics of a source are, given all its attempts, latest first.\<close>

definition successes :: "attempt list \<Rightarrow> attempt list" where
  "successes h = filter at_success h"

definition failures_of :: "attempt list \<Rightarrow> attempt list" where
  "failures_of h = filter (\<lambda>a. \<not> at_success a) h"

definition latest :: "attempt list \<Rightarrow> int option" where
  "latest h = (case h of [] \<Rightarrow> None | a # _ \<Rightarrow> Some (at_timestamp a))"

definition success_rate :: "attempt list \<Rightarrow> rat" where
  "success_rate h = of_nat (length (successes h)) / of_nat (length h)"

definition failing_streak :: "attempt list \<Rightarrow> nat" where
  "failing_streak h = length (takeWhile (\<lambda>a. \<not> at_success a) h)"

definition metrics_of :: "nat \<Rightarrow> jstr \<Rightarrow> attempt list \<Rightarrow> metrics" where
  "metrics_of keep source h =
     (if h = [] then unknown_health source
      else
        \<lparr>hm_source = source,
         hm_status = calculateHealthStatus (success_rate h) (min keep (failing_streak h)),
         hm_totalAttempts = length h, hm_successfulAttempts = length (successes h),
         hm_failedAttempts = length (failures_of h), hm_successRate = success_rate h,
         hm_averageDuration = average (map at_duration (take keep h)),
         hm_lastAttempt = latest h, hm_lastSuccess = latest (successes h),
         hm_lastFailure = latest (failures_of h), hm_recentAttempts = take keep h,
         hm_averageRuleCount =
           (if rule_counts (take keep h) = [] then None else Some (average (rule_counts (take keep h)))),
         hm_isCurrentlyFailing = (\<not> at_success (hd h)),
         hm_consecutiveFailures = min keep (failing_streak h)\<rparr>)"

lemma leading_failures_streak: "leading_failures h = failing_streak h"
  by (induction h) (simp_all add: failing_streak_def)

lemma streak_take: "failing_streak (take n h) = min n (failing_streak h)"
proof (induction h arbitrary: n)
  case (Cons a h)
  then show ?case by (cases n) (simp_all add: failing_streak_def)
qed (simp add: failing_streak_def)

lemma record_refines:
  assumes "getHealthMetrics source store = metrics_of keep source h" and "0 < keep"
  shows "recordAttempt keep source a store = store(source \<mapsto> metrics_of keep source (a # h))"
proof -
  have recent: "take keep (a # hm_recentAttempts (metrics_of keep source h)) = take keep (a # h)"
    by (cases keep) (auto simp: metrics_of_def unknown_health_def take_Cons' min_def)
  have counts: "hm_totalAttempts (metrics_of keep source h) = length h"
    "hm_successfulAttempts (metrics_of keep source h) = length (successes h)"
    "hm_failedAttempts (metrics_of keep source h) = length (failures_of h)"
    "hm_lastSuccess (metrics_of keep source h) = latest (successes h)"
    "hm_lastFailure (metrics_of keep source h) = latest (failures_of h)"
    by (auto simp: metrics_of_def unknown_health_def successes_def failures_of_def latest_def)
  have streak: "leading_failures (take keep (a # h)) = min keep (failing_streak (a # h))"
    by (simp only: leading_failures_streak streak_take)
  show ?thesis
    unfolding recordAttempt_def assms(1) Let_def recent counts streak
    by (simp add: metrics_of_def success_rate_def successes_def failures_of_def latest_def add.commute)
qed

primrec record_all :: "nat \<Rightarrow> (jstr \<times> attempt) list \<Rightarrow> health_store \<Rightarrow> health_store" where
  "record_all keep [] store = store"
| "record_all keep (e # es) store =
     record_all keep es (case e of (source, a) \<Rightarrow> recordAttempt keep source a store)"

text \<open>The attempts of one source, latest first.\<close>

definition history_of :: "jstr \<Rightarrow> (jstr \<times> attempt) list \<Rightarrow> attempt list" where
  "history_of source es = rev (map snd (filter (\<lambda>(s, _). s = source) es))"

lemma record_all_refines:
  "0 < keep \<Longrightarrow> \<forall>s. getHealthMetrics s store = metrics_of keep s (h s) \<Longrightarrow>
   getHealthMetrics source (record_all keep es store) =
     metrics_of keep source (history_of source es @ h source)"
proof (induction es arbitrary: store h)
  case (Cons e es)
  obtain s a where e: "e = (s, a)" by (cases e)
  have step: "recordAttempt keep s a store = store(s \<mapsto> metrics_of keep s (a # h s))"
    using record_refines Cons.prems by blast
  have "\<forall>s'. getHealthMetrics s' (recordAttempt keep s a store) =
      metrics_of keep s' ((h(s := a # h s)) s')"
    unfolding step using Cons.prems(2) by (auto simp: getHealthMetrics_def)
  from Cons.IH [OF Cons.prems(1) this] show ?case by (auto simp: e history_of_def)
qed (simp add: history_of_def)

text \<open>
  C18. The stored health of a source is a function of its own history.  Whatever attempts are
  recorded for whatever sources, in any order, the metrics of a source afterwards are those that
  the specification \<open>metrics_of\<close> gives to the list of its attempts: the counts and the success rate
  of all of them, the times of the latest attempt, success and failure, the averages and the list
  of the latest \<open>keep\<close>, the failing streak as far as \<open>keep\<close> attempts show it, and the status.
\<close>

theorem health_refines_history:
  assumes "0 < keep"
  shows "getHealthMetrics source (record_all keep es Map.empty) =
    metrics_of keep source (history_of source es)"
proof -
  have "\<forall>s. getHealthMetrics s Map.empty = metrics_of keep s []"
    by (simp add: getHealthMetrics_def metrics_of_def)
  from record_all_refines [OF assms, of _ "\<lambda>_. []", OF this] show ?thesis by simp
qed

definition try_at :: "int \<Rightarrow> bool \<Rightarrow> attempt" where
  "try_at t ok =
     \<lparr>at_timestamp = t, at_success = ok, at_duration = 5, at_error = None, at_ruleCount = Some 7,
      at_etag = None\<rparr>"

theorem health_refines_history_witness:
  "hm_status (getHealthMetrics ''a''
     (record_all 10 [(''a'', try_at 1 True), (''b'', try_at 2 True), (''a'', try_at 3 False)] Map.empty)) =
   Degraded"
  by (subst health_refines_history)
    (simp_all add: history_of_def metrics_of_def failing_streak_def try_at_def calculateHealthStatus_def)

lemma of_nat_times_le: "of_nat a * of_nat s \<le> (of_nat b * of_nat t :: rat) \<longleftrightarrow> a * s \<le> b * t"
  by (simp only: of_nat_mult [symmetric] of_nat_le_iff)

lemma rate_bounds:
  assumes "0 < t"
  shows "95 / 100 \<le> (of_nat s / of_nat t :: rat) \<longleftrightarrow> 19 * t \<le> 20 * s"
    and "80 / 100 \<le> (of_nat s / of_nat t :: rat) \<longleftrightarrow> 4 * t \<le> 5 * s"
proof -
  have "95 / 100 \<le> (of_nat s / of_nat t :: rat) \<longleftrightarrow> of_nat 19 * of_nat t \<le> (of_nat 20 * of_nat s :: rat)"
    using assms by (simp add: field_simps)
  then show "95 / 100 \<le> (of_nat s / of_nat t :: rat) \<longleftrightarrow> 19 * t \<le> 20 * s"
    by (simp only: of_nat_times_le)
  have "80 / 100 \<le> (of_nat s / of_nat t :: rat) \<longleftrightarrow> of_nat 4 * of_nat t \<le> (of_nat 5 * of_nat s :: rat)"
    using assms by (simp add: field_simps)
  then show "80 / 100 \<le> (of_nat s / of_nat t :: rat) \<longleftrightarrow> 4 * t \<le> 5 * s"
    by (simp only: of_nat_times_le)
qed

lemma status_of_counts:
  assumes "0 < t"
  shows "calculateHealthStatus (of_nat s / of_nat t) k =
    (if 3 \<le> k then Unhealthy else if 0 < k then Degraded else if 19 * t \<le> 20 * s then Healthy
     else if 4 * t \<le> 5 * s then Degraded else Unhealthy)"
  unfolding calculateHealthStatus_def rate_bounds [OF assms] ..

lemma streak_three:
  "3 \<le> failing_streak (a # h) \<longleftrightarrow>
   list_all (\<lambda>b. \<not> at_success b) (take 3 (a # h)) \<and> 2 \<le> length h"
proof (cases h)
  case (Cons b bs)
  then show ?thesis by (cases bs) (auto simp: failing_streak_def numeral_3_eq_3)
qed (simp add: failing_streak_def)

text \<open>
  What the status says, when at least three attempts are kept.  A source with attempts is
  unhealthy when its last three attempts failed, or when its last attempt succeeded but fewer
  than 80% of all did; it is healthy when its last attempt succeeded and at least 95% of all
  did; and otherwise it is degraded: after one or two failures in a row however good its
  record, or between the two rates.
\<close>

theorem health_status_meaning:
  assumes "3 \<le> keep"
  shows "hm_status (metrics_of keep source (a # h)) =
    (if list_all (\<lambda>b. \<not> at_success b) (take 3 (a # h)) \<and> 2 \<le> length h \<or>
        at_success a \<and> 5 * length (successes (a # h)) < 4 * length (a # h) then Unhealthy
     else if at_success a \<and> 19 * length (a # h) \<le> 20 * length (successes (a # h)) then Healthy
     else Degraded)"
proof -
  let ?k = "min keep (failing_streak (a # h))"
  have three: "3 \<le> ?k \<longleftrightarrow> list_all (\<lambda>b. \<not> at_success b) (take 3 (a # h)) \<and> 2 \<le> length h"
    using assms streak_three [of a h] by simp
  have last: "0 < ?k \<longleftrightarrow> \<not> at_success a" using assms by (simp add: failing_streak_def)
  have "hm_status (metrics_of keep source (a # h)) = calculateHealthStatus (success_rate (a # h)) ?k"
    by (simp add: metrics_of_def)
  also have "\<dots> = (if 3 \<le> ?k then Unhealthy else if 0 < ?k then Degraded
      else if 19 * length (a # h) \<le> 20 * length (successes (a # h)) then Healthy
      else if 4 * length (a # h) \<le> 5 * length (successes (a # h)) then Degraded else Unhealthy)"
    unfolding success_rate_def by (rule status_of_counts) simp
  finally show ?thesis unfolding three last by auto
qed

theorem health_status_meaning_witness:
  "hm_status (metrics_of 10 ''a'' [try_at 4 False, try_at 3 False, try_at 2 False, try_at 1 True]) = Unhealthy"
  by (subst health_status_meaning) (simp_all add: try_at_def)

end
