(* ===== verification/Snapshots.thy ===== *)
theory Snapshots
  imports Complex_Main Prelude
begin

text \<open>
  Detection of changes of a source between compilations (\<open>src/storage/ChangeDetector.ts\<close>).  The
  storage adapter is the map of the latest snapshots and the map of archived ones; the hash of a
  content is an argument, as in the code.
\<close>

section \<open>Snapshots and their comparison\<close>

record snapshot =
  sn_source :: jstr
  sn_timestamp :: int
  sn_hash :: jstr
  sn_ruleCount :: nat
  sn_ruleSample :: lines
  sn_etag :: "jstr option"

record snapshot_store =
  st_latest :: "jstr \<Rightarrow> snapshot option"
  st_history :: "jstr \<Rightarrow> int \<Rightarrow> snapshot option"

definition createSnapshot ::
  "int \<Rightarrow> jstr \<Rightarrow> lines \<Rightarrow> jstr \<Rightarrow> jstr option \<Rightarrow> snapshot" where
  "createSnapshot now source content hash etag =
     \<lparr>sn_source = source, sn_timestamp = now, sn_hash = hash, sn_ruleCount = length content,
      sn_ruleSample = take 10 content, sn_etag = etag\<rparr>"

definition storeSnapshot :: "snapshot \<Rightarrow> snapshot_store \<Rightarrow> snapshot_store" where
  "storeSnapshot s store = store\<lparr>st_latest := (st_latest store)(sn_source s \<mapsto> s)\<rparr>"

definition getLastSnapshot :: "jstr \<Rightarrow> snapshot_store \<Rightarrow> snapshot option" where
  "getLastSnapshot source store = st_latest store source"

definition archiveSnapshot :: "snapshot \<Rightarrow> snapshot_store \<Rightarrow> snapshot_store" where
  "archiveSnapshot s store =
     store\<lparr>st_history := (st_history store)
       (sn_source s := (st_history store (sn_source s))(sn_timestamp s \<mapsto> s))\<rparr>"

definition clearSourceSnapshots :: "jstr \<Rightarrow> snapshot_store \<Rightarrow> snapshot_store" where
  "clearSourceSnapshots source store =
     \<lparr>st_latest = (st_latest store)(source := None), st_history = (st_history store)(source := Map.empty)\<rparr>"

record change_result =
  cr_hasChanged :: bool
  cr_previous :: "snapshot option"
  cr_current :: snapshot
  cr_ruleCountDelta :: int
  cr_changePercent :: rat
  cr_timeSinceLast :: "int option"

definition detectChanges ::
  "int \<Rightarrow> jstr \<Rightarrow> lines \<Rightarrow> jstr \<Rightarrow> jstr option \<Rightarrow> snapshot_store \<Rightarrow> change_result" where
  "detectChanges now source content hash etag store =
     (let current = createSnapshot now source content hash etag
      in case getLastSnapshot source store of
           None \<Rightarrow>
             \<lparr>cr_hasChanged = True, cr_previous = None, cr_current = current,
              cr_ruleCountDelta = int (sn_ruleCount current), cr_changePercent = 100,
              cr_timeSinceLast = None\<rparr>
         | Some previous \<Rightarrow>
             (let delta = int (sn_ruleCount current) - int (sn_ruleCount previous)
              in \<lparr>cr_hasChanged = (sn_hash previous \<noteq> sn_hash current), cr_previous = Some previous,
                  cr_current = current, cr_ruleCountDelta = delta,
                  cr_changePercent =
                    (if 0 < sn_ruleCount previous
                     then of_int delta / of_nat (sn_ruleCount previous) * 100 else 0),
                  cr_timeSinceLast = Some (sn_timestamp current - sn_timestamp previous)\<rparr>))"

definition detectAndStore ::
  "int \<Rightarrow> jstr \<Rightarrow> lines \<Rightarrow> jstr \<Rightarrow> jstr option \<Rightarrow> snapshot_store \<Rightarrow> change_result \<times> snapshot_store" where
  "detectAndStore now source content hash etag store =
     (let result = detectChanges now source content hash etag store
      in (result, storeSnapshot (cr_current result) store))"

section \<open>Summaries\<close>

record change_entry =
  ce_source :: jstr
  ce_ruleCountDelta :: int
  ce_changePercent :: rat

record change_summary =
  sm_totalSources :: nat
  sm_changedSources :: nat
  sm_unchangedSources :: nat
  sm_newSources :: nat
  sm_changes :: "change_entry list"

definition generateChangeSummary :: "change_result list \<Rightarrow> change_summary" where
  "generateChangeSummary results =
     \<lparr>sm_totalSources = length results,
      sm_changedSources = length (filter (\<lambda>r. cr_hasChanged r \<and> cr_previous r \<noteq> None) results),
      sm_unchangedSources = length (filter (\<lambda>r. \<not> cr_hasChanged r) results),
      sm_newSources = length (filter (\<lambda>r. cr_hasChanged r \<and> cr_previous r = None) results),
      sm_changes =
        map (\<lambda>r. \<lparr>ce_source = sn_source (cr_current r), ce_ruleCountDelta = cr_ruleCountDelta r,
            ce_changePercent = cr_changePercent r\<rparr>) (filter cr_hasChanged results)\<rparr>"

record snapshot_comparison =
  sc_addedRules :: int
  sc_removedRules :: int
  sc_modified :: bool

definition compareSnapshots :: "snapshot \<Rightarrow> snapshot \<Rightarrow> snapshot_comparison" where
  "compareSnapshots old new =
     (let diff = int (sn_ruleCount new) - int (sn_ruleCount old)
      in \<lparr>sc_addedRules = (if 0 < diff then diff else 0),
          sc_removedRules = (if diff < 0 then \<bar>diff\<bar> else 0),
          sc_modified = (sn_hash old \<noteq> sn_hash new)\<rparr>)"

lemma summary_partition:
  "sm_changedSources (generateChangeSummary rs) + sm_unchangedSources (generateChangeSummary rs) +
     sm_newSources (generateChangeSummary rs) = sm_totalSources (generateChangeSummary rs)"
  by (induction rs) (auto simp: generateChangeSummary_def)

section \<open>Runs\<close>

text \<open>One observation of a source: its name, when, its content, its hash, its entity tag.\<close>

record observation =
  ob_source :: jstr
  ob_now :: int
  ob_content :: lines
  ob_hash :: jstr
  ob_etag :: "jstr option"

primrec observe_all ::
  "observation list \<Rightarrow> snapshot_store \<Rightarrow> change_result list \<times> snapshot_store" where
  "observe_all [] store = ([], store)"
| "observe_all (ob # obs) store =
     (case detectAndStore (ob_now ob) (ob_source ob) (ob_content ob) (ob_hash ob) (ob_etag ob) store of
        (r, store') \<Rightarrow> (case observe_all obs store' of (rs, store'') \<Rightarrow> (r # rs, store'')))"

definition of_source :: "jstr \<Rightarrow> observation list \<Rightarrow> observation list" where
  "of_source source obs = filter (\<lambda>ob. ob_source ob = source) obs"

definition results_of :: "jstr \<Rightarrow> change_result list \<Rightarrow> change_result list" where
  "results_of source rs = filter (\<lambda>r. sn_source (cr_current r) = source) rs"

text \<open>What is reported when a content follows the one before it, if there is one.\<close>

definition reported :: "(jstr \<times> nat) option \<Rightarrow> observation \<Rightarrow> bool \<times> int" where
  "reported previous ob =
     (case previous of
        None \<Rightarrow> (True, int (length (ob_content ob)))
      | Some (hash, n) \<Rightarrow> (hash \<noteq> ob_hash ob, int (length (ob_content ob)) - int n))"

definition seen :: "observation \<Rightarrow> (jstr \<times> nat) option" where
  "seen ob = Some (ob_hash ob, length (ob_content ob))"

definition known :: "jstr \<Rightarrow> snapshot_store \<Rightarrow> (jstr \<times> nat) option" where
  "known source store = map_option (\<lambda>s. (sn_hash s, sn_ruleCount s)) (st_latest store source)"

lemma detectAndStore_effect:
  "detectAndStore now source content hash etag store = (r, store') \<Longrightarrow>
   sn_source (cr_current r) = source \<and>
   (cr_hasChanged r, cr_ruleCountDelta r) =
     reported (known source store)
       \<lparr>ob_source = source, ob_now = now, ob_content = content, ob_hash = hash, ob_etag = etag\<rparr> \<and>
   known s store' = (if s = source then Some (hash, length content) else known s store)"
  by (auto simp: detectAndStore_def detectChanges_def createSnapshot_def storeSnapshot_def reported_def
      getLastSnapshot_def known_def Let_def split: option.splits)

lemma observed_reports:
  "map (\<lambda>r. (cr_hasChanged r, cr_ruleCountDelta r)) (results_of source (fst (observe_all obs store))) =
     map2 reported (known source store # map seen (of_source source obs)) (of_source source obs)"
proof (induction obs arbitrary: store)
  case (Cons ob obs)
  obtain r store' where r: "detectAndStore (ob_now ob) (ob_source ob) (ob_content ob) (ob_hash ob)
      (ob_etag ob) store = (r, store')" by fastforce
  note e = detectAndStore_effect [OF r]
  have rep: "reported p \<lparr>ob_source = ob_source ob, ob_now = ob_now ob, ob_content = ob_content ob,
      ob_hash = ob_hash ob, ob_etag = ob_etag ob\<rparr> = reported p ob" for p
    by (cases ob) simp
  show ?case
    using Cons.IH [of store'] e [of source]
    by (auto simp: r case_prod_beta results_of_def of_source_def rep seen_def)
qed (simp add: results_of_def of_source_def)

definition last_length :: "observation list \<Rightarrow> int" where
  "last_length obs = (case rev obs of [] \<Rightarrow> 0 | ob # _ \<Rightarrow> int (length (ob_content ob)))"

lemma deltas_telescope:
  "sum_list (map snd (map2 reported (p # map seen obs) obs)) =
     (if obs = [] then 0
      else last_length obs - (case p of None \<Rightarrow> 0 | Some (_, n) \<Rightarrow> int n))"
proof (induction obs arbitrary: p)
  case (Cons ob obs)
  show ?case
    using Cons.IH [of "seen ob"]
    by (cases "obs = []")
      (auto simp: reported_def seen_def last_length_def split: option.split list.split)
qed simp

text \<open>
  Changes are reported against the observation before.  Starting without snapshots and whatever
  sources are observed in between, the reports on a source are: its first content is a change by
  all its lines; each later one is a change exactly when its hash differs from that of the content
  before, with the difference of their numbers of lines; and over any number of observations these
  differences add up to the number of lines of the latest content.
\<close>

theorem changes_reported:
  "(let own = of_source source obs;
        rs = results_of source (fst (observe_all obs \<lparr>st_latest = Map.empty, st_history = h\<rparr>))
    in map (\<lambda>r. (cr_hasChanged r, cr_ruleCountDelta r)) rs =
         map2 reported (None # map seen own) own \<and>
       sum_list (map cr_ruleCountDelta rs) = last_length own)"
proof -
  let ?own = "of_source source obs"
  let ?rs = "results_of source (fst (observe_all obs \<lparr>st_latest = Map.empty, st_history = h\<rparr>))"
  have reports: "map (\<lambda>r. (cr_hasChanged r, cr_ruleCountDelta r)) ?rs =
      map2 reported (None # map seen ?own) ?own"
    by (simp add: observed_reports known_def)
  have "map cr_ruleCountDelta ?rs = map snd (map (\<lambda>r. (cr_hasChanged r, cr_ruleCountDelta r)) ?rs)"
    by simp
  then have "sum_list (map cr_ruleCountDelta ?rs) =
      sum_list (map snd (map2 reported (None # map seen ?own) ?own))"
    by (simp only: reports)
  also have "\<dots> = last_length ?own" unfolding deltas_telescope by (simp add: last_length_def)
  finally have "sum_list (map cr_ruleCountDelta ?rs) = last_length ?own" .
  with reports show ?thesis by (simp add: Let_def)
qed

end
