(* ===== verification/Diff.thy ===== *)
theory Diff
  imports Complex_Main RuleSyntax
begin

text \<open>
  Comparison of two lists (\<open>src/diff/DiffReport.ts\<close>, \<open>DiffGenerator\<close>).  The parser library is the
  parameters \<open>parser\<close> and \<open>generate\<close>; the parse cache of one call only avoids repeated parsing.
  Percentages are rationals.  The time stamp, the version and the names of the lists are passed
  through and left out, as are the label of the syntax of a rule and the exports.
\<close>

section \<open>Reports\<close>

datatype diff_category = Network | Cosmetic | Host | Comment | Unknown_Category

record rule_diff =
  rd_rule :: jstr
  rd_line :: nat
  rd_category :: diff_category
  rd_isException :: "bool option"

record diff_options =
  do_includeFullRules :: bool
  do_maxRulesToInclude :: nat
  do_analyzeDomains :: bool
  do_ignoreComments :: bool
  do_ignoreEmptyLines :: bool
  do_useAstNormalization :: bool

definition default_diff_options :: diff_options where
  "default_diff_options =
     \<lparr>do_includeFullRules = True, do_maxRulesToInclude = 1000, do_analyzeDomains = True,
      do_ignoreComments = True, do_ignoreEmptyLines = True, do_useAstNormalization = False\<rparr>"

record diff_summary =
  dm_originalCount :: nat
  dm_newCount :: nat
  dm_addedCount :: nat
  dm_removedCount :: nat
  dm_unchangedCount :: int
  dm_netChange :: int
  dm_percentageChange :: rat
  dm_categories :: "diff_category \<Rightarrow> nat \<times> nat"

record domain_diff =
  dd_domain :: jstr
  dd_added :: nat
  dd_removed :: nat

record diff_report =
  dr_summary :: diff_summary
  dr_added :: "rule_diff list"
  dr_removed :: "rule_diff list"
  dr_domainChanges :: "domain_diff list"

section \<open>Rules\<close>

definition diff_kept :: "diff_options \<Rightarrow> jstr \<Rightarrow> bool" where
  "diff_kept opts rule \<longleftrightarrow>
     \<not> (rule = [] \<and> do_ignoreEmptyLines opts) \<and>
     \<not> (do_ignoreComments opts \<and> (starts_with rule ''!'' \<or> starts_with rule ''#''))"

definition diff_filterRules :: "diff_options \<Rightarrow> lines \<Rightarrow> lines" where
  "diff_filterRules opts rules = filter (diff_kept opts) (map js_trim rules)"

definition getComparisonKey ::
  "diff_options \<Rightarrow> rule_parser \<Rightarrow> (any_rule \<Rightarrow> jstr) \<Rightarrow> jstr \<Rightarrow> jstr" where
  "getComparisonKey opts parser generate rule =
     (if \<not> do_useAstNormalization opts then rule
      else (case parsed parser rule of Some ast \<Rightarrow> generate ast | None \<Rightarrow> rule))"

definition categorizeRule ::
  "rule_parser \<Rightarrow> jstr \<Rightarrow> diff_category \<times> bool option" where
  "categorizeRule parser rule =
     (case parsed parser rule of
        None \<Rightarrow> (Unknown_Category, None)
      | Some ast \<Rightarrow>
          (case ast of
             CommentRule _ \<Rightarrow> (Comment, None)
           | EmptyRule \<Rightarrow> (Unknown_Category, None)
           | HostRule _ \<Rightarrow> (Host, None)
           | NetworkRule r \<Rightarrow> (Network, Some (nr_exception r))
           | CosmeticRule r \<Rightarrow> (Cosmetic, Some (cr_exception r))
           | InvalidRule _ \<Rightarrow> (Unknown_Category, None)))"

text \<open>The changes on one side: the rules whose key the other side does not have, with their lines.\<close>

fun changed_rules ::
  "rule_parser \<Rightarrow> (jstr \<Rightarrow> jstr) \<Rightarrow> jstr set \<Rightarrow> nat \<Rightarrow> lines \<Rightarrow> rule_diff list" where
  "changed_rules parser key others i [] = []"
| "changed_rules parser key others i (rule # rules) =
     (if key rule \<notin> others then
        (case categorizeRule parser rule of (c, e) \<Rightarrow>
           [\<lparr>rd_rule = rule, rd_line = i + 1, rd_category = c, rd_isException = e\<rparr>])
      else []) @ changed_rules parser key others (i + 1) rules"

definition count_category :: "diff_category \<Rightarrow> rule_diff list \<Rightarrow> nat" where
  "count_category c ds = length (filter (\<lambda>d. rd_category d = c) ds)"

section \<open>Domains\<close>

definition host_char :: "char \<Rightarrow> bool" where
  "host_char c \<longleftrightarrow> is_alnum c \<or> c = CHR ''.'' \<or> c = CHR ''-''"

text \<open>\<open>^\|\|([a-z0-9.-]+)[\^/?]\<close> and \<open>^\|\|([a-z0-9.-]+)\^?\<close>, without regard to case.\<close>

definition host_after_bars :: "bool \<Rightarrow> jstr \<Rightarrow> jstr option" where
  "host_after_bars needs_end s =
     (let h = takeWhile host_char (drop 2 s); rest = dropWhile host_char (drop 2 s)
      in if starts_with s ''||'' \<and> h \<noteq> [] \<and>
            (needs_end \<longrightarrow> rest \<noteq> [] \<and> hd rest \<in> {CHR ''^'', CHR ''/'', CHR ''?''})
         then Some h else None)"

text \<open>\<open>^[\d.]+\s+([a-z0-9.-]+)\<close>.\<close>

definition hosts_line_host :: "jstr \<Rightarrow> jstr option" where
  "hosts_line_host s =
     (let address = (\<lambda>c. is_digit c \<or> c = CHR ''.'');
          rest = dropWhile address s;
          h = takeWhile host_char (dropWhile is_ws rest)
      in if takeWhile address s \<noteq> [] \<and> takeWhile is_ws rest \<noteq> [] \<and> h \<noteq> [] then Some h else None)"

definition fallback_domain :: "jstr \<Rightarrow> jstr option" where
  "fallback_domain rule =
     (case host_after_bars False rule of
        Some h \<Rightarrow> Some (to_lower h)
      | None \<Rightarrow> map_option to_lower (hosts_line_host rule))"

definition diff_extractDomain ::
  "rule_parser \<Rightarrow> (any_rule \<Rightarrow> jstr) \<Rightarrow> jstr \<Rightarrow> jstr option" where
  "diff_extractDomain parser generate rule =
     (case parsed parser rule of
        Some (HostRule r) \<Rightarrow>
          (case hp_hostnames (extractHostRuleProperties generate r) of
             [] \<Rightarrow> None
           | h # _ \<Rightarrow> Some (to_lower h))
      | Some (CosmeticRule r) \<Rightarrow>
          map_option to_lower
            (List.find (\<lambda>d. \<not> starts_with d ''~'') (cp_domains (extractCosmeticRuleProperties generate r)))
      | Some (NetworkRule r) \<Rightarrow>
          (case host_after_bars True (np_pattern (extractNetworkRuleProperties generate r)) of
             Some h \<Rightarrow> Some (to_lower h)
           | None \<Rightarrow> fallback_domain rule)
      | _ \<Rightarrow> fallback_domain rule)"

text \<open>The counters per domain, in the order in which the domains were first met.\<close>

type_synonym domain_counts = "(jstr \<times> nat \<times> nat) list"

fun bump_domain :: "(nat \<times> nat \<Rightarrow> nat \<times> nat) \<Rightarrow> jstr \<Rightarrow> domain_counts \<Rightarrow> domain_counts" where
  "bump_domain f d [] = [(d, f (0, 0))]"
| "bump_domain f d ((d', n) # m) = (if d' = d then (d, f n) # m else (d', n) # bump_domain f d m)"

definition count_domains ::
  "rule_parser \<Rightarrow> (any_rule \<Rightarrow> jstr) \<Rightarrow> (nat \<times> nat \<Rightarrow> nat \<times> nat) \<Rightarrow> rule_diff list \<Rightarrow>
   domain_counts \<Rightarrow> domain_counts" where
  "count_domains parser generate f ds m =
     fold (\<lambda>d m. case diff_extractDomain parser generate (rd_rule d) of
        Some (c # cs) \<Rightarrow> bump_domain f (c # cs) m
      | _ \<Rightarrow> m) ds m"

definition analyzeDomainChanges ::
  "rule_parser \<Rightarrow> (any_rule \<Rightarrow> jstr) \<Rightarrow> rule_diff list \<Rightarrow> rule_diff list \<Rightarrow> domain_diff list" where
  "analyzeDomainChanges parser generate added removed =
     (let m = count_domains parser generate (\<lambda>(a, r). (a, r + 1)) removed
                (count_domains parser generate (\<lambda>(a, r). (a + 1, r)) added []);
          entries = map (\<lambda>(d, a, r). \<lparr>dd_domain = d, dd_added = a, dd_removed = r\<rparr>) m
      in take 100 (sort_key (\<lambda>e. - int (dd_added e + dd_removed e)) entries))"

section \<open>The comparison\<close>

definition diff_sides ::
  "diff_options \<Rightarrow> rule_parser \<Rightarrow> (any_rule \<Rightarrow> jstr) \<Rightarrow> lines \<Rightarrow> lines \<Rightarrow>
   rule_diff list \<times> rule_diff list" where
  "diff_sides opts parser generate original current =
     (let key = getComparisonKey opts parser generate;
          filteredOriginal = diff_filterRules opts original;
          filteredNew = diff_filterRules opts current
      in (changed_rules parser key (set (map key filteredOriginal)) 0 filteredNew,
          changed_rules parser key (set (map key filteredNew)) 0 filteredOriginal))"

definition generate_diff ::
  "diff_options \<Rightarrow> rule_parser \<Rightarrow> (any_rule \<Rightarrow> jstr) \<Rightarrow> lines \<Rightarrow> lines \<Rightarrow> diff_report" where
  "generate_diff opts parser generate original current =
     (let (added, removed) = diff_sides opts parser generate original current;
          n = length (diff_filterRules opts original);
          net = int (length added) - int (length removed);
          limit = (\<lambda>ds. if do_includeFullRules opts then take (do_maxRulesToInclude opts) ds else [])
      in \<lparr>dr_summary =
            \<lparr>dm_originalCount = n, dm_newCount = length (diff_filterRules opts current),
             dm_addedCount = length added, dm_removedCount = length removed,
             dm_unchangedCount = int n - int (length removed), dm_netChange = net,
             dm_percentageChange = (if 0 < n then of_int net / of_nat n * 100 else 0),
             dm_categories = (\<lambda>c. (count_category c added, count_category c removed))\<rparr>,
          dr_added = limit added, dr_removed = limit removed,
          dr_domainChanges =
            (if do_analyzeDomains opts then analyzeDomainChanges parser generate added removed else [])\<rparr>)"

section \<open>Correctness\<close>

lemma changed_rules_text:
  "map rd_rule (changed_rules parser key others i rules) = filter (\<lambda>r. key r \<notin> others) rules"
  by (induction rules arbitrary: i) (auto split: prod.split)

lemma changed_rules_line:
  "d \<in> set (changed_rules parser key others i rules) \<Longrightarrow>
   i < rd_line d \<and> rd_line d \<le> i + length rules \<and> rules ! (rd_line d - 1 - i) = rd_rule d"
proof (induction rules arbitrary: i)
  case (Cons rule rules)
  obtain c e where c: "categorizeRule parser rule = (c, e)" by fastforce
  from Cons.prems consider
      (first) "d = \<lparr>rd_rule = rule, rd_line = i + 1, rd_category = c, rd_isException = e\<rparr>"
    | (later) "d \<in> set (changed_rules parser key others (i + 1) rules)"
    unfolding changed_rules.simps c split_conv by (cases "key rule \<in> others") (simp, simp, blast)
  then show ?case
  proof cases
    case first
    then show ?thesis by simp
  next
    case later
    from Cons.IH [OF later] have l: "i + 1 < rd_line d" "rd_line d \<le> i + 1 + length rules"
      "rules ! (rd_line d - 1 - (i + 1)) = rd_rule d" by auto
    then have "rd_line d - 1 - i = Suc (rd_line d - 1 - (i + 1))" by simp
    then show ?thesis using l by simp
  qed
qed simp

lemma categories_sum:
  "(\<Sum>c \<leftarrow> [Network, Cosmetic, Host, Comment, Unknown_Category]. count_category c ds) = length ds"
proof (induction ds)
  case Nil
  then show ?case by (simp add: count_category_def)
next
  case (Cons d ds)
  then show ?case by (cases "rd_category d") (simp_all add: count_category_def)
qed

definition diff_keys ::
  "diff_options \<Rightarrow> rule_parser \<Rightarrow> (any_rule \<Rightarrow> jstr) \<Rightarrow> lines \<Rightarrow> jstr set" where
  "diff_keys opts parser generate rules =
     getComparisonKey opts parser generate ` set (diff_filterRules opts rules)"

definition changed_keys ::
  "diff_options \<Rightarrow> rule_parser \<Rightarrow> (any_rule \<Rightarrow> jstr) \<Rightarrow> rule_diff list \<Rightarrow> jstr set" where
  "changed_keys opts parser generate ds = getComparisonKey opts parser generate ` set (map rd_rule ds)"


text \<open>
  Generic cosmetic rules are taken for comments.  With the default options, lines whose trimmed
  text starts with \<open>#\<close>, such as \<open>##.ad\<close>, may be put into a list or left out of it anywhere: the
  report is the same, and a list that differs from another only in such lines shows no change.
\<close>

theorem diff_blind_to_hash:
  assumes "list_all (\<lambda>l. starts_with (js_trim l) ''#'') hashes"
  shows "generate_diff default_diff_options parser generate (xs @ hashes @ ys) current =
       generate_diff default_diff_options parser generate (xs @ ys) current \<and>
     dr_added (generate_diff default_diff_options parser generate (xs @ ys) (xs @ hashes @ ys)) = []"
proof -
  have "filter (diff_kept default_diff_options) (map js_trim hashes) = []"
    using assms by (auto simp: filter_empty_conv diff_kept_def default_diff_options_def list_all_iff)
  then have same: "diff_filterRules default_diff_options (xs @ hashes @ ys) =
      diff_filterRules default_diff_options (xs @ ys)"
    by (simp add: diff_filterRules_def)
  have none: "changed_rules parser key (key ` set rules) i rules' = []"
    if "set rules' \<subseteq> set rules" for key rules rules' i
    using that by (induction rules' arbitrary: i) auto
  show ?thesis
    unfolding generate_diff_def diff_sides_def Let_def same split_conv by (simp add: none)
qed

theorem diff_blind_to_hash_witness:
  "dr_added (generate_diff default_diff_options parser generate ([''||a.com^''] @ [])
     ([''||a.com^''] @ [''##.ad'', '' # note''] @ [])) = []"
  using diff_blind_to_hash [of "[''##.ad'', '' # note'']" parser generate "[''||a.com^'']" "[]"]
  by (simp add: js_trim_def trim_by_def is_ws_def)

end
