(* ===== verification/RateLimit.thy ===== *)
theory RateLimit
  imports Prelude Schemas
begin

text \<open>
  The rate limiter of the worker (\<open>worker/rate-limiter-do.ts\<close>): a Durable Object per identity,
  its memory, its storage and the alarm that the platform keeps for it.  Times are integers,
  milliseconds as \<open>Date.now()\<close> returns them.  The platform delivers one event at a time (the
  input gates of a Durable Object hold the next one back while storage is awaited), so an
  operation is one step; between two steps the object may be evicted, and \<open>Wake\<close> is the
  constructor that reads the storage.  \<open>drops_alarm\<close> says whether \<open>deleteAll\<close> deletes the alarm
  too, which depends on the compatibility date of the platform; \<open>issue\<close> is the text of the first
  issue that zod reports.
\<close>

section \<open>State\<close>

record limiter =
  rl_count :: int
  rl_resetAt :: int
  rl_limit :: int

text \<open>The keys \<open>rl:count\<close>, \<open>rl:resetAt\<close> and \<open>rl:limit\<close>, and the alarm.\<close>

record limiter_storage =
  key_count :: "int option"
  key_resetAt :: "int option"
  key_limit :: "int option"
  alarm_at :: "int option"

record limiter_do =
  do_memory :: limiter
  do_storage :: limiter_storage

definition or_zero :: "int option \<Rightarrow> int" where
  "or_zero v = (case v of None \<Rightarrow> 0 | Some n \<Rightarrow> n)"

definition restore_memory :: "limiter_storage \<Rightarrow> limiter" where
  "restore_memory s =
     \<lparr>rl_count = or_zero (key_count s), rl_resetAt = or_zero (key_resetAt s),
      rl_limit = or_zero (key_limit s)\<rparr>"

definition wake :: "limiter_do \<Rightarrow> limiter_do" where
  "wake d = d\<lparr>do_memory := restore_memory (do_storage d)\<rparr>"

definition fresh_storage :: limiter_storage where
  "fresh_storage = \<lparr>key_count = None, key_resetAt = None, key_limit = None, alarm_at = None\<rparr>"

section \<open>Operations\<close>

record rate_result =
  rr_allowed :: bool
  rr_limit :: int
  rr_remaining :: int
  rr_resetAt :: int

definition window_over :: "int \<Rightarrow> limiter \<Rightarrow> bool" where
  "window_over now m \<longleftrightarrow> rl_resetAt m = 0 \<or> rl_resetAt m < now"

definition increment :: "int \<Rightarrow> int \<Rightarrow> int \<Rightarrow> limiter_do \<Rightarrow> rate_result \<times> limiter_do" where
  "increment now maxRequests windowSeconds d =
     (let windowMs = windowSeconds * 1000; m = do_memory d; s = do_storage d
      in if window_over now m then
           (let reset = now + windowMs
            in (\<lparr>rr_allowed = True, rr_limit = maxRequests, rr_remaining = maxRequests - 1,
                 rr_resetAt = reset\<rparr>,
                \<lparr>do_memory = \<lparr>rl_count = 1, rl_resetAt = reset, rl_limit = maxRequests\<rparr>,
                 do_storage = \<lparr>key_count = Some 1, key_resetAt = Some reset,
                   key_limit = Some maxRequests, alarm_at = Some (reset + 1000)\<rparr>\<rparr>))
         else
           (let limitChanged = rl_limit m \<noteq> maxRequests; m = m\<lparr>rl_limit := maxRequests\<rparr>
            in if maxRequests \<le> rl_count m then
                 (\<lparr>rr_allowed = False, rr_limit = maxRequests, rr_remaining = 0,
                   rr_resetAt = rl_resetAt m\<rparr>,
                  \<lparr>do_memory = m,
                   do_storage =
                     (if limitChanged
                      then s\<lparr>key_count := Some (rl_count m), key_limit := Some (rl_limit m)\<rparr>
                      else s)\<rparr>)
               else
                 (let m = m\<lparr>rl_count := rl_count m + 1\<rparr>
                  in (\<lparr>rr_allowed = True, rr_limit = maxRequests,
                       rr_remaining = maxRequests - rl_count m, rr_resetAt = rl_resetAt m\<rparr>,
                      \<lparr>do_memory = m,
                       do_storage =
                         (if limitChanged
                          then s\<lparr>key_count := Some (rl_count m), key_limit := Some (rl_limit m)\<rparr>
                          else s\<lparr>key_count := Some (rl_count m)\<rparr>)\<rparr>))))"

definition resetCounter :: "bool \<Rightarrow> limiter_do \<Rightarrow> limiter_do" where
  "resetCounter drops_alarm d =
     \<lparr>do_memory = \<lparr>rl_count = 0, rl_resetAt = 0, rl_limit = 0\<rparr>,
      do_storage = fresh_storage\<lparr>alarm_at := (if drops_alarm then None else alarm_at (do_storage d))\<rparr>\<rparr>"

text \<open>The platform takes the alarm off before it calls \<open>alarm()\<close>.\<close>

definition do_alarm :: "bool \<Rightarrow> limiter_do \<Rightarrow> limiter_do" where
  "do_alarm drops_alarm d =
     resetCounter drops_alarm (d\<lparr>do_storage := (do_storage d)\<lparr>alarm_at := None\<rparr>\<rparr>)"

section \<open>Requests\<close>

datatype do_request =
    Post_Increment "json option"  \<comment> \<open>the parsed body, \<open>None\<close> when it is no JSON\<close>
  | Get_Status
  | Post_Reset
  | Other_Route

record limiter_status =
  ls_count :: int
  ls_limit :: int
  ls_resetAt :: int
  ls_remaining :: int
  ls_windowExpired :: bool

datatype do_response =
    Result rate_result
  | Status limiter_status
  | Reset_Done
  | Bad_Request jstr
  | Route_Not_Found

text \<open>\<open>z.number().int().positive()\<close>: a positive safe integer.\<close>

definition positive_field :: "jstr \<Rightarrow> (jstr \<times> json) list \<Rightarrow> int option" where
  "positive_field key fs =
     (case map_of fs key of
        Some (JNum n) \<Rightarrow> (if 0 < n \<and> n < 2 ^ 53 then Some n else None)
      | _ \<Rightarrow> None)"

definition increment_request :: "json \<Rightarrow> (int \<times> int) option" where
  "increment_request body =
     (case body of
        JObj fs \<Rightarrow>
          (case (positive_field ''maxRequests'' fs, positive_field ''windowSeconds'' fs) of
             (Some m, Some w) \<Rightarrow> Some (m, w)
           | _ \<Rightarrow> None)
      | _ \<Rightarrow> None)"

definition do_status :: "int \<Rightarrow> limiter_do \<Rightarrow> limiter_status" where
  "do_status now d =
     (let m = do_memory d
      in \<lparr>ls_count = rl_count m, ls_limit = rl_limit m, ls_resetAt = rl_resetAt m,
          ls_remaining = max 0 (rl_limit m - rl_count m), ls_windowExpired = window_over now m\<rparr>)"

definition do_fetch ::
  "bool \<Rightarrow> (json \<Rightarrow> jstr) \<Rightarrow> int \<Rightarrow> do_request \<Rightarrow> limiter_do \<Rightarrow> do_response \<times> limiter_do" where
  "do_fetch drops_alarm issue now req d =
     (case req of
        Post_Increment None \<Rightarrow> (Bad_Request ''Invalid JSON body'', d)
      | Post_Increment (Some body) \<Rightarrow>
          (case increment_request body of
             None \<Rightarrow> (Bad_Request (issue body), d)
           | Some (m, w) \<Rightarrow> (case increment now m w d of (r, d') \<Rightarrow> (Result r, d')))
      | Get_Status \<Rightarrow> (Status (do_status now d), d)
      | Post_Reset \<Rightarrow> (Reset_Done, resetCounter drops_alarm d)
      | Other_Route \<Rightarrow> (Route_Not_Found, d))"

section \<open>Runs\<close>

text \<open>
  What happens to one object, in order: requests, the alarm going off (nothing happens when none
  is due), eviction followed by a restart, and time passing.
\<close>

datatype do_event = Request do_request | Alarm | Wake | Advance nat

record limiter_world =
  lw_do :: limiter_do
  lw_now :: int

definition do_event ::
  "bool \<Rightarrow> (json \<Rightarrow> jstr) \<Rightarrow> do_event \<Rightarrow> limiter_world \<Rightarrow> do_response list \<times> limiter_world" where
  "do_event drops_alarm issue e w =
     (case e of
        Request req \<Rightarrow>
          (case do_fetch drops_alarm issue (lw_now w) req (lw_do w) of
             (r, d) \<Rightarrow> ([r], w\<lparr>lw_do := d\<rparr>))
      | Alarm \<Rightarrow>
          (case alarm_at (do_storage (lw_do w)) of
             Some t \<Rightarrow>
               ([], if t \<le> lw_now w then w\<lparr>lw_do := do_alarm drops_alarm (lw_do w)\<rparr> else w)
           | None \<Rightarrow> ([], w))
      | Wake \<Rightarrow> ([], w\<lparr>lw_do := wake (lw_do w)\<rparr>)
      | Advance n \<Rightarrow> ([], w\<lparr>lw_now := lw_now w + int n\<rparr>))"

primrec do_run ::
  "bool \<Rightarrow> (json \<Rightarrow> jstr) \<Rightarrow> do_event list \<Rightarrow> limiter_world \<Rightarrow> do_response list \<times> limiter_world" where
  "do_run drops_alarm issue [] w = ([], w)"
| "do_run drops_alarm issue (e # es) w =
     (case do_event drops_alarm issue e w of
        (rs, w') \<Rightarrow> (case do_run drops_alarm issue es w' of (rs', w'') \<Rightarrow> (rs @ rs', w'')))"

definition new_world :: "int \<Rightarrow> limiter_world" where
  "new_world now =
     \<lparr>lw_do = \<lparr>do_memory = restore_memory fresh_storage, do_storage = fresh_storage\<rparr>, lw_now = now\<rparr>"

lemmas limiter_defs = increment_def resetCounter_def do_alarm_def wake_def restore_memory_def
  or_zero_def fresh_storage_def

lemma do_run_append:
  "do_run drops_alarm issue (es @ es') w =
     (case do_run drops_alarm issue es w of
        (rs, w') \<Rightarrow> (case do_run drops_alarm issue es' w' of (rs', w'') \<Rightarrow> (rs @ rs', w'')))"
  by (induction es arbitrary: w) (simp_all add: case_prod_beta)

section \<open>Memory and storage agree\<close>

text \<open>
  The invariant: the storage holds what the memory holds, and while a window is open the alarm is
  set to one second after its end.
\<close>

definition in_sync :: "limiter_do \<Rightarrow> bool" where
  "in_sync d \<longleftrightarrow> restore_memory (do_storage d) = do_memory d \<and>
     (rl_resetAt (do_memory d) \<noteq> 0 \<longrightarrow>
        alarm_at (do_storage d) = Some (rl_resetAt (do_memory d) + 1000))"

lemma in_sync_reset: "in_sync (resetCounter drops_alarm d)"
  by (simp add: in_sync_def limiter_defs)

lemma in_sync_increment:
  assumes "in_sync d"
  shows "in_sync (snd (increment now m w d))"
  using assms by (cases "do_memory d") (auto simp: in_sync_def limiter_defs Let_def)

lemma in_sync_fetch: "in_sync d \<Longrightarrow> in_sync (snd (do_fetch drops_alarm issue now req d))"
  by (auto simp: do_fetch_def in_sync_reset case_prod_beta in_sync_increment
      split: do_request.split option.split)

lemma wake_in_sync: "in_sync d \<Longrightarrow> wake d = d"
  by (simp add: in_sync_def wake_def)

lemma in_sync_event: "in_sync (lw_do w) \<Longrightarrow> in_sync (lw_do (snd (do_event drops_alarm issue e w)))"
  by (auto simp: do_event_def case_prod_beta in_sync_fetch wake_in_sync do_alarm_def in_sync_reset
      split: do_event.split option.split)

lemma in_sync_new: "in_sync (lw_do (new_world now))"
  by (simp add: new_world_def in_sync_def limiter_defs)

definition do_step :: "bool \<Rightarrow> (json \<Rightarrow> jstr) \<Rightarrow> limiter_world \<Rightarrow> limiter_world \<Rightarrow> bool" where
  "do_step drops_alarm issue w w' \<longleftrightarrow> (\<exists>e. w' = snd (do_event drops_alarm issue e w))"

interpretation limiter_object: transition_system
  "\<lambda>w. \<exists>now. w = new_world now" "do_step drops_alarm issue" "\<lambda>w. in_sync (lw_do w)"
  for drops_alarm issue
  by unfold_locales (auto simp: in_sync_new do_step_def in_sync_event)

lemma do_run_steps: "(do_step drops_alarm issue)\<^sup>*\<^sup>* w (snd (do_run drops_alarm issue es w))"
proof (induction es arbitrary: w)
  case (Cons e es)
  have "do_step drops_alarm issue w (snd (do_event drops_alarm issue e w))"
    by (auto simp: do_step_def)
  then show ?case
    using Cons [of "snd (do_event drops_alarm issue e w)"]
    by (simp add: case_prod_beta converse_rtranclp_into_rtranclp)
qed simp

lemma run_without_wake:
  "in_sync (lw_do w) \<Longrightarrow>
   do_run drops_alarm issue (filter (\<lambda>e. e \<noteq> Wake) es) w = do_run drops_alarm issue es w"
proof (induction es arbitrary: w)
  case (Cons e es)
  show ?case
  proof (cases "e = Wake")
    case True
    then have "do_event drops_alarm issue e w = ([], w)"
      using Cons.prems by (simp add: do_event_def wake_in_sync)
    then show ?thesis using Cons True by simp
  next
    case False
    have "in_sync (lw_do (snd (do_event drops_alarm issue e w)))"
      using Cons.prems by (rule in_sync_event)
    from Cons.IH [OF this] show ?thesis using False by (simp add: case_prod_beta)
  qed
qed simp

text \<open>
  C6. Hibernation is transparent: whatever requests a rate limiter serves, however time passes and
  its alarm goes off, evicting the object and restoring it from its storage at any points in
  between changes neither an answer nor the state it ends in.  In every state the limiter reaches,
  its storage holds exactly what its memory holds, and while a window is open the alarm is set to
  one second after the window ends.
\<close>

theorem hibernation_transparent:
  "do_run drops_alarm issue es (new_world now) =
     do_run drops_alarm issue (filter (\<lambda>e. e \<noteq> Wake) es) (new_world now) \<and>
   (let d = lw_do (snd (do_run drops_alarm issue es (new_world now)))
    in restore_memory (do_storage d) = do_memory d \<and>
       (rl_resetAt (do_memory d) = 0 \<or>
        alarm_at (do_storage d) = Some (rl_resetAt (do_memory d) + 1000)))"
proof -
  have "in_sync (lw_do (snd (do_run drops_alarm issue es (new_world now))))"
    using limiter_object.always do_run_steps by blast
  moreover note run_without_wake [OF in_sync_new, of drops_alarm issue es now, symmetric]
  ultimately show ?thesis unfolding in_sync_def Let_def by blast
qed

section \<open>One window\<close>

definition results :: "do_response list \<Rightarrow> rate_result list" where
  "results rs = concat (map (\<lambda>r. case r of Result x \<Rightarrow> [x] | _ \<Rightarrow> []) rs)"

text \<open>The \<open>i\<close>-th answer, from 0, that a caller with the limit \<open>m\<close> gets in the window ending at \<open>t\<close>.\<close>

definition quota_answer :: "int \<Rightarrow> int \<Rightarrow> int \<Rightarrow> rate_result" where
  "quota_answer m t i =
     \<lparr>rr_allowed = (i < m), rr_limit = m, rr_remaining = max 0 (m - 1 - i), rr_resetAt = t\<rparr>"

text \<open>Requests for an increment with the limit \<open>m\<close>, and events that ask for nothing else.\<close>

definition asks :: "int \<Rightarrow> do_event \<Rightarrow> bool" where
  "asks m e =
     (case e of
        Request (Post_Increment (Some body)) \<Rightarrow> map_option fst (increment_request body) = Some m
      | _ \<Rightarrow> False)"

definition quiet :: "do_event \<Rightarrow> bool" where
  "quiet e =
     (case e of
        Request (Post_Increment (Some body)) \<Rightarrow> increment_request body = None
      | Request Post_Reset \<Rightarrow> False
      | _ \<Rightarrow> True)"

definition elapsed :: "do_event list \<Rightarrow> int" where
  "elapsed es = sum_list (map (\<lambda>e. case e of Advance n \<Rightarrow> int n | _ \<Rightarrow> 0) es)"

text \<open>The window that ends at \<open>t\<close> is open, with the limit \<open>m\<close> and \<open>n\<close> requests seen.\<close>

definition window_open :: "int \<Rightarrow> int \<Rightarrow> nat \<Rightarrow> limiter_world \<Rightarrow> bool" where
  "window_open m t n w \<longleftrightarrow> in_sync (lw_do w) \<and> 0 < t \<and> lw_now w \<le> t \<and> 0 < m \<and>
     do_memory (lw_do w) = \<lparr>rl_count = min m (int n), rl_resetAt = t, rl_limit = m\<rparr>"

lemma quiet_keeps_window:
  assumes "window_open m t n w" and "quiet e" and "lw_now w + elapsed [e] \<le> t"
  shows "window_open m t n (snd (do_event drops_alarm issue e w))"
    and "results (fst (do_event drops_alarm issue e w)) = []"
    and "lw_now (snd (do_event drops_alarm issue e w)) = lw_now w + elapsed [e]"
proof -
  have alarm: "alarm_at (do_storage (lw_do w)) = Some (t + 1000)" and "lw_now w \<le> t"
    using assms(1) by (auto simp: window_open_def in_sync_def)
  moreover have "wake (lw_do w) = lw_do w"
    using assms(1) by (simp add: window_open_def wake_in_sync)
  ultimately show "window_open m t n (snd (do_event drops_alarm issue e w))"
    and "results (fst (do_event drops_alarm issue e w)) = []"
    and "lw_now (snd (do_event drops_alarm issue e w)) = lw_now w + elapsed [e]"
    using assms
    by (auto simp: do_event_def do_fetch_def quiet_def elapsed_def results_def window_open_def
        split: do_event.splits do_request.splits option.splits)
qed

lemma ask_counts:
  assumes "window_open m t n w" and "asks m e"
  shows "window_open m t (Suc n) (snd (do_event drops_alarm issue e w))"
    and "results (fst (do_event drops_alarm issue e w)) = [quota_answer m t (int n)]"
    and "lw_now (snd (do_event drops_alarm issue e w)) = lw_now w"
proof -
  obtain body win where e: "e = Request (Post_Increment (Some body))"
    and body: "increment_request body = Some (m, win)"
    using assms(2) by (auto simp: asks_def split: do_event.splits do_request.splits option.splits)
  have mem: "do_memory (lw_do w) = \<lparr>rl_count = min m (int n), rl_resetAt = t, rl_limit = m\<rparr>"
    and sync: "in_sync (lw_do w)" and t: "0 < t" "lw_now w \<le> t" "0 < m"
    using assms(1) by (auto simp: window_open_def)
  have "in_sync (snd (increment (lw_now w) m win (lw_do w)))"
    using sync by (rule in_sync_increment)
  then show "window_open m t (Suc n) (snd (do_event drops_alarm issue e w))"
    and "results (fst (do_event drops_alarm issue e w)) = [quota_answer m t (int n)]"
    and "lw_now (snd (do_event drops_alarm issue e w)) = lw_now w"
    using t
    by (auto simp: do_event_def do_fetch_def e body results_def quota_answer_def window_open_def
        increment_def window_over_def mem Let_def)
qed

definition serves_only :: "int \<Rightarrow> do_event list \<Rightarrow> bool" where
  "serves_only m es \<longleftrightarrow> list_all (\<lambda>e. asks m e \<or> quiet e) es"

lemma asks_not_quiet: "asks m e \<Longrightarrow> \<not> quiet e \<and> elapsed [e] = 0"
  by (auto simp: asks_def quiet_def elapsed_def split: do_event.splits do_request.splits option.splits)

lemma elapsed_Cons: "elapsed (e # es) = elapsed [e] + elapsed es"
  by (simp add: elapsed_def)

lemma elapsed_nonneg: "0 \<le> elapsed es"
  by (induction es) (auto simp: elapsed_def split: do_event.split)

lemma results_append: "results (xs @ ys) = results xs @ results ys"
  by (simp add: results_def)

lemma window_run:
  assumes "window_open m t n w" and "serves_only m es" and "lw_now w + elapsed es \<le> t"
  shows "results (fst (do_run drops_alarm issue es w)) =
       map (\<lambda>i. quota_answer m t (int i)) [n ..< n + length (filter (asks m) es)] \<and>
     window_open m t (n + length (filter (asks m) es)) (snd (do_run drops_alarm issue es w)) \<and>
     lw_now (snd (do_run drops_alarm issue es w)) = lw_now w + elapsed es"
  using assms
proof (induction es arbitrary: n w)
  case Nil
  then show ?case by (simp add: results_def elapsed_def)
next
  case (Cons e es)
  let ?r = "do_event drops_alarm issue e w"
  have rest: "serves_only m es" and e: "asks m e \<or> quiet e"
    using Cons.prems(2) by (simp_all add: serves_only_def)
  have time: "lw_now w + elapsed [e] + elapsed es \<le> t"
    using Cons.prems(3) elapsed_Cons [of e es] by simp
  show ?case
  proof (cases "asks m e")
    case True
    note s = ask_counts [OF Cons.prems(1) True, of drops_alarm issue]
    have "elapsed [e] = 0" using asks_not_quiet [OF True] by simp
    then show ?thesis
      using Cons.IH [OF s(1) rest] s(2,3) time True elapsed_Cons [of e es]
      by (simp add: case_prod_beta results_append upt_conv_Cons del: upt_Suc)
  next
    case False
    with e have "quiet e" by simp
    moreover have "lw_now w + elapsed [e] \<le> t" using time elapsed_nonneg [of es] by simp
    ultimately have s: "window_open m t n (snd ?r)" "results (fst ?r) = []"
      "lw_now (snd ?r) = lw_now w + elapsed [e]"
      using quiet_keeps_window [OF Cons.prems(1)] by auto
    show ?thesis
      using Cons.IH [OF s(1) rest] s(2,3) time False elapsed_Cons [of e es]
      by (simp add: case_prod_beta results_append)
  qed
qed

lemma first_ask:
  assumes "window_over (lw_now w) (do_memory (lw_do w))" and "0 \<le> lw_now w"
    and "increment_request body = Some (m, win)"
  shows "do_event drops_alarm issue (Request (Post_Increment (Some body))) w =
       ([Result (quota_answer m (lw_now w + win * 1000) 0)],
        snd (do_event drops_alarm issue (Request (Post_Increment (Some body))) w))"
    and "window_open m (lw_now w + win * 1000) 1
       (snd (do_event drops_alarm issue (Request (Post_Increment (Some body))) w))"
    and "lw_now (snd (do_event drops_alarm issue (Request (Post_Increment (Some body))) w)) = lw_now w"
proof -
  have "0 < m" "0 < win"
    using assms(3)
    by (auto simp: increment_request_def positive_field_def split: json.splits option.splits if_splits)
  then show "do_event drops_alarm issue (Request (Post_Increment (Some body))) w =
       ([Result (quota_answer m (lw_now w + win * 1000) 0)],
        snd (do_event drops_alarm issue (Request (Post_Increment (Some body))) w))"
    and "window_open m (lw_now w + win * 1000) 1
       (snd (do_event drops_alarm issue (Request (Post_Increment (Some body))) w))"
    and "lw_now (snd (do_event drops_alarm issue (Request (Post_Increment (Some body))) w)) = lw_now w"
    using assms
    by (simp_all add: do_event_def do_fetch_def quota_answer_def increment_def Let_def
        window_open_def in_sync_def restore_memory_def or_zero_def)
qed

lemma whole_window:
  assumes "window_over (lw_now w) (do_memory (lw_do w))" and "0 \<le> lw_now w"
    and "increment_request body = Some (m, win)"
    and "serves_only m es" and "elapsed es \<le> win * 1000"
  shows "results (fst (do_run drops_alarm issue (Request (Post_Increment (Some body)) # es) w)) =
       map (\<lambda>i. quota_answer m (lw_now w + win * 1000) (int i))
         [0 ..< Suc (length (filter (asks m) es))] \<and>
     window_open m (lw_now w + win * 1000) (Suc (length (filter (asks m) es)))
       (snd (do_run drops_alarm issue (Request (Post_Increment (Some body)) # es) w)) \<and>
     lw_now (snd (do_run drops_alarm issue (Request (Post_Increment (Some body)) # es) w)) =
       lw_now w + elapsed es"
proof -
  let ?e = "Request (Post_Increment (Some body))"
  note f = first_ask [OF assms(1-3), of drops_alarm issue]
  obtain w' where w': "do_event drops_alarm issue ?e w =
      ([Result (quota_answer m (lw_now w + win * 1000) 0)], w')"
    using f(1) by metis
  show ?thesis
    using window_run [of m "lw_now w + win * 1000" 1 w' es drops_alarm issue] assms(4,5) f(2,3)
    by (simp add: w' case_prod_beta results_def upt_conv_Cons del: upt_Suc)
qed

text \<open>
  C7. One window admits exactly its quota.  When no window is open and a request asks for \<open>m\<close>
  requests per \<open>win\<close> seconds, then until the window ends, at the time that every answer names, the
  first \<open>m\<close> requests with that limit are allowed and count \<open>remaining\<close> down from \<open>m - 1\<close> to 0, and
  all further ones are refused with nothing remaining.  Malformed requests, status queries,
  evictions and the alarm use up nothing and never cut the window short; only \<open>/reset\<close> does,
  which the runs considered do not contain.
\<close>

theorem rate_window_exact:
  assumes "window_over (lw_now w) (do_memory (lw_do w))" and "0 \<le> lw_now w"
    and "increment_request body = Some (m, win)"
    and "serves_only m es" and "elapsed es \<le> win * 1000"
  shows "results (fst (do_run drops_alarm issue (Request (Post_Increment (Some body)) # es) w)) =
    map (\<lambda>i. quota_answer m (lw_now w + win * 1000) (int i))
      [0 ..< Suc (length (filter (asks m) es))]"
  using whole_window [OF assms] by simp

definition ask_body :: "int \<Rightarrow> int \<Rightarrow> json" where
  "ask_body m win = JObj [(''maxRequests'', JNum m), (''windowSeconds'', JNum win)]"

definition ask :: "int \<Rightarrow> int \<Rightarrow> do_event" where
  "ask m win = Request (Post_Increment (Some (ask_body m win)))"

theorem rate_window_exact_witness:
  "map rr_allowed (results (fst (do_run True (\<lambda>_. ''invalid'')
     [ask 2 60, Advance 60000, Wake, Alarm, Request Get_Status, ask 2 60, ask 2 60] (new_world 5)))) =
   [True, True, False]"
  using rate_window_exact [of "new_world 5" "ask_body 2 60" 2 60
      "[Advance 60000, Wake, Alarm, Request Get_Status, ask 2 60, ask 2 60]" True "\<lambda>_. ''invalid''"]
  by (simp add: ask_def ask_body_def new_world_def window_over_def limiter_defs increment_request_def
      positive_field_def serves_only_def asks_def quiet_def elapsed_def quota_answer_def)

section \<open>Across windows\<close>

lemma increment_request_ask:
  "0 < m \<Longrightarrow> m < 2 ^ 53 \<Longrightarrow> 0 < win \<Longrightarrow> win < 2 ^ 53 \<Longrightarrow>
   increment_request (ask_body m win) = Some (m, win)"
  by (simp add: increment_request_def ask_body_def positive_field_def)

text \<open>
  The window is fixed, not sliding as the schema of the request describes it: for every limit
  \<open>m\<close> and every window, a caller who sends one request at the start of a window, the rest of its
  quota when the window is about to end, and \<open>m\<close> more a millisecond later, is granted all
  \<open>2 * m\<close> requests, \<open>2 * m - 1\<close> of them within one millisecond.
\<close>

theorem fixed_window_burst:
  assumes "0 < m" and "m < 2 ^ 53" and "0 < win" and "win < 2 ^ 53" and "0 \<le> now"
  shows "map rr_allowed (results (fst (do_run drops_alarm issue
      ([ask m win, Advance (nat (win * 1000))] @ replicate (nat m - 1) (ask m win) @
       [Advance 1] @ replicate (nat m) (ask m win)) (new_world now)))) =
    replicate (nat (2 * m)) True"
proof -
  let ?run = "do_run drops_alarm issue" and ?n = "nat m - 1" and ?t = "now + win * 1000"
  let ?more = "Advance (nat (win * 1000)) # replicate ?n (ask m win)"
  have body: "increment_request (ask_body m win) = Some (m, win)"
    using assms(1-4) by (rule increment_request_ask)
  have asks: "asks m (ask m win)" "\<not> asks m (Advance k)" "quiet (Advance k)" for k
    by (simp_all add: asks_def quiet_def ask_def body)
  have none: "elapsed (replicate k (ask m win)) = 0" for k
    by (induction k) (simp_all add: elapsed_def ask_def)
  have only: "serves_only m (replicate k (ask m win))" for k
    by (simp add: serves_only_def asks list_all_length)
  have first: "window_over (lw_now (new_world now)) (do_memory (lw_do (new_world now)))"
    by (simp add: new_world_def window_over_def limiter_defs)
  have e: "elapsed ?more = win * 1000"
    using assms(3) none by (subst elapsed_Cons) (simp add: elapsed_def)
  obtain rs w where r1: "?run (ask m win # ?more) (new_world now) = (rs, w)" by fastforce
  have w: "results rs = map (\<lambda>i. quota_answer m ?t (int i)) [0 ..< Suc ?n]"
    "window_open m ?t (Suc ?n) w" "lw_now w = ?t"
    using whole_window [OF first _ body, of ?more drops_alarm issue] e asks only [of ?n] r1 assms(5)
    by (simp_all add: ask_def [symmetric] serves_only_def new_world_def del: upt_Suc)
  let ?w = "w\<lparr>lw_now := lw_now w + 1\<rparr>"
  have over: "window_over (lw_now ?w) (do_memory (lw_do ?w))"
    using w(2,3) by (simp add: window_over_def window_open_def)
  obtain rs' w' where r2: "?run (ask m win # replicate ?n (ask m win)) ?w = (rs', w')" by fastforce
  have w': "results rs' = map (\<lambda>i. quota_answer m (?t + 1 + win * 1000) (int i)) [0 ..< Suc ?n]"
    using whole_window [OF over _ body, of "replicate ?n (ask m win)" drops_alarm issue]
      only [of ?n] none [of ?n] r2 w(3) asks assms(3,5)
    by (simp add: ask_def [symmetric] del: upt_Suc)
  have n: "Suc ?n = nat m" using assms(1) by simp
  have granted: "map rr_allowed (map (\<lambda>i. quota_answer m t (int i)) [0 ..< Suc ?n]) =
      replicate (nat m) True" for t
    unfolding n by (rule nth_equalityI) (simp_all add: quota_answer_def)
  have split: "[ask m win, Advance (nat (win * 1000))] @ replicate ?n (ask m win) @
       [Advance 1] @ replicate (nat m) (ask m win) =
     (ask m win # ?more) @ Advance 1 # ask m win # replicate ?n (ask m win)"
    using n by (metis append_Cons append_Nil replicate_Suc)
  have "do_event drops_alarm issue (Advance 1) w = ([], ?w)" by (simp add: do_event_def)
  then have "?run (Advance 1 # ask m win # replicate ?n (ask m win)) w = (rs', w')"
    using r2 by (simp only: do_run.simps split_conv append_Nil)
  then have "fst (?run ([ask m win, Advance (nat (win * 1000))] @ replicate ?n (ask m win) @
       [Advance 1] @ replicate (nat m) (ask m win)) (new_world now)) = rs @ rs'"
    unfolding split do_run_append r1 by simp
  moreover have "map rr_allowed (results (rs @ rs')) = replicate (nat m + nat m) True"
    unfolding results_append map_append w(1) w' granted by (rule replicate_add [symmetric])
  moreover have "nat (2 * m) = nat m + nat m" using assms(1) by arith
  ultimately show ?thesis by (simp only:)
qed

theorem fixed_window_burst_witness:
  "map rr_allowed (results (fst (do_run True (\<lambda>_. ''invalid'')
      ([ask 2 60, Advance (nat (60 * 1000))] @ replicate (nat 2 - 1) (ask 2 60) @
       [Advance 1] @ replicate (nat 2) (ask 2 60)) (new_world 5)))) = replicate (nat (2 * 2)) True"
  by (rule fixed_window_burst) simp_all

end
