(* ===== verification/Access.thy ===== *)
theory Access
  imports Schemas "HOL-Library.Extended_Nat"
begin

text \<open>
  Who may call what on the worker: the tiers and the authentication context (\<open>worker/types.ts\<close>),
  the route permissions (\<open>worker/utils/route-permissions.ts\<close>, \<open>worker/agents/registry.ts\<close>), the
  guards and the unified authentication (\<open>worker/middleware/auth.ts\<close>), the session provider and
  the token validators, and the check for suspended users.  What the platform and the services
  answer while one request is served is the record \<open>auth_env\<close>; telemetry and logging are left
  out, as are the descriptions of routes and tiers, which only documentation shows.
\<close>

section \<open>Tiers\<close>

datatype UserTier = Anonymous | Free | Pro | Admin | PayAsYouGo | Vendor | Enterprise

definition all_tiers :: "UserTier list" where
  "all_tiers = [Anonymous, Free, Pro, Admin, PayAsYouGo, Vendor, Enterprise]"

fun tier_text :: "UserTier \<Rightarrow> jstr" where
  "tier_text Anonymous = ''anonymous''"
| "tier_text Free = ''free''"
| "tier_text Pro = ''pro''"
| "tier_text Admin = ''admin''"
| "tier_text PayAsYouGo = ''payg''"
| "tier_text Vendor = ''vendor''"
| "tier_text Enterprise = ''enterprise''"

definition tier_of_text :: "jstr \<Rightarrow> UserTier option" where
  "tier_of_text s = List.find (\<lambda>t. tier_text t = s) all_tiers"

text \<open>The registry of tiers: its \<open>order\<close> in halves (1.5 is 3), \<open>Infinity\<close> as \<open>\<infinity>\<close>.\<close>

record tier_config =
  tc_order :: nat
  tc_rateLimit :: enat
  tc_displayName :: jstr

fun TIER_REGISTRY :: "UserTier \<Rightarrow> tier_config" where
  "TIER_REGISTRY Anonymous = \<lparr>tc_order = 0, tc_rateLimit = 10, tc_displayName = ''Anonymous''\<rparr>"
| "TIER_REGISTRY Free = \<lparr>tc_order = 2, tc_rateLimit = 60, tc_displayName = ''Free''\<rparr>"
| "TIER_REGISTRY Pro = \<lparr>tc_order = 4, tc_rateLimit = 300, tc_displayName = ''Pro''\<rparr>"
| "TIER_REGISTRY Admin = \<lparr>tc_order = 8, tc_rateLimit = \<infinity>, tc_displayName = ''Admin''\<rparr>"
| "TIER_REGISTRY PayAsYouGo =
     \<lparr>tc_order = 3, tc_rateLimit = 120, tc_displayName = ''Pay As You Go''\<rparr>"
| "TIER_REGISTRY Vendor = \<lparr>tc_order = 5, tc_rateLimit = 600, tc_displayName = ''Vendor''\<rparr>"
| "TIER_REGISTRY Enterprise =
     \<lparr>tc_order = 6, tc_rateLimit = \<infinity>, tc_displayName = ''Enterprise''\<rparr>"

definition isTierSufficient :: "UserTier \<Rightarrow> UserTier \<Rightarrow> bool" where
  "isTierSufficient actual needed \<longleftrightarrow> tc_order (TIER_REGISTRY needed) \<le> tc_order (TIER_REGISTRY actual)"

definition VALID_SCOPES :: "jstr list" where
  "VALID_SCOPES = [''compile'', ''rules'', ''admin'', ''agents'']"

section \<open>The authentication context\<close>

datatype auth_method = Api_Key | Anonymous_Method | Better_Auth

record auth_context =
  ac_userId :: "jstr option"
  ac_tier :: UserTier
  ac_role :: jstr
  ac_apiKeyId :: "jstr option"
  ac_sessionId :: "jstr option"
  ac_scopes :: "jstr list"
  ac_authMethod :: auth_method
  ac_email :: "jstr option"
  ac_displayName :: "jstr option"
  ac_apiKeyRateLimit :: "nat option"

definition ANONYMOUS_AUTH_CONTEXT :: auth_context where
  "ANONYMOUS_AUTH_CONTEXT =
     \<lparr>ac_userId = None, ac_tier = Anonymous, ac_role = ''anonymous'', ac_apiKeyId = None,
      ac_sessionId = None, ac_scopes = [], ac_authMethod = Anonymous_Method, ac_email = None,
      ac_displayName = None, ac_apiKeyRateLimit = None\<rparr>"

text \<open>A response that ends a request: its status and its error text.\<close>

record denial =
  dn_status :: nat
  dn_error :: jstr

definition deny :: "nat \<Rightarrow> jstr \<Rightarrow> denial" where
  "deny status error = \<lparr>dn_status = status, dn_error = error\<rparr>"

definition insufficient_tier :: "UserTier \<Rightarrow> UserTier \<Rightarrow> jstr" where
  "insufficient_tier needed actual =
     ''Insufficient tier: requires '' @ tc_displayName (TIER_REGISTRY needed) @
     '', current tier is '' @ tc_displayName (TIER_REGISTRY actual)"

section \<open>Route permissions\<close>

record route_permission =
  rp_minTier :: UserTier
  rp_requiredRole :: "jstr option"

definition of_tier :: "UserTier \<Rightarrow> route_permission" where
  "of_tier t = \<lparr>rp_minTier = t, rp_requiredRole = None\<rparr>"

abbreviation public :: route_permission where
  "public \<equiv> of_tier Anonymous"

definition admin_only :: route_permission where
  "admin_only = \<lparr>rp_minTier = Admin, rp_requiredRole = Some ''admin''\<rparr>"

datatype transport = Websocket | Sse | Dynamic_Worker

record agent_entry =
  ag_bindingKey :: jstr
  ag_slug :: jstr
  ag_requiredTier :: UserTier
  ag_requiredScopes :: "jstr list"
  ag_enabled :: bool
  ag_transport :: transport

definition AGENT_REGISTRY :: "agent_entry list" where
  "AGENT_REGISTRY =
     [\<lparr>ag_bindingKey = ''MCP_AGENT'', ag_slug = ''mcp-agent'', ag_requiredTier = Admin,
       ag_requiredScopes = [''agents''], ag_enabled = True, ag_transport = Websocket\<rparr>]"

definition getAgentBySlug :: "jstr \<Rightarrow> agent_entry option" where
  "getAgentBySlug slug = List.find (\<lambda>a. ag_slug a = slug \<and> ag_enabled a) AGENT_REGISTRY"

type_synonym route_registry = "(jstr \<times> route_permission) list"

definition agent_routes :: route_registry where
  "agent_routes =
     map (\<lambda>a. (''/agents/'' @ ag_slug a @ ''/*'', of_tier (ag_requiredTier a)))
       (filter ag_enabled AGENT_REGISTRY)"

definition ROUTE_PERMISSION_REGISTRY :: route_registry where
  "ROUTE_PERMISSION_REGISTRY =
     [(''/health'', public), (''/health/*'', public), (''/container/status'', public),
      (''/metrics'', public), (''/browser/health'', public), (''/webhooks/*'', public),
      (''/docs'', public), (''/swagger'', public), (''/redoc'', public), (''/docs/*'', public),
      (''/swagger/*'', public), (''/redoc/*'', public), (''/compile'', of_tier Free),
      (''/compile/stream'', of_tier Free), (''/compile/batch'', of_tier Free),
      (''/compile/container'', of_tier Free), (''/ast/parse'', of_tier Free),
      (''/validate'', of_tier Free), (''/validate-rule'', of_tier Free),
      (''/diff'', of_tier Free), (''/ws/compile'', of_tier Free),
      (''/ws/compile/v2'', of_tier Free), (''/keys'', of_tier Free), (''/keys/*'', of_tier Free),
      (''/rules'', of_tier Free), (''/rules/*'', of_tier Free), (''/queue/stats'', of_tier Free),
      (''/queue/history'', of_tier Free), (''/queue/results/*'', of_tier Free),
      (''/queue/cancel/*'', of_tier Free), (''/notify'', of_tier Free), (''/log'', of_tier Free),
      (''/proxy/fetch'', public), (''/proxy/fetch/batch'', of_tier Pro),
      (''/payg/pricing'', public), (''/payg/session/status'', public),
      (''/payg/session/create'', of_tier Free), (''/payg/usage'', of_tier Free),
      (''/stripe/*'', public), (''/compile/async'', of_tier Pro),
      (''/compile/batch/async'', of_tier Pro), (''/workflow/*'', of_tier Pro),
      (''/workflow/diagram'', of_tier Pro), (''/workflow/diagram/*'', of_tier Pro),
      (''/configuration/defaults'', public), (''/configuration/validate'', of_tier Free),
      (''/configuration/resolve'', of_tier Free), (''/configuration/create'', public),
      (''/configuration/download/*'', public), (''/configuration/saved'', of_tier Free),
      (''/configuration/saved/*'', of_tier Free), (''/admin/*'', admin_only),
      (''/admin/auth/config'', admin_only), (''/admin/users'', admin_only),
      (''/admin/users/*'', admin_only), (''/admin/usage/*'', admin_only),
      (''/admin/storage'', admin_only), (''/admin/storage/*'', admin_only),
      (''/admin/auth/api-keys'', admin_only), (''/admin/auth/api-keys/*'', admin_only),
      (''/admin/neon/project'', admin_only), (''/admin/neon/branches'', admin_only),
      (''/admin/neon/branches/*'', admin_only), (''/admin/neon/endpoints'', admin_only),
      (''/admin/neon/databases/*'', admin_only), (''/admin/neon/query'', admin_only),
      (''/admin/agents/sessions'', admin_only), (''/admin/agents/sessions/*'', admin_only),
      (''/admin/agents/audit'', admin_only), (''/admin/security/overview'', admin_only),
      (''/metrics/prometheus'', admin_only)] @ agent_routes"

definition covers_below :: "jstr \<Rightarrow> jstr \<Rightarrow> bool" where
  "covers_below p path \<longleftrightarrow> path = p \<or> starts_with path (p @ ''/'')"

primrec best_prefix ::
  "jstr \<Rightarrow> route_registry \<Rightarrow> route_permission option \<times> nat \<Rightarrow> route_permission option \<times> nat" where
  "best_prefix path [] best = best"
| "best_prefix path (e # es) best =
     (case e of (pattern, permission) \<Rightarrow>
        let p = take (length pattern - 2) pattern
        in best_prefix path es
             (if ends_with pattern ''/*'' \<and> snd best < length p \<and> covers_below p path
              then (Some permission, length p) else best))"

definition resolve_in :: "route_registry \<Rightarrow> jstr \<Rightarrow> route_permission option" where
  "resolve_in registry path =
     (case map_of registry path of
        Some permission \<Rightarrow> Some permission
      | None \<Rightarrow> fst (best_prefix path registry (None, 0)))"

definition resolveRoutePermission :: "jstr \<Rightarrow> route_permission option" where
  "resolveRoutePermission path = resolve_in ROUTE_PERMISSION_REGISTRY path"

definition checkRoutePermission :: "jstr \<Rightarrow> auth_context \<Rightarrow> denial option" where
  "checkRoutePermission path ctx =
     (case resolveRoutePermission path of
        None \<Rightarrow>
          (if isTierSufficient (ac_tier ctx) Free then None
           else Some (deny 401 ''Authentication required''))
      | Some permission \<Rightarrow>
          if rp_minTier permission = Anonymous then None
          else if \<not> isTierSufficient (ac_tier ctx) (rp_minTier permission) then
            (let isAnon = (ac_tier ctx = Anonymous)
             in Some (deny (if isAnon then 401 else 403)
                  (if isAnon then ''Authentication required''
                   else insufficient_tier (rp_minTier permission) (ac_tier ctx))))
          else
            (case rp_requiredRole permission of
               None \<Rightarrow> None
             | Some role \<Rightarrow>
                 if role \<noteq> [] \<and> ac_role ctx \<noteq> role then Some (deny 403 ''Insufficient role'')
                 else None))"

section \<open>Guards\<close>

definition requireAuth :: "auth_context \<Rightarrow> denial option" where
  "requireAuth ctx =
     (if ac_authMethod ctx = Anonymous_Method then Some (deny 401 ''Authentication required'') else None)"

definition requireTier :: "auth_context \<Rightarrow> UserTier \<Rightarrow> denial option" where
  "requireTier ctx minTier =
     (if \<not> isTierSufficient (ac_tier ctx) minTier
      then Some (deny 403 (insufficient_tier minTier (ac_tier ctx))) else None)"

definition requireScope :: "auth_context \<Rightarrow> jstr list \<Rightarrow> denial option" where
  "requireScope ctx requiredScopes =
     (case ac_authMethod ctx of
        Better_Auth \<Rightarrow> None
      | Anonymous_Method \<Rightarrow> Some (deny 401 ''Authentication required'')
      | Api_Key \<Rightarrow>
          (let missing = filter (\<lambda>s. s \<notin> set (ac_scopes ctx)) requiredScopes
           in if missing \<noteq> [] then
                Some (deny 403 (''Missing required scope'' @ (if 1 < length missing then ''s'' else []) @
                  '': '' @ join_with '', '' missing))
              else None))"

section \<open>What the platform answers\<close>

text \<open>
  One row of \<open>api_keys\<close>, and the session and user that Better Auth finds.  \<open>auth_env\<close> holds the
  answers of the platform while one request is served: whether the secret and the database are
  bound, the SHA-256 of a token in hexadecimal, the rows of the queries for a key hash and for
  the tier of a user (\<open>Inl\<close> is the error thrown), the time of a date text (\<open>None\<close> when it is
  invalid), the session of a request, the entry of a key in the \<open>RATE_LIMIT\<close> store (when it is
  bound), and the suspension of a user (when that database is bound).
\<close>

record http_request =
  rq_method :: jstr
  rq_path :: jstr
  rq_authorization :: "jstr option"
  rq_cookie :: "jstr option"

record session_user =
  su_id :: jstr
  su_tier :: "jstr option"
  su_role :: "jstr option"
  su_session :: jstr
  su_email :: "jstr option"
  su_name :: "jstr option"

datatype session_answer = Session session_user | No_Session | Session_Timeout | Session_Error

record ban_row =
  br_banned :: bool
  br_reason :: "jstr option"

record auth_env =
  ae_secret :: bool
  ae_hyperdrive :: bool
  ae_hash :: "jstr \<Rightarrow> jstr"
  ae_api_keys :: "jstr \<Rightarrow> jstr + json list"
  ae_user_tier :: "jstr \<Rightarrow> jstr + json list"
  ae_date :: "jstr \<Rightarrow> int option"
  ae_now :: int
  ae_get_session :: "http_request \<Rightarrow> session_answer"
  ae_rate_limit_kv :: "(jstr \<Rightarrow> jstr + jstr option) option"
  ae_user_db :: "(jstr \<Rightarrow> jstr + ban_row option) option"

section \<open>API keys\<close>

definition extractBearerToken :: "http_request \<Rightarrow> jstr option" where
  "extractBearerToken req =
     (case rq_authorization req of
        None \<Rightarrow> None
      | Some h \<Rightarrow>
          (case split_on (CHR '' '') h of
             [scheme, t] \<Rightarrow>
               if to_lower scheme \<noteq> ''bearer'' then None
               else let token = js_trim t in if token \<noteq> [] then Some token else None
           | _ \<Rightarrow> None))"

definition or_empty :: "jstr option \<Rightarrow> jstr" where
  "or_empty s = (case s of None \<Rightarrow> [] | Some x \<Rightarrow> x)"

record api_key_row =
  ak_id :: jstr
  ak_user_id :: "jstr option"
  ak_scopes :: "jstr list"
  ak_rate_limit :: nat
  ak_expires_at :: "jstr option"
  ak_revoked_at :: "jstr option"

fun json_text :: "json \<Rightarrow> jstr" where
  "json_text (JStr s) = s" | "json_text _ = []"

fun is_nonnegative :: "json \<Rightarrow> bool" where
  "is_nonnegative (JNum n) = (0 \<le> n \<and> n < 2 ^ 53)" | "is_nonnegative _ = False"

definition is_text :: "json \<Rightarrow> bool" where
  "is_text v = is_string (\<lambda>_. True) v"

definition text_or_null :: "json \<Rightarrow> bool" where
  "text_or_null v \<longleftrightarrow> v = JNull \<or> is_text v"

definition text_field :: "jstr \<Rightarrow> (jstr \<times> json) list \<Rightarrow> jstr option" where
  "text_field key fs = (case map_of fs key of Some (JStr s) \<Rightarrow> Some s | _ \<Rightarrow> None)"

definition api_key_fields :: "(jstr \<times> json) list \<Rightarrow> bool" where
  "api_key_fields fs \<longleftrightarrow>
     required ''id'' (is_string (\<lambda>s. s \<noteq> [])) fs \<and> optional ''user_id'' is_text fs \<and>
     optional ''key_prefix'' is_text fs \<and> optional ''name'' is_text fs \<and>
     required ''scopes'' (is_array (is_string (\<lambda>s. s \<in> set VALID_SCOPES))) fs \<and>
     required ''rate_limit_per_minute'' is_nonnegative fs \<and>
     optional ''expires_at'' text_or_null fs \<and> optional ''revoked_at'' text_or_null fs \<and>
     optional ''last_used_at'' text_or_null fs \<and> optional ''created_at'' is_text fs \<and>
     optional ''updated_at'' is_text fs"

definition ApiKeyRowSchema :: "json \<Rightarrow> api_key_row option" where
  "ApiKeyRowSchema row =
     (case row of
        JObj fs \<Rightarrow>
          if api_key_fields fs then
            Some \<lparr>ak_id = or_empty (text_field ''id'' fs), ak_user_id = text_field ''user_id'' fs,
              ak_scopes = (case map_of fs ''scopes'' of Some (JArr xs) \<Rightarrow> map json_text xs | _ \<Rightarrow> []),
              ak_rate_limit =
                (case map_of fs ''rate_limit_per_minute'' of Some (JNum n) \<Rightarrow> nat n | _ \<Rightarrow> 0),
              ak_expires_at = text_field ''expires_at'' fs,
              ak_revoked_at = text_field ''revoked_at'' fs\<rparr>
          else None
      | _ \<Rightarrow> None)"

record api_key_identity =
  id_user :: "jstr option"
  id_key :: jstr
  id_scopes :: "jstr list"
  id_rate_limit :: nat

text \<open>The texts \<open>''''\<close> and \<open>undefined\<close> are falsy.\<close>

definition truthy :: "jstr option \<Rightarrow> bool" where
  "truthy s \<longleftrightarrow> s \<noteq> None \<and> s \<noteq> Some []"

definition is_expired :: "auth_env \<Rightarrow> jstr option \<Rightarrow> bool" where
  "is_expired env expires_at \<longleftrightarrow> truthy expires_at \<and>
     (case Option.bind expires_at (ae_date env) of None \<Rightarrow> False | Some t \<Rightarrow> t < ae_now env)"

definition authenticateApiKey ::
  "auth_env \<Rightarrow> http_request \<Rightarrow> jstr option \<Rightarrow> jstr + api_key_identity" where
  "authenticateApiKey env req requiredScope =
     (case extractBearerToken req of
        None \<Rightarrow> Inl ''Missing or invalid Authorization header. Use: Bearer <api-key>''
      | Some token \<Rightarrow>
          (case ae_api_keys env (ae_hash env token) of
             Inl message \<Rightarrow> Inl (''Authentication service error: '' @ message)
           | Inr [] \<Rightarrow> Inl ''Invalid API key''
           | Inr (row # _) \<Rightarrow>
               (case ApiKeyRowSchema row of
                  None \<Rightarrow> Inl ''Malformed API key data''
                | Some key \<Rightarrow>
                    if truthy (ak_revoked_at key) then Inl ''API key has been revoked''
                    else if is_expired env (ak_expires_at key) then Inl ''API key has expired''
                    else
                      (case requiredScope of
                         Some s \<Rightarrow>
                           if s \<notin> set (ak_scopes key)
                           then Inl (''API key missing required scope: '' @ s)
                           else Inr \<lparr>id_user = ak_user_id key, id_key = ak_id key,
                             id_scopes = ak_scopes key, id_rate_limit = ak_rate_limit key\<rparr>
                       | None \<Rightarrow> Inr \<lparr>id_user = ak_user_id key, id_key = ak_id key,
                           id_scopes = ak_scopes key, id_rate_limit = ak_rate_limit key\<rparr>))))"

definition UserTierRowSchema :: "json \<Rightarrow> UserTier option" where
  "UserTierRowSchema row =
     (case row of
        JObj fs \<Rightarrow> Option.bind (text_field ''tier'' fs) tier_of_text
      | _ \<Rightarrow> None)"

definition resolveApiKeyOwnerTier :: "auth_env \<Rightarrow> jstr option \<Rightarrow> UserTier" where
  "resolveApiKeyOwnerTier env userId =
     (if \<not> truthy userId then Free
      else
        (case ae_user_tier env (or_empty userId) of
           Inr (row # _) \<Rightarrow> (case UserTierRowSchema row of Some t \<Rightarrow> t | None \<Rightarrow> Free)
         | _ \<Rightarrow> Free))"

definition isApiKeyToken :: "jstr \<Rightarrow> bool" where
  "isApiKeyToken token \<longleftrightarrow> starts_with token ''abc_''"

section \<open>Sessions\<close>

definition resolveTier :: "jstr option \<Rightarrow> UserTier" where
  "resolveTier t = (case Option.bind t tier_of_text of Some u \<Rightarrow> u | None \<Rightarrow> Free)"

definition resolveRole :: "jstr option \<Rightarrow> jstr" where
  "resolveRole r = (case r of None \<Rightarrow> ''user'' | Some x \<Rightarrow> x)"

record provider_result =
  pr_user :: jstr
  pr_tier :: UserTier
  pr_role :: jstr
  pr_session :: "jstr option"
  pr_email :: "jstr option"
  pr_name :: "jstr option"

text \<open>\<open>Inl\<close> is \<open>valid: false\<close> with its error, when there is one.\<close>

definition verifyToken :: "auth_env \<Rightarrow> http_request \<Rightarrow> jstr option + provider_result" where
  "verifyToken env req =
     (if \<not> ae_secret env then
        Inl (Some (''BETTER_AUTH_SECRET not configured. Add BETTER_AUTH_SECRET to .dev.vars (local) '' @
          ''or run: wrangler secret put BETTER_AUTH_SECRET''))
      else if \<not> ae_hyperdrive env then
        Inl (Some (''Hyperdrive binding not configured (env.HYPERDRIVE is missing). Check '' @
          ''wrangler.toml [[hyperdrive]] or .dev.vars''))
      else
        (case ae_get_session env req of
           Session u \<Rightarrow> Inr \<lparr>pr_user = su_id u, pr_tier = resolveTier (su_tier u),
             pr_role = resolveRole (su_role u), pr_session = Some (su_session u),
             pr_email = su_email u, pr_name = su_name u\<rparr>
         | No_Session \<Rightarrow> Inl None
         | Session_Timeout \<Rightarrow> Inl (Some ''Authentication timed out'')
         | Session_Error \<Rightarrow> Inl (Some ''Authentication failed'')))"

text \<open>The validators, in the order they are registered: \<open>None\<close> is valid.\<close>

definition session_revocation :: "auth_env \<Rightarrow> auth_context \<Rightarrow> jstr option" where
  "session_revocation env ctx =
     (if \<not> truthy (ac_sessionId ctx) then None
      else
        (case ae_rate_limit_kv env of
           None \<Rightarrow> None
         | Some kv \<Rightarrow>
             (case kv (''revoked:sid:'' @ or_empty (ac_sessionId ctx)) of
                Inl _ \<Rightarrow> Some ''Token validation failed''
              | Inr None \<Rightarrow> None
              | Inr (Some _) \<Rightarrow> Some ''Token has been revoked'')))"

definition claims_integrity :: "auth_context \<Rightarrow> jstr option" where
  "claims_integrity ctx =
     (if ac_authMethod ctx = Anonymous_Method then None
      else if \<not> truthy (ac_userId ctx)
      then Some ''Token claims integrity check failed: missing providerUserId''
      else if ac_tier ctx \<notin> set all_tiers
      then Some ''Token claims integrity check failed: invalid tier''
      else if ac_role ctx = [] then Some ''Token claims integrity check failed: missing role''
      else None)"

definition runTokenValidators :: "auth_env \<Rightarrow> auth_context \<Rightarrow> jstr option" where
  "runTokenValidators env ctx =
     (case session_revocation env ctx of
        Some error \<Rightarrow> Some error
      | None \<Rightarrow> claims_integrity ctx)"

section \<open>Unified authentication\<close>

definition api_key_context :: "UserTier \<Rightarrow> api_key_identity \<Rightarrow> auth_context" where
  "api_key_context tier key =
     \<lparr>ac_userId = id_user key, ac_tier = tier, ac_role = ''user'', ac_apiKeyId = Some (id_key key),
      ac_sessionId = None, ac_scopes = id_scopes key, ac_authMethod = Api_Key, ac_email = None,
      ac_displayName = None, ac_apiKeyRateLimit = Some (id_rate_limit key)\<rparr>"

definition session_context :: "provider_result \<Rightarrow> auth_context" where
  "session_context r =
     \<lparr>ac_userId = Some (pr_user r), ac_tier = pr_tier r, ac_role = pr_role r, ac_apiKeyId = None,
      ac_sessionId = pr_session r, ac_scopes = [], ac_authMethod = Better_Auth,
      ac_email = pr_email r, ac_displayName = pr_name r, ac_apiKeyRateLimit = None\<rparr>"

text \<open>
  The result: the context, and a response when the request ends here.  \<open>pool\<close> says whether the
  caller passed a pool factory, \<open>provider\<close> whether it passed the Better Auth provider.
\<close>

definition authenticateRequestUnified ::
  "auth_env \<Rightarrow> bool \<Rightarrow> bool \<Rightarrow> http_request \<Rightarrow> auth_context \<times> denial option" where
  "authenticateRequestUnified env pool provider req =
     (let token = extractBearerToken req
      in case (case token of Some t \<Rightarrow> isApiKeyToken t | None \<Rightarrow> False) of
           True \<Rightarrow>
             (if \<not> ae_hyperdrive env \<or> \<not> pool then
                (ANONYMOUS_AUTH_CONTEXT, Some (deny 503 ''API key authentication is not configured''))
              else
                (case authenticateApiKey env req None of
                   Inr key \<Rightarrow>
                     (api_key_context (resolveApiKeyOwnerTier env (id_user key)) key, None)
                 | Inl error \<Rightarrow> (ANONYMOUS_AUTH_CONTEXT, Some (deny 401 error))))
         | False \<Rightarrow>
             if provider then
               (case verifyToken env req of
                  Inr r \<Rightarrow>
                    (if pr_user r \<noteq> [] then
                       (case runTokenValidators env (session_context r) of
                          Some error \<Rightarrow> (ANONYMOUS_AUTH_CONTEXT, Some (deny 401 error))
                        | None \<Rightarrow> (session_context r, None))
                     else (ANONYMOUS_AUTH_CONTEXT, None))
                | Inl error \<Rightarrow>
                    (ANONYMOUS_AUTH_CONTEXT,
                     if token \<noteq> None \<and> truthy error then Some (deny 401 ''Authentication failed'')
                     else None))
             else
               (ANONYMOUS_AUTH_CONTEXT,
                if token = None then None
                else Some (deny 401 (''Unrecognised credential format - expected an '' @
                  ''abc_-prefixed API key''))))"

definition checkUserApiAccess :: "auth_env \<Rightarrow> auth_context \<Rightarrow> denial option" where
  "checkUserApiAccess env ctx =
     (if ac_authMethod ctx \<noteq> Better_Auth \<or> \<not> truthy (ac_userId ctx) then None
      else
        (case ae_user_db env of
           None \<Rightarrow> None
         | Some db \<Rightarrow>
             (case db (or_empty (ac_userId ctx)) of
                Inr (Some row) \<Rightarrow>
                  if br_banned row then
                    Some (deny 403 (if truthy (br_reason row)
                      then ''Account has been suspended: '' @ or_empty (br_reason row)
                      else ''Account has been suspended''))
                  else None
              | _ \<Rightarrow> None)))"

section \<open>Longest prefix\<close>

definition covers :: "jstr \<Rightarrow> jstr \<Rightarrow> bool" where
  "covers pattern path \<longleftrightarrow>
     ends_with pattern ''/*'' \<and> 2 < length pattern \<and> covers_below (take (length pattern - 2) pattern) path"

text \<open>What the loop knows of the entries it has seen.\<close>

definition longest_so_far ::
  "jstr \<Rightarrow> (jstr \<times> route_permission) set \<Rightarrow> route_permission option \<times> nat \<Rightarrow> bool" where
  "longest_so_far path seen best \<longleftrightarrow>
     (case best of
        (None, n) \<Rightarrow> n = 0 \<and> (\<forall>e \<in> seen. \<not> covers (fst e) path)
      | (Some permission, n) \<Rightarrow>
          \<exists>pattern. (pattern, permission) \<in> seen \<and> covers pattern path \<and> n = length pattern - 2 \<and>
            (\<forall>e \<in> seen. covers (fst e) path \<longrightarrow> length (fst e) \<le> length pattern))"

lemma longest_skip:
  assumes "longest_so_far path seen best" and "covers pattern path \<Longrightarrow> length pattern - 2 \<le> snd best"
  shows "longest_so_far path (insert (pattern, permission) seen) best"
proof (cases best)
  case (Pair v n)
  show ?thesis
  proof (cases v)
    case None
    then have "\<not> covers pattern path" using assms Pair by (auto simp: longest_so_far_def covers_def)
    then show ?thesis using assms(1) Pair None by (auto simp: longest_so_far_def)
  next
    case (Some r)
    then obtain q where q: "(q, r) \<in> seen" "covers q path" "n = length q - 2"
      "\<forall>e \<in> seen. covers (fst e) path \<longrightarrow> length (fst e) \<le> length q"
      using assms(1) Pair by (auto simp: longest_so_far_def)
    moreover have "length pattern \<le> length q" if "covers pattern path"
      using assms(2) [OF that] q(2,3) Pair that by (auto simp: covers_def)
    ultimately show ?thesis using Pair Some by (auto simp: longest_so_far_def intro!: exI [of _ q])
  qed
qed

lemma longest_take:
  assumes "longest_so_far path seen best" and "covers pattern path" and "snd best < length pattern - 2"
  shows "longest_so_far path (insert (pattern, permission) seen) (Some permission, length pattern - 2)"
proof -
  have "length q \<le> length pattern" if q: "(q, r) \<in> seen" "covers q path" for q r
  proof (cases best)
    case (Pair v n)
    then show ?thesis
      using assms(1,3) q by (cases v) (fastforce simp: longest_so_far_def)+
  qed
  then show ?thesis using assms(2) by (auto simp: longest_so_far_def intro!: exI [of _ pattern])
qed

lemma best_prefix_longest:
  "longest_so_far path seen best \<Longrightarrow> longest_so_far path (set es \<union> seen) (best_prefix path es best)"
proof (induction es arbitrary: seen best)
  case (Cons e es)
  obtain pattern permission where e: "e = (pattern, permission)" by (cases e)
  let ?take = "ends_with pattern ''/*'' \<and> snd best < length pattern - 2 \<and>
     covers_below (take (length pattern - 2) pattern) path"
  have "longest_so_far path (insert e seen)
      (if ?take then (Some permission, length pattern - 2) else best)"
  proof (cases ?take)
    case True
    then have "covers pattern path" by (auto simp: covers_def)
    with True Cons.prems show ?thesis by (auto simp: e intro: longest_take)
  next
    case False
    then have "covers pattern path \<Longrightarrow> length pattern - 2 \<le> snd best" by (auto simp: covers_def)
    with False Cons.prems show ?thesis by (auto simp: e intro: longest_skip)
  qed
  from Cons.IH [OF this] show ?case by (simp add: e Let_def cong: if_cong split del: if_split)
qed simp

lemma resolve_in_spec:
  "case resolve_in registry path of
     None \<Rightarrow> map_of registry path = None \<and> (\<forall>e \<in> set registry. \<not> covers (fst e) path)
   | Some permission \<Rightarrow>
       map_of registry path = Some permission \<or>
       map_of registry path = None \<and>
       (\<exists>pattern. (pattern, permission) \<in> set registry \<and> covers pattern path \<and>
          (\<forall>e \<in> set registry. covers (fst e) path \<longrightarrow> length (fst e) \<le> length pattern))"
proof (cases "map_of registry path")
  case None
  have "longest_so_far path (set registry) (best_prefix path registry (None, 0))"
    using best_prefix_longest [of path "{}" "(None, 0)" registry]
    by (simp add: longest_so_far_def)
  then show ?thesis
    using None by (auto simp: resolve_in_def longest_so_far_def split: option.splits prod.splits)
qed (simp add: resolve_in_def)

text \<open>
  The most specific entry decides.  A path that the registry names is governed by that entry;
  otherwise the entry that governs it is one whose pattern \<open>prefix/*\<close> covers the path, and no
  covering pattern is longer; a path without an entry is covered by no pattern at all.
\<close>

theorem most_specific_route:
  "case resolveRoutePermission path of
     None \<Rightarrow> path \<notin> fst ` set ROUTE_PERMISSION_REGISTRY \<and>
       filter (\<lambda>(q, _). covers q path) ROUTE_PERMISSION_REGISTRY = []
   | Some permission \<Rightarrow>
       (path, permission) \<in> set ROUTE_PERMISSION_REGISTRY \<or>
       path \<notin> fst ` set ROUTE_PERMISSION_REGISTRY \<and>
       (\<exists>pattern. (pattern, permission) \<in> set ROUTE_PERMISSION_REGISTRY \<and> covers pattern path \<and>
          list_all (\<lambda>(q, _). length q \<le> length pattern)
            (filter (\<lambda>(q, _). covers q path) ROUTE_PERMISSION_REGISTRY))"
  using resolve_in_spec [of ROUTE_PERMISSION_REGISTRY path]
  unfolding resolveRoutePermission_def
  by (fastforce split: option.splits simp: map_of_eq_None_iff list_all_iff filter_empty_conv
      dest: map_of_SomeD)

section \<open>Administration\<close>

definition admin_path :: "jstr \<Rightarrow> bool" where
  "admin_path path \<longleftrightarrow> path = ''/admin'' \<or> starts_with path ''/admin/''"

definition may_govern :: "jstr \<Rightarrow> bool" where
  "may_govern pattern \<longleftrightarrow> starts_with pattern ''/admin'' \<or>
     ends_with pattern ''/*'' \<and> starts_with ''/admin/'' (take (length pattern - 1) pattern)"

lemma admin_entries: "list_all (\<lambda>(q, r). may_govern q \<longrightarrow> r = admin_only) ROUTE_PERMISSION_REGISTRY"
  by code_simp

lemma admin_catch_all: "(''/admin/*'', admin_only) \<in> set ROUTE_PERMISSION_REGISTRY"
  by (simp add: ROUTE_PERMISSION_REGISTRY_def)

lemma take_suffix: "ends_with q [a, b] \<Longrightarrow> take (length q - 2) q @ [a] = take (length q - 1) q"
  by (auto simp: suffix_def)

lemma covers_admin:
  assumes "admin_path path" and "covers q path"
  shows "may_govern q"
proof -
  let ?p = "take (length q - 2) q"
  have q: "ends_with q ''/*''" "2 < length q" "path = ?p \<or> starts_with path (?p @ ''/'')"
    using assms(2) by (auto simp: covers_def covers_below_def)
  have p: "?p @ ''/'' = take (length q - 1) q" using q(1) by (rule take_suffix)
  have sub: "starts_with q (take n q)" for n by (rule take_is_prefix)
  from assms(1) have a: "starts_with path ''/admin''" by (auto simp: admin_path_def prefix_def)
  from q(3) show ?thesis
  proof
    assume "path = ?p"
    then have "starts_with q ''/admin''" using a sub prefix_order.trans by metis
    then show ?thesis by (simp add: may_govern_def)
  next
    assume c: "starts_with path (?p @ ''/'')"
    show ?thesis
    proof (cases "starts_with (?p @ ''/'') ''/admin''")
      case True
      then have "starts_with q ''/admin''" using sub [of "length q - 1"] p prefix_order.trans by metis
      then show ?thesis by (simp add: may_govern_def)
    next
      case False
      then have "starts_with ''/admin'' (?p @ ''/'')" using prefix_same_cases [OF a c] by blast
      then have "starts_with (''/admin'' @ ''/'') (?p @ ''/'')" by (rule prefix_prefix)
      then show ?thesis using p q(1) by (simp add: may_govern_def)
    qed
  qed
qed

lemma admin_path_permission:
  assumes "admin_path path"
  shows "resolveRoutePermission path = Some admin_only"
proof -
  have all: "r = admin_only" if "(q, r) \<in> set ROUTE_PERMISSION_REGISTRY" "may_govern q" for q r
    using admin_entries that by (auto simp: list_all_iff)
  have "covers ''/admin/*'' path" using assms
    by (auto simp: admin_path_def covers_def covers_below_def suffix_to_prefix)
  moreover have "may_govern path" using assms by (auto simp: admin_path_def may_govern_def prefix_def)
  ultimately show ?thesis
    using resolve_in_spec [of ROUTE_PERMISSION_REGISTRY path] admin_catch_all covers_admin [OF assms] all
    unfolding resolveRoutePermission_def
    by (fastforce split: option.splits dest: map_of_SomeD)
qed

lemma admin_granted:
  assumes "admin_path path"
  shows "checkRoutePermission path ctx = None \<longleftrightarrow> ac_tier ctx = Admin \<and> ac_role ctx = ''admin''"
  using admin_path_permission [OF assms]
  by (cases "ac_tier ctx")
    (simp_all add: checkRoutePermission_def admin_only_def isTierSufficient_def Let_def)

section \<open>The gates of the business routes\<close>

definition routesPath :: "jstr \<Rightarrow> jstr" where
  "routesPath p = (if starts_with p ''/api/'' then drop 4 p else p)"

text \<open>The middlewares before the route modules: suspended users, then the permission.\<close>

definition routes_gate :: "auth_env \<Rightarrow> jstr \<Rightarrow> auth_context \<Rightarrow> denial option" where
  "routes_gate env path ctx =
     (case checkUserApiAccess env ctx of
        Some d \<Rightarrow> Some d
      | None \<Rightarrow> if starts_with path ''/auth/'' then None else checkRoutePermission path ctx)"

text \<open>What a context says of the request that it was made for.\<close>

definition key_owner :: "auth_env \<Rightarrow> http_request \<Rightarrow> auth_context \<Rightarrow> bool" where
  "key_owner env req ctx \<longleftrightarrow>
     (\<exists>token row rows key. extractBearerToken req = Some token \<and> isApiKeyToken token \<and>
        ae_api_keys env (ae_hash env token) = Inr (row # rows) \<and> ApiKeyRowSchema row = Some key \<and>
        \<not> truthy (ak_revoked_at key) \<and> \<not> is_expired env (ak_expires_at key) \<and>
        ac_role ctx = ''user'' \<and> ac_authMethod ctx = Api_Key \<and> ac_scopes ctx = ak_scopes key \<and>
        ac_tier ctx = resolveApiKeyOwnerTier env (ak_user_id key))"

definition live_session :: "auth_env \<Rightarrow> http_request \<Rightarrow> session_user \<Rightarrow> bool" where
  "live_session env req u \<longleftrightarrow> ae_secret env \<and> ae_hyperdrive env \<and>
     ae_get_session env req = Session u \<and> su_id u \<noteq> [] \<and>
     (case ae_rate_limit_kv env of
        None \<Rightarrow> True
      | Some kv \<Rightarrow> su_session u = [] \<or> kv (''revoked:sid:'' @ su_session u) = Inr None)"

definition session_of :: "session_user \<Rightarrow> auth_context" where
  "session_of u =
     \<lparr>ac_userId = Some (su_id u), ac_tier = resolveTier (su_tier u), ac_role = resolveRole (su_role u),
      ac_apiKeyId = None, ac_sessionId = Some (su_session u), ac_scopes = [],
      ac_authMethod = Better_Auth, ac_email = su_email u, ac_displayName = su_name u,
      ac_apiKeyRateLimit = None\<rparr>"

lemma key_authenticated:
  assumes "authenticateApiKey env req None = Inr key"
    and "extractBearerToken req = Some token" and "isApiKeyToken token"
  shows "key_owner env req (api_key_context (resolveApiKeyOwnerTier env (id_user key)) key)"
  using assms
  by (auto simp: authenticateApiKey_def key_owner_def api_key_context_def
      split: option.splits sum.splits list.splits if_splits)

lemma session_authenticated:
  assumes "verifyToken env req = Inr r" and "pr_user r \<noteq> []"
    and "runTokenValidators env (session_context r) = None"
  shows "\<exists>u. live_session env req u \<and> session_context r = session_of u"
proof -
  obtain u where u: "ae_secret env" "ae_hyperdrive env" "ae_get_session env req = Session u"
    and r: "r = \<lparr>pr_user = su_id u, pr_tier = resolveTier (su_tier u),
      pr_role = resolveRole (su_role u), pr_session = Some (su_session u), pr_email = su_email u,
      pr_name = su_name u\<rparr>"
    using assms(1) by (auto simp: verifyToken_def split: if_splits session_answer.splits)
  have "session_context r = session_of u" by (simp add: r session_context_def session_of_def)
  moreover have "live_session env req u"
    using u assms(2,3)
    by (auto simp: r live_session_def runTokenValidators_def session_revocation_def session_context_def
        truthy_def or_empty_def split: option.splits sum.splits if_splits)
  ultimately show ?thesis by blast
qed

text \<open>The three outcomes of a request that goes on.\<close>

lemma unified_contexts:
  assumes "authenticateRequestUnified env pool provider req = (ctx, None)"
  shows "ctx = ANONYMOUS_AUTH_CONTEXT \<or> key_owner env req ctx \<or>
     provider \<and> (\<exists>u. live_session env req u \<and> ctx = session_of u)"
proof (cases "case extractBearerToken req of Some t \<Rightarrow> isApiKeyToken t | None \<Rightarrow> False")
  case True
  then show ?thesis
    using assms key_authenticated [of env req]
    by (auto simp: authenticateRequestUnified_def Let_def split: if_splits sum.splits option.splits)
next
  case False
  then show ?thesis
    using assms session_authenticated [of env req]
    by (auto simp: authenticateRequestUnified_def Let_def split: if_splits sum.splits option.splits)
qed

lemma unified_response_anonymous:
  "authenticateRequestUnified env pool provider req = (ctx, Some d) \<Longrightarrow>
   ctx = ANONYMOUS_AUTH_CONTEXT \<and> dn_status d \<in> {401, 503}"
  by (auto simp: authenticateRequestUnified_def Let_def deny_def
      split: if_splits sum.splits option.splits bool.splits)

lemma not_suspended:
  assumes "routes_gate env path (session_of u) = None" and "su_id u \<noteq> []" and "ae_user_db env = Some db"
  shows "case db (su_id u) of Inr (Some row) \<Rightarrow> \<not> br_banned row | _ \<Rightarrow> True"
  using assms
  by (auto simp: routes_gate_def checkUserApiAccess_def session_of_def truthy_def or_empty_def
      split: option.splits sum.splits if_splits)

lemma resolveTier_Admin: "resolveTier t = Admin \<longleftrightarrow> t = Some ''admin''"
  by (cases t) (auto simp: resolveTier_def tier_of_text_def all_tiers_def split: if_splits)

lemma resolveRole_admin: "resolveRole r = ''admin'' \<longleftrightarrow> r = Some ''admin''"
  by (auto simp: resolveRole_def split: option.splits)

section \<open>Origins\<close>

definition PUBLIC_ENDPOINT_PREFIXES :: "jstr list" where
  "PUBLIC_ENDPOINT_PREFIXES =
     [''/api/version'', ''/api/health'', ''/api/metrics'', ''/api/browser'', ''/api/openapi.json'',
      ''/api/docs'', ''/api/swagger'', ''/api/redoc'', ''/api/turnstile-config'',
      ''/api/sentry-config'', ''/api/deployments'', ''/health'', ''/metrics'', ''/turnstile-config'',
      ''/sentry-config'', ''/deployments'']"

definition DEFAULT_ALLOWED_ORIGINS :: "jstr list" where
  "DEFAULT_ALLOWED_ORIGINS =
     [''http://localhost:4200'', ''http://localhost:8787'', ''http://127.0.0.1:4200'',
      ''http://127.0.0.1:8787'']"

text \<open>The argument is the variable \<open>CORS_ALLOWED_ORIGINS\<close>.\<close>

definition parseAllowedOrigins :: "jstr option \<Rightarrow> jstr list" where
  "parseAllowedOrigins raw =
     (case raw of
        None \<Rightarrow> DEFAULT_ALLOWED_ORIGINS
      | Some r \<Rightarrow>
          if js_trim r = [] then DEFAULT_ALLOWED_ORIGINS
          else filter (\<lambda>x. x \<noteq> []) (map js_trim (split_on (CHR '','') r)))"

definition matchOrigin :: "jstr option \<Rightarrow> jstr option \<Rightarrow> jstr option" where
  "matchOrigin origin raw =
     (if \<not> truthy origin then None
      else if or_empty origin \<in> set (parseAllowedOrigins raw) then origin else None)"

definition isPublicEndpoint :: "jstr \<Rightarrow> bool" where
  "isPublicEndpoint path \<longleftrightarrow> list_ex (\<lambda>p. starts_with path p) PUBLIC_ENDPOINT_PREFIXES"

text \<open>The origin that the CORS middleware answers with.\<close>

definition cors_origin :: "jstr \<Rightarrow> jstr option \<Rightarrow> jstr option \<Rightarrow> jstr option" where
  "cors_origin path origin raw = (if isPublicEndpoint path then Some ''*'' else matchOrigin origin raw)"

text \<open>
  The prefix \<open>/api/metrics\<close> of the public endpoints also covers the Prometheus scrape, which only
  administrators may call: every origin is admitted there.
\<close>

lemma prometheus_any_origin:
  "cors_origin ''/api/metrics/prometheus'' origin raw = Some ''*'' \<and>
   resolveRoutePermission (routesPath ''/api/metrics/prometheus'') = Some admin_only"
proof
  show "cors_origin ''/api/metrics/prometheus'' origin raw = Some ''*''"
    by (simp add: cors_origin_def isPublicEndpoint_def PUBLIC_ENDPOINT_PREFIXES_def)
  show "resolveRoutePermission (routesPath ''/api/metrics/prometheus'') = Some admin_only"
    by code_simp
qed

end
