(* ===== verification/Gateway.thy ===== *)
theory Gateway
  imports RateLimit Access
begin

text \<open>
  The gates that a request to the worker passes before a handler runs, over the components
  \<open>RateLimit\<close> and \<open>Access\<close>: the tiered rate limit (\<open>worker/middleware/index.ts\<close>), the authentication
  stage of the application and the gates of its business routes (\<open>worker/hono-app.ts\<close>), and the
  gate of the agents (\<open>worker/agents/agent-auth.ts\<close>).  The state is the limiter object of every
  identity.
\<close>

section \<open>Tiered rate limit\<close>

type_synonym limiters = "jstr \<Rightarrow> limiter_do"

definition RATE_LIMIT_WINDOW :: int where
  "RATE_LIMIT_WINDOW = 60"

text \<open>
  What the platform answers to the limiter: whether the Durable Object namespace is bound and
  reachable, and the entry that the (eventually consistent) key-value store has for a key, a count
  and a reset time; and the times at which its objects are next woken are not visible, since
  waking changes nothing.
\<close>

record rate_env =
  re_bound :: bool
  re_reachable :: bool
  re_kv :: "jstr \<Rightarrow> (int \<times> int) option"

record tiered_result =
  tl_allowed :: bool
  tl_limit :: enat
  tl_remaining :: enat
  tl_resetAt :: int

text \<open>The entry written back to the key-value store, if any.\<close>

type_synonym kv_write = "(jstr \<times> int \<times> int) option"

definition tier_quota :: "auth_context \<Rightarrow> enat" where
  "tier_quota ctx =
     (let maxRequests = tc_rateLimit (TIER_REGISTRY (ac_tier ctx))
      in case (ac_authMethod ctx, ac_apiKeyRateLimit ctx) of
           (Api_Key, Some k) \<Rightarrow> min maxRequests (enat k)
         | _ \<Rightarrow> maxRequests)"

definition rate_identity :: "jstr \<Rightarrow> auth_context \<Rightarrow> jstr" where
  "rate_identity ip ctx =
     ''ratelimit:'' @
     (if truthy (ac_userId ctx) then ''user:'' @ or_empty (ac_userId ctx) else ''ip:'' @ ip)"

definition of_rate_result :: "rate_result \<Rightarrow> tiered_result" where
  "of_rate_result r =
     \<lparr>tl_allowed = rr_allowed r, tl_limit = enat (nat (rr_limit r)),
      tl_remaining = enat (nat (rr_remaining r)), tl_resetAt = rr_resetAt r\<rparr>"

definition checkRateLimitWithDO ::
  "int \<Rightarrow> jstr \<Rightarrow> int \<Rightarrow> int \<Rightarrow> limiters \<Rightarrow> tiered_result option \<times> limiters" where
  "checkRateLimitWithDO now identity maxRequests windowSeconds dos =
     (let body = JObj [(''maxRequests'', JNum maxRequests), (''windowSeconds'', JNum windowSeconds)]
      in case do_fetch True (\<lambda>_. []) now (Post_Increment (Some body)) (dos identity) of
           (response, d) \<Rightarrow>
             (case response of Result r \<Rightarrow> Some (of_rate_result r) | _ \<Rightarrow> None, dos(identity := d)))"

definition kv_rate_limit ::
  "int \<Rightarrow> jstr \<Rightarrow> nat \<Rightarrow> (int \<times> int) option \<Rightarrow> tiered_result \<times> kv_write" where
  "kv_rate_limit now key m data =
     (case data of
        Some (count, reset) \<Rightarrow>
          if reset < now then
            (\<lparr>tl_allowed = True, tl_limit = enat m, tl_remaining = enat (m - 1),
              tl_resetAt = now + RATE_LIMIT_WINDOW * 1000\<rparr>,
             Some (key, 1, now + RATE_LIMIT_WINDOW * 1000))
          else if int m \<le> count then
            (\<lparr>tl_allowed = False, tl_limit = enat m, tl_remaining = 0, tl_resetAt = reset\<rparr>, None)
          else
            (\<lparr>tl_allowed = True, tl_limit = enat m, tl_remaining = enat (nat (int m - (count + 1))),
              tl_resetAt = reset\<rparr>, Some (key, count + 1, reset))
      | None \<Rightarrow>
          (\<lparr>tl_allowed = True, tl_limit = enat m, tl_remaining = enat (m - 1),
            tl_resetAt = now + RATE_LIMIT_WINDOW * 1000\<rparr>,
           Some (key, 1, now + RATE_LIMIT_WINDOW * 1000)))"

definition checkRateLimitTiered ::
  "rate_env \<Rightarrow> int \<Rightarrow> jstr \<Rightarrow> auth_context \<Rightarrow> limiters \<Rightarrow> tiered_result \<times> limiters \<times> kv_write" where
  "checkRateLimitTiered env now ip ctx dos =
     (case tier_quota ctx of
        \<infinity> \<Rightarrow> (\<lparr>tl_allowed = True, tl_limit = \<infinity>, tl_remaining = \<infinity>, tl_resetAt = 0\<rparr>, dos, None)
      | enat m \<Rightarrow>
          if m = 0 then
            (\<lparr>tl_allowed = False, tl_limit = 0, tl_remaining = 0,
              tl_resetAt = now + RATE_LIMIT_WINDOW * 1000\<rparr>, dos, None)
          else
            (let key = rate_identity ip ctx;
                 (r, dos') =
                   (if re_bound env \<and> re_reachable env
                    then checkRateLimitWithDO now key (int m) RATE_LIMIT_WINDOW dos else (None, dos))
             in case r of
                  Some result \<Rightarrow> (result, dos', None)
                | None \<Rightarrow>
                    (case kv_rate_limit now key m (re_kv env key) of
                       (result, kv_put) \<Rightarrow> (result, dos', kv_put))))"

definition checkRateLimit :: "rate_env \<Rightarrow> int \<Rightarrow> jstr \<Rightarrow> limiters \<Rightarrow> bool \<times> limiters \<times> kv_write" where
  "checkRateLimit env now ip dos =
     (case checkRateLimitTiered env now ip ANONYMOUS_AUTH_CONTEXT dos of
        (r, rest) \<Rightarrow> (tl_allowed r, rest))"

definition getRateLimitConfig :: "UserTier option \<Rightarrow> int \<times> enat" where
  "getRateLimitConfig tier =
     (RATE_LIMIT_WINDOW,
      tc_rateLimit (TIER_REGISTRY (case tier of None \<Rightarrow> Anonymous | Some t \<Rightarrow> t)))"

section \<open>Quotas\<close>

text \<open>A history of calls: their times, addresses and contexts; the answers with their identities.\<close>

type_synonym rate_call = "int \<times> jstr \<times> auth_context"

primrec rate_calls ::
  "rate_env \<Rightarrow> rate_call list \<Rightarrow> limiters \<Rightarrow> (jstr \<times> tiered_result) list" where
  "rate_calls env [] dos = []"
| "rate_calls env (c # cs) dos =
     (case c of (now, ip, ctx) \<Rightarrow>
        case checkRateLimitTiered env now ip ctx dos of
          (r, dos', _) \<Rightarrow> (rate_identity ip ctx, r) # rate_calls env cs dos')"

definition answers_to :: "jstr \<Rightarrow> (jstr \<times> tiered_result) list \<Rightarrow> bool list" where
  "answers_to key rs = map (\<lambda>(_, r). tl_allowed r) (filter (\<lambda>(k, _). k = key) rs)"

definition do_ready :: "rate_env \<Rightarrow> bool" where
  "do_ready env \<longleftrightarrow> re_bound env \<and> re_reachable env"

lemma tiered_do:
  assumes "do_ready env" and "tier_quota ctx = enat m" and "0 < m" and "int m < 2 ^ 53"
  shows "checkRateLimitTiered env now ip ctx dos =
    (case increment now (int m) 60 (dos (rate_identity ip ctx)) of
       (r, d) \<Rightarrow> (of_rate_result r, dos(rate_identity ip ctx := d), None))"
  using assms
  by (simp add: checkRateLimitTiered_def do_ready_def checkRateLimitWithDO_def do_fetch_def
      increment_request_def positive_field_def RATE_LIMIT_WINDOW_def Let_def split: prod.splits)

text \<open>An open window of one identity, with \<open>n\<close> requests seen.\<close>

definition counting :: "nat \<Rightarrow> int \<Rightarrow> nat \<Rightarrow> limiter_do \<Rightarrow> bool" where
  "counting m t n d \<longleftrightarrow> 0 < t \<and>
     do_memory d = \<lparr>rl_count = int (min m n), rl_resetAt = t, rl_limit = int m\<rparr>"

lemma counting_step:
  assumes "counting m t n d" and "now \<le> t"
  shows "\<exists>r d'. increment now (int m) win d = (r, d') \<and> rr_allowed r = (n < m) \<and> counting m t (Suc n) d'"
  using assms by (auto simp: increment_def counting_def window_over_def Let_def)

lemma counting_start:
  assumes "window_over now (do_memory d)" and "0 \<le> now" and "0 < m"
  shows "\<exists>r d'. increment now (int m) 60 d = (r, d') \<and> rr_allowed r \<and> counting m (now + 60000) 1 d'"
  using assms by (auto simp: increment_def counting_def Let_def)

definition call_of :: "jstr \<Rightarrow> rate_call \<Rightarrow> bool" where
  "call_of key c \<longleftrightarrow> (case c of (_, ip, ctx) \<Rightarrow> rate_identity ip ctx = key)"

definition calls_until :: "jstr \<Rightarrow> nat \<Rightarrow> int \<Rightarrow> rate_call list \<Rightarrow> bool" where
  "calls_until key m t cs \<longleftrightarrow>
     list_all (\<lambda>(now, ip, ctx). rate_identity ip ctx = key \<longrightarrow> tier_quota ctx = enat m \<and> now \<le> t) cs"

lemma other_identity:
  "rate_identity ip ctx \<noteq> key \<Longrightarrow> fst (snd (checkRateLimitTiered env now ip ctx dos)) key = dos key"
  by (auto simp: checkRateLimitTiered_def checkRateLimitWithDO_def Let_def case_prod_beta
      split: enat.splits option.splits)

lemma counting_calls:
  assumes "do_ready env" and "0 < m" and "int m < 2 ^ 53"
    and "counting m t n (dos key)" and "calls_until key m t cs"
  shows "answers_to key (rate_calls env cs dos) =
    map (\<lambda>i. i < m) [n ..< n + length (filter (call_of key) cs)]"
  using assms(4,5)
proof (induction cs arbitrary: dos n)
  case (Cons c cs)
  obtain now ip ctx where c: "c = (now, ip, ctx)" by (cases c)
  obtain r dos' w where r: "checkRateLimitTiered env now ip ctx dos = (r, dos', w)"
    by (cases "checkRateLimitTiered env now ip ctx dos") auto
  have rest: "calls_until key m t cs" using Cons.prems(2) by (simp add: calls_until_def)
  show ?case
  proof (cases "rate_identity ip ctx = key")
    case False
    then have "dos' key = dos key" using other_identity [of ip ctx key env now dos] r by simp
    then show ?thesis
      using Cons.IH [of n dos'] Cons.prems(1) rest False r c by (simp add: answers_to_def call_of_def)
  next
    case True
    then have q: "tier_quota ctx = enat m" "now \<le> t"
      using Cons.prems(2) c by (auto simp: calls_until_def)
    obtain a d where a: "increment now (int m) 60 (dos key) = (a, d)" "rr_allowed a = (n < m)"
      "counting m t (Suc n) d"
      using counting_step [OF Cons.prems(1) q(2)] by blast
    have res: "r = of_rate_result a" "dos' = dos(key := d)"
      using r tiered_do [OF assms(1) q(1) assms(2,3), of now ip dos] a(1) True by simp_all
    have "counting m t (Suc n) (dos' key)" using a(3) res(2) by simp
    from Cons.IH [of "Suc n" dos', OF this rest] show ?thesis
      using a(2) res(1) True r c
      by (simp add: answers_to_def call_of_def of_rate_result_def upt_conv_Cons del: upt_Suc)
  qed
qed (simp add: answers_to_def)


definition idle_limiters :: limiters where
  "idle_limiters = (\<lambda>_. lw_do (new_world 0))"

definition user_context :: "UserTier \<Rightarrow> jstr \<Rightarrow> auth_context" where
  "user_context tier user =
     ANONYMOUS_AUTH_CONTEXT\<lparr>ac_userId := Some user, ac_tier := tier, ac_role := ''user'',
       ac_authMethod := Better_Auth\<rparr>"

lemma quota_Free: "tier_quota (user_context Free u) = enat 60"
  by (simp add: tier_quota_def user_context_def ANONYMOUS_AUTH_CONTEXT_def numeral_eq_enat)


section \<open>The authentication stage\<close>

definition MONITORING_API_PATHS :: "jstr list" where
  "MONITORING_API_PATHS =
     [''/api/health'', ''/api/health/latest'', ''/api/health/db-smoke'', ''/api/metrics'',
      ''/api/browser/health'']"

definition PRE_AUTH_PATHS :: "jstr list" where
  "PRE_AUTH_PATHS =
     [''/'', ''/robots.txt'', ''/sitemap.xml'', ''/api'', ''/api/'', ''/api/version'', ''/api/schemas'',
      ''/api/turnstile-config'', ''/api/sentry-config'', ''/api/openapi.json'', ''/api/docs'',
      ''/api/docs/'', ''/api/swagger'', ''/api/swagger/'', ''/api/redoc'', ''/api/redoc/'',
      ''/api/auth/providers'', ''/api/payg/pricing''] @ MONITORING_API_PATHS"

definition is_poc :: "jstr \<Rightarrow> bool" where
  "is_poc path \<longleftrightarrow> starts_with path ''/poc/'' \<or> path = ''/poc''"

definition isPreAuth :: "http_request \<Rightarrow> bool" where
  "isPreAuth req \<longleftrightarrow> rq_method req = ''GET'' \<and>
     (rq_path req \<in> set PRE_AUTH_PATHS \<or>
      list_ex (starts_with (rq_path req))
        [''/api/deployments'', ''/api/docs/'', ''/api/swagger/'', ''/api/redoc/''] \<or>
      rq_path req \<in> set (map (drop 4) MONITORING_API_PATHS))"

text \<open>A stage ends the request with a response or hands the context on.\<close>

type_synonym stage = "(denial + auth_context) \<times> limiters \<times> kv_write"

definition anonymous_stage :: "rate_env \<Rightarrow> int \<Rightarrow> jstr \<Rightarrow> limiters \<Rightarrow> stage" where
  "anonymous_stage renv now ip dos =
     (case checkRateLimitTiered renv now ip ANONYMOUS_AUTH_CONTEXT dos of
        (rl, rest) \<Rightarrow>
          (if tl_allowed rl then Inr ANONYMOUS_AUTH_CONTEXT else Inl (deny 429 ''Rate limit exceeded''), rest))"

definition auth_stage ::
  "auth_env \<Rightarrow> rate_env \<Rightarrow> jstr \<Rightarrow> http_request \<Rightarrow> limiters \<Rightarrow> stage" where
  "auth_stage env renv ip req dos =
     (if is_poc (rq_path req) \<or> isPreAuth req then anonymous_stage renv (ae_now env) ip dos
      else
        (case authenticateRequestUnified env True True req of
           (ctx, Some d) \<Rightarrow> (Inl d, dos, None)
         | (ctx, None) \<Rightarrow> (Inr ctx, dos, None)))"

text \<open>A request for the business routes: \<open>Inr\<close> is the context that its route module gets.\<close>

definition business_request ::
  "auth_env \<Rightarrow> rate_env \<Rightarrow> jstr \<Rightarrow> http_request \<Rightarrow> limiters \<Rightarrow> stage" where
  "business_request env renv ip req dos =
     (case auth_stage env renv ip req dos of
        (Inl d, rest) \<Rightarrow> (Inl d, rest)
      | (Inr ctx, rest) \<Rightarrow>
          (case routes_gate env (routesPath (rq_path req)) ctx of
             Some d \<Rightarrow> (Inl d, rest)
           | None \<Rightarrow> (Inr ctx, rest)))"

lemma auth_stage_context:
  assumes "auth_stage env renv ip req dos = (Inr ctx, rest)"
  shows "ctx = ANONYMOUS_AUTH_CONTEXT \<or> key_owner env req ctx \<or>
     (\<exists>u. live_session env req u \<and> ctx = session_of u)"
  using assms
  by (cases "authenticateRequestUnified env True True req")
    (auto simp: auth_stage_def anonymous_stage_def dest: unified_contexts
      split: if_splits option.splits prod.splits)

text \<open>The session behind a request is an administrator's, alive and not suspended.\<close>

definition live_admin :: "auth_env \<Rightarrow> http_request \<Rightarrow> session_user \<Rightarrow> bool" where
  "live_admin env req u \<longleftrightarrow> live_session env req u \<and>
     su_tier u = Some ''admin'' \<and> su_role u = Some ''admin'' \<and>
     (case ae_user_db env of
        None \<Rightarrow> True
      | Some db \<Rightarrow> (case db (su_id u) of Inr (Some row) \<Rightarrow> \<not> br_banned row | _ \<Rightarrow> True))"

lemma admin_not_auth: "admin_path path \<Longrightarrow> \<not> starts_with path ''/auth/''"
  by (auto simp: admin_path_def prefix_def)

text \<open>
  C2. Administration is reached by live administrators only.  Every request whose path, below
  \<open>/api\<close>, is \<open>/admin\<close> or starts with \<open>/admin/\<close> and that gets through the gates to its route
  module was made with a session that Better Auth found, of a user whose stored tier and role are
  both \<open>admin\<close>; the session is not revoked (when the store of revocations is bound) and the user is
  not suspended (when the user database is bound and answers).  In particular no API key gets
  there, whoever owns it and whatever its scopes, and neither do the paths that skip
  authentication.
\<close>

theorem admin_needs_live_admin:
  assumes "admin_path (routesPath (rq_path req))"
    and "business_request env renv ip req dos = (Inr ctx, rest)"
  shows "\<exists>u. live_admin env req u \<and> ctx = session_of u"
proof -
  let ?path = "routesPath (rq_path req)"
  have stage: "auth_stage env renv ip req dos = (Inr ctx, rest)"
    and gate: "routes_gate env ?path ctx = None"
    using assms(2) by (auto simp: business_request_def split: prod.splits sum.splits option.splits)
  have admin: "ac_tier ctx = Admin" "ac_role ctx = ''admin''"
    using gate admin_granted [OF assms(1)] admin_not_auth [OF assms(1)]
    by (auto simp: routes_gate_def split: option.splits)
  then have "ctx \<noteq> ANONYMOUS_AUTH_CONTEXT" "\<not> key_owner env req ctx"
    by (auto simp: ANONYMOUS_AUTH_CONTEXT_def key_owner_def)
  then obtain u where u: "live_session env req u" "ctx = session_of u"
    using auth_stage_context [OF stage] by blast
  have "su_tier u = Some ''admin''" "su_role u = Some ''admin''"
    using admin u(2) by (simp_all add: session_of_def resolveTier_Admin resolveRole_admin)
  moreover have "case ae_user_db env of None \<Rightarrow> True
      | Some db \<Rightarrow> (case db (su_id u) of Inr (Some row) \<Rightarrow> \<not> br_banned row | _ \<Rightarrow> True)"
    using not_suspended [of env ?path u] gate u by (auto simp: live_session_def split: option.split)
  ultimately show ?thesis using u by (auto simp: live_admin_def)
qed

definition sample_admin :: session_user where
  "sample_admin =
     \<lparr>su_id = ''u1'', su_tier = Some ''admin'', su_role = Some ''admin'', su_session = ''s1'',
      su_email = None, su_name = None\<rparr>"

definition sample_env :: auth_env where
  "sample_env =
     \<lparr>ae_secret = True, ae_hyperdrive = True, ae_hash = id, ae_api_keys = \<lambda>_. Inr [],
      ae_user_tier = \<lambda>_. Inr [], ae_date = \<lambda>_. None, ae_now = 0,
      ae_get_session = \<lambda>_. Session sample_admin, ae_rate_limit_kv = Some (\<lambda>_. Inr None),
      ae_user_db = Some (\<lambda>_. Inr None)\<rparr>"

definition sample_rates :: rate_env where
  "sample_rates = \<lparr>re_bound = True, re_reachable = True, re_kv = \<lambda>_. None\<rparr>"

definition sample_request :: "jstr \<Rightarrow> http_request" where
  "sample_request path =
     \<lparr>rq_method = ''GET'', rq_path = path, rq_authorization = None, rq_cookie = Some ''s1''\<rparr>"

lemma sample_admin_passes:
  "business_request sample_env sample_rates ''10.0.0.1'' (sample_request ''/api/admin/users'') dos =
   (Inr (session_of sample_admin), dos, None)"
proof -
  have "auth_stage sample_env sample_rates ''10.0.0.1'' (sample_request ''/api/admin/users'') dos =
      (Inr (session_of sample_admin), dos, None)"
    by (simp add: auth_stage_def sample_env_def sample_request_def sample_admin_def is_poc_def
        isPreAuth_def PRE_AUTH_PATHS_def MONITORING_API_PATHS_def authenticateRequestUnified_def
        extractBearerToken_def verifyToken_def runTokenValidators_def session_revocation_def
        claims_integrity_def session_context_def session_of_def truthy_def or_empty_def all_tiers_def
        resolveTier_def resolveRole_def tier_of_text_def)
  moreover have "checkRoutePermission ''/admin/users'' (session_of sample_admin) = None"
    by (subst admin_granted)
      (simp_all add: admin_path_def session_of_def sample_admin_def resolveTier_Admin resolveRole_admin)
  ultimately show ?thesis
    by (simp add: business_request_def routes_gate_def routesPath_def sample_request_def
        checkUserApiAccess_def sample_env_def)
qed

theorem admin_needs_live_admin_witness:
  "\<exists>u. live_admin sample_env (sample_request ''/api/admin/users'') u \<and>
     session_of sample_admin = session_of u"
  by (rule admin_needs_live_admin [OF _ sample_admin_passes [of idle_limiters]])
    (simp add: admin_path_def routesPath_def sample_request_def)

section \<open>The gate of the agents\<close>

text \<open>\<open>^/agents/([^/]+)/([^/]+)(/.*)?$\<close> on a path, which holds no line break.\<close>

definition parseAgentPath :: "jstr \<Rightarrow> (jstr \<times> jstr) option" where
  "parseAgentPath path =
     (case split_on (CHR ''/'') path of
        before # agents # slug # instanceId # rest \<Rightarrow>
          if before = [] \<and> agents = ''agents'' \<and> slug \<noteq> [] \<and> instanceId \<noteq> []
          then Some (slug, instanceId) else None
      | _ \<Rightarrow> None)"

text \<open>\<open>kv_bound\<close> says whether \<open>RATE_LIMIT\<close> is bound.\<close>

definition applyAgentAuthChecks ::
  "auth_env \<Rightarrow> rate_env \<Rightarrow> jstr \<Rightarrow> auth_context \<Rightarrow> agent_entry \<Rightarrow> limiters \<Rightarrow>
   denial option \<times> limiters \<times> kv_write" where
  "applyAgentAuthChecks env renv ip ctx entry dos =
     (case requireAuth ctx of
        Some d \<Rightarrow> (Some d, dos, None)
      | None \<Rightarrow>
          (case requireTier ctx (ag_requiredTier entry) of
             Some d \<Rightarrow> (Some d, dos, None)
           | None \<Rightarrow>
               (case (if ag_requiredScopes entry \<noteq> [] then requireScope ctx (ag_requiredScopes entry)
                      else None) of
                  Some d \<Rightarrow> (Some d, dos, None)
                | None \<Rightarrow>
                    if ae_rate_limit_kv env \<noteq> None then
                      (case checkRateLimitTiered renv (ae_now env) ip ctx dos of
                         (rl, rest) \<Rightarrow>
                           (if tl_allowed rl then None else Some (deny 429 ''Rate limit exceeded''), rest))
                    else (None, dos, None))))"

definition runAgentAuthGate ::
  "auth_env \<Rightarrow> rate_env \<Rightarrow> jstr \<Rightarrow> http_request \<Rightarrow> limiters \<Rightarrow>
   (denial + agent_entry \<times> auth_context) \<times> limiters \<times> kv_write" where
  "runAgentAuthGate env renv ip req dos =
     (case parseAgentPath (rq_path req) of
        None \<Rightarrow> (Inl (deny 404 ''Not found''), dos, None)
      | Some (slug, _) \<Rightarrow>
          (case getAgentBySlug slug of
             None \<Rightarrow> (Inl (deny 404 ''Agent not found''), dos, None)
           | Some entry \<Rightarrow>
               (case authenticateRequestUnified env (ae_hyperdrive env)
                       (ae_secret env \<and> ae_hyperdrive env) req of
                  (_, Some d) \<Rightarrow> (Inl d, dos, None)
                | (ctx, None) \<Rightarrow>
                    (case applyAgentAuthChecks env renv ip ctx entry dos of
                       (Some d, rest) \<Rightarrow> (Inl d, rest)
                     | (None, rest) \<Rightarrow> (Inr (entry, ctx), rest)))))"

text \<open>
  The handler: \<open>None\<close> when the path is not one of the agents.  \<open>sdk\<close> is what the router of the
  agents SDK makes of the request: \<open>Inl\<close> when its call fails, \<open>Inr None\<close> when no binding answers.
\<close>

datatype 'r agent_reply = Refused denial | From_Agent 'r

definition handleAgentRequest ::
  "auth_env \<Rightarrow> rate_env \<Rightarrow> (http_request \<Rightarrow> unit + 'r option) \<Rightarrow> jstr \<Rightarrow> http_request \<Rightarrow> limiters \<Rightarrow>
   'r agent_reply option \<times> limiters \<times> kv_write" where
  "handleAgentRequest env renv sdk ip req dos =
     (if \<not> starts_with (rq_path req) ''/agents/'' then (None, dos, None)
      else
        (case runAgentAuthGate env renv ip req dos of
           (Inl d, rest) \<Rightarrow> (Some (Refused d), rest)
         | (Inr _, rest) \<Rightarrow>
             (Some (case sdk req of
                Inr (Some r) \<Rightarrow> From_Agent r
              | Inr None \<Rightarrow> Refused (deny 503 ''Agent binding unavailable'')
              | Inl _ \<Rightarrow> Refused (deny 503 ''Agent SDK unavailable - please retry'')), rest)))"

text \<open>The router of the agents, on the paths \<open>/agents/:slug/:instanceId\<close> and below.\<close>

definition agent_route ::
  "auth_env \<Rightarrow> rate_env \<Rightarrow> (http_request \<Rightarrow> unit + 'r option) \<Rightarrow> jstr \<Rightarrow> http_request \<Rightarrow> limiters \<Rightarrow>
   'r agent_reply option \<times> limiters \<times> kv_write" where
  "agent_route env renv sdk ip req dos =
     (if rq_method req \<notin> {''GET'', ''POST''} then
        (Some (Refused (deny 405
           (''Method '' @ rq_method req @ '' not allowed on agent endpoints''))), dos, None)
      else handleAgentRequest env renv sdk ip req dos)"

lemma gate_passed:
  assumes "runAgentAuthGate env renv ip req dos = (Inr (entry, ctx), rest)"
  shows "\<exists>slug i. parseAgentPath (rq_path req) = Some (slug, i) \<and> getAgentBySlug slug = Some entry"
    and "\<exists>pool provider. authenticateRequestUnified env pool provider req = (ctx, None)"
    and "requireAuth ctx = None" "requireTier ctx (ag_requiredTier entry) = None"
    and "ag_requiredScopes entry \<noteq> [] \<Longrightarrow> requireScope ctx (ag_requiredScopes entry) = None"
  using assms
  by (auto simp: runAgentAuthGate_def applyAgentAuthChecks_def
      split: option.splits prod.splits if_splits)

lemma agent_found: "getAgentBySlug slug = Some entry \<Longrightarrow>
    slug = ''mcp-agent'' \<and> ag_requiredTier entry = Admin \<and> ag_requiredScopes entry = [''agents'']"
  by (auto simp: getAgentBySlug_def AGENT_REGISTRY_def split: if_splits)

lemma Admin_sufficient: "isTierSufficient t Admin \<longleftrightarrow> t = Admin"
  by (cases t) (simp_all add: isTierSufficient_def)

text \<open>The owner of an API key is an administrator and the key carries the scope.\<close>

definition agent_key :: "auth_env \<Rightarrow> http_request \<Rightarrow> auth_context \<Rightarrow> bool" where
  "agent_key env req ctx \<longleftrightarrow>
     key_owner env req ctx \<and> ac_tier ctx = Admin \<and> ''agents'' \<in> set (ac_scopes ctx)"

text \<open>
  An agent is reached by administrators only.  When a request gets an answer from an agent, its
  path names the one enabled agent, and it was made either with a live session of a user whose
  stored tier is \<open>admin\<close>, or with an API key that is neither revoked nor expired, whose owner has
  that tier and whose scopes include \<open>agents\<close>.
\<close>

theorem agents_need_admin:
  assumes "agent_route env renv sdk ip req dos = (Some (From_Agent r), rest)"
  shows "fst ` set_option (parseAgentPath (rq_path req)) = {''mcp-agent''} \<and>
    ((\<exists>u. live_session env req u \<and> su_tier u = Some ''admin'') \<or> (\<exists>ctx. agent_key env req ctx))"
proof -
  obtain entry ctx where gate: "runAgentAuthGate env renv ip req dos = (Inr (entry, ctx), rest)"
    using assms
    by (auto simp: agent_route_def handleAgentRequest_def
        split: if_splits prod.splits sum.splits option.splits)
  note g = gate_passed [OF gate]
  obtain slug i where slug: "parseAgentPath (rq_path req) = Some (slug, i)"
    "getAgentBySlug slug = Some entry" using g(1) by blast
  note found = agent_found [OF slug(2)]
  have tier: "ac_tier ctx = Admin" using g(4) found by (auto simp: requireTier_def Admin_sufficient split: if_splits)
  have scope: "requireScope ctx [''agents''] = None" using g(5) found by auto
  obtain pool provider where "authenticateRequestUnified env pool provider req = (ctx, None)"
    using g(2) by blast
  from unified_contexts [OF this] show ?thesis
  proof (elim disjE conjE exE)
    assume "ctx = ANONYMOUS_AUTH_CONTEXT"
    then show ?thesis using tier by (simp add: ANONYMOUS_AUTH_CONTEXT_def)
  next
    assume k: "key_owner env req ctx"
    then have "ac_authMethod ctx = Api_Key" by (auto simp: key_owner_def)
    then have "''agents'' \<in> set (ac_scopes ctx)"
      using scope by (auto simp: requireScope_def Let_def split: if_splits)
    then show ?thesis using k tier slug found by (auto simp: agent_key_def)
  next
    fix u assume "live_session env req u" "ctx = session_of u"
    then show ?thesis using tier slug found by (auto simp: session_of_def resolveTier_Admin)
  qed
qed

theorem agents_need_admin_witness:
  "fst ` set_option (parseAgentPath (rq_path (sample_request ''/agents/mcp-agent/default/sse''))) =
     {''mcp-agent''} \<and>
   ((\<exists>u. live_session sample_env (sample_request ''/agents/mcp-agent/default/sse'') u \<and>
      su_tier u = Some ''admin'') \<or>
    (\<exists>ctx. agent_key sample_env (sample_request ''/agents/mcp-agent/default/sse'') ctx))"
proof (rule agents_need_admin)
  show "agent_route sample_env sample_rates (\<lambda>_. Inr (Some ''ok'')) ''10.0.0.1''
      (sample_request ''/agents/mcp-agent/default/sse'') idle_limiters =
    (Some (From_Agent ''ok''), idle_limiters, None)"
    by (simp add: agent_route_def handleAgentRequest_def runAgentAuthGate_def parseAgentPath_def sample_request_def
        getAgentBySlug_def AGENT_REGISTRY_def authenticateRequestUnified_def extractBearerToken_def
        verifyToken_def sample_env_def sample_admin_def runTokenValidators_def session_revocation_def
        claims_integrity_def session_context_def truthy_def or_empty_def all_tiers_def resolveTier_def
        resolveRole_def tier_of_text_def applyAgentAuthChecks_def requireAuth_def requireTier_def
        requireScope_def isTierSufficient_def checkRateLimitTiered_def tier_quota_def)
qed

end
