(* ===== verification/Coordinator.thy ===== *)
theory Coordinator
  imports Prelude
begin

text \<open>
  Global deduplication of compilations: the Durable Object of one cache key
  (\<open>worker/compilation-coordinator.ts\<close>) and the workers that use it, each running
  \<open>coordinateCompilationWithDO\<close> of \<open>worker/handlers/compile.ts\<close>.  The object handles its requests one
  after another, but other requests may come between the pieces of one that awaits: the two
  halves of \<open>/complete\<close> and \<open>/fail\<close> around the arrival of the body, and the polls of \<open>/wait\<close>.
  \<open>coord_step\<close> interleaves the pieces of any number of workers.  Bodies are texts; the clock is in
  milliseconds.
\<close>

section \<open>The object\<close>

record coordinator =
  co_inFlight :: bool
  co_startedAt :: "int option"
  co_result :: "jstr option"
  co_error :: "jstr option"
  co_waiters :: int

definition new_coordinator :: coordinator where
  "new_coordinator =
     \<lparr>co_inFlight = False, co_startedAt = None, co_result = None, co_error = None, co_waiters = 0\<rparr>"

text \<open>\<open>/acquire\<close>: \<open>None\<close> is the answer 409.\<close>

definition handleAcquire :: "int \<Rightarrow> coordinator \<Rightarrow> coordinator option" where
  "handleAcquire now c =
     (if co_inFlight c then None
      else Some (c\<lparr>co_inFlight := True, co_startedAt := Some now, co_result := None, co_error := None\<rparr>))"

text \<open>
  \<open>/complete\<close> and \<open>/fail\<close>: the check before the body is awaited (\<open>False\<close> is the answer 400), and
  what follows when it has arrived.
\<close>

definition may_finish :: "coordinator \<Rightarrow> bool" where
  "may_finish c = co_inFlight c"

definition store_result :: "jstr \<Rightarrow> coordinator \<Rightarrow> coordinator" where
  "store_result body c = c\<lparr>co_inFlight := False, co_result := Some body, co_error := None\<rparr>"

definition store_error :: "jstr \<Rightarrow> coordinator \<Rightarrow> coordinator" where
  "store_error body c = c\<lparr>co_inFlight := False, co_error := Some body, co_result := None\<rparr>"

datatype wait_reply = Shared jstr | Compilation_Error jstr | No_Result | Wait_Timeout

definition nonempty :: "jstr option \<Rightarrow> bool" where
  "nonempty s \<longleftrightarrow> s \<noteq> None \<and> s \<noteq> Some []"

definition max_wait :: int where "max_wait = 30000"

definition poll_interval :: int where "poll_interval = 100"

text \<open>One turn of the loop of \<open>/wait\<close>: \<open>None\<close> sleeps until the next one.\<close>

definition wait_poll :: "int \<Rightarrow> int \<Rightarrow> coordinator \<Rightarrow> wait_reply option" where
  "wait_poll now started c =
     (if now - started < max_wait then
        (if nonempty (co_result c) then map_option Shared (co_result c)
         else if nonempty (co_error c) then map_option Compilation_Error (co_error c)
         else if \<not> co_inFlight c then Some No_Result
         else None)
      else Some Wait_Timeout)"

definition start_wait :: "coordinator \<Rightarrow> coordinator" where
  "start_wait c = c\<lparr>co_waiters := co_waiters c + 1\<rparr>"

definition end_wait :: "coordinator \<Rightarrow> coordinator" where
  "end_wait c = c\<lparr>co_waiters := co_waiters c - 1\<rparr>"

record coordinator_status =
  cs_inFlight :: bool
  cs_hasResult :: bool
  cs_hasError :: bool
  cs_waiters :: int
  cs_startedAt :: "int option"

definition handleStatus :: "coordinator \<Rightarrow> coordinator_status" where
  "handleStatus c =
     \<lparr>cs_inFlight = co_inFlight c, cs_hasResult = nonempty (co_result c),
      cs_hasError = nonempty (co_error c), cs_waiters = co_waiters c, cs_startedAt = co_startedAt c\<rparr>"

section \<open>The workers\<close>

text \<open>
  Where a worker is in \<open>coordinateCompilationWithDO\<close>: before \<open>/acquire\<close>; waiting since a time;
  compiling; with a result or an error to report; its report accepted, the body under way; its
  result stored, the answer under way; returned or thrown; gone (its isolate was shut down).
\<close>

datatype report = Complete jstr | Fail jstr

datatype outcome = Compiled jstr | Reused jstr | Threw

datatype worker =
    Idle
  | Waiting int
  | Compiling
  | Reporting report
  | Sending report
  | Acknowledged jstr
  | Finished outcome
  | Gone

definition outcome_of_reply :: "wait_reply \<Rightarrow> outcome" where
  "outcome_of_reply r = (case r of Shared b \<Rightarrow> Reused b | _ \<Rightarrow> Threw)"

record coord_system =
  sys_coordinator :: coordinator
  sys_workers :: "nat \<Rightarrow> worker"
  sys_now :: int

definition move :: "nat \<Rightarrow> worker \<Rightarrow> coordinator \<Rightarrow> coord_system \<Rightarrow> coord_system" where
  "move i w c s = s\<lparr>sys_coordinator := c, sys_workers := (sys_workers s)(i := w)\<rparr>"

text \<open>The workers between a granted \<open>/acquire\<close> and the end of their report.\<close>

fun holds_lock :: "worker \<Rightarrow> bool" where
  "holds_lock Compiling = True"
| "holds_lock (Reporting r) = True"
| "holds_lock (Sending r) = True"
| "holds_lock Gone = True"
| "holds_lock w = False"

text \<open>
  Two faults may happen in addition: with \<open>evictions\<close>, an idle object is evicted from memory; with
  \<open>losses\<close>, the answer to \<open>/complete\<close> is lost, so that the worker goes on in its \<open>catch\<close> branch.
\<close>

inductive coord_step :: "bool \<Rightarrow> bool \<Rightarrow> coord_system \<Rightarrow> coord_system \<Rightarrow> bool"
  for evictions losses where
  acquire: "sys_workers s i = Idle \<Longrightarrow> handleAcquire (sys_now s) (sys_coordinator s) = Some c \<Longrightarrow>
     coord_step evictions losses s (move i Compiling c s)"
| conflict: "sys_workers s i = Idle \<Longrightarrow> handleAcquire (sys_now s) (sys_coordinator s) = None \<Longrightarrow>
     coord_step evictions losses s (move i (Waiting (sys_now s)) (start_wait (sys_coordinator s)) s)"
| poll: "sys_workers s i = Waiting t \<Longrightarrow> wait_poll (sys_now s) t (sys_coordinator s) = Some r \<Longrightarrow>
     coord_step evictions losses s (move i (Finished (outcome_of_reply r)) (end_wait (sys_coordinator s)) s)"
| compiled: "sys_workers s i = Compiling \<Longrightarrow>
     coord_step evictions losses s (move i (Reporting r) (sys_coordinator s) s)"
| accepted: "sys_workers s i = Reporting r \<Longrightarrow> may_finish (sys_coordinator s) \<Longrightarrow>
     coord_step evictions losses s (move i (Sending r) (sys_coordinator s) s)"
| rejected: "sys_workers s i = Reporting r \<Longrightarrow> \<not> may_finish (sys_coordinator s) \<Longrightarrow>
     coord_step evictions losses s
       (move i (Finished (case r of Complete b \<Rightarrow> Compiled b | Fail _ \<Rightarrow> Threw)) (sys_coordinator s) s)"
| stored: "sys_workers s i = Sending (Complete b) \<Longrightarrow>
     coord_step evictions losses s (move i (Acknowledged b) (store_result b (sys_coordinator s)) s)"
| failed: "sys_workers s i = Sending (Fail b) \<Longrightarrow>
     coord_step evictions losses s (move i (Finished Threw) (store_error b (sys_coordinator s)) s)"
| returned: "sys_workers s i = Acknowledged b \<Longrightarrow>
     coord_step evictions losses s (move i (Finished (Compiled b)) (sys_coordinator s) s)"
| shut_down: "holds_lock (sys_workers s i) \<Longrightarrow> coord_step evictions losses s (move i Gone (sys_coordinator s) s)"
| tick: "sys_now s \<le> t \<Longrightarrow> coord_step evictions losses s (s\<lparr>sys_now := t\<rparr>)"
| lost: "losses \<Longrightarrow> sys_workers s i = Acknowledged b \<Longrightarrow>
     coord_step evictions losses s (move i (Reporting (Fail b')) (sys_coordinator s) s)"
| evicted: "evictions \<Longrightarrow> \<forall>i t. sys_workers s i \<noteq> Waiting t \<Longrightarrow> \<forall>i r. sys_workers s i \<noteq> Sending r \<Longrightarrow>
     coord_step evictions losses s (s\<lparr>sys_coordinator := new_coordinator\<rparr>)"

definition coord_start :: "coord_system \<Rightarrow> bool" where
  "coord_start s \<longleftrightarrow> sys_coordinator s = new_coordinator \<and> sys_workers s = (\<lambda>_. Idle)"

section \<open>Mutual exclusion\<close>

fun waits :: "worker \<Rightarrow> bool" where
  "waits (Waiting t) = True" | "waits w = False"

fun has_compiled :: "jstr \<Rightarrow> worker \<Rightarrow> bool" where
  "has_compiled b (Acknowledged b') = (b' = b)"
| "has_compiled b (Finished (Compiled b')) = (b' = b)"
| "has_compiled b w = False"

definition who :: "(worker \<Rightarrow> bool) \<Rightarrow> coord_system \<Rightarrow> nat set" where
  "who P s = {i. P (sys_workers s i)}"

text \<open>What the state promises: the lock and its holder, the waiters, and where results come from.\<close>

definition lock_ok :: "coord_system \<Rightarrow> bool" where
  "lock_ok s \<longleftrightarrow>
     (if co_inFlight (sys_coordinator s) then \<exists>i. who holds_lock s = {i} else who holds_lock s = {})"

definition waiters_ok :: "coord_system \<Rightarrow> bool" where
  "waiters_ok s \<longleftrightarrow> finite (who waits s) \<and>
     co_waiters (sys_coordinator s) = int (card (who waits s))"

definition results_ok :: "coord_system \<Rightarrow> bool" where
  "results_ok s \<longleftrightarrow>
     (\<forall>b. co_result (sys_coordinator s) = Some b \<longrightarrow> who (has_compiled b) s \<noteq> {}) \<and>
     (\<forall>b. who (\<lambda>w. w = Finished (Reused b)) s \<noteq> {} \<longrightarrow> who (has_compiled b) s \<noteq> {})"

lemma move_simps [simp]:
  "sys_coordinator (move i w c s) = c" "sys_now (move i w c s) = sys_now s"
  "sys_workers (move i w c s) = (sys_workers s)(i := w)"
  "who P (move i w c s) = (if P w then insert i (who P s) else who P s - {i})"
  "who P (s\<lparr>sys_now := t\<rparr>) = who P s"
  by (auto simp: move_def who_def)

lemma who_at: "i \<in> who P s \<longleftrightarrow> P (sys_workers s i)"
  by (simp add: who_def)

lemmas coordinator_defs = handleAcquire_def may_finish_def store_result_def store_error_def
  start_wait_def end_wait_def new_coordinator_def

lemma lock_move:
  assumes "lock_ok s" and "holds_lock (sys_workers s i)" and "holds_lock w" and "co_inFlight c"
  shows "lock_ok (move i w c s)"
  using assms who_at [of i holds_lock s] by (auto simp: lock_ok_def split: if_splits)

lemma lock_release:
  assumes "lock_ok s" and "holds_lock (sys_workers s i)" and "\<not> holds_lock w" and "\<not> co_inFlight c"
  shows "lock_ok (move i w c s)"
  using assms who_at [of i holds_lock s] by (auto simp: lock_ok_def split: if_splits)

lemma lock_outside:
  assumes "lock_ok s" and "\<not> holds_lock (sys_workers s i)" and "\<not> holds_lock w"
    and "co_inFlight c = co_inFlight (sys_coordinator s)"
  shows "lock_ok (move i w c s)"
  using assms who_at [of i holds_lock s] by (auto simp: lock_ok_def split: if_splits)

lemma lock_held: "lock_ok s \<Longrightarrow> holds_lock (sys_workers s i) \<Longrightarrow> co_inFlight (sys_coordinator s)"
  using who_at [of i holds_lock s] by (auto simp: lock_ok_def split: if_splits)

lemma lock_step: "coord_step False False s t \<Longrightarrow> lock_ok s \<Longrightarrow> lock_ok t"
proof (induction rule: coord_step.induct)
  case (acquire s i c)
  then show ?case by (auto simp: lock_ok_def handleAcquire_def split: if_splits)
next
  case (conflict s i)
  then show ?case by (intro lock_outside) (auto simp: start_wait_def)
next
  case (poll s i t r)
  then show ?case by (intro lock_outside) (auto simp: end_wait_def)
next
  case (rejected s i r)
  then show ?case using lock_held [of s i] by (simp add: may_finish_def)
next
  case (returned s i b)
  then show ?case by (intro lock_outside) auto
next
  case (stored s i b)
  then show ?case by (intro lock_release) (auto simp: store_result_def)
next
  case (failed s i b)
  then show ?case by (intro lock_release) (auto simp: store_error_def)
next
  case (tick s t)
  then show ?case by (simp add: lock_ok_def)
next
  case (compiled s i r)
  then show ?case using lock_held [of s i] by (intro lock_move) auto
next
  case (accepted s i r)
  then show ?case using lock_held [of s i] by (intro lock_move) auto
next
  case (shut_down s i)
  then show ?case using lock_held [of s i] by (intro lock_move) auto
qed auto

lemma waiters_same:
  assumes "waiters_ok s" and "\<not> waits (sys_workers s i)" and "\<not> waits w"
    and "co_waiters c = co_waiters (sys_coordinator s)"
  shows "waiters_ok (move i w c s)"
  using assms who_at [of i waits s] by (auto simp: waiters_ok_def)

lemma waiters_step: "coord_step False False s t \<Longrightarrow> waiters_ok s \<Longrightarrow> waiters_ok t"
proof (induction rule: coord_step.induct)
  case (conflict s i)
  then have "i \<notin> who waits s" by (simp add: who_at)
  with conflict show ?case by (simp add: waiters_ok_def start_wait_def)
next
  case (poll s i t r)
  then have "i \<in> who waits s" "finite (who waits s)" by (simp_all add: waiters_ok_def who_at)
  then have "int (card (who waits s - {i})) = int (card (who waits s)) - 1"
    using card.remove [of "who waits s" i] by simp
  with poll show ?case by (simp add: waiters_ok_def end_wait_def)
next
  case (shut_down s i)
  then show ?case by (intro waiters_same) (auto elim: holds_lock.elims)
next
  case (tick s t)
  then show ?case by (simp add: waiters_ok_def)
next
  case (acquire s i c)
  then show ?case by (intro waiters_same) (auto simp: handleAcquire_def split: if_splits)
qed (simp_all add: waiters_same store_result_def store_error_def split: report.split)

text \<open>No step forgets a compiled result, except by losing an answer.\<close>

lemma compiled_no_lock: "has_compiled b w \<Longrightarrow> \<not> holds_lock w"
  by (cases w) auto

lemma compiled_kept:
  assumes "coord_step False False s t" and "who (has_compiled b) s \<noteq> {}"
  shows "who (has_compiled b) t \<noteq> {}"
proof -
  obtain i where "has_compiled b (sys_workers s i)" using assms(2) by (auto simp: who_def)
  then have "has_compiled b (sys_workers t i)"
    using assms(1) compiled_no_lock by (auto elim!: coord_step.cases)
  then show ?thesis by (auto simp: who_def)
qed

definition reuses :: "jstr \<Rightarrow> worker \<Rightarrow> bool" where
  "reuses b w \<longleftrightarrow> w = Finished (Reused b)"

lemma results_step:
  assumes "coord_step False False s t" and "results_ok s"
  shows "results_ok t"
proof -
  have "who (has_compiled b) t \<noteq> {}" if "co_result (sys_coordinator t) = Some b" for b
  proof (cases "co_result (sys_coordinator s) = Some b")
    case True
    then show ?thesis using assms compiled_kept by (auto simp: results_ok_def)
  next
    case False
    with assms(1) that have "\<exists>i. sys_workers t i = Acknowledged b"
      by (auto simp: coordinator_defs split: if_splits elim!: coord_step.cases)
    then show ?thesis unfolding who_def by (metis (mono_tags) empty_Collect_eq has_compiled.simps(1))
  qed
  moreover have "who (has_compiled b) t \<noteq> {}" if r: "sys_workers t i = Finished (Reused b)" for i b
  proof (cases "sys_workers s i = Finished (Reused b)")
    case True
    then have "who (has_compiled b) s \<noteq> {}" using assms(2) by (auto simp: results_ok_def who_def)
    then show ?thesis using assms(1) compiled_kept by blast
  next
    case False
    with assms(1) r have "co_result (sys_coordinator s) = Some b"
      by (auto simp: outcome_of_reply_def wait_poll_def nonempty_def
          split: if_splits report.splits wait_reply.splits elim!: coord_step.cases)
    then show ?thesis using assms compiled_kept by (auto simp: results_ok_def)
  qed
  ultimately show ?thesis by (auto simp: results_ok_def who_def)
qed

text \<open>While a compilation is in flight, no answer of an earlier one is left.\<close>

definition clean_ok :: "coord_system \<Rightarrow> bool" where
  "clean_ok s \<longleftrightarrow> (co_inFlight (sys_coordinator s) \<longrightarrow>
     co_result (sys_coordinator s) = None \<and> co_error (sys_coordinator s) = None)"

lemma clean_step: "coord_step evictions losses s t \<Longrightarrow> clean_ok s \<Longrightarrow> clean_ok t"
  by (auto simp: clean_ok_def coordinator_defs split: if_splits elim!: coord_step.cases)

definition coord_ok :: "coord_system \<Rightarrow> bool" where
  "coord_ok s \<longleftrightarrow> lock_ok s \<and> waiters_ok s \<and> results_ok s \<and> clean_ok s"

lemma coord_ok_start: "coord_start s \<Longrightarrow> coord_ok s"
  by (simp add: coord_start_def coord_ok_def lock_ok_def waiters_ok_def results_ok_def clean_ok_def
      who_def new_coordinator_def)

lemma coord_ok_step: "coord_step False False s t \<Longrightarrow> coord_ok s \<Longrightarrow> coord_ok t"
  using lock_step waiters_step results_step clean_step by (simp add: coord_ok_def)

interpretation coordination: transition_system coord_start "coord_step False False" coord_ok
  by unfold_locales (use coord_ok_start coord_ok_step in auto)


lemma steps2: "r s t \<Longrightarrow> r t u \<Longrightarrow> r\<^sup>*\<^sup>* s u"
  by (meson converse_rtranclp_into_rtranclp r_into_rtranclp)

definition start_system :: coord_system where
  "start_system = \<lparr>sys_coordinator = new_coordinator, sys_workers = (\<lambda>_. Idle), sys_now = 0\<rparr>"

lemma start_system_ok: "coord_start start_system"
  by (simp add: start_system_def coord_start_def)

text \<open>The first worker acquires the lock.\<close>

definition first_acquired :: coord_system where
  "first_acquired =
     move 0 Compiling (new_coordinator\<lparr>co_inFlight := True, co_startedAt := Some 0\<rparr>) start_system"

lemma first_acquires: "coord_step evictions losses start_system first_acquired"
  using coord_step.acquire [of start_system 0 "new_coordinator\<lparr>co_inFlight := True, co_startedAt := Some 0\<rparr>"]
  by (simp add: first_acquired_def start_system_def handleAcquire_def new_coordinator_def)


section \<open>What the object does not guard against\<close>

text \<open>A worker that is gone keeps the lock: nobody compiles this key again.\<close>

lemma gone_step: "coord_step False False s t \<Longrightarrow> sys_workers s i = Gone \<Longrightarrow> sys_workers t i = Gone"
  by (auto elim!: coord_step.cases)

lemma gone_alone:
  assumes "lock_ok s" and "sys_workers s i = Gone"
  shows "sys_workers s j \<noteq> Compiling"
proof
  assume "sys_workers s j = Compiling"
  with assms(2) have "i \<in> who holds_lock s" "j \<in> who holds_lock s" "i \<noteq> j" by (auto simp: who_def)
  moreover obtain k where "who holds_lock s \<subseteq> {k}" using assms(1) by (auto simp: lock_ok_def split: if_splits)
  ultimately show False by blast
qed

text \<open>
  The lock has no expiry.  Once a worker that holds it is gone, in every later state of the
  object it is in flight, no worker compiles, every further \<open>/acquire\<close> is refused, and \<open>/wait\<close>
  answers nothing until its thirty seconds are over and the timeout afterwards, although
  \<open>startedAt\<close> is recorded.
\<close>

theorem coordinator_lock_never_expires:
  assumes "coord_start s" and "(coord_step False False)\<^sup>*\<^sup>* s t" and "sys_workers t i = Gone"
    and "(coord_step False False)\<^sup>*\<^sup>* t u"
  shows "handleAcquire now (sys_coordinator u) = None \<and> sys_workers u j \<noteq> Compiling \<and>
    wait_poll now started (sys_coordinator u) =
      (if now - started < 30000 then None else Some Wait_Timeout)"
proof -
  have t: "coord_ok t" using coordination.always [OF assms(1,2)] .
  have "sys_workers u i = Gone"
    using assms(4,3) t
  proof (induction rule: rtranclp_induct)
    case (step y z)
    then show ?case using gone_step coordination.run_inv [of t y] by (auto simp: coord_ok_def)
  qed simp
  moreover have "coord_ok u" using coordination.run_inv [OF assms(4) t] .
  ultimately have u: "sys_workers u i = Gone" "lock_ok u" "clean_ok u" by (auto simp: coord_ok_def)
  have "co_inFlight (sys_coordinator u)" using lock_held [of u i] u by simp
  moreover have "sys_workers u j \<noteq> Compiling" using gone_alone [OF u(2,1)] .
  ultimately show ?thesis
    using u(3) by (simp add: clean_ok_def handleAcquire_def wait_poll_def max_wait_def nonempty_def)
qed

theorem coordinator_lock_never_expires_witness:
  "handleAcquire 10000000 (sys_coordinator (move 0 Gone (sys_coordinator first_acquired) first_acquired)) =
   None"
proof -
  let ?t = "move 0 Gone (sys_coordinator first_acquired) first_acquired"
  have "coord_step False False first_acquired ?t"
    by (rule coord_step.shut_down) (simp add: first_acquired_def)
  from steps2 [of "coord_step False False", OF first_acquires this]
  have "(coord_step False False)\<^sup>*\<^sup>* start_system ?t" .
  from coordinator_lock_never_expires [OF start_system_ok this, of 0 ?t] show ?thesis by simp
qed

lemma run_step: "r\<^sup>*\<^sup>* s t \<Longrightarrow> r t u \<Longrightarrow> r\<^sup>*\<^sup>* s u"
  by (rule rtranclp.rtrancl_into_rtrancl)

text \<open>The object after an \<open>/acquire\<close> at time 0.\<close>

definition taken :: coordinator where
  "taken = new_coordinator\<lparr>co_inFlight := True, co_startedAt := Some 0\<rparr>"

lemma acquires:
  assumes "(coord_step evictions losses)\<^sup>*\<^sup>* s t" and "sys_workers t i = Idle" and "sys_now t = 0"
    and "\<not> co_inFlight (sys_coordinator t)" and "co_waiters (sys_coordinator t) = 0"
  shows "(coord_step evictions losses)\<^sup>*\<^sup>* s (move i Compiling taken t)"
proof -
  have "handleAcquire (sys_now t) (sys_coordinator t) = Some taken"
    using assms(3-5) by (cases "sys_coordinator t") (simp add: handleAcquire_def taken_def new_coordinator_def)
  then have "coord_step evictions losses t (move i Compiling taken t)"
    by (rule coord_step.acquire [OF assms(2)])
  with assms(1) show ?thesis by (rule run_step)
qed

lemma first_run: "(coord_step evictions losses)\<^sup>*\<^sup>* start_system (move 0 Compiling taken start_system)"
  by (rule acquires) (simp_all add: start_system_def new_coordinator_def)

text \<open>
  Faults break the exclusion, since the object neither persists its state nor knows the holder
  of the lock.  When an idle object is evicted from memory, two workers may compile at the same
  time; and when only answers get lost, they may too: a worker whose answer to \<open>/complete\<close> was
  lost reports a failure, and that releases the lock that another worker acquired in between.
\<close>

theorem coordinator_faults:
  "(\<exists>t. (coord_step True False)\<^sup>*\<^sup>* start_system t \<and> {0, 1} \<subseteq> who (\<lambda>w. w = Compiling) t) \<and>
   (\<exists>t. (coord_step False True)\<^sup>*\<^sup>* start_system t \<and> {1, 2} \<subseteq> who (\<lambda>w. w = Compiling) t)"
proof (intro conjI)
  let ?a = "move 0 Compiling taken start_system"
  let ?e = "?a\<lparr>sys_coordinator := new_coordinator\<rparr>"
  have "coord_step True False ?a ?e"
    by (rule coord_step.evicted) (simp_all add: start_system_def)
  then have "(coord_step True False)\<^sup>*\<^sup>* start_system ?e" by (rule run_step [OF first_run])
  then have "(coord_step True False)\<^sup>*\<^sup>* start_system (move 1 Compiling taken ?e)"
    by (rule acquires) (simp_all add: start_system_def new_coordinator_def)
  moreover have "{0, 1} \<subseteq> who (\<lambda>w. w = Compiling) (move 1 Compiling taken ?e)"
    by (simp add: who_def)
  ultimately show "\<exists>t. (coord_step True False)\<^sup>*\<^sup>* start_system t \<and> {0, 1} \<subseteq> who (\<lambda>w. w = Compiling) t"
    by blast
next
  let ?r = "coord_step False True"
  let ?a = "move 0 Compiling taken start_system"
  let ?b = "move 0 (Reporting (Complete ''ok'')) taken ?a"
  let ?c = "move 0 (Sending (Complete ''ok'')) taken ?b"
  let ?d = "move 0 (Acknowledged ''ok'') (store_result ''ok'' taken) ?c"
  let ?f = "move 1 Compiling taken ?d"
  let ?g = "move 0 (Reporting (Fail ''lost'')) taken ?f"
  let ?h = "move 0 (Sending (Fail ''lost'')) taken ?g"
  let ?i = "move 0 (Finished Threw) (store_error ''lost'' taken) ?h"
  have in_flight: "may_finish taken" by (simp add: taken_def may_finish_def)
  have "?r\<^sup>*\<^sup>* start_system ?b"
    using coord_step.compiled [of ?a 0] by (intro run_step [OF first_run]) simp
  then have "?r\<^sup>*\<^sup>* start_system ?c"
    using coord_step.accepted [of ?b 0] in_flight by (elim run_step) simp
  then have "?r\<^sup>*\<^sup>* start_system ?d"
    using coord_step.stored [of ?c 0] by (elim run_step) simp
  then have "?r\<^sup>*\<^sup>* start_system ?f"
    by (rule acquires) (simp_all add: start_system_def store_result_def taken_def new_coordinator_def)
  then have "?r\<^sup>*\<^sup>* start_system ?g"
    using coord_step.lost [of True ?f 0] by (elim run_step) simp
  then have "?r\<^sup>*\<^sup>* start_system ?h"
    using coord_step.accepted [of ?g 0] in_flight by (elim run_step) simp
  then have "?r\<^sup>*\<^sup>* start_system ?i"
    using coord_step.failed [of ?h 0] by (elim run_step) simp
  then have "?r\<^sup>*\<^sup>* start_system (move 2 Compiling taken ?i)"
    by (rule acquires) (simp_all add: start_system_def store_error_def taken_def new_coordinator_def)
  moreover have "{1, 2} \<subseteq> who (\<lambda>w. w = Compiling) (move 2 Compiling taken ?i)"
    by (simp add: who_def)
  ultimately show "\<exists>t. ?r\<^sup>*\<^sup>* start_system t \<and> {1, 2} \<subseteq> who (\<lambda>w. w = Compiling) t" by blast
qed

end
