(* ===== verification/Payg.thy ===== *)
theory Payg
  imports Access Domains
begin

text \<open>
  Pay-as-you-go (\<open>worker/middleware/payg-middleware.ts\<close> and the handlers of
  \<open>worker/routes/payg.routes.ts\<close>): sessions that grant a number of calls until a time.  The table of
  sessions belongs to the database, whose \<open>updateMany\<close> is one atomic statement and whose
  \<open>findUnique\<close> reads one row; \<open>db_state\<close> says whether a client exists and which of the two fails.
  Times are milliseconds, prices are cents.
\<close>

section \<open>Sessions\<close>

record payg_session =
  ps_granted :: int
  ps_used :: int
  ps_expiresAt :: int
  ps_revoked :: bool

type_synonym sessions = "jstr \<Rightarrow> payg_session option"

datatype db_state = No_Client | Update_Fails | Read_Fails | Db_Ready

text \<open>The conditional update: does a row match, and the table after it.\<close>

definition session_live :: "int \<Rightarrow> payg_session \<Rightarrow> bool" where
  "session_live now s \<longleftrightarrow> \<not> ps_revoked s \<and> now < ps_expiresAt s \<and> ps_used s < ps_granted s"

definition count_use :: "payg_session \<Rightarrow> payg_session" where
  "count_use s = s\<lparr>ps_used := ps_used s + 1\<rparr>"

definition update_session :: "int \<Rightarrow> jstr \<Rightarrow> sessions \<Rightarrow> bool \<times> sessions" where
  "update_session now token db =
     (case db token of
        Some s \<Rightarrow> if session_live now s then (True, db(token \<mapsto> count_use s)) else (False, db)
      | None \<Rightarrow> (False, db))"

text \<open>The reason for a refusal, read after the update.\<close>

definition refusal :: "int \<Rightarrow> payg_session option \<Rightarrow> jstr" where
  "refusal now row =
     (case row of
        None \<Rightarrow> ''session_not_found''
      | Some s \<Rightarrow>
          if ps_revoked s then ''session_revoked''
          else if ps_expiresAt s \<le> now then ''session_expired''
          else ''session_exhausted'')"

text \<open>\<open>Inl\<close> is an invalid session with its error, \<open>Inr\<close> the requests that remain.\<close>

definition validateAndDecrementSession ::
  "db_state \<Rightarrow> int \<Rightarrow> jstr \<Rightarrow> sessions \<Rightarrow> (jstr + int) \<times> sessions" where
  "validateAndDecrementSession st now token db =
     (case st of
        No_Client \<Rightarrow> (Inl ''database_unavailable'', db)
      | Update_Fails \<Rightarrow> (Inl ''database_error'', db)
      | Read_Fails \<Rightarrow> (Inl ''database_error'', snd (update_session now token db))
      | Db_Ready \<Rightarrow>
          (case update_session now token db of
             (updated, db') \<Rightarrow>
               (if \<not> updated then Inl (refusal now (db' token))
                else
                  (case db' token of
                     None \<Rightarrow> Inl ''session_not_found''
                   | Some s \<Rightarrow> Inr (ps_granted s - ps_used s)), db')))"

section \<open>Prices\<close>

text \<open>\<open>parseInt(raw, 10)\<close>, with \<open>None\<close> for \<open>NaN\<close>.\<close>

definition js_parseInt :: "jstr \<Rightarrow> int option" where
  "js_parseInt raw =
     (let s = dropWhile is_ws raw;
          (sign, r) =
            (case s of
               c # cs \<Rightarrow> if c = CHR ''-'' then (-1, cs) else if c = CHR ''+'' then (1, cs) else (1, s)
             | [] \<Rightarrow> (1, []));
          digits = takeWhile is_digit r
      in if digits = [] then None else Some (sign * int (parse_int digits)))"

definition cents_or :: "int \<Rightarrow> jstr option \<Rightarrow> int" where
  "cents_or fallback raw =
     (if \<not> truthy raw then fallback
      else
        (case js_parseInt (or_empty raw) of
           None \<Rightarrow> fallback
         | Some n \<Rightarrow> if n < 1 then fallback else n))"

definition getPricePerCallCents :: "jstr option \<Rightarrow> int" where
  "getPricePerCallCents raw = cents_or 1 raw"

definition getConversionThresholdCents :: "jstr option \<Rightarrow> int" where
  "getConversionThresholdCents raw = cents_or 2000 raw"

section \<open>Middlewares\<close>

text \<open>
  A middleware either ends the request or passes it on, with the value of the header
  \<open>X-Payg-Session-Remaining\<close> when it sets one.  The body of a 402 carries the price.
\<close>

datatype payg_outcome = Pass int | Payment_Required int | Refuse denial

definition is_database_failure :: "jstr \<Rightarrow> bool" where
  "is_database_failure e \<longleftrightarrow> e = ''database_unavailable'' \<or> e = ''database_error''"

text \<open>A payment proof is not verified yet: it changes nothing.\<close>

definition paygMiddleware ::
  "jstr option \<Rightarrow> db_state \<Rightarrow> int \<Rightarrow> jstr option \<Rightarrow> jstr option \<Rightarrow> sessions \<Rightarrow> payg_outcome \<times> sessions" where
  "paygMiddleware price st now sessionToken paymentResponse db =
     (let pay = Payment_Required (getPricePerCallCents price)
      in if truthy sessionToken then
           (case validateAndDecrementSession st now (or_empty sessionToken) db of
              (Inr remaining, db') \<Rightarrow> (Pass remaining, db')
            | (Inl error, db') \<Rightarrow>
                (if is_database_failure error then Refuse (deny 503 error) else pay, db'))
         else (pay, db))"

definition paygSessionMiddleware ::
  "db_state \<Rightarrow> int \<Rightarrow> jstr option \<Rightarrow> sessions \<Rightarrow> payg_outcome \<times> sessions" where
  "paygSessionMiddleware st now sessionToken db =
     (if \<not> truthy sessionToken then (Refuse (deny 401 ''Missing X-Payg-Session header''), db)
      else
        (case validateAndDecrementSession st now (or_empty sessionToken) db of
           (Inr remaining, db') \<Rightarrow> (Pass remaining, db')
         | (Inl error, db') \<Rightarrow>
             (Refuse (deny (if is_database_failure error then 503 else 402) error), db')))"

section \<open>Handlers\<close>

record session_status =
  ss_granted :: int
  ss_used :: int
  ss_remaining :: int
  ss_expiresAt :: int

definition handleSessionStatus :: "db_state \<Rightarrow> jstr option \<Rightarrow> sessions \<Rightarrow> denial + session_status" where
  "handleSessionStatus st sessionToken db =
     (if \<not> truthy sessionToken then Inl (deny 401 ''Missing X-Payg-Session header'')
      else if st = No_Client then Inl (deny 503 ''Database unavailable'')
      else
        (case db (or_empty sessionToken) of
           None \<Rightarrow> Inl (deny 404 ''Session not found'')
         | Some s \<Rightarrow> Inr \<lparr>ss_granted = ps_granted s, ss_used = ps_used s,
             ss_remaining = ps_granted s - ps_used s, ss_expiresAt = ps_expiresAt s\<rparr>))"

text \<open>The route \<open>/payg/session/status\<close>: the session middleware, then the handler.\<close>

definition session_status_route ::
  "db_state \<Rightarrow> int \<Rightarrow> jstr option \<Rightarrow> sessions \<Rightarrow> (denial + session_status) \<times> sessions" where
  "session_status_route st now sessionToken db =
     (case paygSessionMiddleware st now sessionToken db of
        (Refuse d, db') \<Rightarrow> (Inl d, db')
      | (Payment_Required _, db') \<Rightarrow> (Inl (deny 402 []), db')
      | (Pass _, db') \<Rightarrow> (handleSessionStatus st sessionToken db', db'))"

record payg_customer =
  pc_totalRequests :: int
  pc_totalSpendUsdCents :: int

record usage_summary =
  us_totalRequests :: int
  us_totalSpendUsdCents :: int
  us_conversionEligible :: bool
  us_suggestsPro :: bool

definition zero_usage :: usage_summary where
  "zero_usage =
     \<lparr>us_totalRequests = 0, us_totalSpendUsdCents = 0, us_conversionEligible = False,
      us_suggestsPro = False\<rparr>"

text \<open>
  \<open>customers\<close> gives the Stripe customer of a user, when there is one, and its record.  A threshold
  that is no number makes the comparison false here, while the check after a call falls back to
  the default.
\<close>

definition eligible_handler :: "jstr option \<Rightarrow> int \<Rightarrow> bool" where
  "eligible_handler threshold spend =
     (case js_parseInt (case threshold of None \<Rightarrow> ''2000'' | Some t \<Rightarrow> t) of
        None \<Rightarrow> False
      | Some n \<Rightarrow> n \<le> spend)"

definition handlePaygUsage ::
  "jstr option \<Rightarrow> bool \<Rightarrow> jstr option \<Rightarrow> (jstr \<Rightarrow> payg_customer option option) \<Rightarrow> denial + usage_summary" where
  "handlePaygUsage threshold client userId customers =
     (if \<not> truthy userId then Inl (deny 401 ''Authentication required'')
      else if \<not> client then Inl (deny 503 ''Database unavailable'')
      else
        (case customers (or_empty userId) of
           Some (Some c) \<Rightarrow>
             (let e = eligible_handler threshold (pc_totalSpendUsdCents c)
              in Inr \<lparr>us_totalRequests = pc_totalRequests c,
                   us_totalSpendUsdCents = pc_totalSpendUsdCents c, us_conversionEligible = e,
                   us_suggestsPro = e\<rparr>)
         | _ \<Rightarrow> Inr zero_usage))"

definition paygConversionCheck ::
  "jstr option \<Rightarrow> bool \<Rightarrow> jstr option \<Rightarrow> (jstr \<Rightarrow> payg_customer option option) \<Rightarrow> bool" where
  "paygConversionCheck threshold client userId customers \<longleftrightarrow>
     truthy userId \<and> client \<and>
     (case customers (or_empty userId) of
        Some (Some c) \<Rightarrow> getConversionThresholdCents threshold \<le> pc_totalSpendUsdCents c
      | _ \<Rightarrow> False)"

section \<open>Calls of many clients\<close>

text \<open>A call: its time and its token, through the middleware of paid endpoints.\<close>

primrec payg_calls ::
  "jstr option \<Rightarrow> (int \<times> jstr) list \<Rightarrow> sessions \<Rightarrow> (jstr \<times> payg_outcome) list \<times> sessions" where
  "payg_calls price [] db = ([], db)"
| "payg_calls price (c # cs) db =
     (case c of (now, token) \<Rightarrow>
        case paygMiddleware price Db_Ready now (Some token) None db of
          (r, db') \<Rightarrow> (case payg_calls price cs db' of (rs, db'') \<Rightarrow> ((token, r) # rs, db'')))"

definition outcomes_of :: "jstr \<Rightarrow> (jstr \<times> payg_outcome) list \<Rightarrow> payg_outcome list" where
  "outcomes_of token rs = map snd (filter (\<lambda>(t, _). t = token) rs)"

definition calls_by :: "jstr \<Rightarrow> (int \<times> jstr) list \<Rightarrow> nat" where
  "calls_by token cs = length (filter (\<lambda>(_, t). t = token) cs)"

definition before_expiry :: "jstr \<Rightarrow> payg_session \<Rightarrow> (int \<times> jstr) list \<Rightarrow> bool" where
  "before_expiry token s cs \<longleftrightarrow> list_all (\<lambda>(now, t). t = token \<longrightarrow> now < ps_expiresAt s) cs"

text \<open>The \<open>i\<close>-th outcome, from 0, of a session with \<open>n\<close> calls left.\<close>

definition paid_outcome :: "jstr option \<Rightarrow> int \<Rightarrow> int \<Rightarrow> payg_outcome" where
  "paid_outcome price n i =
     (if i < n then Pass (n - 1 - i) else Payment_Required (getPricePerCallCents price))"

definition calls_left :: "payg_session \<Rightarrow> int" where
  "calls_left s = max 0 (ps_granted s - ps_used s)"

lemma other_token:
  "t \<noteq> token \<Longrightarrow> snd (paygMiddleware price Db_Ready now (Some t) None db) token = db token"
  by (auto simp: paygMiddleware_def validateAndDecrementSession_def update_session_def Let_def
      truthy_def or_empty_def split: option.split sum.split)

lemma own_call:
  assumes "db token = Some s" and "token \<noteq> []" and "\<not> ps_revoked s" and "now < ps_expiresAt s"
  shows "paygMiddleware price Db_Ready now (Some token) None db =
    (if 0 < calls_left s then (Pass (calls_left s - 1), db(token \<mapsto> count_use s))
     else (Payment_Required (getPricePerCallCents price), db))"
  using assms
  by (auto simp: paygMiddleware_def validateAndDecrementSession_def update_session_def Let_def
      truthy_def or_empty_def session_live_def calls_left_def count_use_def refusal_def
      is_database_failure_def)

lemma paid_calls:
  assumes "db token = Some s" and "token \<noteq> []" and "\<not> ps_revoked s" and "before_expiry token s cs"
  shows "outcomes_of token (fst (payg_calls price cs db)) =
      map (\<lambda>i. paid_outcome price (calls_left s) (int i)) [0 ..< calls_by token cs]"
  using assms
proof (induction cs arbitrary: db s)
  case (Cons c cs)
  obtain now t where c: "c = (now, t)" by (cases c)
  obtain r db' where r: "paygMiddleware price Db_Ready now (Some t) None db = (r, db')" by fastforce
  have rest: "before_expiry token s cs" using Cons.prems(4) by (simp add: before_expiry_def)
  show ?case
  proof (cases "t = token")
    case False
    then have "db' token = Some s" using other_token [OF False, of price now db] r Cons.prems(1) by simp
    from Cons.IH [of db' s, OF this Cons.prems(2,3) rest] show ?thesis
      using False r c by (simp add: outcomes_of_def calls_by_def case_prod_beta)
  next
    case True
    have now: "now < ps_expiresAt s" using Cons.prems(4) True c by (simp add: before_expiry_def)
    note own = own_call [of db token s now, OF Cons.prems(1-3) now, of price]
    have map_Cons: "map f [0 ..< Suc n] = f 0 # map (\<lambda>i. f (Suc i)) [0 ..< n]" for f :: "nat \<Rightarrow> payg_outcome" and n
      by (simp add: map_upt_Suc del: upt_Suc)
    show ?thesis
    proof (cases "0 < calls_left s")
      case True
      let ?s = "count_use s"
      have left: "calls_left ?s = calls_left s - 1" using True by (simp add: calls_left_def count_use_def)
      have step: "r = Pass (calls_left s - 1)" "db' token = Some ?s"
        using own True r \<open>t = token\<close> by auto
      have "\<not> ps_revoked ?s" "before_expiry token ?s cs"
        using Cons.prems(3) rest by (simp_all add: count_use_def before_expiry_def)
      from Cons.IH [of db' ?s, OF step(2) Cons.prems(2) this] show ?thesis
        using step(1) r c \<open>t = token\<close> True
        by (simp add: outcomes_of_def calls_by_def case_prod_beta map_Cons left paid_outcome_def
            algebra_simps del: upt_Suc)
    next
      case False
      then have left: "calls_left s = 0" by (simp add: calls_left_def)
      have step: "r = Payment_Required (getPricePerCallCents price)" "db' = db"
        using own False r \<open>t = token\<close> by auto
      from Cons.IH [of db s, OF Cons.prems(1-3) rest] show ?thesis
        using step r c \<open>t = token\<close> left
        by (simp add: outcomes_of_def calls_by_def case_prod_beta map_Cons paid_outcome_def del: upt_Suc)
    qed
  qed
qed (simp add: outcomes_of_def calls_by_def)

text \<open>
  C17. A session pays for exactly what it grants.  While an unrevoked session has not expired, and
  whatever other sessions are used in between, the first calls with its token, as many as are left,
  pass with a counter that runs down to 0, and every further call is answered with 402 and the
  price per call; other tokens never use it up.
\<close>

theorem payg_session_exact:
  assumes "db token = Some s" and "token \<noteq> []" and "\<not> ps_revoked s" and "before_expiry token s cs"
  shows "outcomes_of token (fst (payg_calls price cs db)) =
      map (\<lambda>i. paid_outcome price (calls_left s) (int i)) [0 ..< calls_by token cs]"
  using assms by (rule paid_calls)

definition sample_session :: payg_session where
  "sample_session = \<lparr>ps_granted = 10, ps_used = 9, ps_expiresAt = 100, ps_revoked = False\<rparr>"

theorem payg_session_exact_witness:
  "outcomes_of ''a'' (fst (payg_calls None [(1, ''a''), (2, ''b''), (3, ''a'')]
     [''a'' \<mapsto> sample_session, ''b'' \<mapsto> sample_session])) = [Pass 0, Payment_Required 1]"
  using payg_session_exact [of "[''a'' \<mapsto> sample_session, ''b'' \<mapsto> sample_session]" "''a''" sample_session
      "[(1, ''a''), (2, ''b''), (3, ''a'')]" None]
  by (simp add: sample_session_def before_expiry_def calls_by_def paid_outcome_def calls_left_def
      getPricePerCallCents_def cents_or_def truthy_def upt_rec)

text \<open>
  Asking for the status of a session costs one of its calls: a live session is answered with its
  use counted one higher than before, and a session that has used up its calls is refused with 402
  instead of being shown with nothing remaining.
\<close>

theorem payg_status_costs_a_call:
  assumes "db token = Some s" and "token \<noteq> []" and "\<not> ps_revoked s" and "now < ps_expiresAt s"
  shows "session_status_route Db_Ready now (Some token) db =
    (if ps_used s < ps_granted s then
       (Inr \<lparr>ss_granted = ps_granted s, ss_used = ps_used s + 1,
          ss_remaining = ps_granted s - ps_used s - 1, ss_expiresAt = ps_expiresAt s\<rparr>,
        db(token \<mapsto> count_use s))
     else (Inl (deny 402 ''session_exhausted''), db))"
  using assms
  by (auto simp: session_status_route_def paygSessionMiddleware_def validateAndDecrementSession_def
      update_session_def session_live_def count_use_def handleSessionStatus_def truthy_def or_empty_def
      refusal_def is_database_failure_def)

theorem payg_status_costs_a_call_witness:
  "fst (session_status_route Db_Ready 5 (Some ''a'') [''a'' \<mapsto> sample_session]) =
   Inr \<lparr>ss_granted = 10, ss_used = 10, ss_remaining = 0, ss_expiresAt = 100\<rparr>"
  by (subst payg_status_costs_a_call [of _ _ sample_session]) (simp_all add: sample_session_def)

text \<open>The two tests for eligibility disagree on a threshold that is no positive number.\<close>

lemma eligibility_disagrees:
  "paygConversionCheck (Some ''none'') True (Some ''u'') (\<lambda>_. Some (Some
     \<lparr>pc_totalRequests = 1, pc_totalSpendUsdCents = 5000\<rparr>)) \<and>
   \<not> eligible_handler (Some ''none'') 5000"
  by code_simp

end
