(* ===== verification/Sockets.thy ===== *)
theory Sockets
  imports Schemas
begin

text \<open>
  Compilation over a WebSocket (\<open>worker/websocket.ts\<close>): the sessions of one connection, the messages
  of its client, the compilations that run for them, the timers that forget sessions, and the
  heartbeat.  A session is an object that its compilation keeps although the map of sessions may
  have dropped it or hold another one under the same name; objects are numbered in the order of
  their creation.  Every callback of the event loop is one step of \<open>ws_step\<close>.  What the compiler
  answers, and when, is up to the environment.  The texts of errors are left out, their codes kept.
\<close>

section \<open>Messages\<close>

datatype client_message =
    Compile jstr "(jstr \<times> json) list"
  | Cancel jstr
  | Pause jstr
  | Resume jstr
  | Ping

datatype ws_error =
    MESSAGE_TOO_LARGE | INVALID_MESSAGE | NOT_IMPLEMENTED | DUPLICATE_SESSION
  | TOO_MANY_COMPILATIONS | SESSION_NOT_FOUND | INVALID_SESSION_STATE

datatype server_message =
    Welcome
  | Pong
  | Compile_started jstr "json option"
  | Event jstr jstr
  | Compile_complete jstr lines
  | Compile_error jstr jstr
  | Compile_cancelled jstr
  | Error_message ws_error "jstr option"

definition session_id :: "(jstr \<times> json) list \<Rightarrow> jstr option" where
  "session_id fs =
     (case map_of fs ''sessionId'' of
        Some (JStr s) \<Rightarrow> if 1 \<le> length s \<and> length s \<le> 128 then Some s else None
      | _ \<Rightarrow> None)"

fun is_text_record :: "json \<Rightarrow> bool" where
  "is_text_record (JObj fs) = list_all (\<lambda>(k, v). is_string (\<lambda>_. True) v) fs"
| "is_text_record _ = False"

definition message_fields :: "(jstr \<times> json) list \<Rightarrow> bool" where
  "message_fields fs \<longleftrightarrow> optional ''messageId'' (is_string (\<lambda>_. True)) fs \<and>
     optional ''timestamp'' (is_string (\<lambda>_. True)) fs"

definition compile_message :: "(jstr \<times> json) list \<Rightarrow> client_message option" where
  "compile_message fs =
     (case (session_id fs, map_of fs ''configuration'') of
        (Some s, Some (JObj config)) \<Rightarrow>
          if optional ''preFetchedContent'' is_text_record fs \<and> optional ''benchmark'' is_bool fs
          then Some (Compile s config) else None
      | _ \<Rightarrow> None)"

definition ClientMessageSchema :: "json \<Rightarrow> client_message option" where
  "ClientMessageSchema j =
     (case j of
        JObj fs \<Rightarrow>
          if \<not> message_fields fs then None
          else
            (case map_of fs ''type'' of
               Some (JStr t) \<Rightarrow>
                 if t = ''compile'' then compile_message fs
                 else if t = ''cancel'' then map_option Cancel (session_id fs)
                 else if t = ''pause'' then map_option Pause (session_id fs)
                 else if t = ''resume'' then map_option Resume (session_id fs)
                 else if t = ''ping'' then Some Ping
                 else None
             | _ \<Rightarrow> None)
      | _ \<Rightarrow> None)"

section \<open>The connection\<close>

datatype session_status = Running | Completed | Failed | Cancelled

record session_object =
  so_id :: jstr
  so_status :: session_status
  so_aborted :: bool

text \<open>Frames are sent only while the connection is open; they arrive until it is closed.\<close>

datatype ws_connection = Open | Closing | Closed

text \<open>
  \<open>ws_sessions\<close> is the map of sessions in the order of insertion, \<open>ws_timers\<close> the pending deletions
  with the time at which each is due, and \<open>ws_sent\<close> the frames sent so far, each with the object
  on whose behalf it was sent.
\<close>

record ws_state =
  ws_conn :: ws_connection
  ws_sessions :: "(jstr \<times> nat) list"
  ws_objects :: "session_object list"
  ws_compiling :: "nat list"
  ws_timers :: "(int \<times> jstr) list"
  ws_heartbeat :: int
  ws_interval :: bool
  ws_now :: int
  ws_sent :: "(nat option \<times> server_message) list"

definition MAX_CONCURRENT_COMPILATIONS :: nat where "MAX_CONCURRENT_COMPILATIONS = 3"

definition CONNECTION_TIMEOUT :: int where "CONNECTION_TIMEOUT = 300000"

definition MAX_MESSAGE_SIZE :: nat where "MAX_MESSAGE_SIZE = 1024 * 1024"

definition sendMessage :: "nat option \<Rightarrow> server_message \<Rightarrow> ws_state \<Rightarrow> ws_state" where
  "sendMessage r m s = (if ws_conn s = Open then s\<lparr>ws_sent := ws_sent s @ [(r, m)]\<rparr> else s)"

definition sendError :: "ws_error \<Rightarrow> jstr option \<Rightarrow> ws_state \<Rightarrow> ws_state" where
  "sendError code sid = sendMessage None (Error_message code sid)"

definition accepted_connection :: "int \<Rightarrow> ws_state" where
  "accepted_connection now =
     sendMessage None Welcome
       \<lparr>ws_conn = Open, ws_sessions = [], ws_objects = [], ws_compiling = [], ws_timers = [],
        ws_heartbeat = now, ws_interval = True, ws_now = now, ws_sent = []\<rparr>"

text \<open>\<open>None\<close> is the answer 426, for a request that is no upgrade.\<close>

definition handleWebSocketUpgrade :: "jstr option \<Rightarrow> int \<Rightarrow> ws_state option" where
  "handleWebSocketUpgrade upgradeHeader now =
     (if upgradeHeader \<noteq> Some ''websocket'' then None else Some (accepted_connection now))"

definition status_of :: "ws_state \<Rightarrow> nat \<Rightarrow> session_status" where
  "status_of s r = so_status (ws_objects s ! r)"

definition runningCount :: "ws_state \<Rightarrow> nat" where
  "runningCount s = length (filter (\<lambda>(i, r). status_of s r = Running) (ws_sessions s))"

definition forget_at :: "int \<Rightarrow> jstr \<Rightarrow> ws_state \<Rightarrow> ws_state" where
  "forget_at delay sid s = s\<lparr>ws_timers := ws_timers s @ [(ws_now s + delay, sid)]\<rparr>"

definition set_status :: "nat \<Rightarrow> session_status \<Rightarrow> ws_state \<Rightarrow> ws_state" where
  "set_status r st s = s\<lparr>ws_objects := (ws_objects s)[r := (ws_objects s ! r)\<lparr>so_status := st\<rparr>]\<rparr>"

definition abort_object :: "session_object \<Rightarrow> session_object" where
  "abort_object ob = ob\<lparr>so_aborted := True\<rparr>"

definition handleCompileRequest :: "jstr \<Rightarrow> (jstr \<times> json) list \<Rightarrow> ws_state \<Rightarrow> ws_state" where
  "handleCompileRequest sid config s =
     (if map_of (ws_sessions s) sid \<noteq> None then sendError DUPLICATE_SESSION (Some sid) s
      else if MAX_CONCURRENT_COMPILATIONS \<le> runningCount s
      then sendError TOO_MANY_COMPILATIONS (Some sid) s
      else
        (let r = length (ws_objects s)
         in sendMessage (Some r) (Compile_started sid (map_of config ''name''))
              (s\<lparr>ws_sessions := ws_sessions s @ [(sid, r)],
                 ws_objects := ws_objects s @ [\<lparr>so_id = sid, so_status = Running, so_aborted = False\<rparr>],
                 ws_compiling := ws_compiling s @ [r]\<rparr>)))"

text \<open>The continuation of \<open>handleCompileRequest\<close> when the compiler returns or throws.\<close>

definition compile_finished :: "nat \<Rightarrow> jstr + lines \<times> nat \<Rightarrow> ws_state \<Rightarrow> ws_state" where
  "compile_finished r result s0 =
     (let s = s0\<lparr>ws_compiling := remove1 r (ws_compiling s0)\<rparr>; sid = so_id (ws_objects s ! r)
      in case result of
           Inr (rules, diagnostics) \<Rightarrow>
             if status_of s r = Cancelled then s
             else
               forget_at 60000 sid
                 (sendMessage (Some r) (Compile_complete sid rules)
                   ((sendMessage (Some r) (Event sid ''diagnostic'') ^^ diagnostics)
                     (set_status r Completed s)))
         | Inl e \<Rightarrow>
             forget_at 60000 sid (sendMessage (Some r) (Compile_error sid e) (set_status r Failed s)))"

definition handleCancelRequest :: "jstr \<Rightarrow> ws_state \<Rightarrow> ws_state" where
  "handleCancelRequest sid s =
     (case map_of (ws_sessions s) sid of
        None \<Rightarrow> sendError SESSION_NOT_FOUND (Some sid) s
      | Some r \<Rightarrow>
          if status_of s r \<noteq> Running then sendError INVALID_SESSION_STATE (Some sid) s
          else
            forget_at 5000 sid
              (sendMessage (Some r) (Compile_cancelled sid)
                (set_status r Cancelled
                  (s\<lparr>ws_objects := (ws_objects s)[r := abort_object (ws_objects s ! r)]\<rparr>))))"

definition handleClientMessage :: "client_message \<Rightarrow> ws_state \<Rightarrow> ws_state" where
  "handleClientMessage m s =
     (case m of
        Compile sid config \<Rightarrow> handleCompileRequest sid config s
      | Cancel sid \<Rightarrow> handleCancelRequest sid s
      | Ping \<Rightarrow> sendMessage None Pong (s\<lparr>ws_heartbeat := ws_now s\<rparr>)
      | Pause sid \<Rightarrow> sendError NOT_IMPLEMENTED (Some sid) s
      | Resume sid \<Rightarrow> sendError NOT_IMPLEMENTED (Some sid) s)"

text \<open>A frame: its length and what \<open>JSON.parse\<close> makes of it.\<close>

definition on_message :: "nat \<Rightarrow> json option \<Rightarrow> ws_state \<Rightarrow> ws_state" where
  "on_message len data s =
     (if MAX_MESSAGE_SIZE < len then sendError MESSAGE_TOO_LARGE None s
      else
        (case data of
           None \<Rightarrow> sendError INVALID_MESSAGE None s
         | Some j \<Rightarrow>
             (case ClientMessageSchema j of
                None \<Rightarrow> sendError INVALID_MESSAGE None s
              | Some m \<Rightarrow> handleClientMessage m s)))"

definition abort_running :: "jstr \<times> nat \<Rightarrow> session_object list \<Rightarrow> session_object list" where
  "abort_running e obs =
     (if so_status (obs ! snd e) = Running then obs[snd e := abort_object (obs ! snd e)] else obs)"

definition on_close :: "ws_state \<Rightarrow> ws_state" where
  "on_close s =
     s\<lparr>ws_conn := Closed, ws_interval := False, ws_sessions := [],
       ws_objects := fold abort_running (ws_sessions s) (ws_objects s)\<rparr>"

definition heartbeat_tick :: "ws_state \<Rightarrow> ws_state" where
  "heartbeat_tick s =
     (if CONNECTION_TIMEOUT < ws_now s - ws_heartbeat s
      then s\<lparr>ws_interval := False, ws_conn := (if ws_conn s = Open then Closing else ws_conn s)\<rparr>
      else sendMessage None Pong s)"

definition forget :: "int \<times> jstr \<Rightarrow> ws_state \<Rightarrow> ws_state" where
  "forget t s =
     s\<lparr>ws_timers := remove1 t (ws_timers s),
       ws_sessions := filter (\<lambda>(i, r). i \<noteq> snd t) (ws_sessions s)\<rparr>"

inductive ws_step :: "ws_state \<Rightarrow> ws_state \<Rightarrow> bool" where
  receive: "ws_conn s \<noteq> Closed \<Longrightarrow> ws_step s (on_message len data s)"
| progress: "r \<in> set (ws_compiling s) \<Longrightarrow>
     ws_step s (sendMessage (Some r) (Event (so_id (ws_objects s ! r)) kind) s)"
| finished: "r \<in> set (ws_compiling s) \<Longrightarrow> ws_step s (compile_finished r result s)"
| expire: "t \<in> set (ws_timers s) \<Longrightarrow> fst t \<le> ws_now s \<Longrightarrow> ws_step s (forget t s)"
| heartbeat: "ws_interval s \<Longrightarrow> ws_step s (heartbeat_tick s)"
| closed: "ws_conn s \<noteq> Closed \<Longrightarrow> ws_step s (on_close s)"
| tick: "ws_now s \<le> t \<Longrightarrow> ws_step s (s\<lparr>ws_now := t\<rparr>)"

definition ws_start :: "ws_state \<Rightarrow> bool" where
  "ws_start s \<longleftrightarrow> (\<exists>upgradeHeader now. handleWebSocketUpgrade upgradeHeader now = Some s)"

lemma ws_start_iff: "ws_start s \<longleftrightarrow> (\<exists>now. s = accepted_connection now)"
  by (auto simp: ws_start_def handleWebSocketUpgrade_def)

section \<open>Sessions and compilations\<close>

text \<open>
  What always holds of the map, the objects and the compilations: an entry of the map names an
  object of that name, at most three entries are running, a running object has a compilation that
  is still to answer, and the compilation of a completed or failed one has answered.
\<close>

definition entries_ok :: "ws_state \<Rightarrow> bool" where
  "entries_ok s \<longleftrightarrow> distinct (map fst (ws_sessions s)) \<and>
     (\<forall>(i, r) \<in> set (ws_sessions s). r < length (ws_objects s) \<and> so_id (ws_objects s ! r) = i)"

definition compilations_ok :: "ws_state \<Rightarrow> bool" where
  "compilations_ok s \<longleftrightarrow> distinct (ws_compiling s) \<and>
     set (ws_compiling s) \<subseteq> {..< length (ws_objects s)} \<and>
     (\<forall>r < length (ws_objects s).
        (status_of s r = Running \<longrightarrow> r \<in> set (ws_compiling s)) \<and>
        (status_of s r \<in> {Completed, Failed} \<longrightarrow> r \<notin> set (ws_compiling s)))"

definition limit_ok :: "ws_state \<Rightarrow> bool" where
  "limit_ok s \<longleftrightarrow> runningCount s \<le> MAX_CONCURRENT_COMPILATIONS"

lemma sendMessage_simps [simp]:
  "ws_sessions (sendMessage r m s) = ws_sessions s" "ws_objects (sendMessage r m s) = ws_objects s"
  "ws_compiling (sendMessage r m s) = ws_compiling s" "ws_conn (sendMessage r m s) = ws_conn s"
  "ws_now (sendMessage r m s) = ws_now s" "ws_timers (sendMessage r m s) = ws_timers s"
  by (simp_all add: sendMessage_def)

lemma sendMessages_simps [simp]:
  "ws_sessions ((sendMessage r m ^^ n) s) = ws_sessions s"
  "ws_objects ((sendMessage r m ^^ n) s) = ws_objects s"
  "ws_compiling ((sendMessage r m ^^ n) s) = ws_compiling s"
  "ws_conn ((sendMessage r m ^^ n) s) = ws_conn s"
  by (induction n) simp_all

lemma sendError_simps [simp]:
  "ws_sessions (sendError c i s) = ws_sessions s" "ws_objects (sendError c i s) = ws_objects s"
  "ws_compiling (sendError c i s) = ws_compiling s" "ws_conn (sendError c i s) = ws_conn s"
  by (simp_all add: sendError_def)

lemma forget_at_simps [simp]:
  "ws_sessions (forget_at d i s) = ws_sessions s" "ws_objects (forget_at d i s) = ws_objects s"
  "ws_compiling (forget_at d i s) = ws_compiling s" "ws_conn (forget_at d i s) = ws_conn s"
  "ws_sent (forget_at d i s) = ws_sent s"
  by (simp_all add: forget_at_def)

lemma set_status_simps [simp]:
  "ws_sessions (set_status r st s) = ws_sessions s" "ws_compiling (set_status r st s) = ws_compiling s"
  "ws_conn (set_status r st s) = ws_conn s" "ws_sent (set_status r st s) = ws_sent s"
  "length (ws_objects (set_status r st s)) = length (ws_objects s)"
  "ws_objects (set_status r st s) = (ws_objects s)[r := (ws_objects s ! r)\<lparr>so_status := st\<rparr>]"
  by (simp_all add: set_status_def)

text \<open>The three properties only look at the map, the objects and the compilations.\<close>

definition same_core :: "ws_state \<Rightarrow> ws_state \<Rightarrow> bool" where
  "same_core s t \<longleftrightarrow> ws_sessions t = ws_sessions s \<and> ws_objects t = ws_objects s \<and>
     ws_compiling t = ws_compiling s"

lemma core_cong:
  "same_core s t \<Longrightarrow> entries_ok t = entries_ok s"
  "same_core s t \<Longrightarrow> compilations_ok t = compilations_ok s"
  "same_core s t \<Longrightarrow> limit_ok t = limit_ok s"
  by (simp_all add: same_core_def entries_ok_def compilations_ok_def limit_ok_def runningCount_def
      status_of_def)

lemma length_filter_mono:
  "(\<And>x. x \<in> set xs \<Longrightarrow> P x \<Longrightarrow> Q x) \<Longrightarrow> length (filter P xs) \<le> length (filter Q xs)"
  by (induction xs) (auto simp: le_SucI)

text \<open>An object gets a status other than running, and perhaps its compilation ends.\<close>

definition settles :: "nat \<Rightarrow> ws_state \<Rightarrow> ws_state \<Rightarrow> bool" where
  "settles r s t \<longleftrightarrow> ws_sessions t = ws_sessions s \<and> length (ws_objects t) = length (ws_objects s) \<and>
     (\<forall>q < length (ws_objects s). so_id (ws_objects t ! q) = so_id (ws_objects s ! q) \<and>
        (q \<noteq> r \<longrightarrow> status_of t q = status_of s q)) \<and> status_of t r \<noteq> Running"

lemma settles_entries: "settles r s t \<Longrightarrow> entries_ok s \<Longrightarrow> entries_ok t"
  by (auto simp: settles_def entries_ok_def)

lemma settles_limit:
  assumes "settles r s t" and "entries_ok s" and "limit_ok s"
  shows "limit_ok t"
proof -
  have "runningCount t \<le> runningCount s"
    unfolding runningCount_def using assms(1,2)
    by (auto simp: settles_def entries_ok_def intro!: length_filter_mono)
  then show ?thesis using assms(3) by (simp add: limit_ok_def)
qed

lemma finished_cases:
  assumes "r < length (ws_objects s)"
  shows "settles r s (compile_finished r result s) \<or>
    same_core (s\<lparr>ws_compiling := remove1 r (ws_compiling s)\<rparr>) (compile_finished r result s) \<and>
    status_of s r = Cancelled"
  using assms
  by (auto simp: compile_finished_def Let_def settles_def same_core_def status_of_def nth_list_update
      split: sum.split)

lemma cancel_settles:
  assumes "map_of (ws_sessions s) sid = Some r" and "entries_ok s" and "status_of s r = Running"
  shows "settles r s (handleCancelRequest sid s)"
proof -
  have "r < length (ws_objects s)" using assms map_of_SomeD by (fastforce simp: entries_ok_def)
  then show ?thesis using assms
    by (auto simp: handleCancelRequest_def settles_def status_of_def abort_object_def nth_list_update)
qed

definition ws_ok :: "ws_state \<Rightarrow> bool" where
  "ws_ok s \<longleftrightarrow> entries_ok s \<and> compilations_ok s \<and> limit_ok s"

lemma ws_ok_cong: "same_core s t \<Longrightarrow> ws_ok t = ws_ok s"
  by (simp add: ws_ok_def core_cong)

lemma ws_ok_sendError [simp]: "ws_ok (sendError c i s) = ws_ok s"
  by (rule ws_ok_cong) (simp add: same_core_def)

lemma ws_ok_sendMessage [simp]: "ws_ok (sendMessage r m s) = ws_ok s"
  by (rule ws_ok_cong) (simp add: same_core_def)

lemma ws_ok_compile:
  assumes "ws_ok s"
  shows "ws_ok (handleCompileRequest sid config s)"
proof (cases "map_of (ws_sessions s) sid = None \<and> \<not> MAX_CONCURRENT_COMPILATIONS \<le> runningCount s")
  case True
  let ?r = "length (ws_objects s)" and ?t = "handleCompileRequest sid config s"
  let ?ob = "\<lparr>so_id = sid, so_status = Running, so_aborted = False\<rparr>"
  have fresh: "sid \<notin> fst ` set (ws_sessions s)" using True by (simp add: map_of_eq_None_iff)
  have t: "ws_sessions ?t = ws_sessions s @ [(sid, ?r)]" "ws_objects ?t = ws_objects s @ [?ob]"
    "ws_compiling ?t = ws_compiling s @ [?r]"
    using True by (simp_all add: handleCompileRequest_def Let_def)
  have old: "status_of ?t q = status_of s q" if "q < ?r" for q
    using that by (simp add: status_of_def t nth_append)
  have ents: "entries_ok s" using assms by (simp add: ws_ok_def)
  have "filter (\<lambda>(i, r). status_of ?t r = Running) (ws_sessions s) =
      filter (\<lambda>(i, r). status_of s r = Running) (ws_sessions s)"
    using ents old by (intro filter_cong) (auto simp: entries_ok_def)
  then have "runningCount ?t \<le> Suc (runningCount s)"
    by (simp add: runningCount_def t)
  then have "limit_ok ?t" using True by (simp add: limit_ok_def)
  moreover have "entries_ok ?t" using ents fresh by (auto simp: entries_ok_def t nth_append)
  moreover have "compilations_ok ?t"
    using assms old by (auto simp: ws_ok_def compilations_ok_def t less_Suc_eq) (auto simp: status_of_def t)
  ultimately show ?thesis by (simp add: ws_ok_def)
next
  case False
  then show ?thesis using assms by (auto simp: handleCompileRequest_def)
qed

lemma ws_ok_finished:
  assumes "ws_ok s" and "r \<in> set (ws_compiling s)"
  shows "ws_ok (compile_finished r result s)"
proof -
  let ?t = "compile_finished r result s"
  have r: "r < length (ws_objects s)" using assms by (auto simp: ws_ok_def compilations_ok_def)
  have c: "ws_compiling ?t = remove1 r (ws_compiling s)"
    by (auto simp: compile_finished_def Let_def split: sum.split)
  have d: "distinct (ws_compiling s)" using assms(1) by (simp add: ws_ok_def compilations_ok_def)
  show ?thesis
    using finished_cases [OF r, of result]
  proof
    assume st: "settles r s ?t"
    then have "compilations_ok ?t"
      using assms(1) d by (auto simp: ws_ok_def compilations_ok_def settles_def c)
    then show ?thesis using st assms(1) by (auto simp: ws_ok_def intro: settles_entries settles_limit)
  next
    assume core: "same_core (s\<lparr>ws_compiling := remove1 r (ws_compiling s)\<rparr>) ?t \<and> status_of s r = Cancelled"
    then have same: "status_of ?t = status_of s" "ws_objects ?t = ws_objects s" "ws_sessions ?t = ws_sessions s"
      by (auto simp: same_core_def status_of_def)
    then show ?thesis using assms(1) d core
      by (auto simp: ws_ok_def compilations_ok_def entries_ok_def limit_ok_def runningCount_def c)
  qed
qed

lemma ws_ok_cancel: "ws_ok s \<Longrightarrow> ws_ok (handleCancelRequest sid s)"
proof (cases "map_of (ws_sessions s) sid")
  case (Some r)
  assume ok: "ws_ok s"
  show ?thesis
  proof (cases "status_of s r = Running")
    case True
    let ?t = "handleCancelRequest sid s"
    have st: "settles r s ?t" using cancel_settles [OF Some] ok True by (simp add: ws_ok_def)
    have "r < length (ws_objects s)" using Some ok map_of_SomeD by (fastforce simp: ws_ok_def entries_ok_def)
    then have "status_of ?t r = Cancelled" "ws_compiling ?t = ws_compiling s"
      using Some True by (simp_all add: handleCancelRequest_def status_of_def)
    then have "compilations_ok ?t"
      using ok st by (auto simp: ws_ok_def compilations_ok_def settles_def)
    then show ?thesis using st ok by (auto simp: ws_ok_def intro: settles_entries settles_limit)
  next
    case False
    then show ?thesis using ok Some by (simp add: handleCancelRequest_def)
  qed
qed (simp add: handleCancelRequest_def)

lemma ws_ok_message: "ws_ok s \<Longrightarrow> ws_ok (on_message len data s)"
  by (auto simp: on_message_def handleClientMessage_def ws_ok_compile ws_ok_cancel
      intro: ws_ok_cong [THEN iffD2] simp: same_core_def split: option.split client_message.split)

lemma ws_ok_forget:
  assumes "ws_ok s"
  shows "ws_ok (forget t s)"
proof -
  have "runningCount (forget t s) \<le> runningCount s"
    by (simp add: runningCount_def forget_def status_of_def filter_filter)
      (rule length_filter_mono, auto)
  then have "limit_ok (forget t s)" using assms by (simp add: ws_ok_def limit_ok_def)
  then show ?thesis using assms
    by (auto simp: ws_ok_def entries_ok_def compilations_ok_def forget_def status_of_def distinct_map
        inj_on_def)
qed

lemma abort_running_simps [simp]:
  "length (abort_running e obs) = length obs"
  "so_id (abort_running e obs ! q) = so_id (obs ! q)"
  "so_status (abort_running e obs ! q) = so_status (obs ! q)"
  by (cases "snd e < length obs";
      simp add: abort_running_def abort_object_def nth_list_update list_update_beyond)+

lemma aborted_length: "length (fold abort_running ss obs) = length obs"
  by (induction ss arbitrary: obs) simp_all

lemma aborted_fields:
  "so_id (fold abort_running ss obs ! q) = so_id (obs ! q) \<and>
   so_status (fold abort_running ss obs ! q) = so_status (obs ! q)"
  by (induction ss arbitrary: obs) simp_all

lemmas aborted_objects = aborted_length aborted_fields [THEN conjunct1] aborted_fields [THEN conjunct2]

lemma ws_ok_close: "ws_ok s \<Longrightarrow> ws_ok (on_close s)"
  by (auto simp: ws_ok_def entries_ok_def compilations_ok_def limit_ok_def runningCount_def
      status_of_def on_close_def aborted_objects)

lemma ws_ok_step: "ws_step s t \<Longrightarrow> ws_ok s \<Longrightarrow> ws_ok t"
proof (induction rule: ws_step.induct)
  case (heartbeat s)
  then show ?case by (auto simp: heartbeat_tick_def intro: ws_ok_cong [THEN iffD2] simp: same_core_def)
next
  case (tick s t)
  then show ?case by (auto intro: ws_ok_cong [THEN iffD2] simp: same_core_def)
qed (simp_all add: ws_ok_message ws_ok_finished ws_ok_forget ws_ok_close)

lemma ws_ok_start: "ws_start s \<Longrightarrow> ws_ok s"
  by (auto simp: ws_start_iff accepted_connection_def ws_ok_def entries_ok_def compilations_ok_def
      limit_ok_def runningCount_def)


section \<open>What the client is told\<close>

fun terminal :: "server_message \<Rightarrow> bool" where
  "terminal (Compile_complete i rules) = True"
| "terminal (Compile_error i e) = True"
| "terminal (Compile_cancelled i) = True"
| "terminal m = False"

text \<open>The final messages of an object, and which of them its status allows.\<close>

definition verdicts :: "nat \<Rightarrow> ws_state \<Rightarrow> server_message list" where
  "verdicts r s = map snd (filter (\<lambda>(q, m). q = Some r \<and> terminal m) (ws_sent s))"

fun may_be_told :: "jstr \<Rightarrow> session_status \<Rightarrow> server_message list \<Rightarrow> bool" where
  "may_be_told i Running ms \<longleftrightarrow> ms = []"
| "may_be_told i Completed ms \<longleftrightarrow> ms = [] \<or> (\<exists>rules. ms = [Compile_complete i rules])"
| "may_be_told i Cancelled ms \<longleftrightarrow> ms = [] \<or> ms = [Compile_cancelled i]"
| "may_be_told i Failed ms \<longleftrightarrow> ms = [] \<or> ms = [Compile_cancelled i] \<or>
     (\<exists>e. ms = [Compile_error i e] \<or> ms = [Compile_cancelled i, Compile_error i e])"

definition told_ok :: "ws_state \<Rightarrow> bool" where
  "told_ok s \<longleftrightarrow> (\<forall>q r m. (q, m) \<in> set (ws_sent s) \<longrightarrow> q = Some r \<longrightarrow> r < length (ws_objects s)) \<and>
     (\<forall>r < length (ws_objects s).
        may_be_told (so_id (ws_objects s ! r)) (status_of s r) (verdicts r s))"

lemma verdicts_send [simp]:
  "verdicts r (sendMessage q m s) =
     verdicts r s @ (if ws_conn s = Open \<and> q = Some r \<and> terminal m then [m] else [])"
  by (simp add: verdicts_def sendMessage_def)

lemma verdicts_sends [simp]:
  "\<not> terminal m \<Longrightarrow> verdicts r ((sendMessage q m ^^ n) s) = verdicts r s"
  by (induction n) simp_all

lemma verdicts_unsent [simp]:
  "verdicts r (forget_at d i s) = verdicts r s" "verdicts r (set_status q st s) = verdicts r s"
  "verdicts r (s\<lparr>ws_compiling := cs\<rparr>) = verdicts r s" "verdicts r (s\<lparr>ws_objects := obs\<rparr>) = verdicts r s"
  by (simp_all add: verdicts_def set_status_def)

lemma sent_send: "set (ws_sent (sendMessage q m s)) \<subseteq> insert (q, m) (set (ws_sent s))"
  by (simp add: sendMessage_def) auto

lemma sent_sends: "set (ws_sent ((sendMessage q m ^^ n) s)) \<subseteq> insert (q, m) (set (ws_sent s))"
  by (induction n) (use sent_send in fastforce)+

lemma told_send:
  assumes "told_ok s" and "\<not> terminal m" and "\<And>r. q = Some r \<Longrightarrow> r < length (ws_objects s)"
  shows "told_ok (sendMessage q m s)"
  using assms by (auto simp: told_ok_def status_of_def sendMessage_def verdicts_def)

lemma told_error: "told_ok s \<Longrightarrow> told_ok (sendError c i s)"
  unfolding sendError_def by (rule told_send) simp_all

lemma told_same:
  "told_ok s \<Longrightarrow> ws_sent t = ws_sent s \<Longrightarrow> ws_objects t = ws_objects s \<Longrightarrow> told_ok t"
  by (simp add: told_ok_def status_of_def verdicts_def)

lemma verdicts_fresh: "told_ok s \<Longrightarrow> length (ws_objects s) \<le> r \<Longrightarrow> verdicts r s = []"
  by (auto simp: told_ok_def verdicts_def filter_empty_conv)

lemma told_compile:
  assumes "told_ok s"
  shows "told_ok (handleCompileRequest sid config s)"
  using assms verdicts_fresh [OF assms order_refl]
  by (auto simp: handleCompileRequest_def sendError_def Let_def told_send nth_append less_Suc_eq
      intro!: told_send) (auto simp: told_ok_def verdicts_def status_of_def nth_append less_Suc_eq)

lemma told_settle:
  assumes "told_ok s" and "settles r s t" and "r < length (ws_objects s)"
    and "set (ws_sent t) \<subseteq> set (ws_sent s) \<union> {Some r} \<times> UNIV"
    and "\<And>q. q \<noteq> r \<Longrightarrow> verdicts q t = verdicts q s"
    and "may_be_told (so_id (ws_objects s ! r)) (status_of t r) (verdicts r t)"
  shows "told_ok t"
  unfolding told_ok_def
proof (intro conjI allI impI)
  fix q q' m assume "(q, m) \<in> set (ws_sent t)" "q = Some q'"
  then show "q' < length (ws_objects t)"
    using assms(1-4) by (auto simp: told_ok_def settles_def)
next
  fix q assume "q < length (ws_objects t)"
  then show "may_be_told (so_id (ws_objects t ! q)) (status_of t q) (verdicts q t)"
    using assms by (cases "q = r") (auto simp: told_ok_def settles_def)
qed

lemma finished_fields:
  assumes "r < length (ws_objects s)"
  shows "verdicts q (compile_finished r result s) =
      verdicts q s @ (if ws_conn s = Open \<and> q = r then
        case result of
          Inl e \<Rightarrow> [Compile_error (so_id (ws_objects s ! r)) e]
        | Inr (rules, d) \<Rightarrow>
            if status_of s r = Cancelled then [] else [Compile_complete (so_id (ws_objects s ! r)) rules]
        else [])"
    and "status_of (compile_finished r result s) r =
      (case result of
         Inl e \<Rightarrow> Failed | Inr x \<Rightarrow> if status_of s r = Cancelled then Cancelled else Completed)"
    and "set (ws_sent (compile_finished r result s)) \<subseteq> set (ws_sent s) \<union> {Some r} \<times> UNIV"
proof -
  show "verdicts q (compile_finished r result s) =
      verdicts q s @ (if ws_conn s = Open \<and> q = r then
        case result of
          Inl e \<Rightarrow> [Compile_error (so_id (ws_objects s ! r)) e]
        | Inr (rules, d) \<Rightarrow>
            if status_of s r = Cancelled then [] else [Compile_complete (so_id (ws_objects s ! r)) rules]
        else [])"
    by (auto simp: compile_finished_def Let_def status_of_def simp del: set_status_simps(6)
        split: sum.split)
  show "status_of (compile_finished r result s) r =
      (case result of
         Inl e \<Rightarrow> Failed | Inr x \<Rightarrow> if status_of s r = Cancelled then Cancelled else Completed)"
    using assms by (auto simp: compile_finished_def Let_def status_of_def split: sum.split)
  show "set (ws_sent (compile_finished r result s)) \<subseteq> set (ws_sent s) \<union> {Some r} \<times> UNIV"
    by (auto simp: compile_finished_def Let_def split: sum.split prod.splits
        dest!: subsetD [OF sent_send] subsetD [OF sent_sends])
qed

lemma told_finished:
  assumes ok: "ws_ok s" and told: "told_ok s" and r: "r \<in> set (ws_compiling s)"
  shows "told_ok (compile_finished r result s)"
proof -
  let ?t = "compile_finished r result s"
  have len: "r < length (ws_objects s)" using ok r by (auto simp: ws_ok_def compilations_ok_def)
  have st: "status_of s r = Running \<or> status_of s r = Cancelled"
    using ok r len by (cases "status_of s r") (auto simp: ws_ok_def compilations_ok_def)
  have before: "may_be_told (so_id (ws_objects s ! r)) (status_of s r) (verdicts r s)"
    using told len by (simp add: told_ok_def)
  note fields = finished_fields [OF len]
  have verdict: "may_be_told (so_id (ws_objects s ! r)) (status_of ?t r) (verdicts r ?t)"
    using st before by (auto simp: fields split: sum.split)
  have others: "verdicts q ?t = verdicts q s" if "q \<noteq> r" for q
    using that by (simp add: fields)
  from finished_cases [OF len, of result] show ?thesis
  proof
    assume "settles r s ?t"
    from told_settle [OF told this len fields(3) others verdict] show ?thesis .
  next
    assume core: "same_core (s\<lparr>ws_compiling := remove1 r (ws_compiling s)\<rparr>) ?t \<and> status_of s r = Cancelled"
    have same: "ws_objects ?t = ws_objects s" "status_of ?t = status_of s"
      using core by (auto simp: same_core_def status_of_def)
    show ?thesis
      unfolding told_ok_def same
    proof (intro conjI allI impI)
      fix q q' m assume "(q, m) \<in> set (ws_sent ?t)" "q = Some q'"
      then show "q' < length (ws_objects s)" using told len fields(3) by (auto simp: told_ok_def)
    next
      fix q assume "q < length (ws_objects s)"
      then show "may_be_told (so_id (ws_objects s ! q)) (status_of s q) (verdicts q ?t)"
        using told others verdict by (cases "q = r") (auto simp: told_ok_def same)
    qed
  qed
qed

lemma told_cancel:
  assumes "ws_ok s" and "told_ok s"
  shows "told_ok (handleCancelRequest sid s)"
proof (cases "map_of (ws_sessions s) sid")
  case None
  then show ?thesis using assms(2) by (simp add: handleCancelRequest_def told_error)
next
  case (Some r)
  have e: "entries_ok s" using assms(1) by (simp add: ws_ok_def)
  then have len: "r < length (ws_objects s)" "so_id (ws_objects s ! r) = sid"
    using Some map_of_SomeD by (fastforce simp: entries_ok_def)+
  show ?thesis
  proof (cases "status_of s r = Running")
    case True
    let ?t = "handleCancelRequest sid s"
    have "verdicts r s = []" using assms(2) True len by (auto simp: told_ok_def)
    moreover have "verdicts q ?t = verdicts q s @ (if ws_conn s = Open \<and> q = r then [Compile_cancelled sid] else [])" for q
      using Some True by (simp add: handleCancelRequest_def del: set_status_simps(6))
    moreover have "status_of ?t r = Cancelled"
      using Some True len by (simp add: handleCancelRequest_def status_of_def)
    moreover have "set (ws_sent ?t) \<subseteq> set (ws_sent s) \<union> {Some r} \<times> UNIV"
      using Some True sent_send by (fastforce simp: handleCancelRequest_def set_status_def)
    ultimately show ?thesis
      using len by (intro told_settle [OF assms(2) cancel_settles [OF Some e True] len(1)]) auto
  next
    case False
    then show ?thesis using Some assms(2) by (simp add: handleCancelRequest_def told_error)
  qed
qed

lemma told_message:
  assumes "ws_ok s" and "told_ok s"
  shows "told_ok (on_message len data s)"
proof -
  have "told_ok (s\<lparr>ws_heartbeat := t\<rparr>)" for t
    using assms(2) by (rule told_same) simp_all
  then show ?thesis using assms
    by (auto simp: on_message_def handleClientMessage_def told_compile told_cancel told_error
        split: option.split client_message.split intro!: told_send)
qed

lemma told_close: "told_ok s \<Longrightarrow> told_ok (on_close s)"
  by (auto simp: told_ok_def on_close_def status_of_def verdicts_def aborted_objects)

lemma told_heartbeat: "told_ok s \<Longrightarrow> told_ok (heartbeat_tick s)"
  by (auto simp: heartbeat_tick_def intro!: told_send intro: told_same)

definition ws_good :: "ws_state \<Rightarrow> bool" where
  "ws_good s \<longleftrightarrow> ws_ok s \<and> told_ok s"

lemma ws_good_step: "ws_step s t \<Longrightarrow> ws_good s \<Longrightarrow> ws_good t"
proof -
  assume step: "ws_step s t" and good: "ws_good s"
  have "told_ok t" using step good
  proof (induction rule: ws_step.induct)
    case (progress r s kind)
    then show ?case by (auto simp: ws_good_def ws_ok_def compilations_ok_def intro!: told_send)
  next
    case (expire t s)
    then show ?case by (auto simp: ws_good_def forget_def intro: told_same)
  next
    case (tick s t)
    then show ?case by (auto simp: ws_good_def intro: told_same)
  qed (simp_all add: ws_good_def told_message told_finished told_close told_heartbeat)
  then show ?thesis using step good ws_ok_step by (simp add: ws_good_def)
qed

lemma ws_good_start: "ws_start s \<Longrightarrow> ws_good s"
  using ws_ok_start
  by (auto simp: ws_good_def ws_start_iff told_ok_def accepted_connection_def sendMessage_def)

interpretation socket_sessions: transition_system ws_start ws_step ws_good
  by unfold_locales (blast intro: ws_good_start ws_good_step)+

definition frame :: "jstr \<Rightarrow> jstr \<Rightarrow> json" where
  "frame kind sid = JObj [(''type'', JStr kind), (''sessionId'', JStr sid), (''configuration'', JObj [])]"


lemma frame_compile: "ClientMessageSchema (frame ''compile'' sid) =
    (if 1 \<le> length sid \<and> length sid \<le> 128 then Some (Compile sid []) else None)"
  by (simp add: frame_def ClientMessageSchema_def compile_message_def message_fields_def optional_def
      session_id_def)

lemma frame_cancel: "ClientMessageSchema (frame ''cancel'' sid) =
    (if 1 \<le> length sid \<and> length sid \<le> 128 then Some (Cancel sid) else None)"
  by (simp add: frame_def ClientMessageSchema_def message_fields_def optional_def session_id_def)

text \<open>The two messages that the examples send.\<close>

definition start_a :: "ws_state \<Rightarrow> ws_state" where
  "start_a s = on_message 90 (Some (frame ''compile'' ''a'')) s"

definition cancel_a :: "ws_state \<Rightarrow> ws_state" where
  "cancel_a s = on_message 90 (Some (frame ''cancel'' ''a'')) s"

lemma a_messages:
  "start_a s = handleCompileRequest ''a'' [] s" "cancel_a s = handleCancelRequest ''a'' s"
  by (simp_all add: start_a_def cancel_a_def on_message_def frame_compile frame_cancel
      MAX_MESSAGE_SIZE_def handleClientMessage_def)

lemma a_steps:
  "ws_conn s \<noteq> Closed \<Longrightarrow> ws_step s (start_a s)" "ws_conn s \<noteq> Closed \<Longrightarrow> ws_step s (cancel_a s)"
  by (simp_all add: start_a_def cancel_a_def ws_step.receive)

lemmas socket_defs = a_messages handleCompileRequest_def handleCancelRequest_def compile_finished_def
  sendMessage_def sendError_def forget_at_def set_status_def forget_def status_of_def
  abort_object_def Let_def runningCount_def MAX_CONCURRENT_COMPILATIONS_def accepted_connection_def


section \<open>What goes wrong\<close>

lemma cancelled_round:
  assumes "ws_conn s = Open" and "ws_sessions s = []" and "ws_timers s = []"
    and "length (ws_objects s) = n" and "length (ws_compiling s) = m"
  shows "\<exists>t. ws_step\<^sup>*\<^sup>* s t \<and> ws_conn t = Open \<and> ws_sessions t = [] \<and> ws_timers t = [] \<and>
    length (ws_objects t) = Suc n \<and> length (ws_compiling t) = Suc m"
proof -
  let ?a = "start_a s" let ?b = "cancel_a ?a"
  let ?c = "?b\<lparr>ws_now := ws_now s + 5000\<rparr>"
  let ?d = "forget (ws_now s + 5000, ''a'') ?c"
  have "ws_step s ?a" by (rule a_steps) (simp add: assms)
  moreover have "ws_step ?a ?b" by (rule a_steps) (simp add: socket_defs assms(1-3))
  moreover have "ws_step ?b ?c" by (rule ws_step.tick) (simp add: socket_defs assms(1-3))
  moreover have "ws_step ?c ?d" by (rule ws_step.expire) (simp_all add: socket_defs assms(1-3))
  ultimately have "ws_step\<^sup>*\<^sup>* s ?d" by (meson converse_rtranclp_into_rtranclp rtranclp.rtrancl_refl)
  moreover have "ws_conn ?d = Open \<and> ws_sessions ?d = [] \<and> ws_timers ?d = [] \<and>
      length (ws_objects ?d) = Suc n \<and> length (ws_compiling ?d) = Suc m"
    by (simp add: socket_defs assms(1-3) assms(4,5) [symmetric])
  ultimately show ?thesis by blast
qed

text \<open>
  The limit on concurrent compilations does not limit compilations: a cancelled session stops
  counting, but its compilation runs on, since the signal to abort is not given to the compiler.
  For every number of compilations a client reaches a state in which so many are running on its
  connection, while no session counts as running.
\<close>

theorem ws_compilations_unbounded:
  "\<exists>s0 s. ws_start s0 \<and> ws_step\<^sup>*\<^sup>* s0 s \<and> ws_conn s = Open \<and> runningCount s = 0 \<and>
     length (ws_compiling s) = n"
proof -
  let ?s0 = "accepted_connection 0"
  have "\<exists>s. ws_step\<^sup>*\<^sup>* ?s0 s \<and> ws_conn s = Open \<and> ws_sessions s = [] \<and> ws_timers s = [] \<and>
      length (ws_objects s) = n \<and> length (ws_compiling s) = n"
  proof (induction n)
    case 0
    show ?case by (rule exI [of _ ?s0]) (simp add: socket_defs)
  next
    case (Suc n)
    then obtain s where s: "ws_step\<^sup>*\<^sup>* ?s0 s" "ws_conn s = Open" "ws_sessions s = []" "ws_timers s = []"
      "length (ws_objects s) = n" "length (ws_compiling s) = n" by blast
    from cancelled_round [OF s(2-6)] s(1) show ?case by (meson rtranclp_trans)
  qed
  moreover have "ws_start ?s0" by (auto simp: ws_start_iff)
  ultimately show ?thesis by (force simp: runningCount_def)
qed

text \<open>
  Two more faults of the sessions.  A client that was told that its session is cancelled may be
  told later that the same session failed.  And the timer that forgets a session deletes whatever
  has its name when it goes off: a running session that reuses the name of a failed one drops out
  of the map, is not counted, and cannot be cancelled.
\<close>

theorem ws_session_faults:
  "(\<exists>s0 s e. ws_start s0 \<and> ws_step\<^sup>*\<^sup>* s0 s \<and> verdicts 0 s = [Compile_cancelled ''a'', Compile_error ''a'' e]) \<and>
   (\<exists>s0 s. ws_start s0 \<and> ws_step\<^sup>*\<^sup>* s0 s \<and> status_of s 1 = Running \<and> ws_conn s = Open \<and>
      ws_sessions s = [] \<and>
      ws_sent (handleCancelRequest (so_id (ws_objects s ! 1)) s) =
        ws_sent s @ [(None, Error_message SESSION_NOT_FOUND (Some (so_id (ws_objects s ! 1))))])"
proof
  let ?s0 = "accepted_connection 0" let ?s1 = "start_a ?s0" let ?s2 = "cancel_a ?s1"
  have start: "ws_start ?s0" by (auto simp: ws_start_iff)
  have "ws_step ?s0 ?s1" by (intro a_steps) (simp add: socket_defs)
  moreover have "ws_step ?s1 ?s2" by (intro a_steps) (simp add: socket_defs)
  ultimately have run: "ws_step\<^sup>*\<^sup>* ?s0 ?s2" by (meson converse_rtranclp_into_rtranclp rtranclp.rtrancl_refl)
  let ?s3 = "compile_finished 0 (Inl ''late'') ?s2"
  have "ws_step ?s2 ?s3" by (rule ws_step.finished) (simp add: socket_defs)
  with run have "ws_step\<^sup>*\<^sup>* ?s0 ?s3" by (rule rtranclp.rtrancl_into_rtrancl)
  moreover have "verdicts 0 ?s3 = [Compile_cancelled ''a'', Compile_error ''a'' ''late'']"
    by (simp add: socket_defs verdicts_def)
  ultimately show "\<exists>s0 s e. ws_start s0 \<and> ws_step\<^sup>*\<^sup>* s0 s \<and>
      verdicts 0 s = [Compile_cancelled ''a'', Compile_error ''a'' e]"
    using start by blast
  let ?t3 = "?s2\<lparr>ws_now := 5000\<rparr>" let ?t4 = "forget (5000, ''a'') ?t3"
  let ?t5 = "compile_finished 0 (Inl ''late'') ?t4"
  let ?t6 = "start_a ?t5" let ?t7 = "?t6\<lparr>ws_now := 65000\<rparr>" let ?t8 = "forget (65000, ''a'') ?t7"
  have "ws_step ?s2 ?t3" by (rule ws_step.tick) (simp add: socket_defs)
  moreover have "ws_step ?t3 ?t4" by (rule ws_step.expire) (simp_all add: socket_defs)
  moreover have "ws_step ?t4 ?t5" by (rule ws_step.finished) (simp add: socket_defs)
  moreover have "ws_step ?t5 ?t6" by (intro a_steps) (simp add: socket_defs)
  moreover have "ws_step ?t6 ?t7" by (rule ws_step.tick) (simp add: socket_defs)
  moreover have "ws_step ?t7 ?t8" by (rule ws_step.expire) (simp_all add: socket_defs)
  ultimately have "ws_step\<^sup>*\<^sup>* ?s2 ?t8"
    by (meson converse_rtranclp_into_rtranclp rtranclp.rtrancl_refl)
  with run have "ws_step\<^sup>*\<^sup>* ?s0 ?t8" by (rule rtranclp_trans)
  moreover have "status_of ?t8 1 = Running \<and> ws_conn ?t8 = Open \<and> ws_sessions ?t8 = [] \<and>
      ws_sent (handleCancelRequest (so_id (ws_objects ?t8 ! 1)) ?t8) =
        ws_sent ?t8 @ [(None, Error_message SESSION_NOT_FOUND (Some (so_id (ws_objects ?t8 ! 1))))]"
    by (simp add: socket_defs)
  ultimately show "\<exists>s0 s. ws_start s0 \<and> ws_step\<^sup>*\<^sup>* s0 s \<and> status_of s 1 = Running \<and> ws_conn s = Open \<and>
      ws_sessions s = [] \<and>
      ws_sent (handleCancelRequest (so_id (ws_objects s ! 1)) s) =
        ws_sent s @ [(None, Error_message SESSION_NOT_FOUND (Some (so_id (ws_objects s ! 1))))]"
    using start by blast
qed

end
