(* ===== verification/CacheKey.thy ===== *)
theory CacheKey
  imports Downloader Schemas "HOL-Library.Char_ord" "HOL-Library.List_Lexorder" "HOL-Library.Multiset"
begin

text \<open>
  The keys under which compilations are cached and deduplicated: \<open>stableStringify\<close> and
  \<open>getCacheKey\<close> of \<open>worker/handlers/queue.ts\<close>.  Keys of objects are ordered as JavaScript orders
  strings, by code units.  \<open>sha256hex\<close> is the hexadecimal SHA-256 digest of a text.
\<close>

section \<open>Texts of values\<close>

definition hex_digit :: "nat \<Rightarrow> char" where
  "hex_digit n = ''0123456789abcdef'' ! n"

definition short_escape :: "char \<Rightarrow> char option" where
  "short_escape =
     map_of [(CHR 0x22, CHR 0x22), (CHR 0x5C, CHR 0x5C), (CHR 0x08, CHR ''b''), (CHR 0x09, CHR ''t''),
       (CHR 0x0A, CHR ''n''), (CHR 0x0C, CHR ''f''), (CHR 0x0D, CHR ''r'')]"

definition json_escape :: "char \<Rightarrow> jstr" where
  "json_escape c =
     (case short_escape c of
        Some e \<Rightarrow> [CHR 0x5C, e]
      | None \<Rightarrow>
          (let n = of_char c :: nat
           in if n < 32 then CHR 0x5C # ''u00'' @ [hex_digit (n div 16), hex_digit (n mod 16)]
              else [c]))"

text \<open>\<open>JSON.stringify\<close> of strings and of numbers without a fraction.\<close>

definition json_string :: "jstr \<Rightarrow> jstr" where
  "json_string s = [CHR 0x22] @ concat (map json_escape s) @ [CHR 0x22]"

definition json_number :: "int \<Rightarrow> jstr" where
  "json_number n = (if n < 0 then ''-'' @ decimal (nat (- n)) else decimal (nat n))"

lemma size_in_array: "x \<in> set xs \<Longrightarrow> size x < size (JArr xs)"
  by (induction xs) auto

lemma size_in_object: "(k, v) \<in> set fs \<Longrightarrow> size v < size (JObj fs)"
  by (induction fs) auto

function (sequential) stableStringify :: "json \<Rightarrow> jstr" where
  "stableStringify JNull = ''null''"
| "stableStringify (JBool b) = (if b then ''true'' else ''false'')"
| "stableStringify (JNum n) = json_number n"
| "stableStringify (JStr s) = json_string s"
| "stableStringify (JArr xs) = ''['' @ join_with '','' (map stableStringify xs) @ '']''"
| "stableStringify (JObj fs) =
     ''{'' @ join_with '','' (map (\<lambda>(k, v). json_string k @ '':'' @ stableStringify v) (sort_key fst fs)) @ ''}''"
  by pat_completeness auto

termination
  by (relation "measure size") (auto dest: size_in_array size_in_object)

definition getCacheKey :: "(jstr \<Rightarrow> jstr) \<Rightarrow> json \<Rightarrow> jstr" where
  "getCacheKey sha256hex config = ''cache:'' @ take 32 (sha256hex (stableStringify config))"

section \<open>Values up to the order of fields\<close>

text \<open>The value with the fields of every object in the order of their keys.\<close>

function (sequential) normal :: "json \<Rightarrow> json" where
  "normal (JArr xs) = JArr (map normal xs)"
| "normal (JObj fs) = JObj (map (\<lambda>(k, v). (k, normal v)) (sort_key fst fs))"
| "normal j = j"
  by pat_completeness auto

termination
  by (relation "measure size") (auto dest: size_in_array size_in_object)

text \<open>The text of a value whose fields are in order.\<close>

fun print_json :: "json \<Rightarrow> jstr" where
  "print_json JNull = ''null''"
| "print_json (JBool b) = (if b then ''true'' else ''false'')"
| "print_json (JNum n) = json_number n"
| "print_json (JStr s) = json_string s"
| "print_json (JArr xs) = ''['' @ join_with '','' (map print_json xs) @ '']''"
| "print_json (JObj fs) =
     ''{'' @ join_with '','' (map (\<lambda>(k, v). json_string k @ '':'' @ print_json v) fs) @ ''}''"

lemma stableStringify_normal: "stableStringify j = print_json (normal j)"
  by (induction j rule: stableStringify.induct)
    (auto simp: intro!: arg_cong [where f = "join_with '',''"])

text \<open>Reordering the fields of an object, whose keys are distinct, does not matter.\<close>

lemma normal_permuted:
  assumes "mset fs = mset gs" and "distinct (map fst fs)"
  shows "normal (JObj fs) = normal (JObj gs)"
proof -
  have "sort_key fst fs = sort_key fst gs"
    using assms by (intro sort_key_inj_key_eq) (simp_all add: distinct_map)
  then show ?thesis by simp
qed

section \<open>The text determines the value\<close>

text \<open>What may follow a value in a text: nothing, or a separator or closing bracket.\<close>

definition at_end :: "jstr \<Rightarrow> bool" where
  "at_end r \<longleftrightarrow> r = [] \<or> hd r \<in> {CHR '','', CHR '']'', CHR ''}''}"

lemma hex_digit_inj: "m < 16 \<Longrightarrow> n < 16 \<Longrightarrow> hex_digit m = hex_digit n \<longleftrightarrow> m = n"
proof -
  have "distinct ''0123456789abcdef''" by simp
  then show "m < 16 \<Longrightarrow> n < 16 \<Longrightarrow> hex_digit m = hex_digit n \<longleftrightarrow> m = n"
    unfolding hex_digit_def by (subst nth_eq_iff_index_eq) simp_all
qed

lemma short_escape_inj: "short_escape c = Some e \<Longrightarrow> short_escape d = Some e \<Longrightarrow> c = d"
  by (auto simp: short_escape_def split: if_splits)

lemma short_escape_not_u: "short_escape c \<noteq> Some (CHR ''u'')"
  by (auto simp: short_escape_def split: if_splits)

lemma short_escape_None: "short_escape c = None \<Longrightarrow> c \<noteq> CHR 0x5C \<and> c \<noteq> CHR 0x22"
  by (auto simp: short_escape_def split: if_splits)

lemma of_char_inj: "(of_char c :: nat) = of_char d \<Longrightarrow> c = d"
  by simp

lemma hex_code_inj:
  assumes "(m :: nat) < 32" and "n < 32"
    and "hex_digit (m div 16) = hex_digit (n div 16)" and "hex_digit (m mod 16) = hex_digit (n mod 16)"
  shows "m = n"
proof -
  have "m div 16 = n div 16" "m mod 16 = n mod 16"
    using assms hex_digit_inj [of "m div 16" "n div 16"] hex_digit_inj [of "m mod 16" "n mod 16"] by simp_all
  then show ?thesis by (metis div_mult_mod_eq)
qed

text \<open>No escape is the start of another one.\<close>

lemma escape_inj:
  assumes eq: "json_escape c @ x = json_escape d @ y"
  shows "c = d \<and> x = y"
proof (cases "short_escape c"; cases "short_escape d")
  fix e e' assume s: "short_escape c = Some e" "short_escape d = Some e'"
  then show ?thesis using eq short_escape_inj [of c e d] by (simp add: json_escape_def)
next
  fix e assume s: "short_escape c = Some e" "short_escape d = None"
  then show ?thesis using eq short_escape_None [OF s(2)] short_escape_not_u [of c]
    by (auto simp: json_escape_def Let_def split: if_splits)
next
  fix e assume s: "short_escape c = None" "short_escape d = Some e"
  then show ?thesis using eq short_escape_None [OF s(1)] short_escape_not_u [of d]
    by (auto simp: json_escape_def Let_def split: if_splits)
next
  assume s: "short_escape c = None" "short_escape d = None"
  then show ?thesis
    using eq short_escape_None [OF s(1)] short_escape_None [OF s(2)]
      hex_code_inj [of "of_char c" "of_char d"]
    by (simp add: json_escape_def Let_def split: if_splits)
qed

lemma quote_not_escape: "CHR 0x22 # r \<noteq> json_escape c @ x"
  using short_escape_None [of c] by (auto simp: json_escape_def Let_def split: option.split)

lemma escapes_inj:
  "concat (map json_escape s) @ CHR 0x22 # r = concat (map json_escape t) @ CHR 0x22 # r' \<Longrightarrow> s = t \<and> r = r'"
proof (induction s t rule: list_induct2')
  case (4 c s d t)
  then have "json_escape c @ concat (map json_escape s) @ CHR 0x22 # r =
      json_escape d @ concat (map json_escape t) @ CHR 0x22 # r'"
    by simp
  from escape_inj [OF this] 4 show ?case by auto
next
  case (2 c s)
  then show ?case using quote_not_escape [of r' c "concat (map json_escape s) @ CHR 0x22 # r"] by simp
next
  case (3 d t)
  then show ?case using quote_not_escape [of r d "concat (map json_escape t) @ CHR 0x22 # r'"] by simp
qed simp

lemma json_string_inj: "json_string s @ r = json_string t @ r' \<Longrightarrow> s = t \<and> r = r'"
  using escapes_inj [of s r t r'] by (simp add: json_string_def)

lemma decimal_digits: "list_all is_digit (decimal n)"
proof (induction n rule: decimal.induct)
  case (1 n)
  have "is_digit (char_of (48 + k))" if "k < 10" for k :: nat
    using that by (simp add: is_digit_def code_in_def)
  then show ?case using 1 by (subst decimal.simps) simp
qed

lemma parse_decimal: "parse_int (decimal n) = n"
proof (induction n rule: decimal.induct)
  case (1 n)
  have "(of_char (char_of (48 + k) :: char) :: nat) = 48 + k" if "k < 10" for k
    using that by simp
  then show ?case using 1 by (subst decimal.simps) (simp add: parse_int_def)
qed

lemma decimal_nonempty: "decimal n \<noteq> []"
  by (subst decimal.simps) simp

lemma decimal_inj:
  assumes "decimal m @ r = decimal n @ r'" and "at_end r" and "at_end r'"
  shows "m = n \<and> r = r'"
proof -
  have "takeWhile is_digit (decimal k @ x) = decimal k" if "at_end x" for k x
    using decimal_digits [of k] that
    by (cases x) (auto simp: list_all_iff takeWhile_append2 at_end_def is_digit_def code_in_def)
  then have "decimal m = decimal n" using assms by metis
  then have "m = n" using parse_decimal by metis
  then show ?thesis using assms(1) by simp
qed

lemma json_number_start:
  "\<exists>c t. json_number n = c # t \<and> (c = CHR ''-'' \<or> is_digit c)"
  using decimal_digits [of "nat n"] decimal_nonempty [of "nat n"]
  by (cases "decimal (nat n)") (auto simp: json_number_def)

lemma json_number_inj:
  assumes eq: "json_number m @ r = json_number n @ r'" and ends: "at_end r" "at_end r'"
  shows "m = n \<and> r = r'"
proof -
  have no_minus: "CHR ''-'' # x \<noteq> decimal k @ y" for x y k
    using decimal_digits [of k] decimal_nonempty [of k]
    by (cases "decimal k") (auto simp: is_digit_def code_in_def)
  show ?thesis
  proof (cases "m < 0"; cases "n < 0")
    assume "m < 0" "n < 0"
    then show ?thesis using eq decimal_inj [OF _ ends, of "nat (- m)" "nat (- n)"]
      by (simp add: json_number_def eq_nat_nat_iff)
  next
    assume "\<not> m < 0" "\<not> n < 0"
    then show ?thesis using eq decimal_inj [OF _ ends, of "nat m" "nat n"]
      by (simp add: json_number_def eq_nat_nat_iff)
  next
    assume "m < 0" "\<not> n < 0"
    then show ?thesis using eq no_minus by (simp add: json_number_def)
  next
    assume "\<not> m < 0" "n < 0"
    then show ?thesis using eq no_minus by (auto simp: json_number_def dest: sym)
  qed
qed

definition injective_at :: "('a \<Rightarrow> jstr) \<Rightarrow> 'a \<Rightarrow> bool" where
  "injective_at p x \<longleftrightarrow> (\<forall>y r r'. p x @ r = p y @ r' \<longrightarrow> at_end r \<longrightarrow> at_end r' \<longrightarrow> x = y \<and> r = r')"

lemma elements_inj:
  assumes "\<forall>x \<in> set xs. injective_at p x" and c: "c \<in> {CHR '']'', CHR ''}''}"
    and start: "\<And>x. \<exists>d t. p x = d # t \<and> d \<noteq> c"
    and "join_with '','' (map p xs) @ c # r = join_with '','' (map p ys) @ c # r'"
  shows "xs = ys \<and> r = r'"
  using assms(1,4)
proof (induction xs ys rule: list_induct2')
  case (2 x xs)
  then show ?case using start [of x] by (cases xs) auto
next
  case (3 y ys)
  then show ?case using start [of y] by (cases ys) auto
next
  case (4 x xs y ys)
  define rest where "rest zs u = (if zs = [] then c # u else '','' @ join_with '','' (map p zs) @ c # u)" for zs u
  have join: "join_with '','' (map p (z # zs)) @ c # u = p z @ rest zs u" for z zs u
    by (cases zs) (simp_all add: rest_def)
  have ends: "at_end (rest zs u)" for zs u using c by (auto simp: at_end_def rest_def)
  from 4 have "p x @ rest xs r = p y @ rest ys r'" by (simp only: join)
  then have xy: "x = y" "rest xs r = rest ys r'"
    using 4(2) ends unfolding injective_at_def by (metis list.set_intros(1))+
  have "c \<noteq> CHR '',''" using c by auto
  then have "join_with '','' (map p xs) @ c # r = join_with '','' (map p ys) @ c # r'"
    using xy(2) by (cases "xs = []"; cases "ys = []") (simp_all add: rest_def)
  then show ?case using 4(1,2) xy(1) by simp
qed simp

text \<open>The constructor shows in the first character.\<close>

fun kind :: "json \<Rightarrow> char \<Rightarrow> bool" where
  "kind JNull c \<longleftrightarrow> c = CHR ''n''"
| "kind (JBool b) c \<longleftrightarrow> c = (if b then CHR ''t'' else CHR ''f'')"
| "kind (JNum n) c \<longleftrightarrow> c = CHR ''-'' \<or> is_digit c"
| "kind (JStr s) c \<longleftrightarrow> c = CHR 0x22"
| "kind (JArr xs) c \<longleftrightarrow> c = CHR ''[''"
| "kind (JObj fs) c \<longleftrightarrow> c = CHR ''{''"

lemma print_kind: "kind j (hd (print_json j)) \<and> print_json j \<noteq> []"
proof (cases j)
  case (JNum n)
  then show ?thesis using json_number_start [of n] by auto
qed (simp_all add: json_string_def)

lemma same_kind: "print_json j @ r = print_json k @ r' \<Longrightarrow> kind k (hd (print_json j))"
  using print_kind [of j] print_kind [of k] by (metis hd_append2)

lemma print_start: "\<exists>d t. print_json j = d # t \<and> d \<noteq> CHR '']'' \<and> d \<noteq> CHR ''}''"
proof (cases "print_json j")
  case (Cons d t)
  then have "kind j d" using print_kind [of j] by simp
  then have "d \<noteq> CHR '']'' \<and> d \<noteq> CHR ''}''"
    by (cases j) (auto simp: is_digit_def code_in_def split: if_splits)
  then show ?thesis using Cons by blast
qed (use print_kind in simp)

definition print_field :: "jstr \<times> json \<Rightarrow> jstr" where
  "print_field f = json_string (fst f) @ '':'' @ print_json (snd f)"

lemma print_object: "print_json (JObj fs) = ''{'' @ join_with '','' (map print_field fs) @ ''}''"
proof -
  have "map (\<lambda>(k, v). json_string k @ '':'' @ print_json v) fs = map print_field fs"
    by (auto simp: print_field_def)
  then show ?thesis by (simp only: print_json.simps)
qed

lemma print_field_inj:
  assumes "injective_at print_json (snd f)"
  shows "injective_at print_field f"
  unfolding injective_at_def
proof (intro allI impI)
  fix g r r' assume eq: "print_field f @ r = print_field g @ r'" and ends: "at_end r" "at_end r'"
  then have "json_string (fst f) @ CHR '':'' # print_json (snd f) @ r =
      json_string (fst g) @ CHR '':'' # print_json (snd g) @ r'"
    by (simp add: print_field_def)
  from json_string_inj [OF this] assms ends show "f = g \<and> r = r'"
    by (auto simp: injective_at_def prod_eq_iff)
qed

lemma print_json_inj: "injective_at print_json j"
proof (induction j rule: print_json.induct)
  case 1
  show ?case unfolding injective_at_def
  proof (intro allI impI)
    fix k r r' assume "print_json JNull @ r = print_json k @ r'"
    moreover from same_kind [OF this] have "k = JNull"
      by (cases k) (auto simp: is_digit_def code_in_def split: if_splits)
    ultimately show "JNull = k \<and> r = r'" by simp
  qed
next
  case (2 b)
  show ?case unfolding injective_at_def
  proof (intro allI impI)
    fix k r r' assume "print_json (JBool b) @ r = print_json k @ r'"
    moreover from same_kind [OF this] have "k = JBool b"
      by (cases k) (auto simp: is_digit_def code_in_def split: if_splits)
    ultimately show "JBool b = k \<and> r = r'" by simp
  qed
next
  case (3 n)
  show ?case unfolding injective_at_def
  proof (intro allI impI)
    fix k r r' assume eq: "print_json (JNum n) @ r = print_json k @ r'" and ends: "at_end r" "at_end r'"
    obtain c t where "json_number n = c # t" "c = CHR ''-'' \<or> is_digit c" using json_number_start by blast
    with same_kind [OF eq] obtain m where "k = JNum m"
      by (cases k) (auto simp: is_digit_def code_in_def split: if_splits)
    with eq json_number_inj [OF _ ends, of n m] show "JNum n = k \<and> r = r'" by simp
  qed
next
  case (4 s)
  show ?case unfolding injective_at_def
  proof (intro allI impI)
    fix k r r' assume eq: "print_json (JStr s) @ r = print_json k @ r'"
    then obtain t where "k = JStr t" using same_kind [OF eq]
      by (cases k) (auto simp: json_string_def is_digit_def code_in_def split: if_splits)
    with eq json_string_inj [of s r t r'] show "JStr s = k \<and> r = r'" by simp
  qed
next
  case (5 xs)
  show ?case unfolding injective_at_def
  proof (intro allI impI)
    fix k r r' assume eq: "print_json (JArr xs) @ r = print_json k @ r'"
    then obtain ys where k: "k = JArr ys" using same_kind [OF eq]
      by (cases k) (auto simp: is_digit_def code_in_def split: if_splits)
    then have "join_with '','' (map print_json xs) @ CHR '']'' # r = join_with '','' (map print_json ys) @ CHR '']'' # r'"
      using eq by simp
    from elements_inj [OF _ _ _ this] 5 print_start show "JArr xs = k \<and> r = r'" using k by blast
  qed
next
  case (6 fs)
  have inj: "\<forall>f \<in> set fs. injective_at print_field f" using 6 print_field_inj by force
  have start: "\<exists>d t. print_field f = d # t \<and> d \<noteq> CHR ''}''" for f
    by (simp add: print_field_def json_string_def)
  show ?case unfolding injective_at_def
  proof (intro allI impI)
    fix k r r' assume eq: "print_json (JObj fs) @ r = print_json k @ r'"
    then obtain gs where k: "k = JObj gs" using same_kind [OF eq]
      by (cases k) (auto simp: is_digit_def code_in_def split: if_splits)
    then have "join_with '','' (map print_field fs) @ CHR ''}'' # r = join_with '','' (map print_field gs) @ CHR ''}'' # r'"
      using eq by (simp only: print_object append_assoc) simp
    from elements_inj [OF inj _ start this] show "JObj fs = k \<and> r = r'" using k by blast
  qed
qed

text \<open>
  C27. The text under which a configuration is hashed stands for the configuration: two values have
  the same text exactly when they differ at most in the order of the fields of their objects.  So
  two requests share a cache entry exactly if their configurations agree, digests apart; and
  reordering the fields of an object with distinct keys does not change its cache key.
\<close>

theorem cache_key_canonical:
  assumes "mset fs = mset gs" and "distinct (map fst fs)"
  shows "(stableStringify a = stableStringify b \<longleftrightarrow> normal a = normal b) \<and>
    getCacheKey sha256hex (JObj fs) = getCacheKey sha256hex (JObj gs)"
proof
  have "normal a = normal b" if "print_json (normal a) = print_json (normal b)"
    using print_json_inj [of "normal a"] that unfolding injective_at_def
    by (metis append_Nil2 at_end_def)
  then show "stableStringify a = stableStringify b \<longleftrightarrow> normal a = normal b"
    by (auto simp: stableStringify_normal)
  show "getCacheKey sha256hex (JObj fs) = getCacheKey sha256hex (JObj gs)"
    using normal_permuted [OF assms] by (simp add: getCacheKey_def stableStringify_normal)
qed

theorem cache_key_canonical_witness:
  "getCacheKey rev (JObj [(''name'', JStr ''x''), (''version'', JNull)]) =
     getCacheKey rev (JObj [(''version'', JNull), (''name'', JStr ''x'')]) \<and>
   stableStringify (JArr [JStr [CHR 0x22]]) \<noteq> stableStringify (JArr [JStr [CHR 0x5C, CHR 0x22]])"
  using cache_key_canonical [of "[(''name'', JStr ''x''), (''version'', JNull)]"
      "[(''version'', JNull), (''name'', JStr ''x'')]" "JArr [JStr [CHR 0x22]]"
      "JArr [JStr [CHR 0x5C, CHR 0x22]]" rev]
  by simp

end
