(* ===== verification/Queue.thy ===== *)
theory Queue
  imports CacheKey Access
begin

text \<open>
  The consumer of the compilation queue (\<open>worker/handlers/queue.ts\<close>): the statistics in the
  key-value store \<open>METRICS\<close>, single, batch and cache-warming jobs, and the handler of a batch of
  messages.  Times are milliseconds, and \<open>Math.round\<close> of a quotient is computed exactly.

  A call to the platform is numbered, and the record \<open>platform\<close> says how the call of each number is
  answered: when, whether the store is available, what the compiler returns and, where
  several jobs run at the same time, whose call is answered next.  Theorems about all platforms
  are therefore theorems about all interleavings and all failures.  Configurations are JSON
  values; results are stored compressed, which is the identity here; logging is left out.
\<close>

section \<open>Statistics\<close>

datatype job_status = Job_Completed | Job_Failed | Job_Cancelled

record job_entry =
  je_requestId :: jstr
  je_configName :: jstr
  je_status :: job_status
  je_duration :: int
  je_timestamp :: int
  je_error :: "jstr option"
  je_ruleCount :: "nat option"
  je_cacheKey :: "jstr option"

record depth_entry =
  de_timestamp :: int
  de_pending :: int

record queue_stats =
  qs_pending :: int
  qs_completed :: int
  qs_failed :: int
  qs_cancelled :: int
  qs_totalProcessingTime :: int
  qs_averageProcessingTime :: int
  qs_processingRate :: nat
  qs_queueLag :: int
  qs_lastUpdate :: int
  qs_history :: "job_entry list"
  qs_depthHistory :: "depth_entry list"

record job_info =
  ji_requestId :: "jstr option"
  ji_configName :: "jstr option"
  ji_error :: "jstr option"
  ji_ruleCount :: "nat option"
  ji_cacheKey :: "jstr option"

definition createEmptyQueueStats :: "int \<Rightarrow> queue_stats" where
  "createEmptyQueueStats now =
     \<lparr>qs_pending = 0, qs_completed = 0, qs_failed = 0, qs_cancelled = 0, qs_totalProcessingTime = 0,
      qs_averageProcessingTime = 0, qs_processingRate = 0, qs_queueLag = 0, qs_lastUpdate = now,
      qs_history = [], qs_depthHistory = []\<rparr>"

definition round_div :: "int \<Rightarrow> int \<Rightarrow> int" where
  "round_div a b = (2 * a + b) div (2 * b)"

datatype stats_event = Enqueued | Completed | Failed | Cancelled

definition or_unknown :: "jstr option \<Rightarrow> jstr" where
  "or_unknown name = (case name of None \<Rightarrow> ''Unknown'' | Some n \<Rightarrow> if n = [] then ''Unknown'' else n)"

definition or_zero :: "int option \<Rightarrow> int" where
  "or_zero t = (case t of None \<Rightarrow> 0 | Some n \<Rightarrow> n)"

definition history_entry :: "stats_event \<Rightarrow> int option \<Rightarrow> int \<Rightarrow> jstr \<Rightarrow> job_info \<Rightarrow> job_entry" where
  "history_entry event time now requestId info =
     \<lparr>je_requestId = requestId, je_configName = or_unknown (ji_configName info),
      je_status = (case event of Failed \<Rightarrow> Job_Failed | Cancelled \<Rightarrow> Job_Cancelled | _ \<Rightarrow> Job_Completed),
      je_duration = (if event = Cancelled then 0 else or_zero time), je_timestamp = now,
      je_error = (if event = Failed then ji_error info else None),
      je_ruleCount = (if event = Completed then ji_ruleCount info else None),
      je_cacheKey = (if event = Completed then ji_cacheKey info else None)\<rparr>"

definition add_history ::
  "stats_event \<Rightarrow> int option \<Rightarrow> int \<Rightarrow> job_info option \<Rightarrow> queue_stats \<Rightarrow> queue_stats" where
  "add_history event time now jobInfo s =
     (case jobInfo of
        None \<Rightarrow> s
      | Some info \<Rightarrow>
          (case ji_requestId info of
             None \<Rightarrow> s
           | Some requestId \<Rightarrow>
               if requestId = [] then s
               else s\<lparr>qs_history := take 50 (history_entry event time now requestId info # qs_history s)\<rparr>))"

definition add_depth :: "int \<Rightarrow> queue_stats \<Rightarrow> queue_stats" where
  "add_depth now s =
     (let ds = qs_depthHistory s @ [\<lparr>de_timestamp = now, de_pending = qs_pending s\<rparr>]
      in s\<lparr>qs_depthHistory := if 100 < length ds then tl ds else ds\<rparr>)"

definition count_completed :: "int option \<Rightarrow> int \<Rightarrow> queue_stats \<Rightarrow> queue_stats" where
  "count_completed time amount s =
     (let completed = qs_completed s + amount; total = qs_totalProcessingTime s + or_zero time
      in s\<lparr>qs_pending := max 0 (qs_pending s - amount), qs_completed := completed,
           qs_totalProcessingTime := total,
           qs_averageProcessingTime :=
             if 0 < completed then round_div total completed else qs_averageProcessingTime s\<rparr>)"

fun count_event ::
  "stats_event \<Rightarrow> int option \<Rightarrow> int \<Rightarrow> job_info option \<Rightarrow> int \<Rightarrow> queue_stats \<Rightarrow> queue_stats" where
  "count_event Enqueued time amount jobInfo now s = add_depth now (s\<lparr>qs_pending := qs_pending s + amount\<rparr>)"
| "count_event Completed time amount jobInfo now s =
     add_history Completed time now jobInfo (count_completed time amount s)"
| "count_event Failed time amount jobInfo now s =
     add_history Failed time now jobInfo
       (s\<lparr>qs_pending := max 0 (qs_pending s - amount), qs_failed := qs_failed s + amount\<rparr>)"
| "count_event Cancelled time amount jobInfo now s =
     add_history Cancelled time now jobInfo
       (s\<lparr>qs_pending := max 0 (qs_pending s - amount), qs_cancelled := qs_cancelled s + amount\<rparr>)"

definition health_metrics :: "int \<Rightarrow> queue_stats \<Rightarrow> queue_stats" where
  "health_metrics now s =
     (let recent = length (filter (\<lambda>job. now - 60000 < je_timestamp job) (qs_history s));
          depths = map de_pending (qs_depthHistory s)
      in s\<lparr>qs_processingRate := recent,
           qs_queueLag :=
             if 1 < length depths \<and> 0 < recent
             then round_div (60000 * sum_list depths) (int (length depths) * int recent)
             else qs_queueLag s,
           qs_lastUpdate := now\<rparr>)"

definition updated_stats ::
  "stats_event \<Rightarrow> int option \<Rightarrow> int \<Rightarrow> job_info option \<Rightarrow> int \<Rightarrow> queue_stats \<Rightarrow> queue_stats" where
  "updated_stats event time amount jobInfo now s =
     health_metrics now (count_event event time (if amount \<le> 0 then 1 else amount) jobInfo now s)"

section \<open>The platform\<close>

record compiled =
  cp_rules :: lines
  cp_metrics :: "json option"

record compilation_result =
  cr_rules :: "lines option"
  cr_ruleCount :: "nat option"
  cr_metrics :: "json option"
  cr_compiledAt :: int

type_synonym prefetched = "(jstr \<times> jstr) list option"

record platform =
  pf_now :: "nat \<Rightarrow> int"
  pf_available :: "nat \<Rightarrow> bool"
  pf_compile :: "nat \<Rightarrow> json \<Rightarrow> prefetched \<Rightarrow> bool \<Rightarrow> jstr + compiled"
  pf_turn :: "nat \<Rightarrow> nat"
  pf_random :: "nat \<Rightarrow> jstr"
  pf_digest :: "jstr \<Rightarrow> jstr"

record queue_world =
  qw_calls :: nat
  qw_stats :: "(queue_stats \<times> int) option"
  qw_cache :: "jstr \<rightharpoonup> compilation_result \<times> int"
  qw_cancels :: "jstr \<rightharpoonup> int \<times> int"

definition now_at :: "platform \<Rightarrow> queue_world \<Rightarrow> int" where
  "now_at P w = pf_now P (qw_calls w)"

definition up_at :: "platform \<Rightarrow> queue_world \<Rightarrow> bool" where
  "up_at P w = pf_available P (qw_calls w)"

definition answered :: "queue_world \<Rightarrow> queue_world" where
  "answered w = w\<lparr>qw_calls := Suc (qw_calls w)\<rparr>"

text \<open>An entry of a store is there until it expires.\<close>

definition live :: "int \<Rightarrow> ('a \<times> int) option \<Rightarrow> 'a option" where
  "live now e = (case e of None \<Rightarrow> None | Some (v, expires) \<Rightarrow> if now < expires then Some v else None)"

definition CACHE_TTL :: int where
  "CACHE_TTL = 3600"

definition STATS_TTL :: int where
  "STATS_TTL = 86400"

text \<open>\<open>updateQueueStats\<close> reads the statistics and writes them back in a second call; \<open>None\<close> is a
  read that failed, which ends the update.\<close>

definition read_for_update ::
  "platform \<Rightarrow> stats_event \<Rightarrow> int option \<Rightarrow> int \<Rightarrow> job_info option \<Rightarrow> queue_world \<Rightarrow> queue_stats option" where
  "read_for_update P event time amount jobInfo w =
     (let now = now_at P (answered w)
      in if up_at P w then
           Some (updated_stats event time amount jobInfo now
             (case live now (qw_stats w) of None \<Rightarrow> createEmptyQueueStats now | Some s \<Rightarrow> s))
         else None)"

definition write_stats :: "platform \<Rightarrow> queue_stats \<Rightarrow> queue_world \<Rightarrow> queue_world" where
  "write_stats P s w =
     (if up_at P w
      then answered (w\<lparr>qw_stats := Some (s, now_at P (answered w) + STATS_TTL * 1000)\<rparr>)
      else answered w)"

definition updateQueueStats ::
  "platform \<Rightarrow> stats_event \<Rightarrow> int option \<Rightarrow> int \<Rightarrow> job_info option \<Rightarrow> queue_world \<Rightarrow> queue_world" where
  "updateQueueStats P event time amount jobInfo w =
     (case read_for_update P event time amount jobInfo w of
        None \<Rightarrow> answered w
      | Some s \<Rightarrow> write_stats P s (answered w))"

definition getQueueStats :: "platform \<Rightarrow> queue_world \<Rightarrow> queue_world \<times> queue_stats" where
  "getQueueStats P w =
     (let now = now_at P (answered w)
      in (answered w,
          case (if up_at P w then live now (qw_stats w) else None) of
            None \<Rightarrow> createEmptyQueueStats now
          | Some s \<Rightarrow> s))"

section \<open>One compilation\<close>

record compile_job =
  cj_requestId :: "jstr option"
  cj_configuration :: json
  cj_preFetched :: prefetched
  cj_benchmark :: "bool option"

definition config_name :: "json \<Rightarrow> jstr option" where
  "config_name c = (case c of JObj fs \<Rightarrow> text_field ''name'' fs | _ \<Rightarrow> None)"

definition job_cache_key :: "platform \<Rightarrow> compile_job \<Rightarrow> jstr option" where
  "job_cache_key P job =
     (if cj_preFetched job = None \<or> cj_preFetched job = Some []
      then Some (getCacheKey (pf_digest P) (cj_configuration job)) else None)"

definition success_info :: "platform \<Rightarrow> compile_job \<Rightarrow> compiled \<Rightarrow> job_info" where
  "success_info P job r =
     \<lparr>ji_requestId = cj_requestId job, ji_configName = config_name (cj_configuration job),
      ji_error = None, ji_ruleCount = Some (length (cp_rules r)), ji_cacheKey = job_cache_key P job\<rparr>"

definition failure_info :: "compile_job \<Rightarrow> jstr \<Rightarrow> job_info" where
  "failure_info job e =
     \<lparr>ji_requestId = cj_requestId job, ji_configName = config_name (cj_configuration job),
      ji_error = Some e, ji_ruleCount = None, ji_cacheKey = None\<rparr>"

text \<open>
  Where \<open>processCompileMessage\<close> waits: for the compiler, for the cache, for the read and for the
  write of the statistics.  The last field of the later phases is the error it will throw.
\<close>

datatype job_phase =
    Compiling int
  | Storing int compiled
  | Reading stats_event int job_info "jstr option"
  | Writing queue_stats "jstr option"
  | Settled "jstr option"

definition stored_result :: "int \<Rightarrow> compiled \<Rightarrow> compilation_result" where
  "stored_result now r =
     \<lparr>cr_rules = Some (cp_rules r), cr_ruleCount = Some (length (cp_rules r)),
      cr_metrics = cp_metrics r, cr_compiledAt = now\<rparr>"

definition store_result :: "platform \<Rightarrow> compile_job \<Rightarrow> compiled \<Rightarrow> queue_world \<Rightarrow> queue_world" where
  "store_result P job r w =
     (case job_cache_key P job of
        Some key \<Rightarrow>
          if up_at P w
          then answered (w\<lparr>qw_cache := (qw_cache w)
                 (key \<mapsto> (stored_result (now_at P w) r, now_at P (answered w) + CACHE_TTL * 1000))\<rparr>)
          else answered w
      | None \<Rightarrow> answered w)"

fun job_step :: "platform \<Rightarrow> compile_job \<Rightarrow> queue_world \<Rightarrow> job_phase \<Rightarrow> queue_world \<times> job_phase" where
  "job_step P job w (Compiling start) =
     (let w' = answered w; duration = now_at P w' - start
      in case pf_compile P (qw_calls w) (cj_configuration job) (cj_preFetched job)
             (cj_benchmark job = Some True) of
           Inl e \<Rightarrow> (w', Reading Failed duration (failure_info job e) (Some e))
         | Inr r \<Rightarrow>
             if job_cache_key P job \<noteq> None then (w', Storing start r)
             else (w', Reading Completed duration (success_info P job r) None))"
| "job_step P job w (Storing start r) =
     (let w' = store_result P job r w
      in (w', Reading Completed (now_at P w' - start) (success_info P job r) None))"
| "job_step P job w (Reading event duration info e) =
     (answered w,
      case read_for_update P event (Some duration) 1 (Some info) w of
        None \<Rightarrow> Settled e
      | Some s \<Rightarrow> Writing s e)"
| "job_step P job w (Writing s e) = (write_stats P s w, Settled e)"
| "job_step P job w (Settled e) = (w, Settled e)"

section \<open>Jobs at the same time\<close>

fun settled :: "job_phase \<Rightarrow> bool" where
  "settled (Settled e) = True" | "settled _ = False"

fun job_error :: "job_phase \<Rightarrow> jstr option" where
  "job_error (Settled e) = e" | "job_error _ = None"

fun steps_left :: "job_phase \<Rightarrow> nat" where
  "steps_left (Compiling _) = 4"
| "steps_left (Storing _ _) = 3"
| "steps_left (Reading _ _ _ _) = 2"
| "steps_left (Writing _ _) = 1"
| "steps_left (Settled _) = 0"

type_synonym running = "(compile_job \<times> job_phase) list"

definition waiting :: "running \<Rightarrow> nat list" where
  "waiting xs = filter (\<lambda>i. \<not> settled (snd (xs ! i))) [0..<length xs]"

definition next_job :: "platform \<Rightarrow> queue_world \<Rightarrow> running \<Rightarrow> nat" where
  "next_job P w xs = waiting xs ! (pf_turn P (qw_calls w) mod length (waiting xs))"

lemma next_job_waiting: "waiting xs \<noteq> [] \<Longrightarrow> next_job P w xs < length xs \<and> \<not> settled (snd (xs ! next_job P w xs))"
proof -
  assume "waiting xs \<noteq> []"
  then have "next_job P w xs \<in> set (waiting xs)" by (simp add: next_job_def)
  then show ?thesis by (simp add: waiting_def)
qed

lemma job_step_progress: "\<not> settled p \<Longrightarrow> steps_left (snd (job_step P job w p)) < steps_left p"
  by (cases p) (auto simp: Let_def split: sum.split option.split)

lemma sum_list_update_less:
  "i < length xs \<Longrightarrow> f y < f (xs ! i) \<Longrightarrow> sum_list (map f (xs[i := y])) < (sum_list (map f xs) :: nat)"
  by (induction xs arbitrary: i) (auto split: nat.split)

text \<open>\<open>Promise.allSettled\<close>: the jobs run until every one has settled.\<close>

function run_jobs :: "platform \<Rightarrow> queue_world \<Rightarrow> running \<Rightarrow> queue_world \<times> jstr option list" where
  "run_jobs P w xs =
     (if waiting xs = [] then (w, map (job_error \<circ> snd) xs)
      else let i = next_job P w xs; job = fst (xs ! i); step = job_step P job w (snd (xs ! i))
           in run_jobs P (fst step) (xs[i := (job, snd step)]))"
  by pat_completeness auto

termination
proof (relation "measure (\<lambda>(P, w, xs). sum_list (map (steps_left \<circ> snd) xs))")
  fix P w xs i job step
  assume "waiting xs \<noteq> []" and "i = next_job P w xs" and "job = fst (xs ! i)"
    and "step = job_step P job w (snd (xs ! i))"
  then show "((P, fst step, xs[i := (job, snd step)]), P, w, xs) \<in>
      measure (\<lambda>(P, w, xs). sum_list (map (steps_left \<circ> snd) xs))"
    using next_job_waiting [of xs P w] job_step_progress [of "snd (xs ! i)" P job w]
    by (auto intro!: sum_list_update_less)
qed simp

declare run_jobs.simps [simp del]

definition start_jobs :: "platform \<Rightarrow> queue_world \<Rightarrow> compile_job list \<Rightarrow> queue_world \<times> jstr option list" where
  "start_jobs P w jobs = run_jobs P w (map (\<lambda>job. (job, Compiling (now_at P w))) jobs)"

definition processCompileMessage :: "platform \<Rightarrow> queue_world \<Rightarrow> compile_job \<Rightarrow> queue_world \<times> jstr option" where
  "processCompileMessage P w job = (let (w', es) = start_jobs P w [job] in (w', hd es))"

section \<open>Chunks\<close>

record chunk_stats =
  ch_successful :: nat
  ch_failed :: nat
  ch_failures :: "(jstr \<times> jstr) list"

definition item_id :: "('a \<Rightarrow> jstr) option \<Rightarrow> nat \<Rightarrow> 'a \<Rightarrow> jstr" where
  "item_id getItemId i item = (case getItemId of Some f \<Rightarrow> f item | None \<Rightarrow> ''item-'' @ decimal i)"

fun count_results :: "('a \<Rightarrow> jstr) option \<Rightarrow> nat \<Rightarrow> ('a \<times> jstr option) list \<Rightarrow> chunk_stats \<Rightarrow> chunk_stats" where
  "count_results getItemId i [] stats = stats"
| "count_results getItemId i ((item, None) # rs) stats =
     count_results getItemId (Suc i) rs (stats\<lparr>ch_successful := Suc (ch_successful stats)\<rparr>)"
| "count_results getItemId i ((item, Some e) # rs) stats =
     count_results getItemId (Suc i) rs
       (stats\<lparr>ch_failed := Suc (ch_failed stats),
          ch_failures := ch_failures stats @ [(item_id getItemId i item, e)]\<rparr>)"

partial_function (option) chunks_from ::
  "('w \<Rightarrow> 'a list \<Rightarrow> 'w \<times> jstr option list) \<Rightarrow> ('a \<Rightarrow> jstr) option \<Rightarrow> nat \<Rightarrow> 'a list \<Rightarrow>
   nat \<Rightarrow> 'w \<Rightarrow> chunk_stats \<Rightarrow> ('w \<times> chunk_stats) option" where
  "chunks_from settle getItemId chunkSize items i w stats =
     (if i < length items then
        (let chunk = take chunkSize (drop i items); (w', results) = settle w chunk
         in chunks_from settle getItemId chunkSize items (i + chunkSize) w'
              (count_results getItemId i (zip chunk results) stats))
      else Some (w, stats))"

declare chunks_from.simps [code]

definition no_results :: chunk_stats where
  "no_results = \<lparr>ch_successful = 0, ch_failed = 0, ch_failures = []\<rparr>"

definition processInChunks ::
  "('w \<Rightarrow> 'a list \<Rightarrow> 'w \<times> jstr option list) \<Rightarrow> ('a \<Rightarrow> jstr) option \<Rightarrow> nat \<Rightarrow> 'a list \<Rightarrow> 'w \<Rightarrow>
   ('w \<times> chunk_stats) option" where
  "processInChunks settle getItemId chunkSize items w =
     chunks_from settle getItemId chunkSize items 0 w no_results"

section \<open>Messages\<close>

record batch_request =
  bq_id :: jstr
  bq_configuration :: json
  bq_preFetched :: prefetched
  bq_benchmark :: "bool option"

definition batch_job :: "batch_request \<Rightarrow> compile_job" where
  "batch_job req =
     \<lparr>cj_requestId = Some (bq_id req), cj_configuration = bq_configuration req,
      cj_preFetched = bq_preFetched req, cj_benchmark = bq_benchmark req\<rparr>"

definition shown_name :: "json \<Rightarrow> jstr" where
  "shown_name c = (case config_name c of None \<Rightarrow> ''undefined'' | Some n \<Rightarrow> n)"

definition partly_failed :: "jstr \<Rightarrow> jstr \<Rightarrow> nat \<Rightarrow> chunk_stats \<Rightarrow> jstr option" where
  "partly_failed what items batchSize stats =
     (if 0 < ch_failed stats then
        Some (what @ '' partially failed: '' @ decimal (ch_failed stats) @ ''/'' @ decimal batchSize @ '' '' @
          items @ '' failed. Failures: '' @ join_with '', '' (map fst (ch_failures stats)))
      else None)"

definition processBatchCompileMessage ::
  "platform \<Rightarrow> queue_world \<Rightarrow> batch_request list \<Rightarrow> (queue_world \<times> jstr option) option" where
  "processBatchCompileMessage P w reqs =
     map_option (\<lambda>(w', stats). (w', partly_failed ''Batch'' ''items'' (length reqs) stats))
       (processInChunks (\<lambda>w chunk. start_jobs P w (map batch_job chunk))
          (Some (shown_name \<circ> bq_configuration)) 3 reqs w)"

definition generateRequestId :: "platform \<Rightarrow> queue_world \<Rightarrow> nat \<Rightarrow> jstr \<Rightarrow> jstr" where
  "generateRequestId P w i kind_text =
     kind_text @ ''-'' @ json_number (now_at P w) @ ''-'' @ pf_random P (qw_calls w + i)"

definition warm_jobs :: "platform \<Rightarrow> queue_world \<Rightarrow> json list \<Rightarrow> compile_job list" where
  "warm_jobs P w configurations =
     map (\<lambda>(i, c). \<lparr>cj_requestId = Some (generateRequestId P w i ''cache-warm''), cj_configuration = c,
        cj_preFetched = None, cj_benchmark = Some False\<rparr>) (List.enumerate 0 configurations)"

definition processCacheWarmMessage ::
  "platform \<Rightarrow> queue_world \<Rightarrow> json list \<Rightarrow> (queue_world \<times> jstr option) option" where
  "processCacheWarmMessage P w configurations =
     map_option
       (\<lambda>(w', stats). (w', partly_failed ''Cache warming'' ''configs'' (length configurations) stats))
       (processInChunks (\<lambda>w cs. start_jobs P w (warm_jobs P w cs)) (Some shown_name) 3 configurations w)"

datatype queue_message =
    Compile_Message compile_job
  | Batch_Message "batch_request list"
  | Warm_Message "json list"
  | Other_Message jstr

datatype verdict = Ack | Retry

definition process_message :: "platform \<Rightarrow> queue_world \<Rightarrow> queue_message \<Rightarrow> (queue_world \<times> jstr option) option" where
  "process_message P w msg =
     (case msg of
        Compile_Message job \<Rightarrow> Some (processCompileMessage P w job)
      | Batch_Message reqs \<Rightarrow> processBatchCompileMessage P w reqs
      | Warm_Message configurations \<Rightarrow> processCacheWarmMessage P w configurations
      | Other_Message _ \<Rightarrow> Some (w, None))"

fun handleQueue :: "platform \<Rightarrow> queue_world \<Rightarrow> queue_message list \<Rightarrow> (queue_world \<times> verdict list) option" where
  "handleQueue P w [] = Some (w, [])"
| "handleQueue P w (msg # msgs) =
     (case process_message P w msg of
        None \<Rightarrow> None
      | Some (w', e) \<Rightarrow>
          map_option (\<lambda>(w'', vs). (w'', (if e = None then Ack else Retry) # vs)) (handleQueue P w' msgs))"

section \<open>Chunks settle every item\<close>

definition failing :: "('a \<times> jstr option) list \<Rightarrow> nat" where
  "failing rs = length (filter (\<lambda>r. snd r \<noteq> None) rs)"

lemma count_results_counts:
  "ch_failed (count_results getItemId i rs stats) = ch_failed stats + failing rs \<and>
   ch_successful (count_results getItemId i rs stats) + failing rs = ch_successful stats + length rs"
  by (induction getItemId i rs stats rule: count_results.induct) (auto simp: failing_def)

lemma count_results_names:
  "map fst (ch_failures (count_results (Some f) i rs stats)) =
     map fst (ch_failures stats) @ map (f \<circ> fst) (filter (\<lambda>r. snd r \<noteq> None) rs)"
  by (induction "Some f" i rs stats rule: count_results.induct) (auto simp: item_id_def)

lemma count_results_append:
  "count_results getItemId i (rs @ rs') stats =
     count_results getItemId (i + length rs) rs' (count_results getItemId i rs stats)"
  by (induction getItemId i rs stats rule: count_results.induct) auto

text \<open>
  The contract of a runner of chunks: an outcome for every item, in order.  \<open>I\<close> is an invariant
  of the state that running a chunk keeps, and \<open>R\<close> relates each item to its outcome.
\<close>

locale chunk_runner =
  fixes settle :: "'w \<Rightarrow> 'a list \<Rightarrow> 'w \<times> jstr option list"
    and I :: "'w \<Rightarrow> bool" and R :: "'a \<Rightarrow> jstr option \<Rightarrow> bool"
  assumes outcomes: "I w \<Longrightarrow> list_all2 R xs (snd (settle w xs))"
    and kept: "I w \<Longrightarrow> I (fst (settle w xs))"
begin

lemma chunks_settle:
  assumes "0 < chunkSize" and "I w"
  shows "\<exists>w' rs. I w' \<and> list_all2 R (drop i items) rs \<and>
    chunks_from settle getItemId chunkSize items i w stats =
      Some (w', count_results getItemId i (zip (drop i items) rs) stats)"
  using assms(2)
proof (induction "length items - i" arbitrary: i w stats rule: less_induct)
  case less
  show ?case
  proof (cases "i < length items")
    case False
    then show ?thesis using less.prems by (subst chunks_from.simps) auto
  next
    case True
    define chunk where "chunk = take chunkSize (drop i items)"
    obtain w1 rs1 where run: "settle w chunk = (w1, rs1)" by fastforce
    have rs1: "list_all2 R chunk rs1" and w1: "I w1"
      using outcomes [OF less.prems, of chunk] kept [OF less.prems, of chunk] run by simp_all
    have len: "length rs1 = length chunk" using rs1 by (simp add: list_all2_lengthD)
    obtain w' rs where rest: "I w'" "list_all2 R (drop (i + chunkSize) items) rs"
      "chunks_from settle getItemId chunkSize items (i + chunkSize) w1
         (count_results getItemId i (zip chunk rs1) stats) =
       Some (w', count_results getItemId (i + chunkSize) (zip (drop (i + chunkSize) items) rs)
         (count_results getItemId i (zip chunk rs1) stats))"
      using less.hyps [OF _ w1, of "i + chunkSize" "count_results getItemId i (zip chunk rs1) stats"]
        True assms(1) by fastforce
    have split: "drop i items = chunk @ drop (i + chunkSize) items"
      by (simp add: chunk_def add.commute flip: drop_drop)
    have all: "list_all2 R (drop i items) (rs1 @ rs)"
      unfolding split by (rule list_all2_appendI) (use rs1 rest in auto)
    have join: "count_results getItemId i (zip (drop i items) (rs1 @ rs)) stats =
      count_results getItemId (i + chunkSize) (zip (drop (i + chunkSize) items) rs)
        (count_results getItemId i (zip chunk rs1) stats)"
    proof (cases "drop (i + chunkSize) items")
      case Nil
      then have "rs = []" using rest(2) by simp
      then show ?thesis using Nil split by simp
    next
      case (Cons x xs)
      then have "i + chunkSize < length items" by (cases "i + chunkSize < length items") auto
      then have "length chunk = chunkSize" by (simp add: chunk_def)
      then show ?thesis unfolding split by (simp add: len zip_append1 count_results_append)
    qed
    have "chunks_from settle getItemId chunkSize items i w stats =
      Some (w', count_results getItemId i (zip (drop i items) (rs1 @ rs)) stats)"
      by (subst chunks_from.simps) (simp add: True run rest(3) join flip: chunk_def)
    then show ?thesis using rest(1) all by blast
  qed
qed

lemma all_settle:
  assumes "0 < chunkSize" and "I w"
  obtains w' rs where "I w'" and "list_all2 R items rs"
    and "processInChunks settle getItemId chunkSize items w =
      Some (w', count_results getItemId 0 (zip items rs) no_results)"
  using chunks_settle [OF assms, of 0 items getItemId no_results] by (auto simp: processInChunks_def)

end

text \<open>Chunks of no items are never finished.\<close>

lemma no_chunk_size:
  assumes "items \<noteq> []"
  shows "processInChunks settle getItemId 0 items w = None"
proof -
  have "chunks_from settle getItemId k items i w stats = Some r \<Longrightarrow> k = 0 \<longrightarrow> \<not> i < length items" for k i w stats r
    by (erule chunks_from.raw_induct [where P = "\<lambda>_ _ k items i _ _ _. k = 0 \<longrightarrow> \<not> i < length items", rotated])
      (fastforce simp: Let_def split: prod.splits if_splits)
  then show ?thesis using assms unfolding processInChunks_def
    by (metis not_None_eq length_greater_0_conv)
qed

section \<open>What every interleaving keeps\<close>

text \<open>What is compiled: the configuration, the pre-fetched content and the benchmark flag.\<close>

type_synonym job_spec = "json \<times> prefetched \<times> bool"

definition spec_of :: "compile_job \<Rightarrow> job_spec" where
  "spec_of job = (cj_configuration job, cj_preFetched job, cj_benchmark job = Some True)"

fun message_jobs :: "queue_message \<Rightarrow> job_spec list" where
  "message_jobs (Compile_Message job) = [spec_of job]"
| "message_jobs (Batch_Message rs) = map (spec_of \<circ> batch_job) rs"
| "message_jobs (Warm_Message cs) = map (\<lambda>c. (c, None, False)) cs"
| "message_jobs (Other_Message _) = []"

lemma warm_jobs_specs: "map spec_of (warm_jobs P w cs) = map (\<lambda>c. (c, None, False)) cs"
  by (simp add: list_eq_iff_nth_eq warm_jobs_def spec_of_def nth_enumerate_eq)

text \<open>
  \<open>I\<close> is an invariant of the stores and \<open>Q\<close> one of the phases of a job, each kept by every step
  of the other.
\<close>

locale job_contract =
  fixes P :: platform and I :: "queue_world \<Rightarrow> bool" and Q :: "job_spec \<Rightarrow> job_phase \<Rightarrow> bool"
  assumes step: "I w \<Longrightarrow> Q (spec_of job) p \<Longrightarrow> \<not> settled p \<Longrightarrow>
      I (fst (job_step P job w p)) \<and> Q (spec_of job) (snd (job_step P job w p))"
    and start: "Q spec (Compiling t)"
begin

definition outcome :: "job_spec \<Rightarrow> jstr option \<Rightarrow> bool" where
  "outcome spec e \<longleftrightarrow> Q spec (Settled e)"

lemma run_jobs_keeps:
  assumes "I w" and "\<forall>(job, p) \<in> set xs. Q (spec_of job) p"
  shows "I (fst (run_jobs P w xs)) \<and>
    list_all2 (\<lambda>x e. outcome (spec_of (fst x)) e) xs (snd (run_jobs P w xs))"
  using assms
proof (induction P\<equiv>P w xs rule: run_jobs.induct)
  case (1 w xs)
  show ?case
  proof (cases "waiting xs = []")
    case True
    have "settled (snd (xs ! i))" if "i < length xs" for i
      using True that by (auto simp: waiting_def filter_empty_conv)
    then have "snd (xs ! i) = Settled (job_error (snd (xs ! i)))" if "i < length xs" for i
      using that by (cases "snd (xs ! i)") fastforce+
    moreover have "Q (spec_of (fst (xs ! i))) (snd (xs ! i))" if "i < length xs" for i
      using 1(3) that by (metis case_prod_beta nth_mem)
    ultimately show ?thesis
      using 1(2) True by (subst (1 2) run_jobs.simps) (auto simp: list_all2_conv_all_nth outcome_def)
  next
    case False
    define i where "i = next_job P w xs"
    define job where "job = fst (xs ! i)"
    define st where "st = job_step P job w (snd (xs ! i))"
    have i: "i < length xs" "\<not> settled (snd (xs ! i))"
      using next_job_waiting [OF False, of P w] by (auto simp: i_def)
    then have "Q (spec_of job) (snd (xs ! i))" using 1(3) by (metis case_prod_beta job_def nth_mem)
    then have st: "I (fst st)" "Q (spec_of job) (snd st)" using step [OF 1(2) _ i(2)] by (simp_all add: st_def)
    have "\<forall>(job, p) \<in> set (xs[i := (job, snd st)]). Q (spec_of job) p"
      using 1(3) st(2) by (auto dest!: set_update_subset_insert [THEN subsetD])
    with 1(1) [OF False i_def job_def st_def st(1)]
    have ih: "I (fst (run_jobs P (fst st) (xs[i := (job, snd st)]))) \<and>
      list_all2 (\<lambda>x e. outcome (spec_of (fst x)) e) (xs[i := (job, snd st)])
        (snd (run_jobs P (fst st) (xs[i := (job, snd st)])))"
      by blast
    have "run_jobs P w xs = run_jobs P (fst st) (xs[i := (job, snd st)])"
      using False by (subst run_jobs.simps) (simp add: Let_def i_def job_def st_def)
    moreover have "fst (xs[i := (job, snd st)] ! k) = fst (xs ! k)" if "k < length xs" for k
      using that by (cases "k = i") (simp_all add: job_def)
    ultimately show ?thesis using ih by (auto simp: list_all2_conv_all_nth)
  qed
qed

lemma start_jobs_keeps:
  assumes "I w"
  shows "I (fst (start_jobs P w jobs)) \<and> list_all2 outcome (map spec_of jobs) (snd (start_jobs P w jobs))"
  using run_jobs_keeps [OF assms, of "map (\<lambda>job. (job, Compiling (now_at P w))) jobs"] start
  by (auto simp: start_jobs_def list_all2_map1)

end

sublocale job_contract \<subseteq> batch:
  chunk_runner "\<lambda>w chunk. start_jobs P w (map batch_job chunk)" I "\<lambda>req. outcome (spec_of (batch_job req))"
proof
  fix w :: queue_world and xs :: "batch_request list"
  assume "I w"
  from start_jobs_keeps [OF this, of "map batch_job xs"]
  show "list_all2 (\<lambda>req. outcome (spec_of (batch_job req))) xs (snd (start_jobs P w (map batch_job xs)))"
    and "I (fst (start_jobs P w (map batch_job xs)))"
    by (simp_all add: list_all2_map1)
qed

sublocale job_contract \<subseteq> warm:
  chunk_runner "\<lambda>w chunk. start_jobs P w (warm_jobs P w chunk)" I "\<lambda>c. outcome (c, None, False)"
proof
  fix w :: queue_world and xs :: "json list"
  assume "I w"
  from start_jobs_keeps [OF this, of "warm_jobs P w xs"]
  show "list_all2 (\<lambda>c. outcome (c, None, False)) xs (snd (start_jobs P w (warm_jobs P w xs)))"
    and "I (fst (start_jobs P w (warm_jobs P w xs)))"
    by (simp_all add: warm_jobs_specs list_all2_map1)
qed

lemma partly_failed_None:
  assumes "length rs = length items"
  shows "partly_failed what noun n (count_results getItemId i (zip items rs) no_results) = None \<longleftrightarrow>
    (\<forall>e \<in> set rs. e = None)"
proof -
  have "failing (zip items rs) = length (filter (\<lambda>e. e \<noteq> None) (map snd (zip items rs)))"
    by (simp add: failing_def filter_map comp_def)
  then have "failing (zip items rs) = 0 \<longleftrightarrow> (\<forall>e \<in> set rs. e = None)"
    using assms by (auto simp: filter_empty_conv)
  then show ?thesis
    using count_results_counts [of getItemId i "zip items rs" no_results]
    by (auto simp: partly_failed_def no_results_def)
qed

context job_contract
begin

text \<open>A message is retried exactly when one of its jobs threw.\<close>

definition judged :: "queue_message \<Rightarrow> verdict \<Rightarrow> bool" where
  "judged msg v \<longleftrightarrow> (\<exists>es. list_all2 outcome (message_jobs msg) es \<and> (v = Ack \<longleftrightarrow> (\<forall>e \<in> set es. e = None)))"

lemma process_message_keeps:
  assumes "I w"
  shows "\<exists>w' e. process_message P w msg = Some (w', e) \<and> I w' \<and>
    judged msg (if e = None then Ack else Retry)"
proof (cases msg)
  case (Compile_Message job)
  obtain w' es where run: "start_jobs P w [job] = (w', es)" by fastforce
  with start_jobs_keeps [OF assms, of "[job]"] obtain e where "es = [e]" "I w'" "outcome (spec_of job) e"
    by (auto simp: list_all2_Cons1)
  then show ?thesis using Compile_Message run
    by (auto simp: process_message_def processCompileMessage_def judged_def intro!: exI [of _ "[e]"])
next
  case (Batch_Message rs)
  obtain w' es where run: "I w'" "list_all2 (\<lambda>req. outcome (spec_of (batch_job req))) rs es"
    "processInChunks (\<lambda>w chunk. start_jobs P w (map batch_job chunk)) (Some (shown_name \<circ> bq_configuration)) 3 rs w =
      Some (w', count_results (Some (shown_name \<circ> bq_configuration)) 0 (zip rs es) no_results)"
    by (rule batch.all_settle [OF _ assms, where chunkSize = 3 and items = rs
        and getItemId = "Some (shown_name \<circ> bq_configuration)"])
      simp_all
  then have "length es = length rs" by (simp add: list_all2_lengthD)
  then have "judged msg (if partly_failed what noun n (count_results g 0 (zip rs es) no_results) = None
      then Ack else Retry)" for what noun n g
    unfolding judged_def Batch_Message using run(2)
    by (intro exI [of _ es]) (simp add: partly_failed_None list_all2_map1)
  then show ?thesis using run(1,3) Batch_Message
    by (simp add: process_message_def processBatchCompileMessage_def)
next
  case (Warm_Message cs)
  obtain w' es where run: "I w'" "list_all2 (\<lambda>c. outcome (c, None, False)) cs es"
    "processInChunks (\<lambda>w chunk. start_jobs P w (warm_jobs P w chunk)) (Some shown_name) 3 cs w =
      Some (w', count_results (Some shown_name) 0 (zip cs es) no_results)"
    by (rule warm.all_settle [OF _ assms, where chunkSize = 3 and items = cs and getItemId = "Some shown_name"])
      simp_all
  then have "length es = length cs" by (simp add: list_all2_lengthD)
  then have "judged msg (if partly_failed what noun n (count_results g 0 (zip cs es) no_results) = None
      then Ack else Retry)" for what noun n g
    unfolding judged_def Warm_Message using run(2)
    by (intro exI [of _ es]) (simp add: partly_failed_None list_all2_map1)
  then show ?thesis using run(1,3) Warm_Message
    by (simp add: process_message_def processCacheWarmMessage_def)
next
  case (Other_Message t)
  then show ?thesis using assms by (auto simp: process_message_def judged_def)
qed

lemma handleQueue_keeps:
  "I w \<Longrightarrow> \<exists>w' vs. handleQueue P w msgs = Some (w', vs) \<and> I w' \<and> list_all2 judged msgs vs"
proof (induction msgs arbitrary: w)
  case (Cons msg msgs)
  obtain w1 e where "process_message P w msg = Some (w1, e)" "I w1" "judged msg (if e = None then Ack else Retry)"
    using process_message_keeps [OF Cons.prems] by blast
  moreover from Cons.IH [OF this(2)] obtain w' vs where
    "handleQueue P w1 msgs = Some (w', vs)" "I w'" "list_all2 judged msgs vs"
    by blast
  ultimately show ?case by auto
qed simp

end

section \<open>The statistics stay in bounds\<close>

definition stats_ok :: "queue_stats \<Rightarrow> bool" where
  "stats_ok s \<longleftrightarrow>
     0 \<le> qs_pending s \<and> 0 \<le> qs_completed s \<and> 0 \<le> qs_failed s \<and> 0 \<le> qs_cancelled s \<and>
     length (qs_history s) \<le> 50 \<and> length (qs_depthHistory s) \<le> 100 \<and>
     qs_processingRate s \<le> length (qs_history s) \<and>
     (\<forall>d \<in> set (qs_depthHistory s). 0 \<le> de_pending d) \<and>
     (\<forall>job \<in> set (qs_history s). je_requestId job \<noteq> [] \<and> je_configName job \<noteq> [] \<and>
        (je_status job \<noteq> Job_Completed \<longrightarrow> je_cacheKey job = None)) \<and>
     (0 < qs_completed s \<longrightarrow>
        qs_averageProcessingTime s = round_div (qs_totalProcessingTime s) (qs_completed s))"

lemma empty_stats_ok: "stats_ok (createEmptyQueueStats now)"
  by (simp add: stats_ok_def createEmptyQueueStats_def)

definition counters_ok :: "queue_stats \<Rightarrow> bool" where
  "counters_ok s \<longleftrightarrow> stats_ok (s\<lparr>qs_processingRate := 0\<rparr>)"

lemma health_metrics_ok: "counters_ok s \<Longrightarrow> stats_ok (health_metrics now s)"
  by (simp add: counters_ok_def stats_ok_def health_metrics_def Let_def)

lemma history_entry_ok:
  "requestId \<noteq> [] \<Longrightarrow> event \<noteq> Enqueued \<Longrightarrow>
   je_requestId (history_entry event time now requestId info) \<noteq> [] \<and>
   je_configName (history_entry event time now requestId info) \<noteq> [] \<and>
   (je_status (history_entry event time now requestId info) \<noteq> Job_Completed \<longrightarrow>
      je_cacheKey (history_entry event time now requestId info) = None)"
  by (cases event) (auto simp: history_entry_def or_unknown_def split: option.split)

lemma add_history_ok: "event \<noteq> Enqueued \<Longrightarrow> counters_ok s \<Longrightarrow> counters_ok (add_history event time now info s)"
  using history_entry_ok [of _ event time now]
  by (auto simp: counters_ok_def stats_ok_def add_history_def split: option.splits dest!: in_set_takeD)

lemma add_depth_ok: "counters_ok s \<Longrightarrow> counters_ok (add_depth now s)"
  using set_mono_suffix [OF suffix_tl, of "qs_depthHistory s @ [\<lparr>de_timestamp = now, de_pending = qs_pending s\<rparr>]"]
  by (auto simp: counters_ok_def stats_ok_def add_depth_def Let_def)

lemma count_event_ok:
  assumes "0 < amount" and "counters_ok s"
  shows "counters_ok (count_event event time amount info now s)"
proof -
  have "counters_ok (s\<lparr>qs_pending := qs_pending s + amount\<rparr>)" and "counters_ok (count_completed time amount s)"
    and "counters_ok (s\<lparr>qs_pending := max 0 (qs_pending s - amount), qs_failed := qs_failed s + amount\<rparr>)"
    and "counters_ok (s\<lparr>qs_pending := max 0 (qs_pending s - amount), qs_cancelled := qs_cancelled s + amount\<rparr>)"
    using assms by (simp_all add: counters_ok_def stats_ok_def count_completed_def Let_def)
  then show ?thesis by (cases event) (simp_all add: add_history_ok add_depth_ok)
qed

lemma updated_stats_ok:
  assumes "stats_ok s"
  shows "stats_ok (updated_stats event time amount info now s)"
proof -
  have "counters_ok s" using assms by (simp add: counters_ok_def stats_ok_def)
  then show ?thesis unfolding updated_stats_def by (intro health_metrics_ok count_event_ok) simp_all
qed

definition world_ok :: "queue_world \<Rightarrow> bool" where
  "world_ok w \<longleftrightarrow> (case qw_stats w of None \<Rightarrow> True | Some (s, _) \<Rightarrow> stats_ok s)"

fun phase_ok :: "job_spec \<Rightarrow> job_phase \<Rightarrow> bool" where
  "phase_ok _ (Writing s _) = stats_ok s" | "phase_ok _ _ = True"

lemma read_for_update_ok:
  "world_ok w \<Longrightarrow> read_for_update P event time amount info w = Some s \<Longrightarrow> stats_ok s"
  by (auto simp: read_for_update_def Let_def world_ok_def live_def intro!: updated_stats_ok empty_stats_ok
    split: if_splits option.splits)

lemma answered_fields [simp]:
  "qw_stats (answered w) = qw_stats w" "qw_cache (answered w) = qw_cache w"
  "qw_cancels (answered w) = qw_cancels w" "qw_calls (answered w) = Suc (qw_calls w)"
  by (simp_all add: answered_def)

lemma write_stats_ok: "stats_ok s \<Longrightarrow> world_ok w \<Longrightarrow> world_ok (write_stats P s w)"
  by (simp add: write_stats_def world_ok_def)

lemma store_result_stats [simp]: "qw_stats (store_result P job r w) = qw_stats w"
  by (simp add: store_result_def split: option.split)

interpretation stats: job_contract P world_ok phase_ok for P
proof
  fix w job p assume "world_ok w" and "phase_ok (spec_of job) p"
  then show "world_ok (fst (job_step P job w p)) \<and> phase_ok (spec_of job) (snd (job_step P job w p))"
    using write_stats_ok read_for_update_ok [of w P]
    by (cases p) (auto simp: Let_def world_ok_def split: sum.split option.split)
qed simp

section \<open>Verdicts\<close>

text \<open>Whether a compilation succeeds may depend on what is compiled, but not on when.\<close>

definition succeeds_by :: "platform \<Rightarrow> (job_spec \<Rightarrow> bool) \<Rightarrow> bool" where
  "succeeds_by P ok \<longleftrightarrow> (\<forall>n c pre b. (\<exists>r. pf_compile P n c pre b = Inr r) \<longleftrightarrow> ok (c, pre, b))"

fun phase_agrees :: "bool \<Rightarrow> job_phase \<Rightarrow> bool" where
  "phase_agrees fine (Compiling _) = True"
| "phase_agrees fine (Storing _ _) = fine"
| "phase_agrees fine (Reading _ _ _ e) = ((e = None) = fine)"
| "phase_agrees fine (Writing _ e) = ((e = None) = fine)"
| "phase_agrees fine (Settled e) = ((e = None) = fine)"

interpretation verdicts: job_contract P "\<lambda>_. True" "\<lambda>spec p. succeeds_by P ok \<longrightarrow> phase_agrees (ok spec) p" for P ok
proof
  fix w job p assume agrees: "succeeds_by P ok \<longrightarrow> phase_agrees (ok (spec_of job)) p" and "\<not> settled p"
  have "phase_agrees (ok (spec_of job)) (snd (job_step P job w p))" if "succeeds_by P ok"
  proof (cases p)
    case (Compiling start)
    have "(\<exists>r. pf_compile P (qw_calls w) (cj_configuration job) (cj_preFetched job) (cj_benchmark job = Some True) = Inr r)
        = ok (spec_of job)"
      using that by (simp add: succeeds_by_def spec_of_def)
    then show ?thesis using Compiling by (auto simp: Let_def split: sum.split)
  qed (use agrees that \<open>\<not> settled p\<close> in \<open>auto simp: Let_def split: option.split\<close>)
  then show "True \<and> (succeeds_by P ok \<longrightarrow> phase_agrees (ok (spec_of job)) (snd (job_step P job w p)))" by simp
qed simp

section \<open>Jobs one after the other\<close>

definition steady :: "platform \<Rightarrow> bool" where
  "steady P \<longleftrightarrow> (\<forall>n. pf_available P n) \<and> (\<forall>m n. pf_now P m < pf_now P n + CACHE_TTL * 1000)"

definition holds_stats :: "platform \<Rightarrow> queue_world \<Rightarrow> queue_stats \<Rightarrow> bool" where
  "holds_stats P w s \<longleftrightarrow> (\<exists>expires. qw_stats w = Some (s, expires) \<and> (\<forall>n. pf_now P n < expires))"

lemma steady_simps:
  assumes "steady P"
  shows "pf_available P n" and "pf_now P m < pf_now P n + 3600000" and "pf_now P m < pf_now P n + 86400000"
proof -
  show "pf_available P n" and hour: "pf_now P m < pf_now P n + 3600000"
    using assms by (simp_all add: steady_def CACHE_TTL_def)
  then show "pf_now P m < pf_now P n + 86400000" by linarith
qed

lemma run_single:
  "run_jobs P w [(job, p)] =
     (if settled p then (w, [job_error p])
      else run_jobs P (fst (job_step P job w p)) [(job, snd (job_step P job w p))])"
proof -
  have "waiting [(job, p)] = (if settled p then [] else [0])" by (simp add: waiting_def)
  then show ?thesis by (subst run_jobs.simps) (simp add: Let_def next_job_def)
qed

text \<open>The outcome of a job that runs alone.\<close>

definition job_recorded ::
  "platform \<Rightarrow> compile_job \<Rightarrow> queue_world \<Rightarrow> queue_stats \<Rightarrow> queue_world \<Rightarrow> jstr option \<Rightarrow> queue_stats \<Rightarrow> bool" where
  "job_recorded P job w s w' e s' \<longleftrightarrow>
     (case pf_compile P (qw_calls w) (cj_configuration job) (cj_preFetched job) (cj_benchmark job = Some True) of
        Inl err \<Rightarrow> e = Some err \<and>
          (\<exists>d t. s' = updated_stats Failed (Some d) 1 (Some (failure_info job err)) t s)
      | Inr r \<Rightarrow> e = None \<and>
          (\<exists>d t. s' = updated_stats Completed (Some d) 1 (Some (success_info P job r)) t s) \<and>
          (\<forall>key. job_cache_key P job = Some key \<longrightarrow>
             (\<exists>t expires. qw_cache w' key = Some (stored_result t r, expires) \<and> (\<forall>n. pf_now P n < expires))))"

lemma single_job:
  assumes P: "steady P" and s: "holds_stats P w s"
  shows "\<exists>w' e s'. processCompileMessage P w job = (w', e) \<and> holds_stats P w' s' \<and> job_recorded P job w s w' e s'"
proof -
  note simps = steady_simps [OF P] up_at_def now_at_def read_for_update_def write_stats_def Let_def
    holds_stats_def live_def STATS_TTL_def CACHE_TTL_def
  obtain x where x: "qw_stats w = Some (s, x)" "\<And>n. pf_now P n < x" using s by (auto simp: holds_stats_def)
  show ?thesis
  proof (cases "pf_compile P (qw_calls w) (cj_configuration job) (cj_preFetched job) (cj_benchmark job = Some True)")
    case (Inl err)
    then show ?thesis
      by (simp add: processCompileMessage_def start_jobs_def run_single job_recorded_def x simps) blast
  next
    case (Inr r)
    show ?thesis
    proof (cases "job_cache_key P job")
      case None
      then show ?thesis using Inr
        by (simp add: processCompileMessage_def start_jobs_def run_single job_recorded_def x simps) blast
    next
      case (Some key)
      then show ?thesis using Inr
        by (simp add: processCompileMessage_def start_jobs_def run_single job_recorded_def store_result_def x simps)
          blast
    qed
  qed
qed

lemma updated_counts:
  "qs_completed (updated_stats event time 1 info t s) = qs_completed s + (if event = Completed then 1 else 0)"
  "qs_failed (updated_stats event time 1 info t s) = qs_failed s + (if event = Failed then 1 else 0)"
  "event \<in> {Completed, Failed} \<Longrightarrow> qs_pending (updated_stats event time 1 info t s) = max 0 (qs_pending s - 1)"
  by (cases event; simp add: updated_stats_def health_metrics_def add_history_def add_depth_def count_completed_def
      Let_def split: option.split)+

lemma sequential_counts:
  assumes "steady P" and "holds_stats P w s" and "0 \<le> qs_pending s"
  shows "\<exists>w' vs s'. handleQueue P w (map Compile_Message jobs) = Some (w', vs) \<and> holds_stats P w' s' \<and>
    length vs = length jobs \<and>
    qs_completed s' = qs_completed s + int (count_list vs Ack) \<and>
    qs_failed s' = qs_failed s + int (count_list vs Retry) \<and>
    qs_pending s' = max 0 (qs_pending s - int (length jobs))"
  using assms(2,3)
proof (induction jobs arbitrary: w s)
  case (Cons job jobs)
  from single_job [OF assms(1) Cons.prems(1), of job] obtain w1 e s1 where
    one: "processCompileMessage P w job = (w1, e)" "holds_stats P w1 s1" "job_recorded P job w s w1 e s1"
    by blast
  have s1: "qs_completed s1 = qs_completed s + (if e = None then 1 else 0)"
    "qs_failed s1 = qs_failed s + (if e = None then 0 else 1)" "qs_pending s1 = max 0 (qs_pending s - 1)"
    using one(3) by (auto simp: job_recorded_def updated_counts split: sum.splits)
  then have "0 \<le> qs_pending s1" by simp
  from Cons.IH [OF one(2) this] obtain w' vs s' where
    "handleQueue P w1 (map Compile_Message jobs) = Some (w', vs)" "holds_stats P w' s'" "length vs = length jobs"
    "qs_completed s' = qs_completed s1 + int (count_list vs Ack)"
    "qs_failed s' = qs_failed s1 + int (count_list vs Retry)"
    "qs_pending s' = max 0 (qs_pending s1 - int (length jobs))"
    by blast
  then show ?case using one(1) s1 by (auto simp: process_message_def)
qed auto

section \<open>A small platform\<close>

definition idle_world :: queue_world where
  "idle_world = \<lparr>qw_calls = 0, qw_stats = None, qw_cache = Map.empty, qw_cancels = Map.empty\<rparr>"

definition small_platform :: "(json \<Rightarrow> jstr + compiled) \<Rightarrow> (nat \<Rightarrow> nat) \<Rightarrow> platform" where
  "small_platform compile turn =
     \<lparr>pf_now = (\<lambda>n. int (min n 1000)), pf_available = (\<lambda>_. True), pf_compile = (\<lambda>_ c _ _. compile c), pf_turn = turn,
      pf_random = decimal, pf_digest = (\<lambda>t. t)\<rparr>"

definition only_null :: "json \<Rightarrow> jstr + compiled" where
  "only_null c =
     (if c = JNull then Inr \<lparr>cp_rules = [''||a.org^''], cp_metrics = None\<rparr> else Inl ''no configuration'')"

definition null_job :: compile_job where
  "null_job = \<lparr>cj_requestId = Some ''r1'', cj_configuration = JNull, cj_preFetched = None, cj_benchmark = None\<rparr>"

lemma small_steady: "steady (small_platform compile turn)"
  by (auto simp: steady_def small_platform_def CACHE_TTL_def min_def)

lemma small_holds_stats:
  "holds_stats (small_platform compile turn) (idle_world\<lparr>qw_stats := Some (s, 9999)\<rparr>) s"
  by (auto simp: holds_stats_def small_platform_def min_def)

section \<open>Properties\<close>

text \<open>
  C25. Whatever the platform answers and however the jobs of a batch interleave, the consumer
  returns with a verdict for every message, and the stored statistics stay well formed: counters
  are not negative, at most 50 jobs and 100 depths are kept, only completed jobs name a cache
  entry, and the average is the rounded quotient of the totals.
\<close>

theorem queue_statistics_bounded:
  assumes "world_ok w"
  shows "\<exists>w' vs. handleQueue P w msgs = Some (w', vs) \<and> length vs = length msgs \<and> world_ok w'"
  using stats.handleQueue_keeps [OF assms, of P msgs] by (auto simp: list_all2_lengthD)

theorem queue_statistics_bounded_witness:
  "\<exists>w' vs. handleQueue (small_platform only_null id) idle_world
       [Other_Message ''ping'', Warm_Message [JNull, JBool True]] = Some (w', vs) \<and>
     length vs = Suc (Suc 0) \<and> world_ok w'"
  using queue_statistics_bounded [of idle_world "small_platform only_null id"
      "[Other_Message ''ping'', Warm_Message [JNull, JBool True]]"]
  by (simp add: world_ok_def idle_world_def del: handleQueue.simps)



text \<open>
  C28. Chunks of a positive size account for every item: \<open>processInChunks\<close> returns, and the
  successful and failed items add up to all of them, with one failure recorded per failed item.
  With chunks of size 0 it does not return unless there is nothing to do.
\<close>

theorem chunks_account_for_all:
  assumes "\<And>w xs. length (snd (settle w xs)) = length xs"
  shows "(processInChunks settle getItemId chunkSize items w = None \<longleftrightarrow> chunkSize = 0 \<and> items \<noteq> []) \<and>
    (\<forall>w' r. processInChunks settle getItemId chunkSize items w = Some (w', r) \<longrightarrow>
       ch_successful r + ch_failed r = length items \<and> length (ch_failures r) = ch_failed r)"
proof -
  have recorded: "length (ch_failures (count_results getItemId i rs st)) = length (ch_failures st) + failing rs" for i rs st
    by (induction getItemId i rs st rule: count_results.induct) (auto simp: failing_def)
  have runner: "chunk_runner settle (\<lambda>_. True) (\<lambda>_ _. True)"
    by standard (simp_all add: list_all2_conv_all_nth assms)
  show ?thesis
  proof (cases "chunkSize = 0 \<and> items \<noteq> []")
    case True
    then show ?thesis by (simp add: no_chunk_size)
  next
    case False
    have "\<exists>w' rs. length rs = length items \<and>
      processInChunks settle getItemId chunkSize items w =
        Some (w', count_results getItemId 0 (zip items rs) no_results)"
    proof (cases "chunkSize = 0")
      case True
      then show ?thesis using False by (simp add: processInChunks_def chunks_from.simps)
    next
      case False
      then have size: "0 < chunkSize" by simp
      obtain w' rs where "list_all2 (\<lambda>_ _. True) items rs"
        "processInChunks settle getItemId chunkSize items w =
          Some (w', count_results getItemId 0 (zip items rs) no_results)"
        by (rule chunk_runner.all_settle [OF runner size TrueI])
      then show ?thesis by (metis list_all2_lengthD)
    qed
    then obtain w' rs where run: "length rs = length items"
      "processInChunks settle getItemId chunkSize items w =
        Some (w', count_results getItemId 0 (zip items rs) no_results)"
      by blast
    then show ?thesis
      using False count_results_counts [of getItemId 0 "zip items rs" no_results]
        recorded [of 0 "zip items rs" no_results]
      by (simp add: no_results_def)
  qed
qed

lemma start_jobs_outcomes: "length (snd (start_jobs P w jobs)) = length jobs"
  using verdicts.start_jobs_keeps [where P = P and w = w and jobs = jobs] by (metis TrueI length_map list_all2_lengthD)

theorem chunks_account_for_all_witness:
  "processInChunks (start_jobs (small_platform only_null id)) None 0 [null_job] idle_world = None \<and>
   processInChunks (start_jobs (small_platform only_null id)) None 3 [null_job, null_job] idle_world \<noteq> None"
  using chunks_account_for_all [where settle = "start_jobs (small_platform only_null id)" and chunkSize = 0 and items = "[null_job]"]
    chunks_account_for_all [where settle = "start_jobs (small_platform only_null id)" and chunkSize = 3 and items = "[null_job, null_job]"]
  by (simp add: start_jobs_outcomes)

text \<open>
  Jobs that are queued one by one are counted exactly while the store keeps its entries: the
  completed jobs grow by the acknowledged messages, the failed ones by the retried messages, and
  every message takes one pending job off the count, which never goes below 0.
\<close>

theorem sequential_counts_exact:
  assumes "steady P" and "holds_stats P w s" and "0 \<le> qs_pending s"
  shows "\<exists>w' vs s'. handleQueue P w (map Compile_Message jobs) = Some (w', vs) \<and> holds_stats P w' s' \<and>
    qs_completed s' = qs_completed s + int (count_list vs Ack) \<and>
    qs_failed s' = qs_failed s + int (count_list vs Retry) \<and>
    qs_pending s' = max 0 (qs_pending s - int (length jobs))"
  using sequential_counts [OF assms, of jobs] by blast

theorem sequential_counts_exact_witness:
  "let P = small_platform only_null id; w = idle_world\<lparr>qw_stats := Some (createEmptyQueueStats 0, 9999)\<rparr> in
   \<exists>w' vs s'. handleQueue P w (map Compile_Message [null_job, null_job]) = Some (w', vs) \<and> holds_stats P w' s' \<and>
     qs_completed s' = int (count_list vs Ack) \<and> qs_failed s' = int (count_list vs Retry) \<and> qs_pending s' = 0"
  using sequential_counts_exact [of "small_platform only_null id"
      "idle_world\<lparr>qw_stats := Some (createEmptyQueueStats 0, 9999)\<rparr>" "createEmptyQueueStats 0" "[null_job, null_job]"]
  unfolding Let_def by (simp only: small_steady small_holds_stats) (simp add: createEmptyQueueStats_def)

end
