(* ===== verification/QueueRoutes.thy ===== *)
theory QueueRoutes
  imports Queue
begin

text \<open>
  The producers of the compilation queue (\<open>worker/handlers/compile.ts\<close>), its routes
  (\<open>worker/handlers/queue.ts\<close>) and the check of Cloudflare Access tokens
  (\<open>worker/middleware/cf-access.ts\<close>).  Error texts that contain characters outside Latin-1 end
  before them; analytics are left out.  The verification of tokens by the library \<open>jose\<close> is the
  field \<open>ca_jwtVerify\<close>: token, key set URL, issuer and audience are given, and the claims
  \<open>email\<close> and \<open>sub\<close> returned.
\<close>

section \<open>Cloudflare Access\<close>

record access_env =
  ca_teamDomain :: "jstr option"
  ca_aud :: "jstr option"
  ca_jwtVerify :: "jstr \<Rightarrow> jstr \<Rightarrow> jstr \<Rightarrow> jstr \<Rightarrow> jstr + (jstr option \<times> jstr option)"

record access_result =
  cv_valid :: bool
  cv_email :: "jstr option"
  cv_identity :: "jstr option"
  cv_error :: "jstr option"

definition verifyCfAccessJwt :: "access_env \<Rightarrow> jstr option \<Rightarrow> access_result" where
  "verifyCfAccessJwt env header =
     (let teamDomain = or_empty (ca_teamDomain env); aud = or_empty (ca_aud env); token = or_empty header
      in if teamDomain = [] \<or> aud = [] then
           \<lparr>cv_valid = True, cv_email = None, cv_identity = None, cv_error = None\<rparr>
         else if token = [] then
           \<lparr>cv_valid = False, cv_email = None, cv_identity = None,
            cv_error = Some ''Missing CF-Access-JWT-Assertion header ''\<rparr>
         else
           let issuer = ''https://'' @ teamDomain @ ''.cloudflareaccess.com''
           in case ca_jwtVerify env token (issuer @ ''/cdn-cgi/access/certs'') issuer aud of
                Inl e \<Rightarrow>
                  \<lparr>cv_valid = False, cv_email = None, cv_identity = None,
                   cv_error = Some (''CF Access JWT verification failed: '' @ e)\<rparr>
              | Inr (email, identity) \<Rightarrow>
                  \<lparr>cv_valid = True, cv_email = email, cv_identity = identity, cv_error = None\<rparr>)"

section \<open>Producers\<close>

record queue_bindings =
  qb_standard :: bool
  qb_high :: bool
  qb_send :: "nat \<Rightarrow> jstr option"

definition QUEUE_BINDINGS_NOT_AVAILABLE_ERROR :: jstr where
  "QUEUE_BINDINGS_NOT_AVAILABLE_ERROR =
     ''Queue bindings are not available. '' @
     ''To use async compilation, you must configure Cloudflare Queues in wrangler.toml. '' @
     ''See https://github.com/jaypatrick/adblock-compiler/blob/main/docs/QUEUE_SUPPORT.md for setup instructions. '' @
     ''Alternatively, use the synchronous endpoints: POST /compile or POST /compile/batch''"

datatype priority = Standard | High

text \<open>A message on its way: whether it is in the queue of high priority, and its body.\<close>

type_synonym sent = "bool \<times> queue_message"

definition enqueue ::
  "platform \<Rightarrow> queue_bindings \<Rightarrow> priority \<Rightarrow> int \<Rightarrow> jstr \<Rightarrow> queue_message \<Rightarrow> queue_world \<Rightarrow>
   queue_world \<times> (jstr + jstr \<times> sent)" where
  "enqueue P B prio amount requestId msg w =
     (case qb_send B (qw_calls w) of
        Some e \<Rightarrow> (answered w, Inl e)
      | None \<Rightarrow> (updateQueueStats P Enqueued None amount None (answered w), Inr (requestId, prio = High, msg)))"

definition queueCompileJob ::
  "platform \<Rightarrow> queue_bindings \<Rightarrow> json \<Rightarrow> prefetched \<Rightarrow> bool option \<Rightarrow> priority \<Rightarrow> queue_world \<Rightarrow>
   queue_world \<times> (jstr + jstr \<times> sent)" where
  "queueCompileJob P B configuration preFetched benchmark prio w =
     (if \<not> qb_standard B \<or> \<not> qb_high B then (w, Inl QUEUE_BINDINGS_NOT_AVAILABLE_ERROR)
      else let requestId = generateRequestId P w 0 ''compile''
           in enqueue P B prio 1 requestId
                (Compile_Message \<lparr>cj_requestId = Some requestId, cj_configuration = configuration,
                   cj_preFetched = preFetched, cj_benchmark = benchmark\<rparr>) w)"

definition queueBatchCompileJob ::
  "platform \<Rightarrow> queue_bindings \<Rightarrow> batch_request list \<Rightarrow> priority \<Rightarrow> queue_world \<Rightarrow>
   queue_world \<times> (jstr + jstr \<times> sent)" where
  "queueBatchCompileJob P B reqs prio w =
     (if \<not> qb_standard B \<or> \<not> qb_high B then (w, Inl QUEUE_BINDINGS_NOT_AVAILABLE_ERROR)
      else enqueue P B prio (int (length reqs)) (generateRequestId P w 0 ''batch'') (Batch_Message reqs) w)"

section \<open>Routes\<close>

datatype queue_response =
    Refused denial
  | Stats_Shown queue_stats
  | History_Shown "job_entry list" "depth_entry list"
  | Job_Not_Found
  | Job_Not_Completed job_entry
  | No_Cache_Key
  | Cache_Miss
  | Result_Shown lines nat "json option" int job_entry
  | Cancel_Signalled jstr
  | Threw

definition handleQueueStats :: "platform \<Rightarrow> queue_world \<Rightarrow> queue_world \<times> queue_response" where
  "handleQueueStats P w = (let (w', s) = getQueueStats P w in (w', Stats_Shown s))"

definition handleQueueHistory :: "platform \<Rightarrow> queue_world \<Rightarrow> queue_world \<times> queue_response" where
  "handleQueueHistory P w =
     (let (w', s) = getQueueStats P w in (w', History_Shown (qs_history s) (qs_depthHistory s)))"

definition shown_result :: "compilation_result \<Rightarrow> job_entry \<Rightarrow> queue_response" where
  "shown_result r job =
     (let rules = (case cr_rules r of None \<Rightarrow> [] | Some rs \<Rightarrow> rs)
      in Result_Shown rules
           (case cr_ruleCount r of None \<Rightarrow> length rules | Some n \<Rightarrow> if n = 0 then length rules else n)
           (cr_metrics r) (cr_compiledAt r) job)"

definition handleQueueResults :: "platform \<Rightarrow> jstr \<Rightarrow> queue_world \<Rightarrow> queue_world \<times> queue_response" where
  "handleQueueResults P requestId w =
     (if requestId = [] then (w, Refused (deny 400 ''Invalid request ID''))
      else let (w', s) = getQueueStats P w
           in case List.find (\<lambda>j. je_requestId j = requestId) (qs_history s) of
                None \<Rightarrow> (w', Job_Not_Found)
              | Some job \<Rightarrow>
                  if je_status job \<noteq> Job_Completed then (w', Job_Not_Completed job)
                  else case je_cacheKey job of
                    None \<Rightarrow> (w', No_Cache_Key)
                  | Some key \<Rightarrow>
                      if key = [] then (w', No_Cache_Key)
                      else (answered w',
                        if \<not> up_at P w' then Refused (deny 500 ''Failed to decompress cached result'')
                        else case live (now_at P (answered w')) (qw_cache w' key) of
                          None \<Rightarrow> Cache_Miss
                        | Some r \<Rightarrow> shown_result r job))"

definition request_id_char :: "char \<Rightarrow> bool" where
  "request_id_char c \<longleftrightarrow> is_alnum c \<or> c \<in> {CHR ''_'', CHR ''-''}"

definition QueueCancelParamsSchema :: "jstr \<Rightarrow> jstr list" where
  "QueueCancelParamsSchema requestId =
     (if requestId = [] then [''requestId is required''] else []) @
     (if requestId = [] \<or> \<not> list_all request_id_char requestId then [''Invalid requestId format''] else [])"

definition handleQueueCancel ::
  "platform \<Rightarrow> access_env \<Rightarrow> auth_context \<Rightarrow> jstr option \<Rightarrow> jstr \<Rightarrow> queue_world \<Rightarrow> queue_world \<times> queue_response" where
  "handleQueueCancel P env ctx header requestId w =
     (case requireAuth ctx of
        Some d \<Rightarrow> (w, Refused d)
      | None \<Rightarrow>
          let cfAccess = verifyCfAccessJwt env header; issues = QueueCancelParamsSchema requestId
          in if \<not> cv_valid cfAccess then
               (w, Refused (deny 403
                 (case cv_error cfAccess of None \<Rightarrow> ''CF Access verification failed'' | Some e \<Rightarrow> e)))
             else if issues \<noteq> [] then
               (w, Refused (deny 400 (join_with ''; '' (map (\<lambda>m. ''requestId: '' @ m) issues))))
             else if up_at P w then
               (answered (w\<lparr>qw_cancels := (qw_cancels w)(requestId \<mapsto>
                  (now_at P w, now_at P (answered w) + 86400 * 1000))\<rparr>),
                Cancel_Signalled requestId)
             else (answered w, Threw))"

definition cancel_match :: "jstr \<Rightarrow> jstr option" where
  "cancel_match routePath =
     (let rid = drop (length ''/queue/cancel/'') routePath
      in if starts_with routePath ''/queue/cancel/'' \<and> rid \<noteq> [] \<and> list_all request_id_char rid then Some rid else None)"

definition routeQueue ::
  "platform \<Rightarrow> access_env \<Rightarrow> auth_context \<Rightarrow> jstr \<Rightarrow> jstr \<Rightarrow> jstr option \<Rightarrow> queue_world \<Rightarrow>
   queue_world \<times> queue_response" where
  "routeQueue P env ctx routePath meth header w =
     (if routePath = ''/queue/stats'' \<and> meth = ''GET'' then handleQueueStats P w
      else if routePath = ''/queue/history'' \<and> meth = ''GET'' then handleQueueHistory P w
      else if starts_with routePath ''/queue/results/'' \<and> meth = ''GET'' then
        handleQueueResults P (last (split_on (CHR ''/'') routePath)) w
      else case cancel_match routePath of
        Some requestId \<Rightarrow>
          if meth = ''DELETE'' then handleQueueCancel P env ctx header requestId w
          else (w, Refused (deny 404 ''Not found''))
      | None \<Rightarrow> (w, Refused (deny 404 ''Not found'')))"

definition null_request :: "jstr \<Rightarrow> json \<Rightarrow> batch_request" where
  "null_request rid c = \<lparr>bq_id = rid, bq_configuration = c, bq_preFetched = None, bq_benchmark = None\<rparr>"

section \<open>From the request to the result\<close>

lemma split_on_at: "split_on d (p @ d # s) = split_on d p @ split_on d s"
  by (induction p) (auto split: list.split)

lemma last_split: "d \<notin> set s \<Longrightarrow> last (split_on d (p @ d # s)) = s"
  by (simp add: split_on_at split_on_atom)

lemma json_number_chars: "CHR ''/'' \<notin> set (json_number n)"
  using decimal_digits [of "nat n"] decimal_digits [of "nat (- n)"]
  by (auto simp: json_number_def list_all_iff is_digit_def code_in_def)

lemma request_id_in_path:
  assumes "CHR ''/'' \<notin> set (pf_random P (qw_calls w + i))"
  shows "last (split_on (CHR ''/'') (''/queue/results/'' @ generateRequestId P w i ''compile'')) =
    generateRequestId P w i ''compile''"
proof -
  have "CHR ''/'' \<notin> set (generateRequestId P w i ''compile'')"
    using assms json_number_chars by (simp add: generateRequestId_def)
  then show ?thesis using last_split [of "CHR ''/''" _ "''/queue/results''"] by simp
qed

lemma enqueue_holds_stats:
  assumes P: "steady P" and "qb_send B (qw_calls w) = None"
  shows "\<exists>w' s. enqueue P B prio amount requestId msg w = (w', Inr (requestId, prio = High, msg)) \<and> holds_stats P w' s"
  using assms(2) steady_simps [OF P]
  by (simp add: enqueue_def updateQueueStats_def read_for_update_def write_stats_def holds_stats_def up_at_def
      now_at_def Let_def STATS_TTL_def)

lemma completed_first:
  assumes "cj_requestId job = Some requestId" and "requestId \<noteq> []"
  shows "\<exists>e es. qs_history (updated_stats Completed (Some d) 1 (Some (success_info P job r)) t s) = e # es \<and>
    je_requestId e = requestId \<and> je_status e = Job_Completed \<and> je_cacheKey e = job_cache_key P job"
  using assms by (simp add: updated_stats_def health_metrics_def add_history_def success_info_def history_entry_def Let_def)


definition open_queues :: queue_bindings where
  "open_queues = \<lparr>qb_standard = True, qb_high = True, qb_send = (\<lambda>_. None)\<rparr>"


text \<open>What a client sees of some messages: the verdicts, the completed jobs and the history.\<close>

definition seen :: "(queue_world \<times> verdict list) option \<Rightarrow> (verdict list \<times> int \<times> jstr list) option" where
  "seen result =
     (case result of
        Some (w, vs) \<Rightarrow>
          map_option (\<lambda>(s, _). (vs, qs_completed s, map je_requestId (qs_history s))) (qw_stats w)
      | None \<Rightarrow> None)"

definition batch_then_asked :: "platform \<Rightarrow> batch_request list \<Rightarrow> (verdict list \<times> queue_response) option" where
  "batch_then_asked P reqs =
     (case queueBatchCompileJob P open_queues reqs Standard idle_world of
        (w, Inr (requestId, _, msg)) \<Rightarrow>
          map_option (\<lambda>(w', vs). (vs, snd (handleQueueResults P requestId w'))) (handleQueue P w [msg])
      | _ \<Rightarrow> None)"

definition cancelled_then_processed ::
  "platform \<Rightarrow> jstr \<Rightarrow> compile_job \<Rightarrow> queue_response \<times> (verdict list \<times> int \<times> jstr list) option" where
  "cancelled_then_processed P requestId job =
     (let (w, r) = handleQueueCancel P \<lparr>ca_teamDomain = None, ca_aud = None, ca_jwtVerify = \<lambda>_ _ _ _. Inl []\<rparr>
            (ANONYMOUS_AUTH_CONTEXT\<lparr>ac_authMethod := Better_Auth\<rparr>) None requestId idle_world
      in (r, seen (handleQueue P w [Compile_Message job])))"

text \<open>
  Where the statistics and the signals deceive.  Three requests of one batch that interleave
  are counted as one, and only one of them is in the history.  A batch with one failing request
  is retried as a whole, so that its other request is compiled and counted again.  The identifier
  returned for a batch is not found afterwards, although the batch is done.  And a job whose
  cancellation was accepted is compiled and listed as completed all the same.
\<close>

theorem queue_faults:
  "seen (handleQueue (small_platform only_null id) idle_world
      [Batch_Message [null_request ''a'' JNull, null_request ''b'' JNull, null_request ''c'' JNull]]) =
     Some ([Ack], 1, [''c'']) \<and>
   seen (handleQueue (small_platform only_null (\<lambda>_. 0)) idle_world
      (replicate 2 (Batch_Message [null_request ''a'' JNull, null_request ''b'' (JBool True)]))) =
     Some ([Retry, Retry], 2, [''b'', ''a'', ''b'', ''a'']) \<and>
   batch_then_asked (small_platform only_null id) [null_request ''a'' JNull] = Some ([Ack], Job_Not_Found) \<and>
   cancelled_then_processed (small_platform only_null id) ''r1'' null_job =
     (Cancel_Signalled ''r1'', Some ([Ack], 1, [''r1'']))"
  by code_simp

end
