(* ===== verification/AdminRoles.thy ===== *)
theory AdminRoles
  imports Access CacheKey
begin

text \<open>
  The roles of administrators: tables and cache (\<open>worker/services/admin-role-service.ts\<close>), the guards
  (\<open>worker/middleware/admin-role-middleware.ts\<close>), the handlers for roles and their assignments
  (\<open>worker/handlers/admin-handlers.ts\<close>) with the schemas of their requests (\<open>worker/schemas.ts\<close>) and the
  audit log (\<open>worker/services/admin-audit-service.ts\<close>).  A column that holds JSON is what
  \<open>JSON.parse\<close> makes of it, \<open>None\<close> if it throws; a time is in milliseconds.  \<open>up\<close> says which calls to
  the stores succeed while a request is served; a call that fails throws.  The tables are those of
  \<open>admin-migrations/\<close>: role names and the users of assignments are unique, and the role of an
  assignment exists.  Tracing, analytics and the values in audit entries are left out.
\<close>

section \<open>Tables\<close>

definition ADMIN_ROLE_NAMES :: "jstr list" where
  "ADMIN_ROLE_NAMES = [''viewer'', ''editor'', ''super-admin'']"

definition ADMIN_PERMISSIONS :: "jstr list" where
  "ADMIN_PERMISSIONS =
     [''admin:read'', ''admin:write'', ''audit:read'', ''metrics:read'', ''config:read'', ''config:write'',
      ''users:read'', ''users:write'', ''users:manage'', ''flags:read'', ''flags:write'', ''tiers:read'',
      ''tiers:write'', ''scopes:read'', ''scopes:write'', ''endpoints:read'', ''endpoints:write'',
      ''announcements:read'', ''announcements:write'', ''roles:read'', ''roles:write'', ''roles:assign'',
      ''keys:read'', ''keys:write'', ''keys:revoke'', ''storage:read'', ''storage:write'']"

record admin_role =
  ar_name :: jstr
  ar_display :: jstr
  ar_description :: jstr
  ar_permissions :: "json option"
  ar_active :: bool
  ar_created :: int
  ar_updated :: int

record role_assignment =
  ra_user :: jstr
  ra_role :: jstr
  ra_by :: jstr
  ra_at :: int
  ra_expires :: "int option"

record admin_context =
  ad_user :: jstr
  ad_role :: jstr
  ad_permissions :: "jstr list"
  ad_expires :: "int option"

record audit_entry =
  au_actor :: jstr
  au_action :: jstr
  au_type :: jstr
  au_resource :: jstr

text \<open>
  \<open>am_cache\<close> holds the entries \<open>admin:role:\<close> of the key-value store with the times at which they
  expire, \<open>None\<close> for an entry that does not parse.  \<open>am_pending\<close> are the contexts that a guard has
  read from the tables and not yet written to the cache.
\<close>

record admin_state =
  am_roles :: "admin_role list"
  am_assignments :: "role_assignment list"
  am_cache :: "jstr \<rightharpoonup> admin_context option \<times> int"
  am_pending :: "admin_context list"
  am_audit :: "audit_entry list"
  am_now :: int

record admin_bindings =
  ab_db :: bool
  ab_kv :: bool

datatype store_call = Cache_Get | Cache_Put | Cache_Delete | Db_Query | Db_List | Audit_Insert

definition CACHE_TTL_SECONDS :: int where
  "CACHE_TTL_SECONDS = 300"

section \<open>Resolution of a role\<close>

fun json_strings :: "json list \<Rightarrow> jstr list option" where
  "json_strings [] = Some []"
| "json_strings (JStr s # js) = map_option ((#) s) (json_strings js)"
| "json_strings (_ # js) = None"

text \<open>\<open>ResolvedAdminContextSchema.parse\<close>; \<open>None\<close> throws.\<close>

definition ResolvedAdminContextSchema ::
  "jstr \<Rightarrow> jstr \<Rightarrow> json \<Rightarrow> int option \<Rightarrow> admin_context option" where
  "ResolvedAdminContextSchema user role permissions expires =
     (case permissions of
        JArr js \<Rightarrow>
          (case json_strings js of
             Some ps \<Rightarrow>
               if role \<in> set ADMIN_ROLE_NAMES \<and> set ps \<subseteq> set ADMIN_PERMISSIONS
               then Some \<lparr>ad_user = user, ad_role = role, ad_permissions = ps, ad_expires = expires\<rparr> else None
           | None \<Rightarrow> None)
      | _ \<Rightarrow> None)"

definition role_named :: "jstr \<Rightarrow> admin_state \<Rightarrow> admin_role option" where
  "role_named name s = List.find (\<lambda>r. ar_name r = name) (am_roles s)"

definition active_role :: "jstr \<Rightarrow> admin_state \<Rightarrow> admin_role option" where
  "active_role name s = List.find (\<lambda>r. ar_name r = name \<and> ar_active r) (am_roles s)"

definition assignment_of :: "jstr \<Rightarrow> admin_state \<Rightarrow> role_assignment option" where
  "assignment_of user s = List.find (\<lambda>a. ra_user a = user) (am_assignments s)"

definition has_expired :: "int \<Rightarrow> int option \<Rightarrow> bool" where
  "has_expired now expires = (case expires of None \<Rightarrow> False | Some t \<Rightarrow> t < now)"

datatype lookup = Cached admin_context | Fresh admin_context | No_Role | Lookup_Threw

definition table_lookup :: "admin_state \<Rightarrow> jstr \<Rightarrow> lookup" where
  "table_lookup s user =
     (case assignment_of user s of
        None \<Rightarrow> No_Role
      | Some a \<Rightarrow>
          (case active_role (ra_role a) s of
             None \<Rightarrow> No_Role
           | Some r \<Rightarrow>
               if has_expired (am_now s) (ra_expires a) then No_Role
               else
                 (case ar_permissions r of
                    None \<Rightarrow> No_Role
                  | Some permissions \<Rightarrow>
                      (case ResolvedAdminContextSchema user (ra_role a) permissions (ra_expires a) of
                         Some c \<Rightarrow> Fresh c
                       | None \<Rightarrow> Lookup_Threw))))"

definition cached_context :: "admin_state \<Rightarrow> jstr \<Rightarrow> admin_context option" where
  "cached_context s user =
     (case am_cache s user of
        Some (c, expires) \<Rightarrow> if am_now s < expires then c else None
      | None \<Rightarrow> None)"

definition resolve_read :: "admin_bindings \<Rightarrow> (store_call \<Rightarrow> bool) \<Rightarrow> admin_state \<Rightarrow> jstr \<Rightarrow> lookup" where
  "resolve_read B up s user =
     (if ab_kv B \<and> \<not> up Cache_Get then Lookup_Threw
      else
        (case (if ab_kv B then cached_context s user else None) of
           Some c \<Rightarrow> Cached c
         | None \<Rightarrow>
             if \<not> ab_db B then No_Role
             else if \<not> up Db_Query then Lookup_Threw
             else table_lookup s user))"

definition put_context :: "admin_context \<Rightarrow> admin_state \<Rightarrow> admin_state" where
  "put_context c s = s\<lparr>am_cache := (am_cache s)(ad_user c \<mapsto> (Some c, am_now s + CACHE_TTL_SECONDS * 1000))\<rparr>"

definition resolveAdminContext ::
  "admin_bindings \<Rightarrow> (store_call \<Rightarrow> bool) \<Rightarrow> jstr \<Rightarrow> admin_state \<Rightarrow> admin_state \<times> (unit + admin_context option)" where
  "resolveAdminContext B up user s =
     (case resolve_read B up s user of
        Cached c \<Rightarrow> (s, Inr (Some c))
      | No_Role \<Rightarrow> (s, Inr None)
      | Lookup_Threw \<Rightarrow> (s, Inl ())
      | Fresh c \<Rightarrow>
          if \<not> ab_kv B then (s, Inr (Some c))
          else if up Cache_Put then (put_context c s, Inr (Some c))
          else (s, Inl ()))"

definition invalidateRoleCache :: "admin_bindings \<Rightarrow> jstr \<Rightarrow> admin_state \<Rightarrow> admin_state" where
  "invalidateRoleCache B user s = (if ab_kv B then s\<lparr>am_cache := (am_cache s)(user := None)\<rparr> else s)"

section \<open>Guards\<close>

definition resolveAuthenticatedAdmin ::
  "admin_bindings \<Rightarrow> (store_call \<Rightarrow> bool) \<Rightarrow> auth_env \<Rightarrow> http_request \<Rightarrow> admin_state \<Rightarrow>
   admin_state \<times> (denial + admin_context)" where
  "resolveAuthenticatedAdmin B up env req s =
     (if \<not> ab_db B then (s, Inl (deny 503 ''Admin system not configured''))
      else
        (case verifyToken env req of
           Inl e \<Rightarrow>
             (s, Inl (deny 401 (case e of None \<Rightarrow> ''Invalid or missing authentication token'' | Some t \<Rightarrow> t)))
         | Inr r \<Rightarrow>
             if pr_user r = [] then (s, Inl (deny 401 ''Invalid or missing authentication token''))
             else if pr_role r \<noteq> ''admin'' then
               (s, Inl (deny 403 ''Insufficient privileges: admin role required''))
             else
               (case resolveAdminContext B up (pr_user r) s of
                  (s', Inl _) \<Rightarrow> (s', Inl (deny 500 ''Internal error resolving admin context''))
                | (s', Inr None) \<Rightarrow> (s', Inl (deny 403 ''No active admin role assignment''))
                | (s', Inr (Some c)) \<Rightarrow> (s', Inr c))))"

definition permission_check :: "(admin_context \<Rightarrow> jstr option) \<Rightarrow> denial + admin_context \<Rightarrow> denial + admin_context" where
  "permission_check missing g =
     (case g of
        Inl d \<Rightarrow> Inl d
      | Inr c \<Rightarrow>
          if ad_role c = ''super-admin'' then Inr c
          else (case missing c of Some e \<Rightarrow> Inl (deny 403 e) | None \<Rightarrow> Inr c))"

definition lacks_permission :: "jstr \<Rightarrow> admin_context \<Rightarrow> jstr option" where
  "lacks_permission p c =
     (if p \<notin> set (ad_permissions c) then Some (''Missing required permission: '' @ p) else None)"

definition lacks_any :: "jstr list \<Rightarrow> admin_context \<Rightarrow> jstr option" where
  "lacks_any ps c =
     (if list_ex (\<lambda>p. p \<in> set (ad_permissions c)) ps then None
      else Some (''Missing required permission: one of ['' @ join_with '', '' ps @ '']''))"

definition lacks_some :: "jstr list \<Rightarrow> admin_context \<Rightarrow> jstr option" where
  "lacks_some ps c =
     (let missing = filter (\<lambda>p. p \<notin> set (ad_permissions c)) ps
      in if missing \<noteq> [] then Some (''Missing required permissions: ['' @ join_with '', '' missing @ '']'') else None)"

type_synonym guard =
  "admin_bindings \<Rightarrow> (store_call \<Rightarrow> bool) \<Rightarrow> auth_env \<Rightarrow> http_request \<Rightarrow> admin_state \<Rightarrow>
   admin_state \<times> (denial + admin_context)"

definition requireAdminPermission :: "jstr \<Rightarrow> guard" where
  "requireAdminPermission permission B up env req s =
     (let (s', g) = resolveAuthenticatedAdmin B up env req s
      in (s', permission_check (lacks_permission permission) g))"

definition requireAnyAdminPermission :: "jstr list \<Rightarrow> guard" where
  "requireAnyAdminPermission permissions B up env req s =
     (let (s', g) = resolveAuthenticatedAdmin B up env req s
      in (s', permission_check (lacks_any permissions) g))"

definition requireAllAdminPermissions :: "jstr list \<Rightarrow> guard" where
  "requireAllAdminPermissions permissions B up env req s =
     (let (s', g) = resolveAuthenticatedAdmin B up env req s
      in (s', permission_check (lacks_some permissions) g))"

definition extractAdminContext :: guard where
  "extractAdminContext B up env req s = resolveAuthenticatedAdmin B up env req s"

section \<open>Roles\<close>

text \<open>A request that fails with an exception is \<open>None\<close>, beside the state it leaves.\<close>

definition valid_row :: "admin_role \<Rightarrow> bool" where
  "valid_row r \<longleftrightarrow> ar_name r \<in> set ADMIN_ROLE_NAMES \<and> ar_permissions r \<noteq> None"

definition listRoles :: "admin_state \<Rightarrow> admin_role list option" where
  "listRoles s =
     (let rows = sort_key ar_name (filter ar_active (am_roles s))
      in if list_all valid_row rows then Some rows else None)"

record create_role =
  cr_name :: jstr
  cr_display :: jstr
  cr_description :: jstr
  cr_permissions :: "jstr list"

record update_role =
  up_display :: "jstr option"
  up_description :: "jstr option"
  up_permissions :: "jstr list option"
  up_active :: "bool option"

definition createRole :: "create_role \<Rightarrow> admin_state \<Rightarrow> admin_state \<times> admin_role option" where
  "createRole d s =
     (if role_named (cr_name d) s \<noteq> None then (s, None)
      else
        let r = \<lparr>ar_name = cr_name d, ar_display = cr_display d, ar_description = cr_description d,
              ar_permissions = Some (strings_json (cr_permissions d)), ar_active = True,
              ar_created = am_now s, ar_updated = am_now s\<rparr>
        in (s\<lparr>am_roles := am_roles s @ [r]\<rparr>, if valid_row r then Some r else None))"

definition or_old :: "'a option \<Rightarrow> 'a \<Rightarrow> 'a" where
  "or_old new old = (case new of None \<Rightarrow> old | Some x \<Rightarrow> x)"

definition updated_row :: "update_role \<Rightarrow> int \<Rightarrow> admin_role \<Rightarrow> admin_role" where
  "updated_row d now r =
     r\<lparr>ar_display := or_old (up_display d) (ar_display r),
       ar_description := or_old (up_description d) (ar_description r),
       ar_permissions := (case up_permissions d of None \<Rightarrow> ar_permissions r | Some ps \<Rightarrow> Some (strings_json ps)),
       ar_active := or_old (up_active d) (ar_active r), ar_updated := now\<rparr>"

definition no_change :: "update_role \<Rightarrow> bool" where
  "no_change d \<longleftrightarrow> up_display d = None \<and> up_description d = None \<and> up_permissions d = None \<and> up_active d = None"

text \<open>\<open>Some None\<close>: there is no such role.\<close>

definition updateRole :: "jstr \<Rightarrow> update_role \<Rightarrow> admin_state \<Rightarrow> admin_state \<times> admin_role option option" where
  "updateRole name d s =
     (case role_named name s of
        None \<Rightarrow> (s, Some None)
      | Some r \<Rightarrow>
          if no_change d then (s, if valid_row r then Some (Some r) else None)
          else
            let r' = updated_row d (am_now s) r
            in (s\<lparr>am_roles := map (\<lambda>x. if ar_name x = name then updated_row d (am_now s) x else x) (am_roles s)\<rparr>,
                if valid_row r' then Some (Some r') else None))"

section \<open>Assignments\<close>

record assign_request =
  ag_user :: jstr
  ag_role :: jstr
  ag_expires :: "int option"

definition upsert :: "role_assignment \<Rightarrow> role_assignment list \<Rightarrow> role_assignment list" where
  "upsert a as =
     (if list_ex (\<lambda>x. ra_user x = ra_user a) as
      then map (\<lambda>x. if ra_user x = ra_user a then a else x) as else as @ [a])"

definition assignRole :: "assign_request \<Rightarrow> jstr \<Rightarrow> admin_state \<Rightarrow> admin_state \<times> role_assignment option" where
  "assignRole d assignedBy s =
     (if role_named (ag_role d) s = None then (s, None)
      else
        let a = \<lparr>ra_user = ag_user d, ra_role = ag_role d, ra_by = assignedBy, ra_at = am_now s,
              ra_expires = ag_expires d\<rparr>
        in (s\<lparr>am_assignments := upsert a (am_assignments s)\<rparr>,
            if ag_role d \<in> set ADMIN_ROLE_NAMES then Some a else None))"

definition revokeRole :: "jstr \<Rightarrow> jstr \<Rightarrow> admin_state \<Rightarrow> admin_state \<times> bool" where
  "revokeRole user role s =
     (let hit = (\<lambda>a. ra_user a = user \<and> ra_role a = role)
      in (s\<lparr>am_assignments := filter (\<lambda>a. \<not> hit a) (am_assignments s)\<rparr>, list_ex hit (am_assignments s)))"

text \<open>The order of assignments of the same time is up to the database.\<close>

definition listRoleAssignments :: "jstr option \<Rightarrow> jstr option \<Rightarrow> admin_state \<Rightarrow> role_assignment list option" where
  "listRoleAssignments user role s =
     (let rows = sort_key (\<lambda>a. - ra_at a)
            (filter (\<lambda>a. (truthy user \<longrightarrow> Some (ra_user a) = user) \<and> (truthy role \<longrightarrow> Some (ra_role a) = role))
              (am_assignments s))
      in if list_all (\<lambda>a. ra_role a \<in> set ADMIN_ROLE_NAMES) rows then Some rows else None)"

section \<open>Requests\<close>

definition text_between :: "nat \<Rightarrow> nat \<Rightarrow> json \<Rightarrow> bool" where
  "text_between lo hi v = is_string (\<lambda>t. lo \<le> length t \<and> length t \<le> hi) v"

definition role_name_char :: "char \<Rightarrow> bool" where
  "role_name_char c \<longleftrightarrow> is_lower c \<or> is_digit c \<or> c = CHR ''-''"

definition permissions_field :: "json \<Rightarrow> bool" where
  "permissions_field v \<longleftrightarrow> is_array (is_string (\<lambda>p. p \<in> set ADMIN_PERMISSIONS)) v \<and> v \<noteq> JArr []"

definition field_strings :: "jstr \<Rightarrow> (jstr \<times> json) list \<Rightarrow> jstr list option" where
  "field_strings key fs = (case map_of fs key of Some (JArr js) \<Rightarrow> json_strings js | _ \<Rightarrow> None)"

definition CreateAdminRoleRequestSchema :: "json \<Rightarrow> create_role option" where
  "CreateAdminRoleRequestSchema body =
     (case body of
        JObj fs \<Rightarrow>
          if required ''role_name'' (\<lambda>v. text_between 1 50 v \<and> is_string (list_all role_name_char) v) fs \<and>
             required ''display_name'' (text_between 1 100) fs \<and> optional ''description'' (text_between 0 500) fs \<and>
             required ''permissions'' permissions_field fs
          then Some \<lparr>cr_name = or_empty (text_field ''role_name'' fs), cr_display = or_empty (text_field ''display_name'' fs),
                 cr_description = or_empty (text_field ''description'' fs),
                 cr_permissions = (case field_strings ''permissions'' fs of Some ps \<Rightarrow> ps | None \<Rightarrow> [])\<rparr>
          else None
      | _ \<Rightarrow> None)"

definition UpdateAdminRoleRequestSchema :: "json \<Rightarrow> update_role option" where
  "UpdateAdminRoleRequestSchema body =
     (case body of
        JObj fs \<Rightarrow>
          if optional ''display_name'' (text_between 1 100) fs \<and> optional ''description'' (text_between 0 500) fs \<and>
             optional ''permissions'' permissions_field fs \<and> optional ''is_active'' is_bool fs
          then Some \<lparr>up_display = text_field ''display_name'' fs, up_description = text_field ''description'' fs,
                 up_permissions = field_strings ''permissions'' fs,
                 up_active = (case map_of fs ''is_active'' of Some (JBool b) \<Rightarrow> Some b | _ \<Rightarrow> None)\<rparr>
          else None
      | _ \<Rightarrow> None)"

text \<open>\<open>date\<close> is the time of a text that \<open>z.string().datetime()\<close> accepts.\<close>

definition AssignRoleRequestSchema :: "(jstr \<Rightarrow> int option) \<Rightarrow> json \<Rightarrow> assign_request option" where
  "AssignRoleRequestSchema date body =
     (case body of
        JObj fs \<Rightarrow>
          if required ''user_id'' (is_string (\<lambda>t. t \<noteq> [])) fs \<and>
             required ''role_name'' (is_string (\<lambda>t. t \<in> set ADMIN_ROLE_NAMES)) fs \<and>
             optional ''expires_at'' (\<lambda>v. v = JNull \<or> is_string (\<lambda>t. date t \<noteq> None) v) fs
          then Some \<lparr>ag_user = or_empty (text_field ''user_id'' fs), ag_role = or_empty (text_field ''role_name'' fs),
                 ag_expires = Option.bind (text_field ''expires_at'' fs) date\<rparr>
          else None
      | _ \<Rightarrow> None)"

section \<open>Handlers\<close>

datatype admin_response =
    Denied denial
  | Roles_Listed "admin_role list"
  | Role_Created admin_role
  | Role_Updated admin_role
  | Assignments_Listed "role_assignment list"
  | Role_Assigned role_assignment
  | Role_Revoked
  | My_Permissions admin_context
  | Request_Threw

text \<open>The body of a handler, after the guard: the actor is the administrator that passed it.  The
  audit entry is written last; when that fails, the change has been made all the same.\<close>

definition audited :: "(store_call \<Rightarrow> bool) \<Rightarrow> audit_entry \<Rightarrow> admin_response \<Rightarrow> admin_state \<Rightarrow> admin_state \<times> admin_response" where
  "audited up entry response s =
     (if up Audit_Insert then (s\<lparr>am_audit := am_audit s @ [entry]\<rparr>, response) else (s, Request_Threw))"

definition role_entry :: "jstr \<Rightarrow> jstr \<Rightarrow> jstr \<Rightarrow> audit_entry" where
  "role_entry actor action resource =
     \<lparr>au_actor = actor, au_action = action, au_type = ''admin_role'', au_resource = resource\<rparr>"

definition assignment_entry :: "jstr \<Rightarrow> jstr \<Rightarrow> assign_request \<Rightarrow> audit_entry" where
  "assignment_entry actor action d =
     \<lparr>au_actor = actor, au_action = action, au_type = ''admin_role_assignment'',
      au_resource = ag_user d @ '':'' @ ag_role d\<rparr>"

definition list_body :: "(store_call \<Rightarrow> bool) \<Rightarrow> admin_state \<Rightarrow> admin_state \<times> admin_response" where
  "list_body up s =
     (s, case (if up Db_List then listRoles s else None) of None \<Rightarrow> Request_Threw | Some rs \<Rightarrow> Roles_Listed rs)"

definition create_body :: "(store_call \<Rightarrow> bool) \<Rightarrow> jstr \<Rightarrow> json option \<Rightarrow> admin_state \<Rightarrow> admin_state \<times> admin_response" where
  "create_body up actor body s =
     (case body of
        None \<Rightarrow> (s, Denied (deny 400 ''Invalid JSON body''))
      | Some b \<Rightarrow>
          (case CreateAdminRoleRequestSchema b of
             None \<Rightarrow> (s, Denied (deny 400 ''Invalid request body''))
           | Some d \<Rightarrow>
               if \<not> up Db_Query then (s, Request_Threw)
               else
                 (case createRole d s of
                    (s', None) \<Rightarrow> (s', Request_Threw)
                  | (s', Some r) \<Rightarrow> audited up (role_entry actor ''role.create'' (ar_name r)) (Role_Created r) s')))"

definition update_body ::
  "(store_call \<Rightarrow> bool) \<Rightarrow> jstr \<Rightarrow> jstr \<Rightarrow> json option \<Rightarrow> admin_state \<Rightarrow> admin_state \<times> admin_response" where
  "update_body up actor roleName body s =
     (if roleName = [] then (s, Denied (deny 400 ''Missing role name in URL''))
      else
        (case body of
           None \<Rightarrow> (s, Denied (deny 400 ''Invalid JSON body''))
         | Some b \<Rightarrow>
             (case UpdateAdminRoleRequestSchema b of
                None \<Rightarrow> (s, Denied (deny 400 ''Invalid request body''))
              | Some d \<Rightarrow>
                  if \<not> up Db_List \<or> listRoles s = None \<or> \<not> up Db_Query then (s, Request_Threw)
                  else
                    (case updateRole roleName d s of
                       (s', None) \<Rightarrow> (s', Request_Threw)
                     | (s', Some None) \<Rightarrow> (s', Denied (deny 404 ''Role not found''))
                     | (s', Some (Some r)) \<Rightarrow>
                         audited up (role_entry actor ''role.update'' roleName) (Role_Updated r) s'))))"

definition assign_body ::
  "admin_bindings \<Rightarrow> (store_call \<Rightarrow> bool) \<Rightarrow> (jstr \<Rightarrow> int option) \<Rightarrow> jstr \<Rightarrow> json option \<Rightarrow> admin_state \<Rightarrow>
   admin_state \<times> admin_response" where
  "assign_body B up date actor body s =
     (case body of
        None \<Rightarrow> (s, Denied (deny 400 ''Invalid JSON body''))
      | Some b \<Rightarrow>
          (case AssignRoleRequestSchema date b of
             None \<Rightarrow> (s, Denied (deny 400 ''Invalid request body''))
           | Some d \<Rightarrow>
               if \<not> up Db_Query then (s, Request_Threw)
               else
                 (case assignRole d actor s of
                    (s', None) \<Rightarrow> (s', Request_Threw)
                  | (s', Some a) \<Rightarrow>
                      if ab_kv B \<and> \<not> up Cache_Delete then (s', Request_Threw)
                      else audited up (assignment_entry actor ''role.assign'' d) (Role_Assigned a)
                             (invalidateRoleCache B (ag_user d) s'))))"

definition revoke_body ::
  "admin_bindings \<Rightarrow> (store_call \<Rightarrow> bool) \<Rightarrow> (jstr \<Rightarrow> int option) \<Rightarrow> jstr \<Rightarrow> json option \<Rightarrow> admin_state \<Rightarrow>
   admin_state \<times> admin_response" where
  "revoke_body B up date actor body s =
     (case body of
        None \<Rightarrow> (s, Denied (deny 400 ''Invalid JSON body''))
      | Some b \<Rightarrow>
          (case AssignRoleRequestSchema date b of
             None \<Rightarrow> (s, Denied (deny 400 ''Invalid request body''))
           | Some d \<Rightarrow>
               if \<not> up Db_Query then (s, Request_Threw)
               else
                 (case revokeRole (ag_user d) (ag_role d) s of
                    (s', False) \<Rightarrow> (s', Denied (deny 404 ''Role assignment not found''))
                  | (s', True) \<Rightarrow>
                      if ab_kv B \<and> \<not> up Cache_Delete then (s', Request_Threw)
                      else audited up (assignment_entry actor ''role.revoke'' d) Role_Revoked
                             (invalidateRoleCache B (ag_user d) s'))))"

definition assignments_body ::
  "(store_call \<Rightarrow> bool) \<Rightarrow> jstr option \<Rightarrow> jstr option \<Rightarrow> admin_state \<Rightarrow> admin_state \<times> admin_response" where
  "assignments_body up user role s =
     (s, case (if up Db_List then listRoleAssignments user role s else None) of
           None \<Rightarrow> Request_Threw
         | Some as \<Rightarrow> Assignments_Listed as)"

definition guarded ::
  "guard \<Rightarrow> admin_bindings \<Rightarrow> (store_call \<Rightarrow> bool) \<Rightarrow> auth_env \<Rightarrow> http_request \<Rightarrow>
   (admin_context \<Rightarrow> admin_state \<Rightarrow> admin_state \<times> admin_response) \<Rightarrow> admin_state \<Rightarrow> admin_state \<times> admin_response" where
  "guarded g B up env req body s =
     (case g B up env req s of
        (s', Inl d) \<Rightarrow> (s', Denied d)
      | (s', Inr c) \<Rightarrow>
          if \<not> ab_db B then (s', Denied (deny 503 ''Admin system not configured'')) else body c s')"

definition handleAdminListRoles where
  "handleAdminListRoles B up env req =
     guarded (requireAdminPermission ''admin:read'') B up env req (\<lambda>_. list_body up)"

definition handleAdminCreateRole where
  "handleAdminCreateRole B up env req body =
     guarded (requireAdminPermission ''roles:write'') B up env req (\<lambda>c. create_body up (ad_user c) body)"

definition handleAdminUpdateRole where
  "handleAdminUpdateRole B up env req roleName body =
     guarded (requireAdminPermission ''roles:write'') B up env req (\<lambda>c. update_body up (ad_user c) roleName body)"

definition handleAdminListAssignments where
  "handleAdminListAssignments B up env req user role =
     guarded (requireAdminPermission ''admin:read'') B up env req (\<lambda>_. assignments_body up user role)"

definition handleAdminAssignRole where
  "handleAdminAssignRole B up env req body =
     guarded (requireAdminPermission ''roles:assign'') B up env req (\<lambda>c. assign_body B up (ae_date env) (ad_user c) body)"

definition handleAdminRevokeRole where
  "handleAdminRevokeRole B up env req body =
     guarded (requireAdminPermission ''roles:assign'') B up env req (\<lambda>c. revoke_body B up (ae_date env) (ad_user c) body)"

definition handleAdminGetMyPermissions where
  "handleAdminGetMyPermissions B up env req =
     guarded extractAdminContext B up env req (\<lambda>c s. (s, My_Permissions c))"

section \<open>Requests at the same time\<close>

text \<open>
  A guard waits between its read of the tables and its write to the cache, and other requests may
  run meanwhile; the body of a handler is one step.  The store may lose an entry at any time.
\<close>

datatype admin_event = Looked_Up | Cache_Written | Changed | Assigned jstr | Passed

inductive admin_step :: "admin_bindings \<Rightarrow> admin_event \<Rightarrow> admin_state \<Rightarrow> admin_state \<Rightarrow> bool" for B where
  read: "resolve_read B up s u = Fresh c \<Longrightarrow> admin_step B Looked_Up s (s\<lparr>am_pending := c # am_pending s\<rparr>)"
| put: "c \<in> set (am_pending s) \<Longrightarrow> ab_kv B \<Longrightarrow>
     admin_step B Cache_Written s (put_context c (s\<lparr>am_pending := remove1 c (am_pending s)\<rparr>))"
| not_put: "c \<in> set (am_pending s) \<Longrightarrow> admin_step B Passed s (s\<lparr>am_pending := remove1 c (am_pending s)\<rparr>)"
| create: "admin_step B Changed s (fst (create_body up actor body s))"
| update: "admin_step B Changed s (fst (update_body up actor name body s))"
| assign: "AssignRoleRequestSchema date b = Some d \<Longrightarrow>
     admin_step B (Assigned (ag_user d)) s (fst (assign_body B up date actor (Some b) s))"
| revoke: "admin_step B Changed s (fst (revoke_body B up date actor body s))"
| lost: "admin_step B Passed s (s\<lparr>am_cache := (am_cache s)(u := None)\<rparr>)"
| tick: "am_now s \<le> t \<Longrightarrow> admin_step B Passed s (s\<lparr>am_now := t\<rparr>)"

definition admin_moves :: "admin_bindings \<Rightarrow> (admin_event \<Rightarrow> bool) \<Rightarrow> admin_state \<Rightarrow> admin_state \<Rightarrow> bool" where
  "admin_moves B allowed s t \<longleftrightarrow> (\<exists>l. allowed l \<and> admin_step B l s t)"

abbreviation admin_runs :: "admin_bindings \<Rightarrow> admin_state \<Rightarrow> admin_state \<Rightarrow> bool" where
  "admin_runs B \<equiv> (admin_moves B (\<lambda>_. True))\<^sup>*\<^sup>*"

section \<open>Where a permission comes from\<close>

lemma json_strings_Some: "json_strings js = Some ps \<Longrightarrow> js = map JStr ps"
  by (induction js arbitrary: ps rule: json_strings.induct) auto

text \<open>What the tables say about a context.\<close>

definition granted_by_tables :: "admin_state \<Rightarrow> admin_context \<Rightarrow> bool" where
  "granted_by_tables s c \<longleftrightarrow>
     (\<exists>a \<in> set (am_assignments s). \<exists>r \<in> set (am_roles s).
        ra_user a = ad_user c \<and> ra_role a = ad_role c \<and> ra_expires a = ad_expires c \<and>
        ar_name r = ad_role c \<and> ar_active r \<and> ar_permissions r = Some (strings_json (ad_permissions c)) \<and>
        \<not> has_expired (am_now s) (ra_expires a))"

lemma find_in_list: "List.find Q xs = Some x \<Longrightarrow> x \<in> set xs \<and> Q x"
  by (auto simp: find_Some_iff)

lemma ResolvedAdminContextSchema_Some:
  assumes "ResolvedAdminContextSchema user role permissions expires = Some c"
  shows "ad_user c = user \<and> ad_role c = role \<and> permissions = strings_json (ad_permissions c) \<and> ad_expires c = expires"
  using assms json_strings_Some
  by (auto simp: ResolvedAdminContextSchema_def strings_json_def split: json.splits option.splits if_splits)

lemma table_lookup_Fresh:
  assumes "table_lookup s user = Fresh c"
  shows "ad_user c = user \<and> granted_by_tables s c \<and> assignment_of user s \<noteq> None"
proof -
  obtain a r permissions where found: "assignment_of user s = Some a" "active_role (ra_role a) s = Some r"
    "\<not> has_expired (am_now s) (ra_expires a)" "ar_permissions r = Some permissions"
    "ResolvedAdminContextSchema user (ra_role a) permissions (ra_expires a) = Some c"
    using assms by (auto simp: table_lookup_def split: option.splits if_splits)
  note c = ResolvedAdminContextSchema_Some [OF found(5)]
  have "a \<in> set (am_assignments s)" "ra_user a = user" "r \<in> set (am_roles s)" "ar_name r = ra_role a" "ar_active r"
    using found(1,2) find_in_list unfolding assignment_of_def active_role_def by fast+
  then have "granted_by_tables s c" unfolding granted_by_tables_def using found(3,4) c by metis
  then show ?thesis using c found(1) by simp
qed

lemma resolve_read_Fresh: "resolve_read B up s u = Fresh c \<Longrightarrow> table_lookup s u = Fresh c"
  by (auto simp: resolve_read_def split: if_splits option.splits)

text \<open>Bodies of handlers only take entries out of the cache.\<close>

definition cache_shrinks :: "admin_state \<Rightarrow> admin_state \<Rightarrow> bool" where
  "cache_shrinks s t \<longleftrightarrow> am_cache t \<subseteq>\<^sub>m am_cache s \<and> am_pending t = am_pending s \<and> am_now t = am_now s"

lemma map_del_le: "m(u := None) \<subseteq>\<^sub>m m"
  by (simp add: map_le_def)

lemma invalidate_shrinks: "cache_shrinks s t \<Longrightarrow> cache_shrinks s (invalidateRoleCache B u t)"
  using map_le_trans [OF map_del_le] by (auto simp: cache_shrinks_def invalidateRoleCache_def)

lemma audited_shrinks: "cache_shrinks s t \<Longrightarrow> cache_shrinks s (fst (audited up e r t))"
  by (simp add: cache_shrinks_def audited_def)

lemma bodies_shrink:
  "cache_shrinks s (fst (create_body up actor body s))"
  "cache_shrinks s (fst (update_body up actor name body s))"
  "cache_shrinks s (fst (assign_body B up date actor body s))"
  "cache_shrinks s (fst (revoke_body B up date actor body s))"
proof -
  have same [simp]: "cache_shrinks s s" "cache_shrinks s (s\<lparr>am_roles := rs\<rparr>)" "cache_shrinks s (s\<lparr>am_assignments := as\<rparr>)" for rs as
    by (simp_all add: cache_shrinks_def)
  have create: "cache_shrinks s (fst (createRole d s))" for d by (simp add: createRole_def Let_def)
  have upd: "cache_shrinks s (fst (updateRole name d s))" for d name
    by (simp add: updateRole_def Let_def split: option.split)
  have assign: "cache_shrinks s (fst (assignRole d b s))" for d b by (simp add: assignRole_def Let_def)
  have revoke: "cache_shrinks s (fst (revokeRole u r s))" for u r by (simp add: revokeRole_def Let_def)
  show "cache_shrinks s (fst (create_body up actor body s))"
    by (auto simp: create_body_def intro: audited_shrinks dest: arg_cong [where f = fst] split: option.splits prod.splits)
      (metis create fst_conv audited_shrinks)+
  show "cache_shrinks s (fst (update_body up actor name body s))"
    by (auto simp: update_body_def split: option.splits prod.splits) (metis upd fst_conv audited_shrinks)+
  show "cache_shrinks s (fst (assign_body B up date actor body s))"
    by (auto simp: assign_body_def split: option.splits prod.splits) (metis assign fst_conv audited_shrinks invalidate_shrinks)+
  show "cache_shrinks s (fst (revoke_body B up date actor body s))"
    by (auto simp: revoke_body_def split: option.splits prod.splits bool.splits) (metis revoke fst_conv audited_shrinks invalidate_shrinks)+
qed

lemma admin_step_effect:
  assumes "admin_step B l s t"
  shows "am_cache t \<subseteq>\<^sub>m am_cache s \<and> set (am_pending t) \<subseteq> set (am_pending s) \<or>
    (\<exists>c. table_lookup s (ad_user c) = Fresh c \<and> t = s\<lparr>am_pending := c # am_pending s\<rparr>) \<or>
    (\<exists>c \<in> set (am_pending s). t = put_context c (s\<lparr>am_pending := remove1 c (am_pending s)\<rparr>))"
  using assms
proof cases
  case (read up u c)
  then have "table_lookup s (ad_user c) = Fresh c" using resolve_read_Fresh table_lookup_Fresh by blast
  then show ?thesis using read by blast
next
  case (not_put c)
  then show ?thesis using set_remove1_subset [of c "am_pending s"] by auto
qed (use bodies_shrink in \<open>auto simp: cache_shrinks_def map_del_le\<close>)

text \<open>
  Every context on its way to the cache, or in it, was granted by the tables of an earlier state;
  it entered the cache in a state since then.
\<close>

definition came_from :: "admin_bindings \<Rightarrow> admin_state \<Rightarrow> admin_state \<Rightarrow> admin_context \<Rightarrow> bool" where
  "came_from B s0 s c \<longleftrightarrow> (\<exists>s1. admin_runs B s0 s1 \<and> admin_runs B s1 s \<and> granted_by_tables s1 c)"

definition entered :: "admin_bindings \<Rightarrow> admin_state \<Rightarrow> admin_state \<Rightarrow> admin_context \<Rightarrow> int \<Rightarrow> bool" where
  "entered B s0 s c x \<longleftrightarrow>
     (\<exists>s2. came_from B s0 s2 c \<and> admin_runs B s2 s \<and> x = am_now s2 + CACHE_TTL_SECONDS * 1000)"

definition sourced :: "admin_bindings \<Rightarrow> admin_state \<Rightarrow> admin_state \<Rightarrow> bool" where
  "sourced B s0 s \<longleftrightarrow> (\<forall>c \<in> set (am_pending s). came_from B s0 s c) \<and>
     (\<forall>u c x. am_cache s u = Some (Some c, x) \<longrightarrow> ad_user c = u \<and> entered B s0 s c x)"

lemma came_from_later: "came_from B s0 s c \<Longrightarrow> admin_runs B s t \<Longrightarrow> came_from B s0 t c"
  unfolding came_from_def by (metis (no_types, lifting) rtranclp_trans)

lemma entered_later: "entered B s0 s c x \<Longrightarrow> admin_runs B s t \<Longrightarrow> entered B s0 t c x"
  unfolding entered_def by (metis (no_types, lifting) rtranclp_trans)

lemma sourced_step:
  assumes runs: "admin_runs B s0 s" and src: "sourced B s0 s" and step: "admin_step B l s t"
  shows "sourced B s0 t"
proof -
  have "admin_moves B (\<lambda>_. True) s t" using step by (auto simp: admin_moves_def)
  then have one: "admin_runs B s t" by (rule r_into_rtranclp)
  note later = came_from_later [OF _ one] entered_later [OF _ one]
  from admin_step_effect [OF step] consider
      (less) "am_cache t \<subseteq>\<^sub>m am_cache s" "set (am_pending t) \<subseteq> set (am_pending s)"
    | (read) c where "table_lookup s (ad_user c) = Fresh c" "t = s\<lparr>am_pending := c # am_pending s\<rparr>"
    | (put) c where "c \<in> set (am_pending s)" "t = put_context c (s\<lparr>am_pending := remove1 c (am_pending s)\<rparr>)"
    by blast
  then show ?thesis
  proof cases
    case less
    have "am_cache s u = Some v" if "am_cache t u = Some v" for u v
      using less(1) that by (metis map_le_def domI)
    then show ?thesis using src less(2) later unfolding sourced_def by blast
  next
    case (read c)
    have "came_from B s0 s c" using runs table_lookup_Fresh [OF read(1)] unfolding came_from_def by blast
    then show ?thesis using src later unfolding sourced_def by (simp add: read(2))
  next
    case (put c)
    have pending: "set (am_pending t) \<subseteq> set (am_pending s)"
      by (simp add: put(2) put_context_def set_remove1_subset)
    have c: "came_from B s0 s c" using src put(1) by (simp add: sourced_def)
    have "entered B s0 s c (am_now s + CACHE_TTL_SECONDS * 1000)"
      using c unfolding entered_def by blast
    then have "entered B s0 t c (am_now s + CACHE_TTL_SECONDS * 1000)" by (rule later)
    then have "ad_user d = u \<and> entered B s0 t d x" if "am_cache t u = Some (Some d, x)" for u d x
      using that src later(2) unfolding sourced_def by (auto simp: put(2) put_context_def split: if_splits)
    then show ?thesis using pending src later(1) unfolding sourced_def by blast
  qed
qed

lemma sourced_run:
  assumes "admin_runs B s0 s" and "am_cache s0 = Map.empty" and "am_pending s0 = []"
  shows "sourced B s0 s"
  using assms(1)
proof (induction rule: rtranclp_induct)
  case base
  then show ?case by (simp add: sourced_def assms)
next
  case (step s t)
  then show ?case using sourced_step unfolding admin_moves_def by blast
qed

lemma resolve_read_Cached: "resolve_read B up s u = Cached c \<Longrightarrow> cached_context s u = Some c"
  by (auto simp: resolve_read_def table_lookup_def split: if_splits option.splits)

lemma resolved_context:
  assumes "resolveAdminContext B up u s = (s', Inr (Some c))"
  shows "cached_context s u = Some c \<or> ad_user c = u \<and> granted_by_tables s c"
proof -
  have "resolve_read B up s u = Cached c \<or> resolve_read B up s u = Fresh c"
    using assms by (cases "resolve_read B up s u") (auto simp: resolveAdminContext_def split: if_splits)
  then show ?thesis using resolve_read_Cached resolve_read_Fresh table_lookup_Fresh by blast
qed

lemma admin_authenticated:
  assumes "resolveAuthenticatedAdmin B up env req s = (s', Inr c)"
  shows "\<exists>u. ae_get_session env req = Session u \<and> su_id u \<noteq> [] \<and> su_role u = Some ''admin'' \<and>
    resolveAdminContext B up (su_id u) s = (s', Inr (Some c))"
  using assms
  by (auto simp: resolveAuthenticatedAdmin_def verifyToken_def resolveRole_def
      split: if_splits sum.splits session_answer.splits option.splits prod.splits)

lemma permission_check_Inr:
  "permission_check missing g = Inr c \<longleftrightarrow> g = Inr c \<and> (ad_role c = ''super-admin'' \<or> missing c = None)"
  by (auto simp: permission_check_def split: sum.split option.split)

section \<open>What later requests cannot undo\<close>

text \<open>A role of another name than the built-in ones, once stored, makes every listing throw.\<close>

definition spoiled :: "admin_state \<Rightarrow> bool" where
  "spoiled s \<longleftrightarrow> (\<exists>r \<in> set (am_roles s). ar_active r \<and> ar_name r \<notin> set ADMIN_ROLE_NAMES)"

lemma spoiled_list: "spoiled s \<Longrightarrow> listRoles s = None"
  by (auto simp: spoiled_def listRoles_def Let_def list_all_iff valid_row_def)

lemma audited_state [simp]:
  "am_roles (fst (audited up e r s)) = am_roles s" "am_assignments (fst (audited up e r s)) = am_assignments s"
  "am_cache (fst (audited up e r s)) = am_cache s" "am_pending (fst (audited up e r s)) = am_pending s"
  by (simp_all add: audited_def)

lemma invalidate_state [simp]:
  "am_roles (invalidateRoleCache B u s) = am_roles s" "am_assignments (invalidateRoleCache B u s) = am_assignments s"
  by (simp_all add: invalidateRoleCache_def)

lemma roles_create: "\<exists>rs. am_roles (fst (create_body up actor body s)) = am_roles s @ rs"
  by (auto simp: create_body_def createRole_def Let_def split: option.split)

lemma roles_assign [simp]: "am_roles (fst (assign_body B up date actor body s)) = am_roles s"
  by (auto simp: assign_body_def assignRole_def Let_def split: option.split)

lemma roles_revoke [simp]: "am_roles (fst (revoke_body B up date actor body s)) = am_roles s"
  by (auto simp: revoke_body_def revokeRole_def Let_def split: option.split bool.split)

lemma update_spoiled: "spoiled s \<Longrightarrow> fst (update_body up actor name body s) = s"
  using spoiled_list by (auto simp: update_body_def split: option.split)

lemma spoiled_step:
  assumes "admin_step B l s t" and "spoiled s"
  shows "spoiled t"
  using assms(1)
proof cases
  case (create up actor body)
  then show ?thesis using roles_create [of up actor body s] assms(2) by (auto simp: spoiled_def)
next
  case (update up actor name body)
  then show ?thesis using update_spoiled assms(2) by simp
qed (use assms(2) in \<open>auto simp: spoiled_def put_context_def\<close>)

lemma spoiled_run: "admin_runs B s t \<Longrightarrow> spoiled s \<Longrightarrow> spoiled t"
  by (induction rule: rtranclp_induct) (auto simp: admin_moves_def intro: spoiled_step)

text \<open>A user without a role: no assignment, no cached context, and none on the way.\<close>

definition without_role :: "admin_bindings \<Rightarrow> jstr \<Rightarrow> admin_state \<Rightarrow> bool" where
  "without_role B u s \<longleftrightarrow>
     (\<forall>a \<in> set (am_assignments s). ra_user a \<noteq> u) \<and> (ab_kv B \<longrightarrow> am_cache s u = None) \<and>
     (\<forall>c \<in> set (am_pending s). ad_user c \<noteq> u)"

lemma without_role_read: "without_role B u s \<Longrightarrow> resolve_read B up s u \<in> {No_Role, Lookup_Threw}"
proof -
  assume u: "without_role B u s"
  then have "assignment_of u s = None" by (auto simp: without_role_def assignment_of_def find_None_iff)
  then show ?thesis using u by (simp add: resolve_read_def table_lookup_def cached_context_def without_role_def)
qed

lemma assignments_other:
  "am_assignments (fst (create_body up actor body s)) = am_assignments s"
  "am_assignments (fst (update_body up actor name body s)) = am_assignments s"
  "set (am_assignments (fst (revoke_body B up date actor body s))) \<subseteq> set (am_assignments s)"
  by (auto simp: create_body_def createRole_def update_body_def updateRole_def revoke_body_def revokeRole_def Let_def
      split: option.split bool.split if_splits)

lemma assignments_assign:
  assumes "AssignRoleRequestSchema date b = Some d" and "a \<in> set (am_assignments (fst (assign_body B up date actor (Some b) s)))"
  shows "a \<in> set (am_assignments s) \<or> ra_user a = ag_user d"
  using assms by (auto simp: assign_body_def assignRole_def upsert_def Let_def split: if_splits option.splits)

lemma without_role_step:
  assumes "admin_step B l s t" and u: "without_role B u s" and "l \<noteq> Assigned u"
  shows "without_role B u t"
proof -
  have less: "without_role B u t"
    if "am_cache t \<subseteq>\<^sub>m am_cache s" "set (am_pending t) \<subseteq> set (am_pending s)"
      "\<forall>a \<in> set (am_assignments t). a \<in> set (am_assignments s) \<or> ra_user a \<noteq> u"
  proof -
    have "am_cache t u = None" if "am_cache s u = None"
      using that \<open>am_cache t \<subseteq>\<^sub>m am_cache s\<close> by (metis domI map_le_def not_None_eq)
    then show ?thesis using u that by (auto simp: without_role_def)
  qed
  from assms(1) show ?thesis
  proof cases
    case (read up v c)
    have "v \<noteq> u" using read(3) without_role_read [OF u, of up] by auto
    then have "ad_user c \<noteq> u" using read(3) resolve_read_Fresh table_lookup_Fresh by blast
    then show ?thesis using u read by (auto simp: without_role_def)
  next
    case (put c)
    then have "ad_user c \<noteq> u" using u by (auto simp: without_role_def)
    then show ?thesis using u notin_set_remove1 unfolding without_role_def
      by (auto simp: put put_context_def)
  next
    case (not_put c)
    then show ?thesis by (intro less) (auto simp: set_remove1_subset)
  next
    case (assign date b d up actor)
    have "a \<in> set (am_assignments s) \<or> ra_user a \<noteq> u" if "a \<in> set (am_assignments t)" for a
      using assignments_assign [OF assign(3), of a B up actor s] that assign(1,2) assms(3) by auto
    then show ?thesis using bodies_shrink(3) [of s B up date actor "Some b"] assign(2)
      by (intro less) (auto simp: cache_shrinks_def)
  next
    case (create up actor body)
    then show ?thesis using bodies_shrink(1) [of s up actor body] assignments_other(1)
      by (intro less) (auto simp: cache_shrinks_def)
  next
    case (update up actor name body)
    then show ?thesis using bodies_shrink(2) [of s up actor name body] assignments_other(2)
      by (intro less) (auto simp: cache_shrinks_def)
  next
    case (revoke up date actor body)
    then show ?thesis using bodies_shrink(4) [of s B up date actor body] assignments_other(3) [of B up date actor body s]
      by (intro less) (auto simp: cache_shrinks_def)
  next
    case (lost v)
    then show ?thesis by (intro less) (auto simp: map_del_le)
  next
    case (tick n)
    then show ?thesis by (intro less) auto
  qed
qed

lemma without_role_run:
  "(admin_moves B (\<lambda>l. l \<noteq> Assigned u))\<^sup>*\<^sup>* s t \<Longrightarrow> without_role B u s \<Longrightarrow> without_role B u t"
  by (induction rule: rtranclp_induct) (auto simp: admin_moves_def intro: without_role_step)

lemma revoked_without_role:
  assumes "revoke_body B up date actor (Some body) s = (t, Role_Revoked)"
    and "AssignRoleRequestSchema date body = Some d" and "distinct (map ra_user (am_assignments s))"
    and "\<forall>c \<in> set (am_pending s). ad_user c \<noteq> ag_user d"
  shows "without_role B (ag_user d) t"
proof -
  have t: "t = fst (audited up (assignment_entry actor ''role.revoke'' d) Role_Revoked
      (invalidateRoleCache B (ag_user d) (fst (revokeRole (ag_user d) (ag_role d) s))))"
    "snd (revokeRole (ag_user d) (ag_role d) s)"
    using assms(1,2) by (auto simp: revoke_body_def split: if_splits prod.splits bool.splits)
  then obtain a where a: "a \<in> set (am_assignments s)" "ra_user a = ag_user d" "ra_role a = ag_role d"
    by (auto simp: revokeRole_def list_ex_iff)
  have "b = a" if "b \<in> set (am_assignments s)" "ra_user b = ag_user d" for b
    using assms(3) a that by (metis distinct_map inj_onD)
  then have "\<forall>b \<in> set (am_assignments t). ra_user b \<noteq> ag_user d"
    using a(3) by (auto simp: t revokeRole_def Let_def)
  then show ?thesis using assms(4)
    by (simp add: without_role_def t(1) revokeRole_def Let_def) (simp add: invalidateRoleCache_def)
qed

section \<open>Properties\<close>

text \<open>
  C29. A guard lets a request through only for a session of an administrator whose role the tables
  grant: they grant it now, or an earlier state of the tables granted it and it entered the
  cache less than 300 seconds ago.  The role is the super-administrator's or has the permission.
\<close>

theorem admin_permission_sound:
  assumes "admin_runs B s0 s" and "am_cache s0 = Map.empty" and "am_pending s0 = []"
    and "requireAdminPermission p B up env req s = (s', Inr c)"
  shows "(\<exists>u. ae_get_session env req = Session u \<and> su_id u = ad_user c \<and> su_role u = Some ''admin'') \<and>
    (ad_role c = ''super-admin'' \<or> p \<in> set (ad_permissions c)) \<and>
    (granted_by_tables s c \<or>
     (\<exists>s2. came_from B s0 s2 c \<and> admin_runs B s2 s \<and> am_now s < am_now s2 + 300 * 1000))"
proof -
  obtain g where g: "resolveAuthenticatedAdmin B up env req s = (s', g)" "permission_check (lacks_permission p) g = Inr c"
    using assms(4) by (auto simp: requireAdminPermission_def split: prod.splits)
  then have c: "g = Inr c" "ad_role c = ''super-admin'' \<or> p \<in> set (ad_permissions c)"
    by (auto simp: permission_check_Inr lacks_permission_def split: if_splits)
  then obtain u where u: "ae_get_session env req = Session u" "su_role u = Some ''admin''"
    "resolveAdminContext B up (su_id u) s = (s', Inr (Some c))"
    using admin_authenticated g(1) by blast
  have src: "sourced B s0 s" by (rule sourced_run) (fact assms)+
  have "su_id u = ad_user c \<and> (granted_by_tables s c \<or>
      (\<exists>s2. came_from B s0 s2 c \<and> admin_runs B s2 s \<and> am_now s < am_now s2 + 300 * 1000))"
    using resolved_context [OF u(3)]
  proof
    assume "cached_context s (su_id u) = Some c"
    then obtain x where x: "am_cache s (su_id u) = Some (Some c, x)" "am_now s < x"
      by (auto simp: cached_context_def split: option.splits if_splits prod.splits)
    then have "ad_user c = su_id u" "entered B s0 s c x" using src unfolding sourced_def by blast+
    then show ?thesis using x(2) by (auto simp: entered_def CACHE_TTL_SECONDS_def)
  qed simp
  then show ?thesis using u c(2) by blast
qed

text \<open>
  The three guards agree: one that asks for all of some permissions lets exactly those pass that
  every single guard lets pass, and one that asks for any of them those that one of the single
  guards lets pass, or super-administrators; none of them changes the context.
\<close>

theorem admin_guards_agree:
  "(snd (requireAllAdminPermissions ps B up env req s) = Inr c \<longleftrightarrow>
     snd (extractAdminContext B up env req s) = Inr c \<and>
     list_all (\<lambda>p. snd (requireAdminPermission p B up env req s) = Inr c) ps) \<and>
   (snd (requireAnyAdminPermission ps B up env req s) = Inr c \<longleftrightarrow>
     snd (extractAdminContext B up env req s) = Inr c \<and>
     (ad_role c = ''super-admin'' \<or> list_ex (\<lambda>p. snd (requireAdminPermission p B up env req s) = Inr c) ps))"
proof -
  obtain s' g where g: "resolveAuthenticatedAdmin B up env req s = (s', g)" by fastforce
  show ?thesis
    by (auto simp: requireAllAdminPermissions_def requireAnyAdminPermission_def extractAdminContext_def
        requireAdminPermission_def g permission_check_Inr lacks_some_def lacks_any_def lacks_permission_def
        filter_empty_conv list_all_iff list_ex_iff split: if_splits)
qed


text \<open>
  The schema of new roles admits any name, the schema of stored rows only the three built-in
  ones.  Creating a role of another name therefore stores it and then throws; from then on, for
  ever, every listing of roles throws, and so does every well-formed update, without effect.
\<close>

theorem custom_role_spoils_roles:
  assumes "CreateAdminRoleRequestSchema body = Some d" and "cr_name d \<notin> set ADMIN_ROLE_NAMES"
    and "role_named (cr_name d) s = None" and "up Db_Query"
    and "admin_runs B (fst (create_body up actor (Some body) s)) t"
    and "name \<noteq> []" and "UpdateAdminRoleRequestSchema change \<noteq> None"
  shows "snd (create_body up actor (Some body) s) = Request_Threw \<and>
    list_body up' t = (t, Request_Threw) \<and> update_body up' actor' name (Some change) t = (t, Request_Threw)"
proof -
  have "spoiled (fst (create_body up actor (Some body) s))"
    using assms(1-4) by (simp add: create_body_def createRole_def valid_row_def spoiled_def Let_def)
  then have "listRoles t = None" using spoiled_list spoiled_run [OF assms(5)] by blast
  then show ?thesis using assms(1-4,6,7)
    by (auto simp: list_body_def update_body_def create_body_def createRole_def valid_row_def Let_def)
qed

section \<open>An example\<close>

definition sample_role :: "jstr \<Rightarrow> jstr list \<Rightarrow> admin_role" where
  "sample_role name ps =
     \<lparr>ar_name = name, ar_display = name, ar_description = [], ar_permissions = Some (strings_json ps),
      ar_active = True, ar_created = 0, ar_updated = 0\<rparr>"

definition sample_state :: admin_state where
  "sample_state =
     \<lparr>am_roles = [sample_role ''viewer'' [''admin:read''], sample_role ''editor'' [''flags:write'']],
      am_assignments = [\<lparr>ra_user = ''eve'', ra_role = ''viewer'', ra_by = ''root'', ra_at = 0, ra_expires = Some 1000\<rparr>],
      am_cache = Map.empty, am_pending = [], am_audit = [], am_now = 0\<rparr>"

definition all_bound :: admin_bindings where
  "all_bound = \<lparr>ab_db = True, ab_kv = True\<rparr>"

definition eve_context :: admin_context where
  "eve_context = \<lparr>ad_user = ''eve'', ad_role = ''viewer'', ad_permissions = [''admin:read''], ad_expires = Some 1000\<rparr>"

definition eve_request :: json where
  "eve_request = JObj [(''user_id'', JStr ''eve''), (''role_name'', JStr ''viewer'')]"

definition always_up :: "store_call \<Rightarrow> bool" where
  "always_up c = True"

lemma eve_reads: "resolve_read all_bound always_up sample_state ''eve'' = Fresh eve_context"
  by code_simp

definition eve_pending :: admin_state where
  "eve_pending = sample_state\<lparr>am_pending := [eve_context]\<rparr>"

definition eve_cached :: admin_state where
  "eve_cached = put_context eve_context sample_state"

lemma moves: "admin_step B l s t \<Longrightarrow> admin_moves B (\<lambda>_. True) s t"
  by (auto simp: admin_moves_def)

lemma eve_moves:
  "admin_moves all_bound (\<lambda>_. True) sample_state eve_pending"
  "admin_moves all_bound (\<lambda>_. True) eve_pending eve_cached"
proof -
  show "admin_moves all_bound (\<lambda>_. True) sample_state eve_pending"
    using admin_step.read [OF eve_reads] by (auto simp: eve_pending_def sample_state_def intro: moves)
  have "admin_step all_bound Cache_Written eve_pending
      (put_context eve_context (eve_pending\<lparr>am_pending := remove1 eve_context (am_pending eve_pending)\<rparr>))"
    by (rule admin_step.put) (simp_all add: eve_pending_def all_bound_def)
  then show "admin_moves all_bound (\<lambda>_. True) eve_pending eve_cached"
    by (auto simp: eve_pending_def eve_cached_def sample_state_def intro: moves)
qed

lemma eve_run: "admin_runs all_bound sample_state eve_cached"
  using eve_moves by (meson r_into_rtranclp rtranclp.rtrancl_into_rtrancl)

definition eve_env :: auth_env where
  "eve_env =
     \<lparr>ae_secret = True, ae_hyperdrive = True, ae_hash = id, ae_api_keys = (\<lambda>_. Inr []), ae_user_tier = (\<lambda>_. Inr []),
      ae_date = (\<lambda>_. None), ae_now = 0,
      ae_get_session = (\<lambda>_. Session \<lparr>su_id = ''eve'', su_tier = None, su_role = Some ''admin'', su_session = ''s1'',
        su_email = None, su_name = None\<rparr>),
      ae_rate_limit_kv = None, ae_user_db = None\<rparr>"

definition any_request :: http_request where
  "any_request = \<lparr>rq_method = ''GET'', rq_path = ''/admin/roles'', rq_authorization = None, rq_cookie = None\<rparr>"

lemma cached_resolves:
  assumes "am_cache t ''eve'' = Some (Some eve_context, x)" and "am_now t < x"
  shows "resolveAdminContext all_bound always_up ''eve'' t = (t, Inr (Some eve_context))"
  using assms by (simp add: resolveAdminContext_def resolve_read_def cached_context_def all_bound_def always_up_def)

lemma eve_entry [simp]: "am_cache eve_cached ''eve'' = Some (Some eve_context, 300000)"
  by (simp add: eve_cached_def put_context_def eve_context_def sample_state_def CACHE_TTL_SECONDS_def)

lemma eve_cached_fields [simp]:
  "am_roles eve_cached = am_roles sample_state" "am_assignments eve_cached = am_assignments sample_state"
  "am_now eve_cached = 0" "am_pending eve_cached = []"
  by (simp_all add: eve_cached_def put_context_def sample_state_def)

lemma eve_guard:
  "requireAdminPermission ''admin:read'' all_bound always_up eve_env any_request eve_cached = (eve_cached, Inr eve_context)"
  using cached_resolves [of eve_cached 300000]
  by (simp add: requireAdminPermission_def resolveAuthenticatedAdmin_def verifyToken_def eve_env_def resolveRole_def
      all_bound_def permission_check_def lacks_permission_def) (simp add: eve_context_def)

theorem admin_permission_sound_witness:
  "ad_role eve_context = ''super-admin'' \<or> ''admin:read'' \<in> set (ad_permissions eve_context)"
  using admin_permission_sound [OF eve_run _ _ eve_guard]
  by (simp add: sample_state_def)

lemma eve_revoked:
  assumes "am_assignments s = am_assignments sample_state"
  shows "revoke_body all_bound always_up (\<lambda>_. None) ''root'' (Some eve_request) s =
    (s\<lparr>am_assignments := [], am_cache := (am_cache s)(''eve'' := None),
       am_audit := am_audit s @ [assignment_entry ''root'' ''role.revoke'' \<lparr>ag_user = ''eve'', ag_role = ''viewer'', ag_expires = None\<rparr>]\<rparr>,
     Role_Revoked)"
  using assms
  by (simp add: revoke_body_def eve_request_def AssignRoleRequestSchema_def required_def optional_def ADMIN_ROLE_NAMES_def
      text_field_def or_empty_def always_up_def revokeRole_def sample_state_def audited_def invalidateRoleCache_def
      all_bound_def Let_def)

lemma eve_schema: "AssignRoleRequestSchema (\<lambda>_. None) eve_request = Some \<lparr>ag_user = ''eve'', ag_role = ''viewer'', ag_expires = None\<rparr>"
  by code_simp


definition auditor_request :: json where
  "auditor_request = JObj [(''role_name'', JStr ''auditor''), (''display_name'', JStr ''Auditor''),
     (''permissions'', JArr [JStr ''audit:read''])]"

theorem custom_role_spoils_roles_witness:
  "list_body always_up (fst (create_body always_up ''root'' (Some auditor_request) sample_state)) =
     (fst (create_body always_up ''root'' (Some auditor_request) sample_state), Request_Threw)"
proof -
  have "CreateAdminRoleRequestSchema auditor_request =
      Some \<lparr>cr_name = ''auditor'', cr_display = ''Auditor'', cr_description = [], cr_permissions = [''audit:read'']\<rparr>"
    by code_simp
  moreover have "role_named ''auditor'' sample_state = None" by code_simp
  moreover have "UpdateAdminRoleRequestSchema (JObj []) \<noteq> None" by code_simp
  moreover have "always_up Db_Query" by (simp add: always_up_def)
  ultimately show ?thesis
    using custom_role_spoils_roles [OF _ _ _ _ rtranclp.rtrancl_refl, of auditor_request _ sample_state always_up
        "''viewer''" "JObj []" "''root''" always_up]
    by (simp add: ADMIN_ROLE_NAMES_def)
qed

text \<open>
  What the cache lets through.  An assignment that has expired still passes while its context is
  cached; so does a permission that an update of the role has taken away; and a role that was
  revoked, with the cache cleared, comes back when a guard that had read it before writes it.
\<close>

theorem admin_cache_faults:
  "(\<exists>t s. admin_runs all_bound sample_state t \<and> has_expired (am_now t) (ad_expires eve_context) \<and>
      resolveAdminContext all_bound always_up ''eve'' t = (s, Inr (Some eve_context))) \<and>
   (\<exists>t s r. admin_runs all_bound sample_state t \<and> role_named ''viewer'' t = Some r \<and>
      ar_permissions r = Some (strings_json [''audit:read'']) \<and>
      resolveAdminContext all_bound always_up ''eve'' t = (s, Inr (Some eve_context)) \<and>
      ad_permissions eve_context = [''admin:read'']) \<and>
   (\<exists>t1 t2 t s. admin_runs all_bound sample_state t1 \<and>
      revoke_body all_bound always_up (\<lambda>_. None) ''root'' (Some eve_request) t1 = (t2, Role_Revoked) \<and>
      admin_moves all_bound (\<lambda>_. True) t2 t \<and> am_assignments t = [] \<and>
      resolveAdminContext all_bound always_up ''eve'' t = (s, Inr (Some eve_context)))"
proof (intro conjI)
  note cached = eve_run
  let ?late = "eve_cached\<lparr>am_now := 2000\<rparr>"
  have "admin_runs all_bound sample_state ?late"
    using cached moves [OF admin_step.tick [of eve_cached 2000]] by (simp add: rtranclp.rtrancl_into_rtrancl)
  moreover have "resolveAdminContext all_bound always_up ''eve'' ?late = (?late, Inr (Some eve_context))"
    by (rule cached_resolves [of _ 300000]) simp_all
  moreover have "has_expired (am_now ?late) (ad_expires eve_context)"
    by (simp add: has_expired_def eve_context_def)
  ultimately show "\<exists>t s. admin_runs all_bound sample_state t \<and> has_expired (am_now t) (ad_expires eve_context) \<and>
      resolveAdminContext all_bound always_up ''eve'' t = (s, Inr (Some eve_context))"
    by blast
  let ?change = "JObj [(''permissions'', JArr [JStr ''audit:read''])]"
  let ?up = "fst (update_body always_up ''root'' ''viewer'' (Some ?change) eve_cached)"
  have "admin_runs all_bound sample_state ?up"
    using cached moves [OF admin_step.update] by (rule rtranclp.rtrancl_into_rtrancl)
  moreover have "role_named ''viewer'' ?up =
      Some ((sample_role ''viewer'' [''admin:read''])\<lparr>ar_permissions := Some (strings_json [''audit:read''])\<rparr>)"
    by code_simp
  moreover have "snd (resolveAdminContext all_bound always_up ''eve'' ?up) = Inr (Some eve_context)"
    by code_simp
  moreover have "ad_permissions eve_context = [''admin:read'']" by (simp add: eve_context_def)
  ultimately show "\<exists>t s r. admin_runs all_bound sample_state t \<and> role_named ''viewer'' t = Some r \<and>
      ar_permissions r = Some (strings_json [''audit:read'']) \<and>
      resolveAdminContext all_bound always_up ''eve'' t = (s, Inr (Some eve_context)) \<and>
      ad_permissions eve_context = [''admin:read'']"
    by (intro exI [of _ ?up] exI [of _ "fst (resolveAdminContext all_bound always_up ''eve'' ?up)"]) (auto simp: prod_eq_iff)
  let ?r = "fst (revoke_body all_bound always_up (\<lambda>_. None) ''root'' (Some eve_request) eve_pending)"
  let ?t = "put_context eve_context (?r\<lparr>am_pending := remove1 eve_context (am_pending ?r)\<rparr>)"
  have r: "revoke_body all_bound always_up (\<lambda>_. None) ''root'' (Some eve_request) eve_pending = (?r, Role_Revoked)"
    by (simp add: eve_revoked eve_pending_def)
  have now: "am_now ?r = 0" by (simp add: eve_revoked eve_pending_def sample_state_def)
  have "am_pending ?r = [eve_context]" by (simp add: eve_revoked eve_pending_def)
  then have "admin_step all_bound Cache_Written ?r ?t" by (intro admin_step.put) (simp_all add: all_bound_def)
  then have "admin_moves all_bound (\<lambda>_. True) ?r ?t" by (rule moves)
  moreover have "am_assignments ?t = []" by (simp add: eve_revoked eve_pending_def put_context_def)
  moreover have "resolveAdminContext all_bound always_up ''eve'' ?t = (?t, Inr (Some eve_context))"
    by (rule cached_resolves [of _ 300000])
      (simp_all add: now put_context_def eve_context_def CACHE_TTL_SECONDS_def)
  ultimately show "\<exists>t1 t2 t s. admin_runs all_bound sample_state t1 \<and>
      revoke_body all_bound always_up (\<lambda>_. None) ''root'' (Some eve_request) t1 = (t2, Role_Revoked) \<and>
      admin_moves all_bound (\<lambda>_. True) t2 t \<and> am_assignments t = [] \<and>
      resolveAdminContext all_bound always_up ''eve'' t = (s, Inr (Some eve_context))"
    using r eve_moves(1) by blast
qed

end
