(* ===== verification/Tables.thy ===== *)
theory Tables
  imports Prelude "HOL-Library.Multiset"
begin

text \<open>
  JavaScript maps, and tables of a database with a unique key, as lists of entries in the order of their
  insertion: the operations and their laws, for the theories of plugins and of the storage.
\<close>

section \<open>Operations\<close>

definition map_has :: "(jstr \<times> 'v) list \<Rightarrow> jstr \<Rightarrow> bool" where
  "map_has m k \<longleftrightarrow> k \<in> set (map fst m)"

definition map_get :: "(jstr \<times> 'v) list \<Rightarrow> jstr \<Rightarrow> 'v option" where
  "map_get m k = map_of m k"

fun map_set :: "jstr \<Rightarrow> 'v \<Rightarrow> (jstr \<times> 'v) list \<Rightarrow> (jstr \<times> 'v) list" where
  "map_set k v [] = [(k, v)]"
| "map_set k v ((k', v') # m) = (if k' = k then (k, v) # m else (k', v') # map_set k v m)"

definition map_delete :: "jstr \<Rightarrow> (jstr \<times> 'v) list \<Rightarrow> (jstr \<times> 'v) list" where
  "map_delete k m = filter (\<lambda>e. fst e \<noteq> k) m"

section \<open>Laws\<close>

lemma map_set_fresh: "\<not> map_has m k \<Longrightarrow> map_set k v m = m @ [(k, v)]"
  by (induction m) (auto simp: map_has_def)

lemma map_set_same: "map_of m k = Some v \<Longrightarrow> map_set k v m = m"
  by (induction m) (auto split: if_splits)

lemma keys_map_set: "map fst (map_set k v m) = (if map_has m k then map fst m else map fst m @ [k])"
  by (induction m) (force simp: map_has_def)+

lemma keys_map_delete: "map fst (map_delete k m) = filter (\<lambda>x. x \<noteq> k) (map fst m)"
  by (simp add: map_delete_def filter_map comp_def)

lemma map_get_set: "map_get (map_set k v m) x = (if x = k then Some v else map_get m x)"
  by (induction m) (auto simp: map_get_def)

lemma map_has_get: "map_has m k \<longleftrightarrow> (\<exists>v. map_get m k = Some v)"
  by (force simp: map_has_def map_get_def dom_map_of_conv_image_fst [symmetric])

lemma map_delete_fresh: "\<not> map_has m k \<Longrightarrow> map_delete k (m @ [(k, v)]) = m"
  by (auto simp: map_delete_def map_has_def filter_id_conv)

lemma map_delete_absent: "k \<notin> fst ` set m \<Longrightarrow> map_delete k m = m"
  by (auto simp: map_delete_def filter_id_conv)

lemma mset_remove_key: "distinct (map fst m) \<Longrightarrow> map_get m k = Some v \<Longrightarrow> mset m = add_mset (k, v) (mset (map_delete k m))"
proof (induction m)
  case (Cons e m)
  show ?case
  proof (cases "fst e = k")
    case True
    then have "map_delete k m = m" using Cons.prems(1) by (intro map_delete_absent) auto
    then show ?thesis using True Cons.prems(2) by (cases e) (simp add: map_delete_def map_get_def)
  next
    case False
    then show ?thesis using Cons by (cases e) (simp add: map_delete_def map_get_def)
  qed
qed (simp add: map_get_def)

lemma mset_map_set: "distinct (map fst m) \<Longrightarrow>
    mset (map_set k v m) = add_mset (k, v) (mset (map_delete k m))"
proof (induction m)
  case (Cons e m)
  show ?case
  proof (cases "fst e = k")
    case True
    then have "map_delete k m = m" using Cons.prems(1) by (intro map_delete_absent) auto
    then show ?thesis using True by (cases e) (simp add: map_delete_def)
  next
    case False
    then show ?thesis using Cons by (cases e) (simp add: map_delete_def)
  qed
qed (simp add: map_delete_def)

lemma mset_map_delete: "distinct (map fst m) \<Longrightarrow> \<exists>xs. mset (map snd m) = mset (map snd (map_delete k m) @ xs)"
proof (cases "map_get m k")
  case None
  then have "map_delete k m = m" by (force simp: map_get_def map_of_eq_None_iff map_delete_def filter_id_conv)
  then show ?thesis by (intro exI [of _ "[]"]) simp
next
  case (Some v)
  assume "distinct (map fst m)"
  from mset_remove_key [OF this Some] show ?thesis by (intro exI [of _ "[v]"]) simp
qed

end
