(* ===== verification/Plugins.thy ===== *)
theory Plugins
  imports Tables
begin

text \<open>
  The plugin registry (\<open>src/plugins/PluginSystem.ts\<close>) and the factory of output formatters that its bridge
  feeds (\<open>src/formatters/OutputFormatter.ts\<close>), over the maps of \<open>Tables\<close>.  A function or a class that a
  plugin brings along is known by its identity (\<open>js_fn\<close>); what it does is an argument of the operations
  that call it.  A slot that is absent and a slot that is empty are the same.  An operation that throws
  returns the error and the registry it leaves behind.  Log lines, and a plugin that changes the registry
  from within \<open>init\<close> or \<open>cleanup\<close>, are left out.
\<close>

section \<open>Plugins\<close>

type_synonym js_fn = nat

record manifest =
  mf_name :: jstr
  mf_version :: jstr
  mf_description :: "jstr option"
  mf_dependencies :: "jstr list"

record transformation_plugin =
  tp_type :: jstr
  tp_name :: jstr
  tp_execute :: js_fn

record downloader_plugin =
  dp_schemes :: "jstr list"
  dp_download :: js_fn

record formatter_plugin =
  fp_format :: jstr
  fp_class :: js_fn

record validation_plugin =
  vp_name :: jstr
  vp_validate :: js_fn

record parser_plugin =
  pp_name :: jstr
  pp_syntaxes :: "jstr list"
  pp_parse :: js_fn

record diff_reporter_plugin =
  rp_name :: jstr
  rp_format :: js_fn

record cache_backend_plugin =
  cp_name :: jstr
  cp_create :: js_fn

record header_generator_plugin =
  hp_name :: jstr
  hp_generate :: js_fn

record conflict_resolver_plugin =
  xp_name :: jstr
  xp_resolve :: js_fn

record event_hook_plugin =
  ep_name :: jstr
  ep_hooks :: js_fn

record plugin =
  pl_manifest :: manifest
  pl_transformations :: "transformation_plugin list"
  pl_downloaders :: "downloader_plugin list"
  pl_formatters :: "formatter_plugin list"
  pl_validators :: "validation_plugin list"
  pl_parsers :: "parser_plugin list"
  pl_diff_reporters :: "diff_reporter_plugin list"
  pl_cache_backends :: "cache_backend_plugin list"
  pl_header_generators :: "header_generator_plugin list"
  pl_conflict_resolvers :: "conflict_resolver_plugin list"
  pl_event_hooks :: "event_hook_plugin list"
  pl_init :: "js_fn option"
  pl_cleanup :: "js_fn option"

abbreviation pl_name :: "plugin \<Rightarrow> jstr" where
  "pl_name p \<equiv> mf_name (pl_manifest p)"

abbreviation pl_dependencies :: "plugin \<Rightarrow> jstr list" where
  "pl_dependencies p \<equiv> mf_dependencies (pl_manifest p)"

section \<open>The bridge and the registry\<close>

text \<open>The callbacks of a bridge, and the calls the registry makes to them.\<close>

record bridge =
  br_formatter :: "js_fn option"
  br_unformatter :: "js_fn option"
  br_transformation :: "js_fn option"
  br_untransformation :: "js_fn option"
  br_hooks :: "js_fn option"
  br_unhooks :: "js_fn option"
  br_thooks :: "js_fn option"
  br_unthooks :: "js_fn option"

text \<open>A \<open>PluginTransformationWrapper\<close> takes its type and name from the plugin transformation it runs.\<close>

record transformation_wrapper =
  wr_type :: jstr
  wr_name :: jstr
  wr_plugin :: transformation_plugin

definition wrap :: "transformation_plugin \<Rightarrow> transformation_wrapper" where
  "wrap t = \<lparr>wr_type = tp_type t, wr_name = tp_name t, wr_plugin = t\<rparr>"

definition wrapper_execute :: "(js_fn \<Rightarrow> lines \<Rightarrow> lines) \<Rightarrow> transformation_wrapper \<Rightarrow> lines \<Rightarrow> lines" where
  "wrapper_execute run w rules = run (tp_execute (wr_plugin w)) rules"

datatype bridge_call =
    CallFormatter js_fn jstr js_fn
  | CallUnformatter js_fn jstr
  | CallTransformation js_fn jstr transformation_wrapper
  | CallUntransformation js_fn jstr
  | CallHooks js_fn js_fn

datatype slot_kind =
    TransformationsSlot
  | DownloadersSlot
  | FormattersSlot
  | ValidatorsSlot
  | ParsersSlot
  | DiffReportersSlot
  | CacheBackendsSlot
  | HeaderGeneratorsSlot
  | ConflictResolversSlot
  | EventHooksSlot

datatype plugin_error =
    AlreadyRegistered jstr
  | UnmetDependencies jstr "jstr list"
  | EntryTaken slot_kind jstr
  | InitFailed jstr
  | InitTimedOut jstr nat
  | CleanupFailed jstr
  | MissingFromBatch jstr "jstr list"
  | Circular jstr

record registry =
  rg_plugins :: "(jstr \<times> plugin) list"
  rg_transformations :: "(jstr \<times> transformation_plugin) list"
  rg_downloaders :: "(jstr \<times> downloader_plugin) list"
  rg_formatters :: "(jstr \<times> formatter_plugin) list"
  rg_validators :: "(jstr \<times> validation_plugin) list"
  rg_parsers :: "(jstr \<times> parser_plugin) list"
  rg_diff_reporters :: "(jstr \<times> diff_reporter_plugin) list"
  rg_cache_backends :: "(jstr \<times> cache_backend_plugin) list"
  rg_header_generators :: "(jstr \<times> header_generator_plugin) list"
  rg_conflict_resolvers :: "(jstr \<times> conflict_resolver_plugin) list"
  rg_event_hooks :: "(jstr \<times> event_hook_plugin) list"
  rg_bridge :: bridge
  rg_calls :: "bridge_call list"

definition new_registry :: "bridge \<Rightarrow> registry" where
  "new_registry b =
     \<lparr>rg_plugins = [], rg_transformations = [],
      rg_downloaders = [],
      rg_formatters = [],
      rg_validators = [],
      rg_parsers = [],
      rg_diff_reporters = [],
      rg_cache_backends = [],
      rg_header_generators = [],
      rg_conflict_resolvers = [],
      rg_event_hooks = [],
      rg_bridge = b, rg_calls = []\<rparr>"

section \<open>Registration\<close>

text \<open>
  The loop over one slot: an entry whose key is taken throws, and leaves the entries before it in the
  map.  \<open>calls\<close> are the calls to the bridge for one entry.
\<close>

fun dispatch :: "slot_kind \<Rightarrow> ('v \<Rightarrow> bridge_call list) \<Rightarrow> (jstr \<times> 'v) list \<Rightarrow>
    (jstr \<times> 'v) list \<times> bridge_call list \<Rightarrow>
    plugin_error option \<times> (jstr \<times> 'v) list \<times> bridge_call list" where
  "dispatch kind calls [] s = (None, s)"
| "dispatch kind calls ((k, v) # es) (m, cs) =
     (if map_has m k then (Some (EntryTaken kind k), m, cs)
      else dispatch kind calls es (map_set k v m, cs @ calls v))"

definition and_then :: "('s \<Rightarrow> 'e option \<times> 's) \<Rightarrow> ('s \<Rightarrow> 'e option \<times> 's) \<Rightarrow> 's \<Rightarrow> 'e option \<times> 's" where
  "and_then f g s = (case f s of (None, s') \<Rightarrow> g s' | (Some e, s') \<Rightarrow> (Some e, s'))"

definition transformation_calls :: "bridge \<Rightarrow> transformation_plugin \<Rightarrow> bridge_call list" where
  "transformation_calls b t =
     (case br_transformation b of None \<Rightarrow> [] | Some c \<Rightarrow> [CallTransformation c (tp_type t) (wrap t)])"

definition formatter_calls :: "bridge \<Rightarrow> formatter_plugin \<Rightarrow> bridge_call list" where
  "formatter_calls b f =
     (case br_formatter b of None \<Rightarrow> [] | Some c \<Rightarrow> [CallFormatter c (fp_format f) (fp_class f)])"

definition hook_calls :: "bridge \<Rightarrow> event_hook_plugin \<Rightarrow> bridge_call list" where
  "hook_calls b e =
     (case br_hooks b of None \<Rightarrow> [] | Some c \<Rightarrow> [CallHooks c (ep_hooks e)]) @
     (case br_thooks b of None \<Rightarrow> [] | Some c \<Rightarrow> [CallHooks c (ep_hooks e)])"

definition transformation_entries :: "plugin \<Rightarrow> (jstr \<times> transformation_plugin) list" where
  "transformation_entries p = map (\<lambda>t. (tp_type t, t)) (pl_transformations p)"

definition downloader_entries :: "plugin \<Rightarrow> (jstr \<times> downloader_plugin) list" where
  "downloader_entries p = concat (map (\<lambda>d. map (\<lambda>s. (s, d)) (dp_schemes d)) (pl_downloaders p))"

definition formatter_entries :: "plugin \<Rightarrow> (jstr \<times> formatter_plugin) list" where
  "formatter_entries p = map (\<lambda>f. (fp_format f, f)) (pl_formatters p)"

definition validator_entries :: "plugin \<Rightarrow> (jstr \<times> validation_plugin) list" where
  "validator_entries p = map (\<lambda>v. (vp_name v, v)) (pl_validators p)"

definition parser_entries :: "plugin \<Rightarrow> (jstr \<times> parser_plugin) list" where
  "parser_entries p = map (\<lambda>q. (pp_name q, q)) (pl_parsers p)"

definition diff_reporter_entries :: "plugin \<Rightarrow> (jstr \<times> diff_reporter_plugin) list" where
  "diff_reporter_entries p = map (\<lambda>q. (rp_name q, q)) (pl_diff_reporters p)"

definition cache_backend_entries :: "plugin \<Rightarrow> (jstr \<times> cache_backend_plugin) list" where
  "cache_backend_entries p = map (\<lambda>c. (cp_name c, c)) (pl_cache_backends p)"

definition header_generator_entries :: "plugin \<Rightarrow> (jstr \<times> header_generator_plugin) list" where
  "header_generator_entries p = map (\<lambda>h. (hp_name h, h)) (pl_header_generators p)"

definition conflict_resolver_entries :: "plugin \<Rightarrow> (jstr \<times> conflict_resolver_plugin) list" where
  "conflict_resolver_entries p = map (\<lambda>c. (xp_name c, c)) (pl_conflict_resolvers p)"

definition event_hook_entries :: "plugin \<Rightarrow> (jstr \<times> event_hook_plugin) list" where
  "event_hook_entries p = map (\<lambda>e. (ep_name e, e)) (pl_event_hooks p)"

definition dispatch_transformations :: "plugin \<Rightarrow> registry \<Rightarrow> plugin_error option \<times> registry" where
  "dispatch_transformations p r =
     (case dispatch TransformationsSlot (transformation_calls (rg_bridge r)) (transformation_entries p) (rg_transformations r, rg_calls r) of
        (e, m, cs) \<Rightarrow> (e, r\<lparr>rg_transformations := m, rg_calls := cs\<rparr>))"

definition dispatch_downloaders :: "plugin \<Rightarrow> registry \<Rightarrow> plugin_error option \<times> registry" where
  "dispatch_downloaders p r =
     (case dispatch DownloadersSlot (\<lambda>_. []) (downloader_entries p) (rg_downloaders r, rg_calls r) of
        (e, m, cs) \<Rightarrow> (e, r\<lparr>rg_downloaders := m, rg_calls := cs\<rparr>))"

definition dispatch_formatters :: "plugin \<Rightarrow> registry \<Rightarrow> plugin_error option \<times> registry" where
  "dispatch_formatters p r =
     (case dispatch FormattersSlot (formatter_calls (rg_bridge r)) (formatter_entries p) (rg_formatters r, rg_calls r) of
        (e, m, cs) \<Rightarrow> (e, r\<lparr>rg_formatters := m, rg_calls := cs\<rparr>))"

definition dispatch_validators :: "plugin \<Rightarrow> registry \<Rightarrow> plugin_error option \<times> registry" where
  "dispatch_validators p r =
     (case dispatch ValidatorsSlot (\<lambda>_. []) (validator_entries p) (rg_validators r, rg_calls r) of
        (e, m, cs) \<Rightarrow> (e, r\<lparr>rg_validators := m, rg_calls := cs\<rparr>))"

definition dispatch_parsers :: "plugin \<Rightarrow> registry \<Rightarrow> plugin_error option \<times> registry" where
  "dispatch_parsers p r =
     (case dispatch ParsersSlot (\<lambda>_. []) (parser_entries p) (rg_parsers r, rg_calls r) of
        (e, m, cs) \<Rightarrow> (e, r\<lparr>rg_parsers := m, rg_calls := cs\<rparr>))"

definition dispatch_diff_reporters :: "plugin \<Rightarrow> registry \<Rightarrow> plugin_error option \<times> registry" where
  "dispatch_diff_reporters p r =
     (case dispatch DiffReportersSlot (\<lambda>_. []) (diff_reporter_entries p) (rg_diff_reporters r, rg_calls r) of
        (e, m, cs) \<Rightarrow> (e, r\<lparr>rg_diff_reporters := m, rg_calls := cs\<rparr>))"

definition dispatch_cache_backends :: "plugin \<Rightarrow> registry \<Rightarrow> plugin_error option \<times> registry" where
  "dispatch_cache_backends p r =
     (case dispatch CacheBackendsSlot (\<lambda>_. []) (cache_backend_entries p) (rg_cache_backends r, rg_calls r) of
        (e, m, cs) \<Rightarrow> (e, r\<lparr>rg_cache_backends := m, rg_calls := cs\<rparr>))"

definition dispatch_header_generators :: "plugin \<Rightarrow> registry \<Rightarrow> plugin_error option \<times> registry" where
  "dispatch_header_generators p r =
     (case dispatch HeaderGeneratorsSlot (\<lambda>_. []) (header_generator_entries p) (rg_header_generators r, rg_calls r) of
        (e, m, cs) \<Rightarrow> (e, r\<lparr>rg_header_generators := m, rg_calls := cs\<rparr>))"

definition dispatch_conflict_resolvers :: "plugin \<Rightarrow> registry \<Rightarrow> plugin_error option \<times> registry" where
  "dispatch_conflict_resolvers p r =
     (case dispatch ConflictResolversSlot (\<lambda>_. []) (conflict_resolver_entries p) (rg_conflict_resolvers r, rg_calls r) of
        (e, m, cs) \<Rightarrow> (e, r\<lparr>rg_conflict_resolvers := m, rg_calls := cs\<rparr>))"

definition dispatch_event_hooks :: "plugin \<Rightarrow> registry \<Rightarrow> plugin_error option \<times> registry" where
  "dispatch_event_hooks p r =
     (case dispatch EventHooksSlot (hook_calls (rg_bridge r)) (event_hook_entries p) (rg_event_hooks r, rg_calls r) of
        (e, m, cs) \<Rightarrow> (e, r\<lparr>rg_event_hooks := m, rg_calls := cs\<rparr>))"

definition dispatch_all :: "plugin \<Rightarrow> registry \<Rightarrow> plugin_error option \<times> registry" where
  "dispatch_all p =
     and_then (dispatch_transformations p) (
     and_then (dispatch_downloaders p) (
     and_then (dispatch_formatters p) (
     and_then (dispatch_validators p) (
     and_then (dispatch_parsers p) (
     and_then (dispatch_diff_reporters p) (
     and_then (dispatch_cache_backends p) (
     and_then (dispatch_header_generators p) (
     and_then (dispatch_conflict_resolvers p) (
     dispatch_event_hooks p)))))))))"

text \<open>\<open>rollbackSubsystemEntries\<close>, and the part of \<open>unregister\<close> after \<open>cleanup\<close>, remove what the plugin brought.\<close>

definition remove_entries :: "(jstr \<times> 'v) list \<Rightarrow> (jstr \<times> 'v) list \<Rightarrow> (jstr \<times> 'v) list" where
  "remove_entries es m = fold (map_delete \<circ> fst) es m"

definition removal_calls :: "bridge \<Rightarrow> plugin \<Rightarrow> bridge_call list" where
  "removal_calls b p =
     (case br_untransformation b of None \<Rightarrow> []
      | Some c \<Rightarrow> map (\<lambda>t. CallUntransformation c (tp_type t)) (pl_transformations p)) @
     (case br_unformatter b of None \<Rightarrow> []
      | Some c \<Rightarrow> map (\<lambda>f. CallUnformatter c (fp_format f)) (pl_formatters p)) @
     concat (map (\<lambda>e. (case br_unhooks b of None \<Rightarrow> [] | Some c \<Rightarrow> [CallHooks c (ep_hooks e)]) @
                      (case br_unthooks b of None \<Rightarrow> [] | Some c \<Rightarrow> [CallHooks c (ep_hooks e)])) (pl_event_hooks p))"

definition rollback_entries :: "plugin \<Rightarrow> registry \<Rightarrow> registry" where
  "rollback_entries p r =
     r\<lparr>rg_transformations := remove_entries (transformation_entries p) (rg_transformations r),
       rg_downloaders := remove_entries (downloader_entries p) (rg_downloaders r),
       rg_formatters := remove_entries (formatter_entries p) (rg_formatters r),
       rg_validators := remove_entries (validator_entries p) (rg_validators r),
       rg_parsers := remove_entries (parser_entries p) (rg_parsers r),
       rg_diff_reporters := remove_entries (diff_reporter_entries p) (rg_diff_reporters r),
       rg_cache_backends := remove_entries (cache_backend_entries p) (rg_cache_backends r),
       rg_header_generators := remove_entries (header_generator_entries p) (rg_header_generators r),
       rg_conflict_resolvers := remove_entries (conflict_resolver_entries p) (rg_conflict_resolvers r),
       rg_event_hooks := remove_entries (event_hook_entries p) (rg_event_hooks r),
       rg_calls := rg_calls r @ removal_calls (rg_bridge r) p\<rparr>"

text \<open>
  How a call of \<open>init\<close> ends: it returns, or its promise settles, so many milliseconds after the call, or
  it never does.  The timer of \<open>initTimeout\<close> starts after the call; a limit of 0 is no limit.
\<close>

datatype init_end = Resolves nat | Rejects nat jstr | Never

datatype await_end = Settled "plugin_error option" | Hangs

definition await_init :: "jstr \<Rightarrow> nat option \<Rightarrow> init_end \<Rightarrow> await_end" where
  "await_init name timeout i =
     (let late = (\<lambda>n. case timeout of Some t \<Rightarrow> 0 < t \<and> t \<le> n | None \<Rightarrow> False);
          timed_out = Settled (map_option (InitTimedOut name) timeout)
      in case i of
           Resolves n \<Rightarrow> if late n then timed_out else Settled None
         | Rejects n err \<Rightarrow> if late n then timed_out else Settled (Some (InitFailed err))
         | Never \<Rightarrow> (case timeout of Some t \<Rightarrow> if 0 < t then timed_out else Hangs | None \<Rightarrow> Hangs))"

text \<open>
  The part of \<open>register\<close> up to the call of \<open>init\<close> runs without a break; the rest runs when the call has
  settled.
\<close>

definition unmet :: "registry \<Rightarrow> plugin \<Rightarrow> jstr list" where
  "unmet r p = filter (\<lambda>d. \<not> map_has (rg_plugins r) d) (pl_dependencies p)"

definition register_begin :: "plugin \<Rightarrow> registry \<Rightarrow> plugin_error option \<times> registry" where
  "register_begin p r =
     (if map_has (rg_plugins r) (pl_name p) then (Some (AlreadyRegistered (pl_name p)), r)
      else if unmet r p \<noteq> [] then (Some (UnmetDependencies (pl_name p) (unmet r p)), r)
      else dispatch_all p r)"

definition register_finish :: "plugin \<Rightarrow> plugin_error option \<Rightarrow> registry \<Rightarrow> plugin_error option \<times> registry" where
  "register_finish p e r =
     (case e of
        Some err \<Rightarrow> (Some err, rollback_entries p r)
      | None \<Rightarrow> (None, r\<lparr>rg_plugins := map_set (pl_name p) p (rg_plugins r)\<rparr>))"

text \<open>\<open>register\<close>: \<open>None\<close> if it waits for \<open>init\<close> forever.\<close>

definition register :: "(js_fn \<Rightarrow> init_end) \<Rightarrow> nat option \<Rightarrow> plugin \<Rightarrow> registry \<Rightarrow>
    (plugin_error option \<times> registry) option" where
  "register run timeout p r =
     (case register_begin p r of
        (Some e, r') \<Rightarrow> Some (Some e, r')
      | (None, r') \<Rightarrow>
          (case pl_init p of
             None \<Rightarrow> Some (register_finish p None r')
           | Some f \<Rightarrow> (case await_init (pl_name p) timeout (run f) of
                         Hangs \<Rightarrow> None
                       | Settled e \<Rightarrow> Some (register_finish p e r'))))"

text \<open>\<open>unregister\<close>, in the same two parts; \<open>clean\<close> says whether a call of \<open>cleanup\<close> throws.\<close>

definition unregister_finish :: "jstr \<Rightarrow> plugin \<Rightarrow> registry \<Rightarrow> registry" where
  "unregister_finish name p r =
     (rollback_entries p r)\<lparr>rg_plugins := map_delete name (rg_plugins r)\<rparr>"

definition unregister :: "(js_fn \<Rightarrow> jstr option) \<Rightarrow> jstr \<Rightarrow> registry \<Rightarrow> plugin_error option \<times> registry" where
  "unregister clean name r =
     (case map_get (rg_plugins r) name of
        None \<Rightarrow> (None, r)
      | Some p \<Rightarrow>
          (case Option.bind (pl_cleanup p) clean of
             Some err \<Rightarrow> (Some (CleanupFailed err), r)
           | None \<Rightarrow> (None, unregister_finish name p r)))"

primrec unregister_each :: "(js_fn \<Rightarrow> jstr option) \<Rightarrow> jstr list \<Rightarrow> registry \<Rightarrow> plugin_error option \<times> registry" where
  "unregister_each clean [] r = (None, r)"
| "unregister_each clean (n # ns) r = and_then (unregister clean n) (unregister_each clean ns) r"

definition clear_registry :: "(js_fn \<Rightarrow> jstr option) \<Rightarrow> registry \<Rightarrow> plugin_error option \<times> registry" where
  "clear_registry clean r = unregister_each clean (map fst (rg_plugins r)) r"

section \<open>Sorting a batch by its dependencies\<close>

definition by_name :: "plugin list \<Rightarrow> (jstr \<times> plugin) list" where
  "by_name ps = fold (\<lambda>p. map_set (pl_name p) p) ps []"

definition missing_deps :: "(jstr \<times> plugin) list \<Rightarrow> plugin \<Rightarrow> jstr list" where
  "missing_deps m p = filter (\<lambda>d. \<not> map_has m d) (pl_dependencies p)"

lemma visit_measure: "name \<notin> set visiting \<Longrightarrow> map_get m name = Some p \<Longrightarrow>
    card (set (map fst m) - insert name (set visiting)) < card (set (map fst m) - set visiting)"
  by (rule psubset_card_mono, simp, rule psubsetI)
     (auto simp: map_get_def dest!: map_of_SomeD, metis Diff_iff fst_conv image_eqI insertI1)

text \<open>
  \<open>visit\<close> and its loop over the dependencies.  The set \<open>visiting\<close> holds the names whose calls are running:
  a call that returns has removed its own name again, so it is an argument here, while \<open>visited\<close> and
  \<open>ordered\<close> are passed on.
\<close>

function (sequential) visit :: "(jstr \<times> plugin) list \<Rightarrow> jstr list \<Rightarrow> jstr \<Rightarrow> jstr list \<times> plugin list \<Rightarrow>
      plugin_error + jstr list \<times> plugin list"
  and visit_deps :: "(jstr \<times> plugin) list \<Rightarrow> jstr list \<Rightarrow> jstr list \<Rightarrow> jstr list \<times> plugin list \<Rightarrow>
      plugin_error + jstr list \<times> plugin list" where
  "visit m visiting name (visited, ordered) =
     (if name \<in> set visited then Inr (visited, ordered)
      else if name \<in> set visiting then Inl (Circular name)
      else case map_get m name of
             None \<Rightarrow> Inr (visited @ [name], ordered)
           | Some p \<Rightarrow>
               (case visit_deps m (name # visiting) (pl_dependencies p) (visited, ordered) of
                  Inl e \<Rightarrow> Inl e
                | Inr (visited', ordered') \<Rightarrow> Inr (visited' @ [name], ordered' @ [p])))"
| "visit_deps m visiting [] s = Inr s"
| "visit_deps m visiting (d # ds) s =
     (case visit m visiting d s of Inl e \<Rightarrow> Inl e | Inr s' \<Rightarrow> visit_deps m visiting ds s')"
  by pat_completeness auto
termination
  by (relation "measures
       [\<lambda>x. case x of Inl (m, visiting, _) \<Rightarrow> card (set (map fst m) - set visiting)
                   | Inr (m, visiting, _) \<Rightarrow> card (set (map fst m) - set visiting),
        \<lambda>x. case x of Inl _ \<Rightarrow> 0 | Inr (_, _, ds, _) \<Rightarrow> Suc (length ds)]")
     (auto simp: visit_measure[simplified])

declare visit.simps [simp del]

definition topologicalSort :: "plugin list \<Rightarrow> plugin_error + plugin list" where
  "topologicalSort ps =
     (let m = by_name ps
      in case find (\<lambda>p. missing_deps m p \<noteq> []) ps of
           Some p \<Rightarrow> Inl (MissingFromBatch (pl_name p) (missing_deps m p))
         | None \<Rightarrow> map_sum id snd (visit_deps m [] (map pl_name ps) ([], [])))"

primrec register_each :: "(js_fn \<Rightarrow> init_end) \<Rightarrow> plugin list \<Rightarrow> registry \<Rightarrow>
    (plugin_error option \<times> registry) option" where
  "register_each run [] r = Some (None, r)"
| "register_each run (p # ps) r =
     (case register run None p r of
        None \<Rightarrow> None
      | Some (Some e, r') \<Rightarrow> Some (Some e, r')
      | Some (None, r') \<Rightarrow> register_each run ps r')"

definition registerAll :: "(js_fn \<Rightarrow> init_end) \<Rightarrow> plugin list \<Rightarrow> registry \<Rightarrow>
    (plugin_error option \<times> registry) option" where
  "registerAll run ps r =
     (case topologicalSort ps of Inl e \<Rightarrow> Some (Some e, r) | Inr out \<Rightarrow> register_each run out r)"

section \<open>Queries\<close>

definition getTransformation :: "registry \<Rightarrow> jstr \<Rightarrow> transformation_plugin option" where
  "getTransformation r k = map_get (rg_transformations r) k"

definition hasTransformation :: "registry \<Rightarrow> jstr \<Rightarrow> bool" where
  "hasTransformation r k = map_has (rg_transformations r) k"

definition listTransformations :: "registry \<Rightarrow> (jstr \<times> jstr) list" where
  "listTransformations r = map (\<lambda>t. (tp_type t, tp_name t)) (map snd (rg_transformations r))"

definition getDownloader :: "registry \<Rightarrow> jstr \<Rightarrow> downloader_plugin option" where
  "getDownloader r url = map_option snd (find (\<lambda>e. starts_with url (fst e)) (rg_downloaders r))"

definition listSchemes :: "registry \<Rightarrow> jstr list" where
  "listSchemes r = map fst (rg_downloaders r)"

definition getFormatter :: "registry \<Rightarrow> jstr \<Rightarrow> formatter_plugin option" where
  "getFormatter r k = map_get (rg_formatters r) k"

definition listFormatters :: "registry \<Rightarrow> jstr list" where
  "listFormatters r = map fst (rg_formatters r)"

definition getValidators :: "registry \<Rightarrow> validation_plugin list" where
  "getValidators r = map snd (rg_validators r)"

definition getParsersForSyntax :: "registry \<Rightarrow> jstr \<Rightarrow> parser_plugin list" where
  "getParsersForSyntax r syntax = filter (\<lambda>q. syntax \<in> set (pp_syntaxes q)) (map snd (rg_parsers r))"

definition getPlugin :: "registry \<Rightarrow> jstr \<Rightarrow> plugin option" where
  "getPlugin r name = map_get (rg_plugins r) name"

definition listPlugins :: "registry \<Rightarrow> manifest list" where
  "listPlugins r = map (pl_manifest \<circ> snd) (rg_plugins r)"

text \<open>
  The operations that call the functions of plugins.  A validator answers \<open>None\<close> for a valid
  configuration, or the text of its errors.
\<close>

fun run_validators :: "(js_fn \<Rightarrow> 'c \<Rightarrow> jstr option) \<Rightarrow> 'c \<Rightarrow> validation_plugin list \<Rightarrow> jstr option" where
  "run_validators run cfg [] = None"
| "run_validators run cfg (v # vs) =
     (case run (vp_validate v) cfg of Some errors \<Rightarrow> Some errors | None \<Rightarrow> run_validators run cfg vs)"

definition runValidators :: "(js_fn \<Rightarrow> 'c \<Rightarrow> jstr option) \<Rightarrow> 'c \<Rightarrow> registry \<Rightarrow> jstr option" where
  "runValidators run cfg r = run_validators run cfg (getValidators r)"

definition formatDiffReport :: "(js_fn \<Rightarrow> 'd \<Rightarrow> 'o) \<Rightarrow> jstr \<Rightarrow> 'd \<Rightarrow> registry \<Rightarrow> 'o option" where
  "formatDiffReport run name report r =
     map_option (\<lambda>q. run (rp_format q) report) (map_get (rg_diff_reporters r) name)"

definition createStorageAdapter :: "(js_fn \<Rightarrow> 'd \<Rightarrow> 'o) \<Rightarrow> jstr \<Rightarrow> 'd \<Rightarrow> registry \<Rightarrow> 'o option" where
  "createStorageAdapter run name options r =
     map_option (\<lambda>c. run (cp_create c) options) (map_get (rg_cache_backends r) name)"

definition generatePluginHeaders :: "(js_fn \<Rightarrow> 'c \<Rightarrow> lines) \<Rightarrow> 'c \<Rightarrow> registry \<Rightarrow> lines" where
  "generatePluginHeaders run cfg r =
     fold (\<lambda>h acc. acc @ run (hp_generate h) cfg) (map snd (rg_header_generators r)) []"

definition resolveConflicts :: "(js_fn \<Rightarrow> 'c \<Rightarrow> 'o) \<Rightarrow> 'c \<Rightarrow> jstr option \<Rightarrow> registry \<Rightarrow> 'o option" where
  "resolveConflicts run conflicts name r =
     map_option (\<lambda>x. run (xp_resolve x) conflicts)
       (case name of
          Some n \<Rightarrow> if n = [] then map_option snd (List.find (\<lambda>_. True) (rg_conflict_resolvers r))
                    else map_get (rg_conflict_resolvers r) n
        | None \<Rightarrow> map_option snd (List.find (\<lambda>_. True) (rg_conflict_resolvers r)))"

section \<open>Connecting a bridge\<close>

definition override :: "'a option \<Rightarrow> 'a option \<Rightarrow> 'a option" where
  "override new old = (case new of Some c \<Rightarrow> Some c | None \<Rightarrow> old)"

definition connectBridge :: "bridge \<Rightarrow> registry \<Rightarrow> registry" where
  "connectBridge b r =
     (let o' = rg_bridge r;
          merged = \<lparr>br_formatter = override (br_formatter b) (br_formatter o'),
                    br_unformatter = override (br_unformatter b) (br_unformatter o'),
                    br_transformation = override (br_transformation b) (br_transformation o'),
                    br_untransformation = override (br_untransformation b) (br_untransformation o'),
                    br_hooks = override (br_hooks b) (br_hooks o'),
                    br_unhooks = override (br_unhooks b) (br_unhooks o'),
                    br_thooks = override (br_thooks b) (br_thooks o'),
                    br_unthooks = override (br_unthooks b) (br_unthooks o')\<rparr>
      in r\<lparr>rg_bridge := merged,
           rg_calls := rg_calls r @
             concat (map (formatter_calls b) (map snd (rg_formatters r))) @
             concat (map (transformation_calls b) (map snd (rg_transformations r))) @
             concat (map (hook_calls b) (map snd (rg_event_hooks r)))\<rparr>)"

definition createSimplePlugin :: "jstr \<Rightarrow> js_fn \<Rightarrow> plugin" where
  "createSimplePlugin name fn =
     \<lparr>pl_manifest = \<lparr>mf_name = name, mf_version = ''1.0.0'',
                     mf_description = Some (''Custom transformation: '' @ name), mf_dependencies = []\<rparr>,
      pl_transformations = [\<lparr>tp_type = name, tp_name = name, tp_execute = fn\<rparr>],
      pl_downloaders = [], pl_formatters = [], pl_validators = [], pl_parsers = [], pl_diff_reporters = [],
      pl_cache_backends = [], pl_header_generators = [], pl_conflict_resolvers = [], pl_event_hooks = [],
      pl_init = None, pl_cleanup = None\<rparr>"

section \<open>The factory of formatters\<close>

definition factory_register :: "jstr \<Rightarrow> js_fn \<Rightarrow> (jstr \<times> js_fn) list \<Rightarrow> (jstr \<times> js_fn) list" where
  "factory_register format cls fs = map_set format cls fs"

definition factory_unregister :: "jstr \<Rightarrow> (jstr \<times> js_fn) list \<Rightarrow> bool \<times> (jstr \<times> js_fn) list" where
  "factory_unregister format fs = (map_has fs format, map_delete format fs)"

definition factory_create :: "jstr \<Rightarrow> (jstr \<times> js_fn) list \<Rightarrow> js_fn option" where
  "factory_create format fs =
     (case map_get fs format of Some c \<Rightarrow> Some c | None \<Rightarrow> map_get fs ''adblock'')"

definition factory_initialize :: "js_fn list \<Rightarrow> (jstr \<times> js_fn) list" where
  "factory_initialize classes =
     fold (\<lambda>(f, c). factory_register f c)
       (zip [''hosts'', ''dnsmasq'', ''pihole'', ''unbound'', ''json'', ''doh'', ''adblock''] classes) []"

text \<open>What the factory makes of the calls to a bridge whose callbacks \<open>reg\<close> and \<open>unreg\<close> are its methods.\<close>

fun factory_call :: "js_fn \<Rightarrow> js_fn \<Rightarrow> bridge_call \<Rightarrow> (jstr \<times> js_fn) list \<Rightarrow> (jstr \<times> js_fn) list" where
  "factory_call reg unreg (CallFormatter c f cls) fs = (if c = reg then factory_register f cls fs else fs)"
| "factory_call reg unreg (CallUnformatter c f) fs =
     (if c = unreg then snd (factory_unregister f fs) else fs)"
| "factory_call reg unreg c fs = fs"

definition factory_after :: "js_fn \<Rightarrow> js_fn \<Rightarrow> bridge_call list \<Rightarrow> (jstr \<times> js_fn) list \<Rightarrow> (jstr \<times> js_fn) list" where
  "factory_after reg unreg cs fs = fold (factory_call reg unreg) cs fs"

section \<open>One table for every slot\<close>

datatype entry =
    ETransformation transformation_plugin
  | EDownloader downloader_plugin
  | EFormatter formatter_plugin
  | EValidator validation_plugin
  | EParser parser_plugin
  | EDiffReporter diff_reporter_plugin
  | ECacheBackend cache_backend_plugin
  | EHeaderGenerator header_generator_plugin
  | EConflictResolver conflict_resolver_plugin
  | EEventHook event_hook_plugin

definition table :: "slot_kind \<Rightarrow> registry \<Rightarrow> (jstr \<times> entry) list" where
  "table k r = (case k of
       TransformationsSlot \<Rightarrow> map (apsnd ETransformation) (rg_transformations r)
     | DownloadersSlot \<Rightarrow> map (apsnd EDownloader) (rg_downloaders r)
     | FormattersSlot \<Rightarrow> map (apsnd EFormatter) (rg_formatters r)
     | ValidatorsSlot \<Rightarrow> map (apsnd EValidator) (rg_validators r)
     | ParsersSlot \<Rightarrow> map (apsnd EParser) (rg_parsers r)
     | DiffReportersSlot \<Rightarrow> map (apsnd EDiffReporter) (rg_diff_reporters r)
     | CacheBackendsSlot \<Rightarrow> map (apsnd ECacheBackend) (rg_cache_backends r)
     | HeaderGeneratorsSlot \<Rightarrow> map (apsnd EHeaderGenerator) (rg_header_generators r)
     | ConflictResolversSlot \<Rightarrow> map (apsnd EConflictResolver) (rg_conflict_resolvers r)
     | EventHooksSlot \<Rightarrow> map (apsnd EEventHook) (rg_event_hooks r))"

definition brings :: "slot_kind \<Rightarrow> plugin \<Rightarrow> (jstr \<times> entry) list" where
  "brings k p = (case k of
       TransformationsSlot \<Rightarrow> map (apsnd ETransformation) (transformation_entries p)
     | DownloadersSlot \<Rightarrow> map (apsnd EDownloader) (downloader_entries p)
     | FormattersSlot \<Rightarrow> map (apsnd EFormatter) (formatter_entries p)
     | ValidatorsSlot \<Rightarrow> map (apsnd EValidator) (validator_entries p)
     | ParsersSlot \<Rightarrow> map (apsnd EParser) (parser_entries p)
     | DiffReportersSlot \<Rightarrow> map (apsnd EDiffReporter) (diff_reporter_entries p)
     | CacheBackendsSlot \<Rightarrow> map (apsnd ECacheBackend) (cache_backend_entries p)
     | HeaderGeneratorsSlot \<Rightarrow> map (apsnd EHeaderGenerator) (header_generator_entries p)
     | ConflictResolversSlot \<Rightarrow> map (apsnd EConflictResolver) (conflict_resolver_entries p)
     | EventHooksSlot \<Rightarrow> map (apsnd EEventHook) (event_hook_entries p))"

lemmas dispatches =
  dispatch_transformations_def
  dispatch_downloaders_def
  dispatch_formatters_def
  dispatch_validators_def
  dispatch_parsers_def
  dispatch_diff_reporters_def
  dispatch_cache_backends_def
  dispatch_header_generators_def
  dispatch_conflict_resolvers_def
  dispatch_event_hooks_def

lemma remove_entries: "remove_entries es m = filter (\<lambda>e. fst e \<notin> fst ` set es) m"
  by (induction es arbitrary: m)
     (auto simp: remove_entries_def map_delete_def conj_commute intro: filter_cong)

lemma remove_brought: "fst ` set es \<inter> fst ` set m = {} \<Longrightarrow> remove_entries es (m @ es) = m"
  by (auto simp: remove_entries filter_empty_conv filter_id_conv)

subsection \<open>Dispatch\<close>

lemma dispatch_prefix: "dispatch kind calls es (m, cs) = (e, m', cs') \<Longrightarrow>
    \<exists>n. m' = m @ take n es \<and> cs' = cs @ concat (map (calls \<circ> snd) (take n es)) \<and>
        (e = None \<longrightarrow> n = length es) \<and> distinct (map fst (take n es)) \<and>
        fst ` set (take n es) \<inter> fst ` set m = {} \<and> (e \<noteq> None \<longrightarrow> (\<exists>k. e = Some (EntryTaken kind k)))"
proof (induction kind calls es "(m, cs)" arbitrary: m cs rule: dispatch.induct)
  case (2 kind calls k v es m cs)
  show ?case
  proof (cases "map_has m k")
    case True
    then show ?thesis using 2(2) by (intro exI [of _ 0]) auto
  next
    case False
    with 2 obtain n where
      "m' = (m @ [(k, v)]) @ take n es" "cs' = (cs @ calls v) @ concat (map (calls \<circ> snd) (take n es))"
      "e = None \<longrightarrow> n = length es" "distinct (map fst (take n es))"
      "fst ` set (take n es) \<inter> fst ` set (m @ [(k, v)]) = {}"
      "e \<noteq> None \<longrightarrow> (\<exists>k. e = Some (EntryTaken kind k))"
      by (simp add: map_set_fresh) blast
    with False show ?thesis by (intro exI [of _ "Suc n"]) (auto simp: map_has_def)
  qed
qed simp

lemma dispatch_complete: "distinct (map fst es) \<Longrightarrow> fst ` set es \<inter> fst ` set m = {} \<Longrightarrow>
    fst (dispatch kind calls es (m, cs)) = None"
  by (induction kind calls es "(m, cs)" arbitrary: m cs rule: dispatch.induct)
     (auto simp: map_has_def map_set_fresh)

lemma and_then_None: "and_then f g s = (None, t) \<longleftrightarrow> (\<exists>s'. f s = (None, s') \<and> g s' = (None, t))"
  by (auto simp: and_then_def split: prod.splits option.splits)

lemma and_then_Some: "and_then f g s = (Some e, t) \<longleftrightarrow>
    f s = (Some e, t) \<or> (\<exists>s'. f s = (None, s') \<and> g s' = (Some e, t))"
  by (auto simp: and_then_def split: prod.splits option.splits)

text \<open>What every run of \<open>dispatch_all\<close> keeps: the tables only grow, by entries under new keys.\<close>

definition extends :: "(jstr \<times> 'v) list \<Rightarrow> (jstr \<times> 'v) list \<Rightarrow> bool" where
  "extends m m' \<longleftrightarrow> (\<exists>xs. m' = m @ xs \<and> distinct (map fst xs) \<and> fst ` set xs \<inter> fst ` set m = {})"

lemma extends_refl: "extends m m"
  by (simp add: extends_def)

lemma extends_trans: "extends a b \<Longrightarrow> extends b c \<Longrightarrow> extends a c"
proof -
  assume "extends a b" "extends b c"
  then obtain xs ys where "b = a @ xs" "distinct (map fst xs)" "fst ` set xs \<inter> fst ` set a = {}"
    "c = a @ xs @ ys" "distinct (map fst ys)" "fst ` set ys \<inter> fst ` set (a @ xs) = {}"
    by (auto simp: extends_def)
  then show ?thesis unfolding extends_def by (intro exI [of _ "xs @ ys"]) auto
qed

lemma extends_map: "extends m m' \<Longrightarrow> extends (map (apsnd g) m) (map (apsnd g) m')"
proof -
  assume "extends m m'"
  then obtain xs where "m' = m @ xs" "distinct (map fst xs)" "fst ` set xs \<inter> fst ` set m = {}"
    by (auto simp: extends_def)
  then show ?thesis unfolding extends_def
    by (intro exI [of _ "map (apsnd g) xs"]) (auto simp: image_image comp_def)
qed

lemma extends_distinct: "extends m m' \<Longrightarrow> distinct (map fst m) \<Longrightarrow> distinct (map fst m')"
  by (auto simp: extends_def) (metis disjoint_iff fst_conv image_eqI)

lemma extends_set: "extends m m' \<Longrightarrow> set m \<subseteq> set m'"
  by (auto simp: extends_def)

definition grows :: "registry \<Rightarrow> registry \<Rightarrow> bool" where
  "grows r r' \<longleftrightarrow> rg_plugins r' = rg_plugins r \<and> rg_bridge r' = rg_bridge r \<and>
     (\<forall>k. extends (table k r) (table k r'))"

lemma grows_refl: "grows r r"
  by (simp add: grows_def extends_refl)

lemma grows_trans: "grows r s \<Longrightarrow> grows s t \<Longrightarrow> grows r t"
  unfolding grows_def by (metis extends_trans)

lemma and_then_grows:
  assumes "\<And>e r r'. f r = (e, r') \<Longrightarrow> grows r r'" "\<And>e r r'. g r = (e, r') \<Longrightarrow> grows r r'"
    "and_then f g r = (e, r')"
  shows "grows r r'"
proof (cases "f r")
  case (Pair a s)
  then show ?thesis using assms(3) assms(1) [OF Pair] assms(2) [of s e r']
    by (cases a) (auto simp: and_then_def intro: grows_trans)
qed

lemma dispatch_extends: "dispatch kind calls es s = (e, m', cs') \<Longrightarrow> extends (fst s) m'"
  using dispatch_prefix [of kind calls es "fst s" "snd s"] by (auto simp: extends_def)

lemma dispatch_grows:
  "dispatch_transformations p r = (e, r') \<Longrightarrow> grows r r'"
  "dispatch_downloaders p r = (e, r') \<Longrightarrow> grows r r'"
  "dispatch_formatters p r = (e, r') \<Longrightarrow> grows r r'"
  "dispatch_validators p r = (e, r') \<Longrightarrow> grows r r'"
  "dispatch_parsers p r = (e, r') \<Longrightarrow> grows r r'"
  "dispatch_diff_reporters p r = (e, r') \<Longrightarrow> grows r r'"
  "dispatch_cache_backends p r = (e, r') \<Longrightarrow> grows r r'"
  "dispatch_header_generators p r = (e, r') \<Longrightarrow> grows r r'"
  "dispatch_conflict_resolvers p r = (e, r') \<Longrightarrow> grows r r'"
  "dispatch_event_hooks p r = (e, r') \<Longrightarrow> grows r r'"
  by (auto simp: dispatches grows_def table_def extends_refl extends_map dest!: dispatch_extends
           split: prod.splits slot_kind.split)

lemma dispatch_all_grows: "dispatch_all p r = (e, r') \<Longrightarrow> grows r r'"
  unfolding dispatch_all_def by (elim and_then_grows [rotated -1] dispatch_grows)

definition fits :: "plugin \<Rightarrow> registry \<Rightarrow> bool" where
  "fits p r \<longleftrightarrow> (\<forall>k. distinct (map fst (brings k p)) \<and> fst ` set (brings k p) \<inter> fst ` set (table k r) = {})"

definition added :: "plugin \<Rightarrow> registry \<Rightarrow> registry" where
  "added p r =
     r\<lparr>rg_transformations := rg_transformations r @ transformation_entries p,
       rg_downloaders := rg_downloaders r @ downloader_entries p,
       rg_formatters := rg_formatters r @ formatter_entries p,
       rg_validators := rg_validators r @ validator_entries p,
       rg_parsers := rg_parsers r @ parser_entries p,
       rg_diff_reporters := rg_diff_reporters r @ diff_reporter_entries p,
       rg_cache_backends := rg_cache_backends r @ cache_backend_entries p,
       rg_header_generators := rg_header_generators r @ header_generator_entries p,
       rg_conflict_resolvers := rg_conflict_resolvers r @ conflict_resolver_entries p,
       rg_event_hooks := rg_event_hooks r @ event_hook_entries p,
       rg_calls := rg_calls r @
         concat (map (transformation_calls (rg_bridge r)) (pl_transformations p)) @
         concat (map (formatter_calls (rg_bridge r)) (pl_formatters p)) @
         concat (map (hook_calls (rg_bridge r)) (pl_event_hooks p))\<rparr>"

lemma dispatch_None: "dispatch kind calls es (m, cs) = (None, s) \<longleftrightarrow>
    distinct (map fst es) \<and> fst ` set es \<inter> fst ` set m = {} \<and>
    s = (m @ es, cs @ concat (map (calls \<circ> snd) es))"
proof -
  obtain e m' cs' where d: "dispatch kind calls es (m, cs) = (e, m', cs')" by (metis prod_cases3)
  obtain n where n: "m' = m @ take n es" "cs' = cs @ concat (map (calls \<circ> snd) (take n es))"
    "e = None \<longrightarrow> n = length es" "distinct (map fst (take n es))" "fst ` set (take n es) \<inter> fst ` set m = {}"
    using dispatch_prefix [OF d] by blast
  show ?thesis
  proof (cases e)
    case None
    with n d show ?thesis by (simp add: eq_commute)
  next
    case (Some x)
    with d dispatch_complete [of es m kind calls cs] show ?thesis by (metis fst_conv option.distinct(1))
  qed
qed

lemma all_slots: "(\<forall>k. P k) \<longleftrightarrow> P TransformationsSlot \<and> P DownloadersSlot \<and> P FormattersSlot \<and> P ValidatorsSlot \<and> P ParsersSlot \<and> P DiffReportersSlot \<and> P CacheBackendsSlot \<and> P HeaderGeneratorsSlot \<and> P ConflictResolversSlot \<and> P EventHooksSlot"
  by (metis slot_kind.exhaust)

lemma slot_None: "(case d of (e, m, cs) \<Rightarrow> (e, u m cs)) = (None, r') \<longleftrightarrow> (\<exists>m cs. d = (None, m, cs) \<and> r' = u m cs)"
  by (auto split: prod.splits)

lemma concat_none: "concat (map (\<lambda>_. []) xs) = []"
  by (induction xs) simp_all

lemma dispatch_all_None: "dispatch_all p r = (None, r') \<longleftrightarrow> fits p r \<and> r' = added p r"
proof -
  have fst_apsnd: "fst ` apsnd g ` A = fst ` A" for g :: "'x \<Rightarrow> 'y" and A :: "('k \<times> 'x) set"
    by (simp add: image_image)
  show ?thesis unfolding dispatch_all_def fits_def all_slots
    by (simp add: and_then_None dispatches slot_None dispatch_None table_def brings_def fst_apsnd)
       (simp add: added_def transformation_entries_def formatter_entries_def event_hook_entries_def comp_def
         concat_none)
qed

lemma table_added: "table k (added p r) = table k r @ brings k p"
  by (cases k) (simp_all add: table_def brings_def added_def)

lemma table_rollback: "table k (rollback_entries p r) = filter (\<lambda>e. fst e \<notin> fst ` set (brings k p)) (table k r)"
  by (cases k) (simp_all add: table_def brings_def rollback_entries_def remove_entries filter_map comp_def image_image)

lemma table_plugins [simp]: "table k (r\<lparr>rg_plugins := ps\<rparr>) = table k r"
  by (cases k) (simp_all add: table_def)

lemma plugins_kept [simp]:
  "rg_plugins (added p r) = rg_plugins r" "rg_plugins (rollback_entries p r) = rg_plugins r"
  "rg_bridge (added p r) = rg_bridge r" "rg_bridge (rollback_entries p r) = rg_bridge r"
  by (simp_all add: added_def rollback_entries_def)

lemma rollback_added: "fits p r \<Longrightarrow> table k (rollback_entries p (added p r)) = table k r"
  by (auto simp: table_rollback table_added fits_def filter_empty_conv filter_id_conv disjoint_iff)

lemma fits_keys: "fits p r \<Longrightarrow> x \<in> set (brings k p) \<Longrightarrow> fst x \<notin> fst ` set (table k r)"
  by (auto simp: fits_def disjoint_iff)

lemma register_begin_None: "register_begin p r = (None, r') \<longleftrightarrow>
    \<not> map_has (rg_plugins r) (pl_name p) \<and> unmet r p = [] \<and> fits p r \<and> r' = added p r"
  by (auto simp: register_begin_def dispatch_all_None)

lemma register_begin_grows: "register_begin p r = (e, r') \<Longrightarrow> grows r r'"
  by (auto simp: register_begin_def grows_refl dispatch_all_grows split: if_splits)

lemma dispatch_taken: "dispatch kind calls es s = (Some e, s') \<Longrightarrow> \<exists>k. e = EntryTaken kind k"
  using dispatch_prefix [of kind calls es "fst s" "snd s" "Some e" "fst s'" "snd s'"] by auto

lemma slot_Some: "(case d of (e, m, cs) \<Rightarrow> (e, u m cs)) = (Some x, r') \<longleftrightarrow> (\<exists>m cs. d = (Some x, m, cs) \<and> r' = u m cs)"
  by (auto split: prod.splits)

lemma dispatch_all_taken: "dispatch_all p r = (Some e, r') \<Longrightarrow> \<exists>kind k. e = EntryTaken kind k"
  unfolding dispatch_all_def
  by (elim and_then_Some [THEN iffD1, elim_format] disjE exE conjE)
     (auto simp: dispatches slot_Some dest: dispatch_taken)

definition same_tables :: "registry \<Rightarrow> registry \<Rightarrow> bool" where
  "same_tables r r' \<longleftrightarrow> rg_plugins r' = rg_plugins r \<and> (\<forall>k. table k r' = table k r)"

lemma unregister_registered: "fits p r \<Longrightarrow> \<not> map_has (rg_plugins r) (pl_name p) \<Longrightarrow>
    same_tables r (unregister_finish (pl_name p) p
      ((added p r)\<lparr>rg_plugins := map_set (pl_name p) p (rg_plugins (added p r))\<rparr>))"
  by (simp add: same_tables_def unregister_finish_def map_set_fresh map_delete_fresh table_rollback table_added
        filter_empty_conv filter_id_conv disjoint_iff fits_def) (force simp: filter_empty_conv filter_id_conv)

subsection \<open>Sorting\<close>

definition depends :: "(jstr \<times> plugin) list \<Rightarrow> (jstr \<times> jstr) set" where
  "depends m = {(a, b). \<exists>p. map_get m a = Some p \<and> b \<in> set (pl_dependencies p)}"

text \<open>Each plugin of the list comes after the plugins it depends on.\<close>

fun deps_first :: "jstr list \<Rightarrow> plugin list \<Rightarrow> bool" where
  "deps_first seen [] = True"
| "deps_first seen (p # ps) \<longleftrightarrow> set (pl_dependencies p) \<subseteq> set seen \<and> deps_first (pl_name p # seen) ps"

lemma deps_first_same: "deps_first seen ps \<Longrightarrow> set seen = set seen' \<Longrightarrow> deps_first seen' ps"
  by (induction seen ps arbitrary: seen' rule: deps_first.induct) auto

lemma deps_first_snoc: "deps_first seen (ps @ [p]) \<longleftrightarrow>
    deps_first seen ps \<and> set (pl_dependencies p) \<subseteq> set seen \<union> pl_name ` set ps"
  by (induction ps arbitrary: seen) auto

text \<open>The names in a map of plugins are theirs, and every dependency is in it.\<close>

definition closed_map :: "(jstr \<times> plugin) list \<Rightarrow> bool" where
  "closed_map m \<longleftrightarrow> (\<forall>(n, p) \<in> set m. pl_name p = n \<and> (\<forall>d \<in> set (pl_dependencies p). map_has m d))"

definition sorted_state :: "(jstr \<times> plugin) list \<Rightarrow> jstr list \<times> plugin list \<Rightarrow> bool" where
  "sorted_state m s \<longleftrightarrow> fst s = map pl_name (snd s) \<and> distinct (fst s) \<and> deps_first [] (snd s) \<and>
     (\<forall>p \<in> set (snd s). map_get m (pl_name p) = Some p)"

lemma closed_get: "closed_map m \<Longrightarrow> map_get m n = Some p \<Longrightarrow>
    pl_name p = n \<and> (\<forall>d \<in> set (pl_dependencies p). map_has m d)"
  by (auto simp: closed_map_def map_get_def dest!: map_of_SomeD)

lemma visit_sorted:
  "closed_map m \<Longrightarrow> map_has m name \<Longrightarrow> sorted_state m s \<Longrightarrow> set (fst s) \<inter> set visiting = {} \<Longrightarrow>
   visit m visiting name s = Inr s' \<Longrightarrow>
   sorted_state m s' \<and> insert name (set (fst s)) \<subseteq> set (fst s') \<and> set (fst s') \<inter> set visiting = {}"
  "closed_map m \<Longrightarrow> (\<forall>d \<in> set ds. map_has m d) \<Longrightarrow> sorted_state m s \<Longrightarrow> set (fst s) \<inter> set visiting = {} \<Longrightarrow>
   visit_deps m visiting ds s = Inr s' \<Longrightarrow>
   sorted_state m s' \<and> set ds \<union> set (fst s) \<subseteq> set (fst s') \<and> set (fst s') \<inter> set visiting = {}"
proof (induction m visiting name s and m visiting ds s arbitrary: s' and s' rule: visit_visit_deps.induct)
  case (1 m visiting name visited ordered)
  show ?case
  proof (cases "name \<in> set visited")
    case True
    then show ?thesis using 1 by (auto simp: visit.simps)
  next
    case False
    then have new: "name \<notin> set visiting" using "1.prems"(5) by (auto simp: visit.simps split: if_splits)
    obtain p where p: "map_get m name = Some p" using "1.prems"(2) map_has_get by metis
    obtain v' o' where v: "visit_deps m (name # visiting) (pl_dependencies p) (visited, ordered) = Inr (v', o')"
        "s' = (v' @ [name], o' @ [p])"
      using False new p "1.prems"(5) by (auto simp: visit.simps split: sum.splits)
    note cl = closed_get [OF "1.prems"(1) p]
    have off: "set (fst (visited, ordered)) \<inter> set (name # visiting) = {}"
      using False "1.prems"(4) by simp
    have st: "sorted_state m (v', o')" "set (pl_dependencies p) \<union> set (fst (visited, ordered)) \<subseteq> set (fst (v', o'))"
        "set (fst (v', o')) \<inter> set (name # visiting) = {}"
      using "1.IH" [OF False new p "1.prems"(1) conjunct2 [OF cl] "1.prems"(3) off v(1)] by blast+
    have "sorted_state m (v' @ [name], o' @ [p])"
      using st cl p by (simp add: sorted_state_def deps_first_snoc) auto
    then show ?thesis using st v(2) new by auto
  qed
next
  case (3 m visiting d ds s)
  obtain t where t: "visit m visiting d s = Inr t" "visit_deps m visiting ds t = Inr s'"
    using "3.prems"(5) by (auto split: sum.splits)
  have has: "map_has m d" "\<forall>x \<in> set ds. map_has m x" using "3.prems"(2) by auto
  note a = "3.IH"(1) [OF "3.prems"(1) has(1) "3.prems"(3,4) t(1)]
  note b = "3.IH"(2) [OF t(1) "3.prems"(1) has(2) a [THEN conjunct1] a [THEN conjunct2, THEN conjunct2] t(2)]
  show ?case using a b by auto
qed auto

text \<open>An error names a plugin on a cycle: the names of the running calls depend on one another.\<close>

fun call_chain :: "(jstr \<times> plugin) list \<Rightarrow> jstr list \<Rightarrow> bool" where
  "call_chain m (a # b # ns) \<longleftrightarrow> (b, a) \<in> depends m \<and> call_chain m (b # ns)"
| "call_chain m ns = True"

lemma chain_reaches: "call_chain m (a # ns) \<Longrightarrow> b \<in> set ns \<Longrightarrow> (b, a) \<in> (depends m)\<^sup>+"
proof (induction ns arbitrary: a)
  case (Cons c ns)
  then show ?case by (cases "b = c") (auto intro: trancl_into_trancl2 trancl_trans)
qed simp

lemma visit_cycle:
  "call_chain m (name # visiting) \<Longrightarrow> visit m visiting name s = Inl e \<Longrightarrow>
   \<exists>n. e = Circular n \<and> (n, n) \<in> (depends m)\<^sup>+"
  "(visiting = [] \<or> (\<forall>d \<in> set ds. (hd visiting, d) \<in> depends m)) \<Longrightarrow> call_chain m visiting \<Longrightarrow>
   visit_deps m visiting ds s = Inl e \<Longrightarrow> \<exists>n. e = Circular n \<and> (n, n) \<in> (depends m)\<^sup>+"
proof (induction m visiting name s and m visiting ds s rule: visit_visit_deps.induct)
  case (1 m visiting name visited ordered)
  show ?case
  proof (cases "name \<in> set visited \<or> name \<in> set visiting")
    case True
    then show ?thesis using "1.prems" chain_reaches [of m name visiting name] by (auto simp: visit.simps split: if_splits)
  next
    case False
    then obtain p where p: "map_get m name = Some p"
      "visit_deps m (name # visiting) (pl_dependencies p) (visited, ordered) = Inl e"
      using "1.prems"(2) by (auto simp: visit.simps split: sum.splits option.splits)
    with 1 False show ?thesis by (auto simp: depends_def)
  qed
next
  case (3 m visiting d ds s)
  show ?case
  proof (cases "visit m visiting d s")
    case (Inl x)
    have "call_chain m (d # visiting)" using "3.prems"(1,2) by (cases visiting) auto
    then show ?thesis using 3 Inl by auto
  next
    case (Inr t)
    then show ?thesis using 3 by auto
  qed
qed simp

lemma deps_first_no_cycle:
  "deps_first seen ps \<Longrightarrow> \<forall>p \<in> set ps. map_get m (pl_name p) = Some p \<Longrightarrow> distinct (map pl_name ps) \<Longrightarrow>
   set seen \<inter> pl_name ` set ps = {} \<Longrightarrow> \<forall>a \<in> set seen. \<forall>b. (a, b) \<in> (depends m)\<^sup>+ \<longrightarrow> b \<in> set seen \<and> a \<noteq> b \<Longrightarrow>
   \<forall>p \<in> set ps. (pl_name p, pl_name p) \<notin> (depends m)\<^sup>+"
proof (induction seen ps rule: deps_first.induct)
  case (2 seen p ps)
  have step: "b \<in> set seen" if "(pl_name p, b) \<in> (depends m)\<^sup>+" for b
    using that
  proof (induction rule: trancl_induct)
    case (base y)
    then show ?case using "2.prems"(1,2) by (auto simp: depends_def)
  next
    case (step y z)
    then show ?case using "2.prems"(5) by blast
  qed
  have p: "pl_name p \<notin> set seen" using "2.prems"(4) by auto
  have "\<forall>q \<in> set ps. (pl_name q, pl_name q) \<notin> (depends m)\<^sup>+"
    by (rule "2.IH") (use "2.prems" step p in auto)
  then show ?case using step p by auto
qed simp

lemma find_app: "find P (xs @ ys) = (case find P xs of Some x \<Rightarrow> Some x | None \<Rightarrow> find P ys)"
  by (induction xs) simp_all

lemma map_get_by_name: "map_get (by_name ps) n = find (\<lambda>p. pl_name p = n) (rev ps)"
proof -
  have "map_get (fold (\<lambda>p. map_set (pl_name p) p) ps m) n =
      (case find (\<lambda>p. pl_name p = n) (rev ps) of Some p \<Rightarrow> Some p | None \<Rightarrow> map_get m n)" for m
    by (induction ps arbitrary: m) (auto simp: map_get_set find_app split: option.splits)
  from this [of "[]"] show ?thesis
    by (simp add: by_name_def map_get_def split: option.splits)
qed

lemma keys_by_name: "set (map fst (by_name ps)) = pl_name ` set ps"
proof -
  have "set (map fst (fold (\<lambda>p. map_set (pl_name p) p) ps m)) = set (map fst m) \<union> pl_name ` set ps" for m
    by (induction ps arbitrary: m) (auto simp: keys_map_set map_has_def simp del: set_map)
  then show ?thesis by (simp add: by_name_def del: set_map)
qed

lemma map_has_by_name: "map_has (by_name ps) n \<longleftrightarrow> n \<in> pl_name ` set ps"
  by (simp add: map_has_def keys_by_name del: set_map)

lemma by_name_get: "map_get (by_name ps) n = Some p \<Longrightarrow> p \<in> set ps \<and> pl_name p = n"
  by (auto simp: map_get_by_name find_Some_iff) (metis nth_mem set_rev length_rev)

lemma distinct_by_name: "distinct (map fst (by_name ps))"
proof -
  have "distinct (map fst m) \<Longrightarrow> distinct (map fst (fold (\<lambda>p. map_set (pl_name p) p) ps m))" for m
    by (induction ps arbitrary: m) (auto simp: keys_map_set map_has_def)
  from this [of "[]"] show ?thesis by (simp add: by_name_def)
qed

lemma closed_by_name: "(\<forall>p \<in> set ps. missing_deps (by_name ps) p = []) \<Longrightarrow> closed_map (by_name ps)"
proof -
  assume none: "\<forall>p \<in> set ps. missing_deps (by_name ps) p = []"
  have "map_get (by_name ps) n = Some p" if "(n, p) \<in> set (by_name ps)" for n p
    using that distinct_by_name by (simp add: map_get_def)
  then show ?thesis using none by (fastforce simp: closed_map_def missing_deps_def filter_empty_conv dest: by_name_get)
qed

lemma topological_sort_Inr: "topologicalSort ps = Inr out \<Longrightarrow>
    closed_map (by_name ps) \<and> sorted_state (by_name ps) (map pl_name out, out) \<and> pl_name ` set out = pl_name ` set ps"
proof -
  assume a: "topologicalSort ps = Inr out"
  have none: "\<forall>p \<in> set ps. missing_deps (by_name ps) p = []"
    using a by (auto simp: topologicalSort_def Let_def find_None_iff split: option.splits)
  then obtain v where v: "visit_deps (by_name ps) [] (map pl_name ps) ([], []) = Inr (v, out)"
    using a by (cases "visit_deps (by_name ps) [] (map pl_name ps) ([], [])")
               (auto simp: topologicalSort_def Let_def split: option.splits)
  note cl = closed_by_name [OF none]
  have "sorted_state (by_name ps) (v, out) \<and> set (map pl_name ps) \<subseteq> set v"
    using visit_sorted(2) [OF cl, of "map pl_name ps" "([], [])" "[]" "(v, out)"] v
    by (auto simp: map_has_by_name sorted_state_def)
  then show ?thesis using cl
    by (auto simp: sorted_state_def dest!: by_name_get)
qed

lemma topological_sort_Inl: "topologicalSort ps = Inl e \<Longrightarrow>
    (\<exists>p \<in> set ps. missing_deps (by_name ps) p \<noteq> [] \<and> e = MissingFromBatch (pl_name p) (missing_deps (by_name ps) p)) \<or>
    (\<exists>n. e = Circular n \<and> (n, n) \<in> (depends (by_name ps))\<^sup>+)"
proof -
  assume a: "topologicalSort ps = Inl e"
  show ?thesis
  proof (cases "find (\<lambda>p. missing_deps (by_name ps) p \<noteq> []) ps")
    case None
    then have "visit_deps (by_name ps) [] (map pl_name ps) ([], []) = Inl e"
      using a by (cases "visit_deps (by_name ps) [] (map pl_name ps) ([], [])")
                 (auto simp: topologicalSort_def Let_def)
    then show ?thesis using visit_cycle(2) [of "[]" "map pl_name ps" "by_name ps"] by auto
  next
    case (Some p)
    then have "p \<in> set ps" "missing_deps (by_name ps) p \<noteq> []" by (auto simp: find_Some_iff)
    then show ?thesis using a Some by (auto simp: topologicalSort_def Let_def)
  qed
qed

lemma sorted_no_cycle: "topologicalSort ps = Inr out \<Longrightarrow> (n, n) \<notin> (depends (by_name ps))\<^sup>+"
proof
  assume a: "topologicalSort ps = Inr out" and n: "(n, n) \<in> (depends (by_name ps))\<^sup>+"
  note s = topological_sort_Inr [OF a]
  have "\<forall>p \<in> set out. (pl_name p, pl_name p) \<notin> (depends (by_name ps))\<^sup>+"
    by (rule deps_first_no_cycle [of "[]"]) (use s in \<open>auto simp: sorted_state_def\<close>)
  moreover obtain p where "map_get (by_name ps) n = Some p"
    using n by (auto simp: depends_def elim: converse_tranclE)
  then have "n \<in> pl_name ` set out" using s by (auto dest!: by_name_get)
  ultimately show False using n by auto
qed

lemma missing_iff: "missing_deps (by_name ps) p = filter (\<lambda>d. d \<notin> pl_name ` set ps) (pl_dependencies p)"
  by (simp add: missing_deps_def map_has_by_name)

lemma topological_sort_total: "(\<Union>p \<in> set ps. set (pl_dependencies p)) \<subseteq> set (map pl_name ps) \<Longrightarrow>
    acyclic (depends (by_name ps)) \<Longrightarrow> \<exists>out. topologicalSort ps = Inr out"
proof (cases "topologicalSort ps")
  case (Inl e)
  assume a: "(\<Union>p \<in> set ps. set (pl_dependencies p)) \<subseteq> set (map pl_name ps)" "acyclic (depends (by_name ps))"
  then have "missing_deps (by_name ps) p = []" if "p \<in> set ps" for p
    using that by (auto simp: missing_iff filter_empty_conv)
  then show ?thesis using topological_sort_Inl [OF Inl] a(2) by (auto simp: acyclic_def)
qed simp

lemma topological_sort_perm:
  assumes "topologicalSort ps = Inr out" "distinct (map pl_name ps)"
  shows "mset out = mset ps \<and> deps_first [] out \<and> distinct (map pl_name out)"
proof -
  note s = topological_sort_Inr [OF assms(1)]
  have out: "set out \<subseteq> set ps" using s by (auto simp: sorted_state_def dest: by_name_get)
  have "set ps \<subseteq> set out"
  proof
    fix p assume p: "p \<in> set ps"
    then obtain q where "q \<in> set out" "pl_name q = pl_name p" using s by (metis image_iff)
    then show "p \<in> set out" using p out assms(2) by (metis distinct_map inj_on_def subsetD)
  qed
  then show ?thesis using out assms(2) s
    by (auto simp: sorted_state_def distinct_map intro!: set_eq_iff_mset_eq_distinct [THEN iffD1])
qed

text \<open>
  C31. \<open>topologicalSort\<close> answers for every batch.  A result holds each name of the batch once, with the
  last plugin of that name, and every plugin after all its dependencies; for a batch with distinct
  names it is a permutation of the batch.  An error names a plugin with dependencies outside the batch,
  or a plugin on a cycle, and one of the two occurs exactly if there is such a plugin.
\<close>

theorem topological_sort_correct:
  "(case topologicalSort ps of
      Inr out \<Rightarrow> distinct (map pl_name out) \<and> set (map pl_name out) = set (map pl_name ps) \<and> deps_first [] out \<and>
                 map Some out = map (\<lambda>p. map_get (by_name ps) (pl_name p)) out \<and>
                 (distinct (map pl_name ps) \<longleftrightarrow> mset out = mset ps)
    | Inl (MissingFromBatch n ds) \<Rightarrow> (\<exists>p \<in> set ps. pl_name p = n \<and> ds \<noteq> [] \<and>
                 ds = filter (\<lambda>d. d \<notin> set (map pl_name ps)) (pl_dependencies p))
    | Inl (Circular n) \<Rightarrow> (n, n) \<in> (depends (by_name ps))\<^sup>+
    | Inl _ \<Rightarrow> False) \<and>
   ((\<exists>out. topologicalSort ps = Inr out) \<longleftrightarrow>
      (\<Union>p \<in> set ps. set (pl_dependencies p)) \<subseteq> set (map pl_name ps) \<and> acyclic (depends (by_name ps)))"
proof (cases "topologicalSort ps")
  case (Inl e)
  have no: "\<not> ((\<Union>p \<in> set ps. set (pl_dependencies p)) \<subseteq> set (map pl_name ps) \<and> acyclic (depends (by_name ps)))"
    using topological_sort_total [of ps] Inl by auto
  from topological_sort_Inl [OF Inl] show ?thesis
  proof (elim disjE bexE exE conjE)
    fix p assume p: "p \<in> set ps" "missing_deps (by_name ps) p \<noteq> []"
      "e = MissingFromBatch (pl_name p) (missing_deps (by_name ps) p)"
    then show ?thesis using Inl no by (simp add: missing_iff) blast
  qed (use Inl no in auto)
next
  case (Inr out)
  note s = topological_sort_Inr [OF Inr]
  have "(\<Union>p \<in> set ps. set (pl_dependencies p)) \<subseteq> set (map pl_name ps)"
    using Inr by (auto simp: topologicalSort_def Let_def find_None_iff missing_iff filter_empty_conv split: option.splits)
  moreover have "distinct (map pl_name ps)" if "mset out = mset ps"
  proof -
    have "mset (map pl_name out) = mset (map pl_name ps)" using that by simp
    then have "distinct (map pl_name out) \<longleftrightarrow> distinct (map pl_name ps)" by (rule mset_eq_imp_distinct_iff)
    then show ?thesis using s by (simp add: sorted_state_def)
  qed
  ultimately show ?thesis using Inr s topological_sort_perm [OF Inr] sorted_no_cycle [OF Inr]
    by (auto simp: sorted_state_def acyclic_def)
qed

subsection \<open>Registration\<close>


subsection \<open>Steps\<close>

text \<open>
  The registry with the plugins whose \<open>init\<close> is running.  Between the parts of one registration other
  registrations, removals and connections run.
\<close>

type_synonym plugin_state = "registry \<times> plugin list"

inductive plugin_step :: "plugin_state \<Rightarrow> plugin_state \<Rightarrow> bool" where
  begins: "register_begin p r = (None, r') \<Longrightarrow> plugin_step (r, ps) (r', p # ps)"
| refused: "register_begin p r = (Some e, r') \<Longrightarrow> plugin_step (r, ps) (r', ps)"
| finishes: "p \<in> set ps \<Longrightarrow> register_finish p e r = (e', r') \<Longrightarrow> plugin_step (r, ps) (r', remove1 p ps)"
| unregisters: "unregister clean name r = (e, r') \<Longrightarrow> plugin_step (r, ps) (r', ps)"

inductive_cases plugin_stepE [elim!]: "plugin_step (r, ps) (r', ps')"

text \<open>The plugins that own entries: those registered, and those whose \<open>init\<close> is running.\<close>

definition owners :: "plugin_state \<Rightarrow> plugin list" where
  "owners s = map snd (rg_plugins (fst s)) @ snd s"

definition owned :: "slot_kind \<Rightarrow> plugin list \<Rightarrow> (jstr \<times> entry) list" where
  "owned k ps = concat (map (brings k) ps)"

definition plugins_ok :: "plugin_state \<Rightarrow> bool" where
  "plugins_ok s \<longleftrightarrow> distinct (map fst (rg_plugins (fst s))) \<and>
     (\<forall>k. distinct (map fst (table k (fst s))) \<and> distinct (map fst (owned k (owners s))) \<and>
          set (owned k (owners s)) \<subseteq> set (table k (fst s)))"

lemma owned_append: "owned k (ps @ qs) = owned k ps @ owned k qs"
  by (simp add: owned_def)

lemma owned_Cons: "owned k (p # ps) = brings k p @ owned k ps"
  by (simp add: owned_def)

text \<open>Owners may change places and some may go.\<close>

lemma owned_mset: "mset ps = mset qs \<Longrightarrow> mset (owned k ps) = mset (owned k qs)"
proof -
  have "mset (owned k xs) = sum_mset (image_mset (mset \<circ> brings k) (mset xs))" for xs
    by (induction xs) (simp_all add: owned_def)
  then show "mset ps = mset qs \<Longrightarrow> mset (owned k ps) = mset (owned k qs)" by simp
qed

lemma owned_split:
  assumes "distinct (map fst (owned k os))" "mset os = mset (ps @ qs)"
  shows "distinct (map fst (owned k ps))" "set (owned k ps) \<subseteq> set (owned k os)"
    "fst ` set (owned k ps) \<inter> fst ` set (owned k qs) = {}"
proof -
  have m: "mset (owned k os) = mset (owned k ps @ owned k qs)"
    using owned_mset [OF assms(2)] by (simp add: owned_append)
  then have "mset (map fst (owned k os)) = mset (map fst (owned k ps @ owned k qs))"
    by (metis mset_map)
  then have d: "distinct (map fst (owned k ps @ owned k qs))" using assms(1) mset_eq_imp_distinct_iff by blast
  then show "distinct (map fst (owned k ps))" by simp
  from d show "fst ` set (owned k ps) \<inter> fst ` set (owned k qs) = {}" by simp
  from m have "set (owned k os) = set (owned k ps @ owned k qs)" by (rule mset_eq_setD)
  then show "set (owned k ps) \<subseteq> set (owned k os)" by auto
qed

text \<open>Removing the entries of one owner keeps those of the others.\<close>

lemma rollback_ok:
  assumes "distinct (map fst (table k r))" "distinct (map fst (owned k os))" "set (owned k os) \<subseteq> set (table k r)"
    "mset os = mset (ps @ p # qs)"
  shows "distinct (map fst (table k (rollback_entries p r)))" "distinct (map fst (owned k ps))"
    "set (owned k ps) \<subseteq> set (table k (rollback_entries p r))"
proof -
  note s = owned_split [OF assms(2,4)]
  show "distinct (map fst (table k (rollback_entries p r)))"
    using assms(1) by (simp add: table_rollback distinct_map_filter)
  show "distinct (map fst (owned k ps))" by (rule s)
  show "set (owned k ps) \<subseteq> set (table k (rollback_entries p r))"
    using s assms(3) by (auto simp: table_rollback owned_Cons disjoint_iff)
qed

lemma begins_ok: "register_begin p r = (None, r') \<Longrightarrow> plugins_ok (r, ps) \<Longrightarrow> plugins_ok (r', p # ps)"
proof -
  assume b: "register_begin p r = (None, r')" and ok: "plugins_ok (r, ps)"
  then have f: "fits p r" "r' = added p r" by (auto simp: register_begin_None)
  have os: "owned k (owners (r', p # ps)) = owned k (map snd (rg_plugins r)) @ brings k p @ owned k ps" for k
    by (simp add: owners_def owned_append owned_Cons f)
  have ok_k: "distinct (map fst (table k r))" "distinct (map fst (owned k (map snd (rg_plugins r)) @ owned k ps))"
    "set (owned k (map snd (rg_plugins r)) @ owned k ps) \<subseteq> set (table k r)" for k
    using ok by (auto simp: plugins_ok_def owners_def owned_append)
  have key: "fst ` set (brings k p) \<inter> fst ` set (table k r) = {}" "distinct (map fst (brings k p))" for k
    using f by (auto simp: fits_def)
  have "distinct (map fst (table k r'))" for k using ok_k(1) [of k] key [of k] f by (auto simp: table_added)
  moreover have "distinct (map fst (owned k (owners (r', p # ps))))" for k
    using ok_k(2,3) [of k] key [of k] by (auto simp: os)
  moreover have "set (owned k (owners (r', p # ps))) \<subseteq> set (table k r')" for k
    unfolding os using ok_k(3) [of k] by (auto simp: table_added f)
  ultimately show ?thesis using ok f by (simp add: plugins_ok_def)
qed

lemma refused_ok: "grows r r' \<Longrightarrow> plugins_ok (r, ps) \<Longrightarrow> plugins_ok (r', ps)"
  unfolding plugins_ok_def grows_def owners_def by (simp) (meson extends_distinct extends_set subset_trans)

lemma plugins_okD: "plugins_ok (r, ps) \<Longrightarrow> distinct (map fst (rg_plugins r)) \<and>
    distinct (map fst (table k r)) \<and> distinct (map fst (owned k (owners (r, ps)))) \<and>
    set (owned k (owners (r, ps))) \<subseteq> set (table k r)"
  by (simp add: plugins_ok_def)

lemma rolled_back_ok:
  assumes "plugins_ok (r, ps)" "mset (owners (r, ps)) = mset (map snd ms @ ps' @ p # qs)" "distinct (map fst ms)"
  shows "plugins_ok ((rollback_entries p r)\<lparr>rg_plugins := ms\<rparr>, ps')"
  unfolding plugins_ok_def
proof (intro conjI allI)
  fix k
  note ok = plugins_okD [OF assms(1), of k]
  have m: "mset (owners (r, ps)) = mset ((map snd ms @ ps') @ p # qs)" using assms(2) by simp
  note r = rollback_ok [OF _ _ _ m, of k r]
  show "distinct (map fst (table k (fst ((rollback_entries p r)\<lparr>rg_plugins := ms\<rparr>, ps'))))"
    "distinct (map fst (owned k (owners ((rollback_entries p r)\<lparr>rg_plugins := ms\<rparr>, ps'))))"
    "set (owned k (owners ((rollback_entries p r)\<lparr>rg_plugins := ms\<rparr>, ps')))
      \<subseteq> set (table k (fst ((rollback_entries p r)\<lparr>rg_plugins := ms\<rparr>, ps')))"
    using r ok by (simp_all add: owners_def)
qed (simp add: assms(3))

lemma finishes_ok:
  assumes ok: "plugins_ok (r, ps)" and p: "p \<in> set ps" and f: "register_finish p e r = (e', r')"
  shows "plugins_ok (r', remove1 p ps)"
proof (cases e)
  case (Some x)
  have "plugins_ok ((rollback_entries p r)\<lparr>rg_plugins := rg_plugins r\<rparr>, remove1 p ps)"
    by (rule rolled_back_ok [OF ok, of _ _ _ "[]"]) (use ok p in \<open>simp_all add: owners_def plugins_ok_def\<close>)
  then show ?thesis using f Some by (auto simp: register_finish_def rollback_entries_def)
next
  case None
  have r': "r' = r\<lparr>rg_plugins := map_set (pl_name p) p (rg_plugins r)\<rparr>" using f None by (simp add: register_finish_def)
  have d: "distinct (map fst (rg_plugins r))" using ok by (simp add: plugins_ok_def)
  obtain xs where xs: "mset (map snd (rg_plugins r)) = mset (map snd (map_delete (pl_name p) (rg_plugins r)) @ xs)"
    using mset_map_delete [OF d] by blast
  have ps: "mset ps = add_mset p (mset (remove1 p ps))" using p by simp
  have "mset (map snd (map_set (pl_name p) p (rg_plugins r))) =
      image_mset snd (mset (map_set (pl_name p) p (rg_plugins r)))" by simp
  then have set_p: "mset (map snd (map_set (pl_name p) p (rg_plugins r))) =
      add_mset p (mset (map snd (map_delete (pl_name p) (rg_plugins r))))"
    unfolding mset_map_set [OF d, of "pl_name p" p] by simp
  have os: "mset (owners (r, ps)) = mset (owners (r', remove1 p ps) @ xs)"
    using xs set_p ps by (simp add: owners_def r')
  have "distinct (map fst (owned k (owners (r', remove1 p ps))))"
    "set (owned k (owners (r', remove1 p ps))) \<subseteq> set (owned k (owners (r, ps)))" for k
    using owned_split [OF _ os] plugins_okD [OF ok, of k] by blast+
  then have "distinct (map fst (owned k (owners (r', remove1 p ps)))) \<and>
      set (owned k (owners (r', remove1 p ps))) \<subseteq> set (table k r)" for k
    using plugins_okD [OF ok, of k] by blast
  then show ?thesis using ok
    by (simp add: plugins_ok_def r' keys_map_set map_has_def del: set_map)
qed

lemma unregisters_ok:
  assumes ok: "plugins_ok (r, ps)" and u: "unregister clean name r = (e, r')"
  shows "plugins_ok (r', ps)"
proof -
  have d: "distinct (map fst (rg_plugins r))" using ok by (simp add: plugins_ok_def)
  consider "r' = r" | p where "map_get (rg_plugins r) name = Some p" "r' = unregister_finish name p r"
    using u by (auto simp: unregister_def split: option.splits)
  then show ?thesis
  proof cases
    case 2
    have "mset (owners (r, ps)) = mset (map snd (map_delete name (rg_plugins r)) @ ps @ [p])"
      using mset_remove_key [OF d 2(1)] by (simp add: owners_def)
    from rolled_back_ok [OF ok this] show ?thesis
      using d by (simp add: 2 unregister_finish_def keys_map_delete)
  qed (use ok in simp)
qed

lemma plugin_step_ok: "plugin_step s t \<Longrightarrow> plugins_ok s \<Longrightarrow> plugins_ok t"
  by (cases s; cases t)
     (auto simp: begins_ok finishes_ok unregisters_ok intro: refused_ok register_begin_grows)

interpretation plugs: transition_system "\<lambda>s :: plugin_state. s = (new_registry b, [])" plugin_step plugins_ok for b
proof unfold_locales
  fix s :: plugin_state assume "s = (new_registry b, [])"
  then show "plugins_ok s"
    by (auto simp: plugins_ok_def new_registry_def table_def owners_def owned_def split: slot_kind.split)
qed (rule plugin_step_ok)


subsection \<open>The factory\<close>

definition in_sync :: "js_fn \<Rightarrow> js_fn \<Rightarrow> registry \<Rightarrow> bool" where
  "in_sync reg unreg r \<longleftrightarrow>
     br_formatter (rg_bridge r) = Some reg \<and> br_unformatter (rg_bridge r) = Some unreg \<and>
     factory_after reg unreg (rg_calls r) [] = map (apsnd fp_class) (rg_formatters r)"

lemma factory_after_append: "factory_after reg unreg (cs @ ds) fs = factory_after reg unreg ds (factory_after reg unreg cs fs)"
  by (simp add: factory_after_def)

fun for_factory :: "bridge_call \<Rightarrow> bool" where
  "for_factory (CallFormatter c f cls) = True"
| "for_factory (CallUnformatter c f) = True"
| "for_factory c = False"

lemma factory_idle: "\<forall>c \<in> set cs. \<not> for_factory c \<Longrightarrow> factory_after reg unreg cs fs = fs"
proof (induction cs arbitrary: fs)
  case (Cons c cs)
  then show ?case by (cases c) (simp_all add: factory_after_def)
qed (simp add: factory_after_def)

lemma other_calls:
  "c \<in> set (transformation_calls b t) \<Longrightarrow> \<not> for_factory c" "c \<in> set (hook_calls b h) \<Longrightarrow> \<not> for_factory c"
  by (auto simp: transformation_calls_def hook_calls_def split: option.splits)

lemma dispatch_idle: "\<forall>v. \<forall>c \<in> set (calls v). \<not> for_factory c \<Longrightarrow> dispatch kind calls es (m, cs) = (e, m', cs') \<Longrightarrow>
    factory_after reg unreg cs' fs = factory_after reg unreg cs fs"
  by (drule dispatch_prefix) (auto simp: factory_after_append intro!: factory_idle)

lemma dispatch_in_sync:
  "dispatch_transformations p r = (e, r') \<Longrightarrow> in_sync reg unreg r \<Longrightarrow> in_sync reg unreg r'"
  "dispatch_downloaders p r = (e, r') \<Longrightarrow> in_sync reg unreg r \<Longrightarrow> in_sync reg unreg r'"
  "dispatch_validators p r = (e, r') \<Longrightarrow> in_sync reg unreg r \<Longrightarrow> in_sync reg unreg r'"
  "dispatch_parsers p r = (e, r') \<Longrightarrow> in_sync reg unreg r \<Longrightarrow> in_sync reg unreg r'"
  "dispatch_diff_reporters p r = (e, r') \<Longrightarrow> in_sync reg unreg r \<Longrightarrow> in_sync reg unreg r'"
  "dispatch_cache_backends p r = (e, r') \<Longrightarrow> in_sync reg unreg r \<Longrightarrow> in_sync reg unreg r'"
  "dispatch_header_generators p r = (e, r') \<Longrightarrow> in_sync reg unreg r \<Longrightarrow> in_sync reg unreg r'"
  "dispatch_conflict_resolvers p r = (e, r') \<Longrightarrow> in_sync reg unreg r \<Longrightarrow> in_sync reg unreg r'"
  "dispatch_event_hooks p r = (e, r') \<Longrightarrow> in_sync reg unreg r \<Longrightarrow> in_sync reg unreg r'"
  by (auto simp: dispatches in_sync_def other_calls dest!: dispatch_idle [rotated, of _ _ _ _ _ _ _ _ reg unreg "[]"] split: prod.splits)

lemma map_set_apsnd: "map_set k (g v) (map (apsnd g) m) = map (apsnd g) (map_set k v m)"
  by (induction m) auto

lemma dispatch_factory: "br_formatter b = Some reg \<Longrightarrow>
    dispatch kind (formatter_calls b) (map (\<lambda>f. (fp_format f, f)) fs) (m, cs) = (e, m', cs') \<Longrightarrow>
    factory_after reg unreg cs [] = map (apsnd fp_class) m \<Longrightarrow>
    factory_after reg unreg cs' [] = map (apsnd fp_class) m'"
proof (induction fs arbitrary: m cs)
  case (Cons f fs)
  then show ?case
    by (auto simp: formatter_calls_def factory_after_append factory_register_def map_set_apsnd split: if_splits)
       (simp add: factory_after_def factory_register_def map_set_apsnd)
qed simp

lemma dispatch_formatters_in_sync:
  "dispatch_formatters p r = (e, r') \<Longrightarrow> in_sync reg unreg r \<Longrightarrow> in_sync reg unreg r'"
  by (auto simp: dispatch_formatters_def in_sync_def formatter_entries_def dest: dispatch_factory split: prod.splits)

lemma and_then_sync:
  assumes "\<And>e r r'. f r = (e, r') \<Longrightarrow> in_sync a b r \<Longrightarrow> in_sync a b r'"
    "\<And>e r r'. g r = (e, r') \<Longrightarrow> in_sync a b r \<Longrightarrow> in_sync a b r'" "and_then f g r = (e, r')" "in_sync a b r"
  shows "in_sync a b r'"
proof (cases "f r")
  case (Pair x s)
  then show ?thesis using assms(3,4) assms(1) [OF Pair] assms(2) [of s e r']
    by (cases x) (auto simp: and_then_def)
qed

lemma dispatch_all_in_sync: "dispatch_all p r = (e, r') \<Longrightarrow> in_sync reg unreg r \<Longrightarrow> in_sync reg unreg r'"
  unfolding dispatch_all_def
  by (elim and_then_sync [rotated -2] dispatch_in_sync dispatch_formatters_in_sync)

lemma rollback_in_sync: "in_sync reg unreg r \<Longrightarrow> in_sync reg unreg (rollback_entries p r)"
proof -
  assume s: "in_sync reg unreg r"
  have del: "factory_after reg unreg (map (\<lambda>f. CallUnformatter unreg (fp_format f)) fs) m =
      fold (map_delete \<circ> fst) (map (\<lambda>f. (fp_format f, f)) fs) m" for fs m
    by (induction fs arbitrary: m) (simp_all add: factory_after_def factory_unregister_def)
  have one: "map_delete k (map (apsnd fp_class) m) = map (apsnd fp_class) (map_delete k m)" for k m
    by (simp add: map_delete_def filter_map comp_def)
  have "fold (map_delete \<circ> fst) es (map (apsnd fp_class) m) =
      map (apsnd fp_class) (fold (map_delete \<circ> fst) es m)" for es :: "(jstr \<times> formatter_plugin) list" and m
    by (induction es arbitrary: m) (simp_all add: one)
  moreover have "factory_after reg unreg (removal_calls (rg_bridge r) p) m =
      factory_after reg unreg (map (\<lambda>f. CallUnformatter unreg (fp_format f)) (pl_formatters p)) m" for m
  proof -
    let ?t = "case br_untransformation (rg_bridge r) of None \<Rightarrow> []
      | Some c \<Rightarrow> map (\<lambda>t. CallUntransformation c (tp_type t)) (pl_transformations p)"
    let ?h = "concat (map (\<lambda>e. (case br_unhooks (rg_bridge r) of None \<Rightarrow> [] | Some c \<Rightarrow> [CallHooks c (ep_hooks e)]) @
        (case br_unthooks (rg_bridge r) of None \<Rightarrow> [] | Some c \<Rightarrow> [CallHooks c (ep_hooks e)])) (pl_event_hooks p))"
    have "\<forall>c \<in> set ?t. \<not> for_factory c" "\<forall>c \<in> set ?h. \<not> for_factory c" by (auto split: option.splits)
    then show ?thesis
      using s by (simp add: removal_calls_def factory_after_append in_sync_def factory_idle)
  qed
  ultimately show ?thesis
    using s by (simp add: in_sync_def rollback_entries_def factory_after_append del remove_entries_def formatter_entries_def)
qed

lemma plugin_step_in_sync: "plugin_step s t \<Longrightarrow> in_sync reg unreg (fst s) \<Longrightarrow> in_sync reg unreg (fst t)"
proof -
  have plugins: "in_sync reg unreg (r\<lparr>rg_plugins := ms\<rparr>) \<longleftrightarrow> in_sync reg unreg r" for r ms
    by (simp add: in_sync_def)
  show "plugin_step s t \<Longrightarrow> in_sync reg unreg (fst s) \<Longrightarrow> in_sync reg unreg (fst t)"
    by (cases s; cases t)
       (auto simp: register_begin_def register_finish_def unregister_def unregister_finish_def plugins
          intro: dispatch_all_in_sync intro!: rollback_in_sync split: if_splits option.splits)
qed

interpretation sync: transition_system
  "\<lambda>s :: plugin_state. s = (new_registry b, []) \<and> br_formatter b = Some reg \<and> br_unformatter b = Some unreg"
  plugin_step "\<lambda>s. in_sync reg unreg (fst s)" for b reg unreg
proof unfold_locales
  fix s :: plugin_state
  assume "s = (new_registry b, []) \<and> br_formatter b = Some reg \<and> br_unformatter b = Some unreg"
  then show "in_sync reg unreg (fst s)"
    by (auto simp: in_sync_def new_registry_def factory_after_def)
qed (rule plugin_step_in_sync)

text \<open>
  A factory of formatters that is wired to the registry from the start holds exactly the formatters
  of the registry, in their order, after any interleaving of registrations and removals, successful or
  not.  So a format the registry has is created from the class of its plugin, and one it does not have
  as the default.
\<close>

theorem factory_follows_registry:
  assumes "br_formatter b = Some reg" "br_unformatter b = Some unreg" "plugin_step\<^sup>*\<^sup>* (new_registry b, []) (r, ps)"
  shows "factory_after reg unreg (rg_calls r) [] = map (\<lambda>(k, f). (k, fp_class f)) (rg_formatters r) \<and>
         factory_create k (factory_after reg unreg (rg_calls r) []) =
           (case getFormatter r k of Some f \<Rightarrow> Some (fp_class f)
            | None \<Rightarrow> map_option fp_class (getFormatter r ''adblock''))"
proof -
  have s: "in_sync reg unreg r" using sync.always [OF _ assms(3)] assms(1,2) by simp
  have "map_get (map (apsnd fp_class) m) x = map_option fp_class (map_get m x)" for x m
    by (induction m) (auto simp: map_get_def)
  moreover have "map (apsnd fp_class) = map (\<lambda>(k, f). (k, fp_class f))" by (auto simp: fun_eq_iff)
  ultimately show ?thesis using s
    by (auto simp: in_sync_def factory_create_def getFormatter_def split: option.split)
qed

subsection \<open>Batches\<close>

definition resolving :: "(js_fn \<Rightarrow> init_end) \<Rightarrow> plugin \<Rightarrow> bool" where
  "resolving run p \<longleftrightarrow> (case pl_init p of None \<Rightarrow> True | Some f \<Rightarrow> (case run f of Resolves _ \<Rightarrow> True | _ \<Rightarrow> False))"

lemma register_good: "resolving run p \<Longrightarrow> \<not> map_has (rg_plugins r) (pl_name p) \<Longrightarrow> unmet r p = [] \<Longrightarrow> fits p r \<Longrightarrow>
    register run None p r = Some (None, (added p r)\<lparr>rg_plugins := rg_plugins r @ [(pl_name p, p)]\<rparr>)"
  by (auto simp: register_def register_begin_None [THEN iffD2] resolving_def await_init_def register_finish_def
        map_set_fresh Let_def split: option.splits init_end.splits)

lemma register_each_good:
  "deps_first (map fst (rg_plugins r)) ps \<Longrightarrow> \<forall>p \<in> set ps. resolving run p \<Longrightarrow>
   distinct (map fst (rg_plugins r) @ map pl_name ps) \<Longrightarrow>
   \<forall>k. distinct (map fst (owned k ps)) \<and> fst ` set (owned k ps) \<inter> fst ` set (table k r) = {} \<Longrightarrow>
   \<exists>r'. register_each run ps r = Some (None, r') \<and>
        rg_plugins r' = rg_plugins r @ map (\<lambda>p. (pl_name p, p)) ps \<and>
        (\<forall>k. table k r' = table k r @ owned k ps)"
proof (induction ps arbitrary: r)
  case Nil
  then show ?case by (simp add: owned_def)
next
  case (Cons p ps)
  let ?r = "(added p r)\<lparr>rg_plugins := rg_plugins r @ [(pl_name p, p)]\<rparr>"
  have keys: "distinct (map fst (brings k p))" "fst ` set (brings k p) \<inter> fst ` set (table k r) = {}"
    "distinct (map fst (owned k ps))" "fst ` set (owned k ps) \<inter> fst ` set (table k r @ brings k p) = {}" for k
    using Cons.prems(4) [rule_format, of k] by (auto simp: owned_Cons)
  have met: "unmet r p = []" "\<not> map_has (rg_plugins r) (pl_name p)"
    using Cons.prems(1,3) by (auto simp: unmet_def map_has_def filter_empty_conv)
  have fit: "fits p r" using keys by (simp add: fits_def)
  have "register run None p r = Some (None, ?r)"
    using Cons.prems(2) met fit by (intro register_good) auto
  moreover have "deps_first (pl_name p # map fst (rg_plugins r)) ps" using Cons.prems(1) by simp
  then have "deps_first (map fst (rg_plugins ?r)) ps" by (rule deps_first_same) auto
  then have "\<exists>r'. register_each run ps ?r = Some (None, r') \<and>
      rg_plugins r' = rg_plugins ?r @ map (\<lambda>p. (pl_name p, p)) ps \<and> (\<forall>k. table k r' = table k ?r @ owned k ps)"
    by (rule Cons.IH) (use Cons.prems keys in \<open>auto simp: table_added\<close>)
  ultimately show ?case by (auto simp: owned_Cons table_added)
qed

text \<open>
  C34. A batch that \<open>registerAll\<close> gets into an empty registry is registered as a whole, each plugin after
  its dependencies, if its names are distinct, its dependencies are in it and have no cycle, no key
  occurs twice and every \<open>init\<close> returns.  The tables then hold exactly the entries of the batch.
\<close>

theorem register_all_complete:
  assumes "distinct (map pl_name ps)" "(\<Union>p \<in> set ps. set (pl_dependencies p)) \<subseteq> set (map pl_name ps)"
    "acyclic (depends (by_name ps))" "\<forall>k. distinct (map fst (owned k ps))" "list_all (resolving run) ps"
  shows "\<exists>r' out. registerAll run ps (new_registry b) = Some (None, r') \<and> mset out = mset ps \<and>
      deps_first [] out \<and> getPlugin r' = map_of (map (\<lambda>p. (pl_name p, p)) ps) \<and>
      map snd (rg_plugins r') = out \<and> (\<forall>k. mset (table k r') = mset (owned k ps))"
proof -
  obtain out where o: "topologicalSort ps = Inr out"
    using topological_sort_total [OF assms(2,3)] by blast
  then have out: "mset out = mset ps" "deps_first [] out" "distinct (map pl_name out)"
    using topological_sort_perm [OF o assms(1)] by auto
  have empty: "table k (new_registry b) = []" "rg_plugins (new_registry b) = []" for k
    by (auto simp: table_def new_registry_def split: slot_kind.split)
  have set: "set out = set ps" using out(1) by (rule mset_eq_setD)
  have "distinct (map fst (owned k out))" for k
    using owned_mset [OF out(1), of k] assms(4) mset_eq_imp_distinct_iff by (metis mset_map)
  then have "\<exists>r'. register_each run out (new_registry b) = Some (None, r') \<and>
      rg_plugins r' = rg_plugins (new_registry b) @ map (\<lambda>p. (pl_name p, p)) out \<and>
      (\<forall>k. table k r' = table k (new_registry b) @ owned k out)"
    using out assms(5) set by (intro register_each_good) (auto simp: empty list_all_iff)
  then obtain r' where r': "register_each run out (new_registry b) = Some (None, r')"
    "rg_plugins r' = map (\<lambda>p. (pl_name p, p)) out" "\<And>k. table k r' = owned k out"
    by (auto simp: empty)
  have "map_of (map (\<lambda>p. (pl_name p, p)) out) = map_of (map (\<lambda>p. (pl_name p, p)) ps)"
    using out(3) assms(1) set by (simp add: map_of_inject_set comp_def)
  then show ?thesis
    using o r' out owned_mset [OF out(1)]
    by (intro exI [of _ r'] exI [of _ out]) (auto simp: registerAll_def getPlugin_def map_get_def fun_eq_iff comp_def)
qed

subsection \<open>Witnesses and faults\<close>

definition no_bridge :: bridge where
  "no_bridge = \<lparr>br_formatter = None, br_unformatter = None, br_transformation = None, br_untransformation = None,
     br_hooks = None, br_unhooks = None, br_thooks = None, br_unthooks = None\<rparr>"

definition factory_bridge :: bridge where
  "factory_bridge = no_bridge\<lparr>br_formatter := Some 1, br_unformatter := Some 2\<rparr>"

definition needing :: "jstr \<Rightarrow> jstr list \<Rightarrow> plugin" where
  "needing name deps =
     (let p = createSimplePlugin name 0 in p\<lparr>pl_manifest := (pl_manifest p)\<lparr>mf_dependencies := deps\<rparr>\<rparr>)"

definition formatting :: "jstr \<Rightarrow> jstr \<Rightarrow> js_fn \<Rightarrow> plugin" where
  "formatting name format cls =
     (createSimplePlugin name 0)\<lparr>pl_formatters := [\<lparr>fp_format = format, fp_class = cls\<rparr>]\<rparr>"

lemma sample_register:
  "register (\<lambda>_. Never) None (createSimplePlugin ''a'' 7) (new_registry no_bridge) =
     Some (None, (new_registry no_bridge)
       \<lparr>rg_plugins := [(''a'', createSimplePlugin ''a'' 7)],
        rg_transformations := [(''a'', \<lparr>tp_type = ''a'', tp_name = ''a'', tp_execute = 7\<rparr>)]\<rparr>)"
  by code_simp

lemma register_alone: "register_begin p r = (None, r') \<Longrightarrow>
    plugin_step\<^sup>*\<^sup>* (r, []) (r'\<lparr>rg_plugins := map_set (pl_name p) p (rg_plugins r')\<rparr>, [])"
proof -
  assume b: "register_begin p r = (None, r')"
  have "plugin_step (r', [p]) (r'\<lparr>rg_plugins := map_set (pl_name p) p (rg_plugins r')\<rparr>, remove1 p [p])"
    by (rule finishes [where e = None and e' = None]) (simp_all add: register_finish_def)
  with begins [OF b, of "[]"] show ?thesis by (simp add: converse_rtranclp_into_rtranclp)
qed

definition sample_state :: registry where
  "sample_state =
     (new_registry factory_bridge)
       \<lparr>rg_transformations := [(''a'', \<lparr>tp_type = ''a'', tp_name = ''a'', tp_execute = 0\<rparr>)],
        rg_formatters := [(''f'', \<lparr>fp_format = ''f'', fp_class = 7\<rparr>)],
        rg_calls := [CallFormatter 1 ''f'' 7]\<rparr>"

lemma sample_steps:
  "plugin_step\<^sup>*\<^sup>* (new_registry factory_bridge, []) (sample_state\<lparr>rg_plugins := [(''a'', formatting ''a'' ''f'' 7)]\<rparr>, [])"
proof -
  have "register_begin (formatting ''a'' ''f'' 7) (new_registry factory_bridge) = (None, sample_state)"
    by code_simp
  from register_alone [OF this] show ?thesis
    by (simp add: sample_state_def new_registry_def formatting_def createSimplePlugin_def)
qed


lemma factory_follows_registry_witness:
  "factory_create ''f'' (factory_after 1 2 [CallFormatter 1 ''f'' 7] []) = Some 7"
  using factory_follows_registry [OF _ _ sample_steps, of 1 2 "''f''"]
  by (simp add: sample_state_def factory_bridge_def getFormatter_def map_get_def factory_create_def)

lemma register_all_complete_witness:
  "\<exists>r'. registerAll (\<lambda>_. Resolves 0) [needing ''b'' [''a''], needing ''a'' []] (new_registry no_bridge) = Some (None, r')"
proof -
  let ?ps = "[needing ''b'' [''a''], needing ''a'' []]"
  have m: "by_name ?ps = [(''b'', needing ''b'' [''a'']), (''a'', needing ''a'' [])]" by code_simp
  have d: "depends (by_name ?ps) = {(''b'', ''a'')}"
    unfolding m by (auto simp: depends_def map_get_def needing_def createSimplePlugin_def split: if_splits)
  have "acyclic (depends (by_name ?ps))" unfolding d by (auto simp: acyclic_def dest: tranclD tranclD2)
  moreover have "\<forall>k. distinct (map fst (owned k ?ps))"
    by (intro allI, rename_tac k, case_tac k)
       (simp_all add: owned_def brings_def needing_def createSimplePlugin_def transformation_entries_def
          downloader_entries_def formatter_entries_def validator_entries_def parser_entries_def
          diff_reporter_entries_def cache_backend_entries_def header_generator_entries_def
          conflict_resolver_entries_def event_hook_entries_def)
  ultimately show ?thesis
    using register_all_complete [of ?ps "\<lambda>_. Resolves 0" no_bridge]
    by (auto simp: needing_def createSimplePlugin_def resolving_def)
qed


text \<open>
  What can go wrong.  A registration that meets a key that is taken throws, but keeps the entries it
  added before: the plugin is not registered, so \<open>unregister\<close> does nothing, and registering it again, with
  the fault repaired, is refused for good.  A plugin may be removed while another depends on it.  A
  batch with two plugins of one name silently loses the first.  A plugin that brings a built-in format
  replaces its formatter, and takes it along when it goes.  A scheme that was registered first hides a
  longer one.
\<close>

theorem plugin_faults:
  "(let p = (createSimplePlugin ''p'' 1)\<lparr>pl_formatters := [\<lparr>fp_format = ''x'', fp_class = 1\<rparr>, \<lparr>fp_format = ''x'', fp_class = 2\<rparr>]\<rparr>;
        repaired = formatting ''p'' ''x'' 1
    in case register (\<lambda>_. Never) None p (new_registry no_bridge) of
         Some (e, r) \<Rightarrow> e = Some (EntryTaken FormattersSlot ''x'') \<and> getPlugin r ''p'' = None \<and> hasTransformation r ''p'' \<and>
           listFormatters r = [''x''] \<and> unregister (\<lambda>_. None) ''p'' r = (None, r) \<and>
           register (\<lambda>_. Never) None repaired r = Some (Some (EntryTaken TransformationsSlot ''p''), r)
       | None \<Rightarrow> False) \<and>
   (case registerAll (\<lambda>_. Never) [needing ''b'' [''a''], needing ''a'' []] (new_registry no_bridge) of
      Some (None, r) \<Rightarrow> map fst (rg_plugins (snd (unregister (\<lambda>_. None) ''a'' r))) = [''b'']
    | _ \<Rightarrow> False) \<and>
   topologicalSort [createSimplePlugin ''a'' 1, createSimplePlugin ''a'' 2] = Inr [createSimplePlugin ''a'' 2] \<and>
   (case register (\<lambda>_. Never) None (formatting ''p'' ''json'' 99) (new_registry factory_bridge) of
      Some (None, r) \<Rightarrow>
        (let f = factory_initialize [10, 11, 12, 13, 14, 15, 16]; gone = snd (unregister (\<lambda>_. None) ''p'' r)
         in factory_create ''json'' f = Some 14 \<and> factory_create ''json'' (factory_after 1 2 (rg_calls r) f) = Some 99 \<and>
            factory_create ''json'' (factory_after 1 2 (rg_calls gone) f) = Some 16)
    | _ \<Rightarrow> False) \<and>
   getDownloader ((new_registry no_bridge)\<lparr>rg_downloaders :=
        map (\<lambda>s. (s, \<lparr>dp_schemes = [s], dp_download = length s\<rparr>)) [''s3://'', ''s3://special/'']\<rparr>) ''s3://special/f'' =
     Some \<lparr>dp_schemes = [''s3://''], dp_download = 5\<rparr>"
  by (intro conjI; code_simp)

end
