(* ===== verification/PluginLoading.thy ===== *)
theory PluginLoading
  imports Plugins
begin

text \<open>
  Loading plugins (\<open>src/plugins/PluginLoader.deno.ts\<close>) and finding them in a directory
  (\<open>src/plugins/PluginDiscovery.ts\<close>).  What \<open>import\<close> makes of a specifier is an argument.  A directory is
  the tree of its entries; a symbolic link is neither a file nor a directory.
\<close>

section \<open>The loader\<close>

text \<open>A field of a manifest: absent, a string, or some other value.\<close>

datatype field = Absent | Text jstr | Other

text \<open>A module, or its default export: the manifest if it has one, and the plugin it stands for.\<close>

record plugin_module =
  pm_manifest :: "(field \<times> field) option"
  pm_plugin :: plugin

record load_options =
  lo_remote :: "bool option"
  lo_validate :: "bool option"

datatype load_error =
    RemoteDisabled
  | PathTraversal jstr
  | AbsolutePath jstr
  | FailedToLoad jstr jstr

definition is_remote :: "jstr \<Rightarrow> bool" where
  "is_remote path \<longleftrightarrow> starts_with path ''http://'' \<or> starts_with path ''https://''"

definition has_traversal :: "jstr \<Rightarrow> bool" where
  "has_traversal path \<longleftrightarrow>
     str_includes path (''..'' @ [CHR 0x5C]) \<or> str_includes path ''../'' \<or>
     str_includes path (CHR 0x5C # ''..'') \<or> str_includes path ''/..''"

definition is_sep :: "char \<Rightarrow> bool" where
  "is_sep c \<longleftrightarrow> c = CHR ''/'' \<or> c = CHR 0x5C"

definition is_absolute :: "jstr \<Rightarrow> bool" where
  "is_absolute path \<longleftrightarrow>
     (case path of
        [] \<Rightarrow> False
      | a # rest \<Rightarrow> is_sep a \<or> is_letter a \<and> (case rest of b # c # _ \<Rightarrow> b = CHR '':'' \<and> is_sep c | _ \<Rightarrow> False))"

definition good_field :: "field \<Rightarrow> bool" where
  "good_field f \<longleftrightarrow> (case f of Text s \<Rightarrow> s \<noteq> [] | _ \<Rightarrow> False)"

definition validate_manifest :: "plugin_module \<Rightarrow> jstr option" where
  "validate_manifest m =
     (case pm_manifest m of
        None \<Rightarrow> Some ''Plugin is missing manifest''
      | Some (name, version) \<Rightarrow>
          if \<not> good_field name then Some ''Plugin manifest is missing valid name''
          else if \<not> good_field version then Some ''Plugin manifest is missing valid version''
          else None)"

definition check_path :: "load_options \<Rightarrow> jstr \<Rightarrow> load_error option" where
  "check_path opts path =
     (if is_remote path then
        (if lo_remote opts = Some True then None else Some RemoteDisabled)
      else if has_traversal path then Some (PathTraversal path)
      else if is_absolute path then Some (AbsolutePath path)
      else None)"

definition loadPlugin :: "(jstr \<Rightarrow> jstr + plugin_module) \<Rightarrow> load_options \<Rightarrow> jstr \<Rightarrow> load_error + plugin" where
  "loadPlugin imp opts path =
     (case check_path opts path of
        Some e \<Rightarrow> Inl e
      | None \<Rightarrow>
          (case imp path of
             Inl msg \<Rightarrow> Inl (FailedToLoad path msg)
           | Inr m \<Rightarrow>
               (case (if lo_validate opts = Some False then None else validate_manifest m) of
                  Some msg \<Rightarrow> Inl (FailedToLoad path msg)
                | None \<Rightarrow> Inr (pm_plugin m))))"

section \<open>Discovery\<close>

text \<open>The regular expression of a pattern: \<open>*\<close> is \<open>.*\<close>, which does not match line breaks.\<close>

definition is_line_break :: "char \<Rightarrow> bool" where
  "is_line_break c \<longleftrightarrow> c = CHR 0x0A \<or> c = CHR 0x0D"

fun matchGlob :: "jstr \<Rightarrow> jstr \<Rightarrow> bool" where
  "matchGlob name [] \<longleftrightarrow> name = []"
| "matchGlob [] (p # ps) \<longleftrightarrow> p = CHR ''*'' \<and> matchGlob [] ps"
| "matchGlob (c # name) (p # ps) \<longleftrightarrow>
     (if p = CHR ''*'' then matchGlob (c # name) ps \<or> \<not> is_line_break c \<and> matchGlob name (p # ps)
      else c = p \<and> matchGlob name ps)"

definition is_test_file :: "jstr \<Rightarrow> bool" where
  "is_test_file name \<longleftrightarrow> ends_with name ''.test.ts'' \<or> ends_with name ''.test.js''"

datatype dir_entry = File jstr | Dir jstr "dir_entry list" | Link jstr

record discovery_options =
  do_load :: load_options
  do_patterns :: "jstr list option"
  do_recursive :: bool

definition normalise_dir :: "jstr \<Rightarrow> jstr" where
  "normalise_dir dir = (if starts_with dir ''./'' \<or> starts_with dir ''../'' then dir else ''./'' @ dir)"

text \<open>The result holds the plugins found and the calls of \<open>onError\<close>.\<close>

fun discover_entry :: "(jstr \<Rightarrow> jstr + plugin_module) \<Rightarrow> discovery_options \<Rightarrow> jstr \<Rightarrow> dir_entry \<Rightarrow>
      plugin list \<times> (jstr \<times> load_error) list"
  and discover_dir :: "(jstr \<Rightarrow> jstr + plugin_module) \<Rightarrow> discovery_options \<Rightarrow> jstr \<Rightarrow> dir_entry list \<Rightarrow>
      plugin list \<times> (jstr \<times> load_error) list" where
  "discover_entry imp opts dir (Dir name es) =
     (if do_recursive opts then discover_dir imp opts (normalise_dir (dir @ ''/'' @ name)) es else ([], []))"
| "discover_entry imp opts dir (Link name) = ([], [])"
| "discover_entry imp opts dir (File name) =
     (let patterns = (case do_patterns opts of Some ps \<Rightarrow> ps | None \<Rightarrow> [''*.ts'', ''*.js''])
      in if \<not> list_ex (matchGlob name) patterns \<or> is_test_file name then ([], [])
         else case loadPlugin imp (do_load opts) (dir @ ''/'' @ name) of
                Inr p \<Rightarrow> ([p], [])
              | Inl e \<Rightarrow> ([], [(dir @ ''/'' @ name, e)]))"
| "discover_dir imp opts dir [] = ([], [])"
| "discover_dir imp opts dir (e # es) =
     (let (ps, errs) = discover_entry imp opts dir e; (ps', errs') = discover_dir imp opts dir es
      in (ps @ ps', errs @ errs'))"

definition discoverPlugins :: "(jstr \<Rightarrow> jstr + plugin_module) \<Rightarrow> discovery_options \<Rightarrow> jstr \<Rightarrow> dir_entry list \<Rightarrow>
    plugin list \<times> (jstr \<times> load_error) list" where
  "discoverPlugins imp opts dir es = discover_dir imp opts (normalise_dir dir) es"

section \<open>What is loaded\<close>

text \<open>A part \<open>..\<close> of a path, between separators of either kind or at an end.\<close>

definition parent_part :: "jstr \<Rightarrow> bool" where
  "parent_part path \<longleftrightarrow>
     (\<exists>a b. path = a @ ''..'' @ b \<and> (a = [] \<or> is_sep (last a)) \<and> (b = [] \<or> is_sep (hd b)))"

lemma parent_part_rejected: "parent_part path \<Longrightarrow> path \<noteq> ''..'' \<Longrightarrow> has_traversal path"
proof -
  assume "parent_part path" "path \<noteq> ''..''"
  then obtain a b where path: "path = a @ ''..'' @ b" and a: "a = [] \<or> is_sep (last a)"
    and b: "b = [] \<or> is_sep (hd b)" and ab: "a \<noteq> [] \<or> b \<noteq> []"
    by (auto simp: parent_part_def)
  show ?thesis
  proof (cases b)
    case Nil
    then have "a \<noteq> []" "is_sep (last a)" using a ab by auto
    then obtain a' c where "a = a' @ [c]" "is_sep c" by (cases a rule: rev_cases) auto
    then have "path = a' @ (c # ''..'') @ []" "is_sep c" using path Nil by auto
    then show ?thesis unfolding has_traversal_def str_includes_iff is_sep_def by (metis sublist_appendI)
  next
    case (Cons c b')
    then have "path = a @ (''..'' @ [c]) @ b'" "is_sep c" using path b by auto
    then show ?thesis unfolding has_traversal_def str_includes_iff is_sep_def
      by (metis append_Cons append_Nil sublist_appendI)
  qed
qed

lemma loaded_checked: "loadPlugin imp opts path = Inr p \<Longrightarrow> check_path opts path = None \<and>
    (\<exists>m. imp path = Inr m \<and> pm_plugin m = p \<and> (lo_validate opts = Some False \<or> validate_manifest m = None))"
  by (auto simp: loadPlugin_def split: option.splits sum.splits if_splits)

text \<open>A pattern with one \<open>*\<close> in front asks for an ending.\<close>

lemma matches_literal: "CHR ''*'' \<notin> set ps \<Longrightarrow> matchGlob s ps \<longleftrightarrow> s = ps"
  by (induction s ps rule: matchGlob.induct) auto

lemma glob_ending: "CHR ''*'' \<notin> set ps \<Longrightarrow>
    matchGlob s (CHR ''*'' # ps) \<longleftrightarrow> (\<exists>a. s = a @ ps \<and> (\<forall>c \<in> set a. \<not> is_line_break c))"
proof (induction s)
  case Nil
  then show ?case by (auto simp: matches_literal)
next
  case (Cons c s)
  have "(\<exists>a. c # s = a @ ps \<and> (\<forall>c \<in> set a. \<not> is_line_break c)) \<longleftrightarrow>
      c # s = ps \<or> \<not> is_line_break c \<and> (\<exists>a. s = a @ ps \<and> (\<forall>c \<in> set a. \<not> is_line_break c))"
    by (auto simp: Cons_eq_append_conv)
  then show ?case using Cons by (simp add: matches_literal)
qed

text \<open>The files below a directory, with their paths.\<close>

fun entry_files :: "discovery_options \<Rightarrow> jstr \<Rightarrow> dir_entry \<Rightarrow> (jstr \<times> jstr) list"
  and dir_files :: "discovery_options \<Rightarrow> jstr \<Rightarrow> dir_entry list \<Rightarrow> (jstr \<times> jstr) list" where
  "entry_files opts dir (Dir name es) =
     (if do_recursive opts then dir_files opts (dir @ ''/'' @ name) es else [])"
| "entry_files opts dir (Link name) = []"
| "entry_files opts dir (File name) = [(name, dir @ ''/'' @ name)]"
| "dir_files opts dir [] = []"
| "dir_files opts dir (e # es) = entry_files opts dir e @ dir_files opts dir es"

definition wanted :: "discovery_options \<Rightarrow> jstr \<Rightarrow> bool" where
  "wanted opts name \<longleftrightarrow> \<not> is_test_file name \<and>
     list_ex (matchGlob name) (case do_patterns opts of Some ps \<Rightarrow> ps | None \<Rightarrow> [''*.ts'', ''*.js''])"

lemma normalise_below: "normalise_dir (normalise_dir dir @ ''/'' @ name) = normalise_dir dir @ ''/'' @ name"
  by (auto simp: normalise_dir_def prefix_def)

lemma normalise_dir_cases: "normalise_dir dir = d \<Longrightarrow> normalise_dir (d @ ''/'' @ name) = d @ ''/'' @ name"
  using normalise_below by metis

definition results :: "(jstr \<Rightarrow> jstr + plugin_module) \<Rightarrow> discovery_options \<Rightarrow> jstr list \<Rightarrow>
    plugin list \<times> (jstr \<times> load_error) list" where
  "results imp opts paths =
     (List.map_filter (\<lambda>p. case loadPlugin imp (do_load opts) p of Inr x \<Rightarrow> Some x | Inl _ \<Rightarrow> None) paths,
      List.map_filter (\<lambda>p. case loadPlugin imp (do_load opts) p of Inl e \<Rightarrow> Some (p, e) | Inr _ \<Rightarrow> None) paths)"

lemma found_append: "results imp opts (ps @ qs) =
    (fst (results imp opts ps) @ fst (results imp opts qs), snd (results imp opts ps) @ snd (results imp opts qs))"
  by (simp add: results_def List.map_filter_def)

lemma discover_results:
  "normalise_dir d0 = dir \<Longrightarrow> discover_entry imp opts dir e =
     results imp opts (map snd (filter (wanted opts \<circ> fst) (entry_files opts dir e)))"
  "normalise_dir d0 = dir \<Longrightarrow> discover_dir imp opts dir es =
     results imp opts (map snd (filter (wanted opts \<circ> fst) (dir_files opts dir es)))"
proof (induction imp opts dir e and imp opts dir es arbitrary: d0 and d0 rule: discover_entry_discover_dir.induct)
  case (1 imp opts dir name es)
  then show ?case
    using normalise_dir_cases [of d0 dir name] by (auto simp: results_def map_filter_simps(2))
next
  case (3 imp opts dir name)
  then show ?case by (auto simp: wanted_def results_def map_filter_simps Let_def split: sum.split)
next
  case (5 imp opts dir e es)
  show ?case
    by (simp add: found_append split_beta "5.IH"(1) [OF "5.prems"]
          "5.IH"(2) [OF prod.collapse prod.collapse "5.prems"])
qed (simp_all add: results_def map_filter_simps(2))

text \<open>
  What discovery loads.  It returns the plugins, and reports the errors, of exactly the files below
  the directory (below its subdirectories only if asked to) that match a pattern and are no tests, in
  their order.  A path that is loaded is, unless it is remote, relative and has no part \<open>..\<close>; it is remote
  only if that is allowed; and the module had a name and a version unless validation is off.
\<close>

theorem discovery_confined:
  "discoverPlugins imp opts dir es =
     results imp opts (map snd (filter (wanted opts \<circ> fst) (dir_files opts (normalise_dir dir) es))) \<and>
   (case loadPlugin imp lopts path of
      Inl _ \<Rightarrow> True
    | Inr p \<Rightarrow>
        (if is_remote path then lo_remote lopts = Some True
         else path = ''..'' \<or> \<not> parent_part path \<and> \<not> is_absolute path) \<and>
        (\<exists>m. imp path = Inr m \<and> pm_plugin m = p \<and>
           (lo_validate lopts = Some False \<or>
            (\<exists>n v. pm_manifest m = Some (Text n, Text v) \<and> n \<noteq> [] \<and> v \<noteq> []))))"
proof -
  have good: "validate_manifest m = None \<Longrightarrow> \<exists>n v. pm_manifest m = Some (Text n, Text v) \<and> n \<noteq> [] \<and> v \<noteq> []" for m
    by (auto simp: validate_manifest_def good_field_def split: option.splits if_splits field.splits)
  have path: "check_path lopts path = None \<Longrightarrow> (if is_remote path then lo_remote lopts = Some True
      else path = ''..'' \<or> \<not> parent_part path \<and> \<not> is_absolute path)"
    using parent_part_rejected [of path] by (auto simp: check_path_def split: if_splits)
  show ?thesis
    using discover_results(2) [OF refl] loaded_checked [of imp lopts path] good path
    by (auto simp: discoverPlugins_def split: sum.split)
qed

text \<open>
  What the path checks miss.  A specifier with another scheme counts as local: a \<open>file:\<close> URL loads
  from anywhere, and an \<open>HTTPS:\<close> URL in capitals loads from a remote host that was not allowed; an escaped
  \<open>..\<close> is not seen.  And of a directory named by \<open>../\<close>, which discovery accepts, no file is ever loaded.
\<close>

theorem loader_faults:
  "list_all (\<lambda>path. loadPlugin (\<lambda>_. Inr m) \<lparr>lo_remote = Some False, lo_validate = Some False\<rparr> path = Inr (pm_plugin m))
     [''file:///etc/plugin.js'', ''HTTPS://host/plugin.js'', ''data:text/javascript,0'', ''./%2e%2e/plugin.js''] \<and>
   fst (discoverPlugins imp opts (''../'' @ dir) es) = []"
proof
  show "list_all (\<lambda>path. loadPlugin (\<lambda>_. Inr m) \<lparr>lo_remote = Some False, lo_validate = Some False\<rparr> path = Inr (pm_plugin m))
     [''file:///etc/plugin.js'', ''HTTPS://host/plugin.js'', ''data:text/javascript,0'', ''./%2e%2e/plugin.js'']"
    by (simp add: loadPlugin_def) code_simp
  have dir: "normalise_dir (''../'' @ dir) = ''../'' @ dir" by (simp add: normalise_dir_def)
  have bad: "\<exists>e. loadPlugin imp (do_load opts) (''../'' @ path) = Inl e" for path
  proof -
    have "has_traversal (''../'' @ path)"
      unfolding has_traversal_def str_includes_iff by (metis append_Nil sublist_appendI)
    then show ?thesis by (simp add: loadPlugin_def check_path_def is_remote_def)
  qed
  have below: "(a, path) \<in> set (entry_files opts (''../'' @ d) e) \<Longrightarrow> \<exists>t. path = ''../'' @ t"
    "(a, path) \<in> set (dir_files opts (''../'' @ d) es) \<Longrightarrow> \<exists>t. path = ''../'' @ t" for a path d e es
    by (induction opts "''../'' @ d" e and opts "''../'' @ d" es arbitrary: d and d rule: entry_files_dir_files.induct)
       (auto split: if_splits)
  have "discoverPlugins imp opts (''../'' @ dir) es =
      results imp opts (map snd (filter (wanted opts \<circ> fst) (dir_files opts (''../'' @ dir) es)))"
    using discover_results(2) [OF refl, of imp opts "''../'' @ dir" es] by (simp only: discoverPlugins_def dir)
  moreover have "\<forall>p \<in> set (map snd (filter (wanted opts \<circ> fst) (dir_files opts (''../'' @ dir) es))).
      \<exists>e. loadPlugin imp (do_load opts) p = Inl e"
    using below(2) bad by fastforce
  ultimately show "fst (discoverPlugins imp opts (''../'' @ dir) es) = []"
    by (fastforce simp: results_def List.map_filter_def filter_empty_conv split: sum.split)
qed

end
