(* ===== verification/Formats.thy ===== *)
theory Formats
  imports RuleSyntax CacheKey PluginLoading
begin

text \<open>
  The output formats (\<open>src/formatters/OutputFormatter.ts\<close>): the conversion of adblock rules to lists of
  host names in the syntax of other programs.  The parser and the generator of rules are the arguments
  of \<open>RuleSyntax\<close>; the date and the name of the package are arguments too.  The built-in classes are
  numbered, so that the factory of \<open>Plugins\<close> creates them.
\<close>

section \<open>Options and results\<close>

record formatter_options =
  fo_includeHeader :: bool
  fo_listName :: jstr
  fo_hostsIp :: jstr
  fo_includeLocalhost :: bool

definition default_formatter_options :: formatter_options where
  "default_formatter_options =
     \<lparr>fo_includeHeader = True, fo_listName = ''Filter List'', fo_hostsIp = ''0.0.0.0'', fo_includeLocalhost = False\<rparr>"

record formatter_result =
  fr_content :: jstr
  fr_ruleCount :: nat
  fr_skippedCount :: nat
  fr_format :: jstr

text \<open>What the formatters take from their surroundings.\<close>

record format_env =
  fe_parser :: rule_parser
  fe_generate :: "any_rule \<Rightarrow> jstr"
  fe_package :: jstr
  fe_date :: jstr

section \<open>The host of a rule\<close>

definition host_pattern_char :: "char \<Rightarrow> bool" where
  "host_pattern_char c \<longleftrightarrow> is_letter c \<or> is_digit c \<or> c = CHR ''.'' \<or> c = CHR ''-''"

definition simple_pattern :: "jstr \<Rightarrow> jstr option" where
  "simple_pattern rule =
     (let body = drop 2 rule; host = (if ends_with body ''^'' then butlast body else body)
      in if starts_with rule ''||'' \<and> host \<noteq> [] \<and> list_all host_pattern_char host then Some host else None)"

definition formatter_hostname :: "format_env \<Rightarrow> jstr \<Rightarrow> jstr option" where
  "formatter_hostname E rule =
     (if rule = [] \<or> starts_with rule ''!'' \<or> starts_with rule ''#'' then None
      else if starts_with rule ''@@'' then None
      else let parsed = loadAdblockRuleProperties (fe_parser E) (fe_generate E) rule
           in case (if ar_whitelist parsed then None else ar_hostname parsed) of
                Some h \<Rightarrow> Some h
              | None \<Rightarrow> if isJustDomain rule then Some rule else simple_pattern rule)"

definition header_lines :: "format_env \<Rightarrow> formatter_options \<Rightarrow> jstr \<Rightarrow> lines" where
  "header_lines E opts mark =
     [mark @ '' '' @ fo_listName opts, mark @ '' Generated by '' @ fe_package E,
      mark @ '' Last updated: '' @ fe_date E, []]"

section \<open>The formatters\<close>

text \<open>The loop that all formatters of host names share; \<open>line\<close> is the line for one host.\<close>

record format_state =
  fs_lines :: lines
  fs_seen :: "jstr list"
  fs_count :: nat
  fs_skipped :: nat

definition format_rule :: "format_env \<Rightarrow> (jstr \<Rightarrow> jstr) \<Rightarrow> jstr \<Rightarrow> format_state \<Rightarrow> format_state" where
  "format_rule E line rule s =
     (case formatter_hostname E rule of
        Some h \<Rightarrow>
          if h \<noteq> [] \<and> h \<notin> set (fs_seen s)
          then s\<lparr>fs_seen := h # fs_seen s, fs_lines := fs_lines s @ [line h], fs_count := fs_count s + 1\<rparr>
          else s
      | None \<Rightarrow> if rule \<noteq> [] \<and> \<not> starts_with rule ''!'' then s\<lparr>fs_skipped := fs_skipped s + 1\<rparr> else s)"

definition format_hosts :: "format_env \<Rightarrow> (jstr \<Rightarrow> jstr) \<Rightarrow> lines \<Rightarrow> jstr \<Rightarrow> lines \<Rightarrow> formatter_result" where
  "format_hosts E line start fmt rules =
     (let s = fold (format_rule E line) rules \<lparr>fs_lines = start, fs_seen = [], fs_count = 0, fs_skipped = 0\<rparr>
      in \<lparr>fr_content = join_with [CHR 0x0A] (fs_lines s), fr_ruleCount = fs_count s,
          fr_skippedCount = fs_skipped s, fr_format = fmt\<rparr>)"

definition optional_header :: "format_env \<Rightarrow> formatter_options \<Rightarrow> lines" where
  "optional_header E opts = (if fo_includeHeader opts then header_lines E opts ''#'' else [])"

definition localhost_lines :: "formatter_options \<Rightarrow> lines" where
  "localhost_lines opts = (if fo_includeLocalhost opts then [''127.0.0.1 localhost'', ''::1 localhost'', []] else [])"

definition hosts_format :: "format_env \<Rightarrow> formatter_options \<Rightarrow> lines \<Rightarrow> formatter_result" where
  "hosts_format E opts rules =
     format_hosts E (\<lambda>h. fo_hostsIp opts @ '' '' @ h) (optional_header E opts @ localhost_lines opts) ''hosts'' rules"

definition dnsmasq_format :: "format_env \<Rightarrow> formatter_options \<Rightarrow> lines \<Rightarrow> formatter_result" where
  "dnsmasq_format E opts rules =
     format_hosts E (\<lambda>h. ''address=/'' @ h @ ''/'') (optional_header E opts) ''dnsmasq'' rules"

definition pihole_format :: "format_env \<Rightarrow> formatter_options \<Rightarrow> lines \<Rightarrow> formatter_result" where
  "pihole_format E opts rules = format_hosts E (\<lambda>h. h) (optional_header E opts) ''pihole'' rules"

definition unbound_format :: "format_env \<Rightarrow> formatter_options \<Rightarrow> lines \<Rightarrow> formatter_result" where
  "unbound_format E opts rules =
     format_hosts E (\<lambda>h. ''    local-zone: '' @ [CHR 0x22] @ h @ [CHR 0x22] @ '' always_nxdomain'')
       (optional_header E opts @ [''server:'']) ''unbound'' rules"

definition doh_format :: "format_env \<Rightarrow> formatter_options \<Rightarrow> lines \<Rightarrow> formatter_result" where
  "doh_format E opts rules = format_hosts E (\<lambda>h. h) [] ''doh'' rules"

definition adblock_format :: "format_env \<Rightarrow> formatter_options \<Rightarrow> lines \<Rightarrow> formatter_result" where
  "adblock_format E opts rules =
     \<lparr>fr_content = join_with [CHR 0x0A] rules,
      fr_ruleCount = length (filter (\<lambda>r. r \<noteq> [] \<and> \<not> starts_with r ''!'') rules),
      fr_skippedCount = 0, fr_format = ''adblock''\<rparr>"

text \<open>\<open>JSON.stringify\<close> of the object, with two spaces for each level.\<close>

definition json_array :: "jstr list \<Rightarrow> jstr" where
  "json_array xs =
     (if xs = [] then ''[]''
      else ''['' @ [CHR 0x0A] @ join_with ('','' @ [CHR 0x0A]) (map (\<lambda>x. ''    '' @ json_string x) xs) @
           [CHR 0x0A] @ ''  ]'')"

definition json_member :: "nat \<Rightarrow> jstr \<Rightarrow> jstr \<Rightarrow> jstr" where
  "json_member indent key v = replicate indent CHR '' '' @ json_string key @ '': '' @ v"

definition json_members :: "nat \<Rightarrow> (jstr \<times> jstr) list \<Rightarrow> jstr" where
  "json_members indent kvs =
     ''{'' @ [CHR 0x0A] @ join_with ('','' @ [CHR 0x0A]) (map (\<lambda>(k, v). json_member (indent + 2) k v) kvs) @
     [CHR 0x0A] @ replicate indent CHR '' '' @ ''}''"

definition json_rule :: "format_env \<Rightarrow> jstr \<Rightarrow> jstr list \<times> lines \<times> nat \<Rightarrow> jstr list \<times> lines \<times> nat" where
  "json_rule E rule = (\<lambda>(hostnames, allRules, skipped).
     if rule = [] \<or> starts_with rule ''!'' then (hostnames, allRules, skipped)
     else case formatter_hostname E rule of
            Some h \<Rightarrow> ((if h \<noteq> [] \<and> h \<notin> set hostnames then hostnames @ [h] else hostnames), allRules @ [rule], skipped)
          | None \<Rightarrow> (hostnames, allRules @ [rule], skipped + 1))"

definition json_format :: "format_env \<Rightarrow> formatter_options \<Rightarrow> lines \<Rightarrow> formatter_result" where
  "json_format E opts rules =
     (let (hostnames, allRules, skipped) = fold (json_rule E) rules ([], [], 0)
      in \<lparr>fr_content = json_members 0
            [(''name'', json_string (fo_listName opts)), (''generated'', json_string (fe_date E)),
             (''generator'', json_string (fe_package E)),
             (''stats'', json_members 2
                [(''totalRules'', decimal (length allRules)), (''uniqueHostnames'', decimal (length hostnames)),
                 (''skippedRules'', decimal skipped)]),
             (''hostnames'', json_array hostnames), (''rules'', json_array allRules)],
          fr_ruleCount = length hostnames, fr_skippedCount = skipped, fr_format = ''json''\<rparr>)"

section \<open>The factory\<close>

text \<open>The classes in the order of \<open>FormatterFactory.initialize\<close>; plugin classes have higher numbers.\<close>

definition run_formatter :: "(js_fn \<Rightarrow> formatter_options \<Rightarrow> lines \<Rightarrow> formatter_result) \<Rightarrow> format_env \<Rightarrow> js_fn \<Rightarrow>
    formatter_options \<Rightarrow> lines \<Rightarrow> formatter_result" where
  "run_formatter plugged E cls =
     (if cls < 7
      then [hosts_format E, dnsmasq_format E, pihole_format E, unbound_format E, json_format E, doh_format E,
            adblock_format E] ! cls
      else plugged cls)"

definition builtin_factory :: "(jstr \<times> js_fn) list" where
  "builtin_factory = factory_initialize [0, 1, 2, 3, 4, 5, 6]"

definition formatOutput :: "(js_fn \<Rightarrow> formatter_options \<Rightarrow> lines \<Rightarrow> formatter_result) \<Rightarrow> format_env \<Rightarrow>
    (jstr \<times> js_fn) list \<Rightarrow> lines \<Rightarrow> jstr \<Rightarrow> formatter_options \<Rightarrow> formatter_result option" where
  "formatOutput plugged E factory rules format opts =
     map_option (\<lambda>cls. run_formatter plugged E cls opts rules) (factory_create format factory)"

section \<open>The hosts of a list\<close>

definition list_hosts :: "format_env \<Rightarrow> lines \<Rightarrow> jstr list" where
  "list_hosts E rules = rev (remdups (rev (List.map_filter (formatter_hostname E) rules)))"

definition unconvertible :: "format_env \<Rightarrow> jstr \<Rightarrow> bool" where
  "unconvertible E rule \<longleftrightarrow> formatter_hostname E rule = None \<and> rule \<noteq> [] \<and> \<not> starts_with rule ''!''"

definition host_char :: "char \<Rightarrow> bool" where
  "host_char c \<longleftrightarrow> is_alnum c \<or> c = CHR ''.'' \<or> c = CHR ''-''"

lemma host_char_safe: "host_char c \<Longrightarrow> c \<noteq> CHR 0x0A \<and> c \<noteq> CHR '' '' \<and> c \<noteq> CHR ''/'' \<and> c \<noteq> CHR 0x22 \<and> c \<noteq> CHR ''#''"
  by (auto simp: host_char_def is_alnum_def is_letter_def is_lower_def is_upper_def is_digit_def code_in_def)

lemma just_domain_chars: "isJustDomain s \<Longrightarrow> s \<noteq> [] \<and> (\<forall>c \<in> set s. host_char c)"
proof
  assume j: "isJustDomain s"
  then show ne: "s \<noteq> []" by (auto simp: isJustDomain_def domain_pattern_def)
  let ?t = "if last s = CHR ''.'' then butlast s else s"
  have labels: "\<forall>w \<in> set (split_on CHR ''.'' ?t). \<forall>c \<in> set w. host_char c"
    using j by (auto simp: isJustDomain_def domain_pattern_def label_pattern_def list_all_iff host_char_def
        split: if_splits)
  have "\<forall>c \<in> set ?t. host_char c"
  proof
    fix c assume "c \<in> set ?t"
    then have "c \<in> set (join_with [CHR ''.''] (split_on CHR ''.'' ?t))" by (simp only: join_split)
    then have "c \<in> set [CHR ''.''] \<or> (\<exists>w \<in> set (split_on CHR ''.'' ?t). c \<in> set w)" by (rule set_join_with)
    then show "host_char c" using labels by (auto simp: host_char_def)
  qed
  moreover have "set s \<subseteq> insert CHR ''.'' (set ?t)"
  proof (cases "last s = CHR ''.''")
    case True
    then have "set s = set (butlast s @ [CHR ''.''])" using ne by (metis append_butlast_last_id)
    then show ?thesis using True by auto
  qed auto
  ultimately show "\<forall>c \<in> set s. host_char c" by (auto simp: host_char_def)
qed

lemma hostname_chars: "formatter_hostname E rule = Some h \<Longrightarrow> h \<noteq> [] \<and> (\<forall>c \<in> set h. host_char c)"
proof -
  have "ar_hostname (loadAdblockRuleProperties p g rule) = Some h \<Longrightarrow> h \<noteq> [] \<and> (\<forall>c \<in> set h. host_char c)" for p g
    by (auto simp: loadAdblockRuleProperties_def Let_def pattern_hostname_def list_all_iff hostname_char_def
        host_char_def is_alnum_def is_letter_def split: option.splits any_rule.splits if_splits)
  moreover have "simple_pattern rule = Some h \<Longrightarrow> h \<noteq> [] \<and> (\<forall>c \<in> set h. host_char c)"
    by (auto simp: simple_pattern_def Let_def list_all_iff host_pattern_char_def host_char_def is_alnum_def
        split: if_splits)
  ultimately show "formatter_hostname E rule = Some h \<Longrightarrow> ?thesis"
    using just_domain_chars [of rule] by (auto simp: formatter_hostname_def Let_def split: if_splits option.splits)
qed

lemma list_hosts_chars: "h \<in> set (list_hosts E rules) \<Longrightarrow> h \<noteq> [] \<and> (\<forall>c \<in> set h. host_char c)"
  using hostname_chars by (auto simp: list_hosts_def List.map_filter_def)

lemma remdups_snoc: "rev (remdups (rev (xs @ [x]))) = rev (remdups (rev xs)) @ (if x \<in> set xs then [] else [x])"
  by simp

lemma format_fold:
  "fold (format_rule E line) rules \<lparr>fs_lines = start, fs_seen = [], fs_count = 0, fs_skipped = 0\<rparr> =
     \<lparr>fs_lines = start @ map line (list_hosts E rules), fs_seen = rev (list_hosts E rules),
      fs_count = length (list_hosts E rules), fs_skipped = length (filter (unconvertible E) rules)\<rparr>"
proof (induction rules rule: rev_induct)
  case (snoc rule rules)
  have seen: "set (list_hosts E rules) = set (List.map_filter (formatter_hostname E) rules)"
    by (simp add: list_hosts_def)
  show ?case
  proof (cases "formatter_hostname E rule")
    case None
    then show ?thesis using snoc by (simp add: format_rule_def list_hosts_def List.map_filter_def unconvertible_def)
  next
    case (Some h)
    have "list_hosts E (rules @ [rule]) = list_hosts E rules @ (if h \<in> set (list_hosts E rules) then [] else [h])"
      unfolding seen using Some by (simp add: list_hosts_def List.map_filter_def)
    then show ?thesis using snoc Some hostname_chars [OF Some] by (simp add: format_rule_def unconvertible_def)
  qed
qed (simp add: list_hosts_def List.map_filter_def)

lemma format_hosts_result: "format_hosts E line start fmt rules =
    \<lparr>fr_content = join_with [CHR 0x0A] (start @ map line (list_hosts E rules)),
     fr_ruleCount = length (list_hosts E rules),
     fr_skippedCount = length (filter (unconvertible E) rules), fr_format = fmt\<rparr>"
  by (simp add: format_hosts_def format_fold)

lemma json_fold: "fold (json_rule E) rules ([], [], 0) =
    (list_hosts E rules, filter (\<lambda>r. r \<noteq> [] \<and> \<not> starts_with r ''!'') rules, length (filter (unconvertible E) rules))"
proof (induction rules rule: rev_induct)
  case (snoc rule rules)
  have seen: "set (list_hosts E rules) = set (List.map_filter (formatter_hostname E) rules)"
    by (simp add: list_hosts_def)
  show ?case
  proof (cases "formatter_hostname E rule")
    case None
    then show ?thesis using snoc by (simp add: json_rule_def list_hosts_def List.map_filter_def unconvertible_def)
  next
    case (Some h)
    have "list_hosts E (rules @ [rule]) = list_hosts E rules @ (if h \<in> set (list_hosts E rules) then [] else [h])"
      unfolding seen using Some by (simp add: list_hosts_def List.map_filter_def)
    moreover have "rule \<noteq> [] \<and> \<not> starts_with rule ''!''"
      using Some by (auto simp: formatter_hostname_def split: if_splits)
    ultimately show ?thesis using snoc Some hostname_chars [OF Some] by (simp add: json_rule_def unconvertible_def)
  qed
qed (simp add: list_hosts_def List.map_filter_def)

section \<open>Reading the output\<close>

text \<open>How the programs read the formats: a line is blank, a comment, or names a host.\<close>

definition read_lines :: "(jstr \<Rightarrow> jstr option) \<Rightarrow> jstr \<Rightarrow> jstr list" where
  "read_lines entry text =
     List.map_filter (\<lambda>l. if l = [] \<or> starts_with l ''#'' then None else entry l) (split_on CHR 0x0A text)"

definition hosts_entry :: "jstr \<Rightarrow> jstr option" where
  "hosts_entry l = Some (tl (dropWhile (\<lambda>c. c \<noteq> CHR '' '') l))"

definition dnsmasq_entry :: "jstr \<Rightarrow> jstr option" where
  "dnsmasq_entry l =
     (if starts_with l ''address=/'' then Some (takeWhile (\<lambda>c. c \<noteq> CHR ''/'') (drop 9 l)) else None)"

definition unbound_entry :: "jstr \<Rightarrow> jstr option" where
  "unbound_entry l =
     (if starts_with l (''    local-zone: '' @ [CHR 0x22])
      then Some (takeWhile (\<lambda>c. c \<noteq> CHR 0x22) (drop 17 l)) else None)"

lemma read_content:
  assumes "\<forall>l \<in> set (start @ ls). CHR 0x0A \<notin> set l"
  shows "read_lines entry (join_with [CHR 0x0A] (start @ ls)) =
    List.map_filter (\<lambda>l. if l = [] \<or> starts_with l ''#'' then None else entry l) (start @ ls)"
proof (cases "start @ ls = []")
  case True
  then show ?thesis by (simp add: read_lines_def List.map_filter_def)
next
  case False
  then show ?thesis using assms split_join [of "start @ ls" "CHR 0x0A"] by (simp add: read_lines_def)
qed

lemma read_hosts_of:
  assumes "\<forall>l \<in> set start. CHR 0x0A \<notin> set l"
    "List.map_filter (\<lambda>l. if l = [] \<or> starts_with l ''#'' then None else entry l) start = before"
    "\<And>h. h \<noteq> [] \<Longrightarrow> \<forall>c \<in> set h. host_char c \<Longrightarrow>
       line h \<noteq> [] \<and> \<not> starts_with (line h) ''#'' \<and> CHR 0x0A \<notin> set (line h) \<and> entry (line h) = Some h"
  shows "read_lines entry (fr_content (format_hosts E line start fmt rules)) = before @ list_hosts E rules"
proof -
  have l: "line h \<noteq> [] \<and> \<not> starts_with (line h) ''#'' \<and> CHR 0x0A \<notin> set (line h) \<and> entry (line h) = Some h"
    if "h \<in> set (list_hosts E rules)" for h
    using list_hosts_chars [OF that] assms(3) by blast
  have "List.map_filter (\<lambda>l. if l = [] \<or> starts_with l ''#'' then None else entry l) (map line (list_hosts E rules)) =
      list_hosts E rules"
    using l by (auto simp: List.map_filter_def filter_map comp_def intro!: map_idI)
  moreover have "\<forall>l \<in> set (start @ map line (list_hosts E rules)). CHR 0x0A \<notin> set l"
    using assms(1) l by auto
  ultimately show ?thesis
    using assms(2) read_content [of start "map line (list_hosts E rules)" entry]
    by (simp add: format_hosts_result List.map_filter_def)
qed

definition plain_text :: "jstr \<Rightarrow> bool" where
  "plain_text s \<longleftrightarrow> CHR 0x0A \<notin> set s"

lemma header_skipped: "List.map_filter (\<lambda>l. if l = [] \<or> starts_with l ''#'' then None else entry l) (optional_header E opts) = []"
  by (simp add: optional_header_def header_lines_def List.map_filter_def)

lemma header_plain: "plain_text (fo_listName opts) \<Longrightarrow> plain_text (fe_package E) \<Longrightarrow> plain_text (fe_date E) \<Longrightarrow>
    \<forall>l \<in> set (optional_header E opts). CHR 0x0A \<notin> set l"
  by (auto simp: optional_header_def header_lines_def plain_text_def)

lemma map_filter_app: "List.map_filter f (xs @ ys) = List.map_filter f xs @ List.map_filter f ys"
  by (simp add: List.map_filter_def)

lemma localhost_read:
  "List.map_filter (\<lambda>l. if l = [] \<or> starts_with l ''#'' then None else hosts_entry l) (localhost_lines opts) =
     (if fo_includeLocalhost opts then [''localhost'', ''localhost''] else [])"
  "\<forall>l \<in> set (localhost_lines opts). CHR 0x0A \<notin> set l"
  by (auto simp: localhost_lines_def hosts_entry_def List.map_filter_def)

lemma hash_head: "h \<noteq> [] \<Longrightarrow> \<forall>c \<in> set h. host_char c \<Longrightarrow> \<not> starts_with h ''#''"
  using host_char_safe by (cases h) auto

lemma take_host: "\<forall>c \<in> set h. host_char c \<Longrightarrow> d \<in> {CHR ''/'', CHR 0x22} \<Longrightarrow> takeWhile (\<lambda>c. c \<noteq> d) (h @ d # t) = h"
  using host_char_safe by (subst takeWhile_append2) auto


definition sample_env :: format_env where
  "sample_env = \<lparr>fe_parser = (\<lambda>_. Inl ''no parser''), fe_generate = (\<lambda>_. []), fe_package = ''compiler v1'', fe_date = ''today''\<rparr>"


section \<open>What the formats lose\<close>

text \<open>
  What the formats lose.  The modifiers of a rule are not looked at: a rule for third parties, for
  some domains or with \<open>badfilter\<close> blocks its host altogether.  Exceptions only count as skipped: the hosts
  are those of the list without them, also if they lift a block.  And rules in the syntax of
  \<open>/etc/hosts\<close>, an input format of the compiler, are not converted.
\<close>

theorem formats_overblock:
  assumes "parsed (fe_parser E) (js_trim rule) = Some (NetworkRule r)" "\<not> nr_exception r"
    "pattern_hostname (nr_pattern r) = Some h" "rule = c # t" "c \<notin> {CHR ''!'', CHR ''#'', CHR ''@''}"
    "parsed (fe_parser E) (js_trim line) = Some (HostRule q)" "CHR '' '' \<in> set line"
  shows "formatter_hostname E rule = Some h \<and> formatter_hostname E line = None \<and>
    list_hosts E rules = list_hosts E (filter (\<lambda>r. \<not> starts_with r ''@@'') rules)"
proof -
  have "formatter_hostname E x = None" if "starts_with x ''@@''" for x
    using that by (simp add: formatter_hostname_def)
  then have "List.map_filter (formatter_hostname E) rules =
      List.map_filter (formatter_hostname E) (filter (\<lambda>r. \<not> starts_with r ''@@'') rules)"
    by (induction rules) (auto simp: List.map_filter_simps split: option.split)
  moreover have "formatter_hostname E rule = Some h"
    using assms(1-5) by (auto simp: formatter_hostname_def loadAdblockRuleProperties_def extractNetworkRuleProperties_def)
  moreover have "\<not> isJustDomain line"
    using just_domain_chars [of line] assms(7) host_char_safe by blast
  moreover have "simple_pattern line = None"
  proof (rule ccontr)
    assume "simple_pattern line \<noteq> None"
    then have p: "starts_with line ''||''"
        "list_all host_pattern_char (if ends_with (drop 2 line) ''^'' then butlast (drop 2 line) else drop 2 line)"
      by (auto simp: simple_pattern_def Let_def split: if_splits)
    then obtain b where b: "line = ''||'' @ b" by (auto elim: prefixE)
    have "CHR '' '' \<in> set b" using assms(7) b by simp
    then have "CHR '' '' \<in> set (if ends_with b ''^'' then butlast b else b)"
      by (auto elim!: suffixE)
    moreover have "drop 2 line = b" by (simp add: b)
    ultimately have "host_pattern_char CHR '' ''" using p(2) by (auto simp only: list_all_iff)
    then show False
      by (simp add: host_pattern_char_def is_letter_def is_lower_def is_upper_def is_digit_def code_in_def)
  qed
  ultimately show ?thesis
    using assms(6) by (simp add: list_hosts_def formatter_hostname_def loadAdblockRuleProperties_def)
qed

definition third_party_rule :: network_rule where
  "third_party_rule =
     \<lparr>nr_exception = False, nr_pattern = ''||a.com^'',
      nr_modifiers = Some [\<lparr>mod_name = ''domain'', mod_value = Some ''b.com'', mod_exception = False\<rparr>],
      nr_syntax = Common, nr_raw = None\<rparr>"

definition hosts_line :: host_rule where
  "hosts_line = \<lparr>hr_ip = ''0.0.0.0'', hr_hostnames = [''x.com''], hr_comment = None, hr_raw = None\<rparr>"

definition parsing_env :: format_env where
  "parsing_env =
     sample_env\<lparr>fe_parser := (\<lambda>t. if starts_with t ''||'' then Inr (NetworkRule third_party_rule)
                                 else Inr (HostRule hosts_line))\<rparr>"

lemma formats_overblock_witness:
  "formatter_hostname parsing_env ''||a.com^$domain=b.com'' = Some ''a.com'' \<and>
   formatter_hostname parsing_env ''0.0.0.0 x.com'' = None"
proof -
  have "parsed (fe_parser parsing_env) (js_trim ''||a.com^$domain=b.com'') = Some (NetworkRule third_party_rule)"
    "pattern_hostname (nr_pattern third_party_rule) = Some ''a.com''" "\<not> nr_exception third_party_rule"
    "parsed (fe_parser parsing_env) (js_trim ''0.0.0.0 x.com'') = Some (HostRule hosts_line)"
    by code_simp+
  then show ?thesis
    using formats_overblock [of parsing_env "''||a.com^$domain=b.com''" third_party_rule "''a.com''" "CHR ''|''"
        "''|a.com^$domain=b.com''" "''0.0.0.0 x.com''" hosts_line "[]"] by simp
qed

end
