(* ===== verification/Storage.thy ===== *)
theory Storage
  imports Tables "HOL-Library.List_Lexorder" "HOL-Library.Char_ord"
begin

text \<open>
  The storage adapters over a database: \<open>src/storage/D1StorageAdapter.ts\<close>,
  \<open>src/storage/HyperdriveStorageAdapter.ts\<close> and \<open>src/storage/PrismaStorageAdapter.ts\<close>, with the contract
  of \<open>src/storage/IStorageAdapter.ts\<close> as a locale that the three interpret.  The database is its tables of
  entries, of cached lists and of compilations; \<open>up\<close> says which of the queries of one call succeed (query
  \<open>n\<close> is the \<open>n\<close>-th, from 0).  A value is what \<open>JSON.parse\<close> makes of its stored text.  An operation on
  an adapter that is not open throws, which is the outcome \<open>None\<close>.  Times are in milliseconds.
\<close>

section \<open>The database\<close>

record 'v entry_row =
  er_data :: 'v
  er_created :: int
  er_updated :: int
  er_expires :: "int option"

record filter_row =
  fl_content :: lines
  fl_hash :: jstr
  fl_etag :: "jstr option"
  fl_expires :: "int option"

record compilation_run =
  cm_config :: jstr
  cm_timestamp :: int
  cm_sources :: nat
  cm_rules :: nat
  cm_duration :: int
  cm_output :: "jstr option"

record 'v database =
  db_entries :: "(jstr \<times> 'v entry_row) list"
  db_filters :: "(jstr \<times> filter_row) list"
  db_runs :: "compilation_run list"

record 'v adapter =
  ad_open :: bool
  ad_ttl :: int
  ad_db :: "'v database"

record query_options =
  qo_prefix :: "jstr list option"
  qo_limit :: "nat option"
  qo_start :: "jstr list option"
  qo_end :: "jstr list option"
  qo_reverse :: bool

record cache_entry =
  ce_content :: lines
  ce_hash :: jstr
  ce_etag :: "jstr option"

definition serializeKey :: "jstr list \<Rightarrow> jstr" where
  "serializeKey key = join_with ''/'' key"

definition deserializeKey :: "jstr \<Rightarrow> jstr list" where
  "deserializeKey key = split_on CHR ''/'' key"

text \<open>Prisma's \<open>upsert\<close>: an existing row keeps the time of its creation.\<close>

definition upsert_entry :: "int \<Rightarrow> jstr \<Rightarrow> 'v \<Rightarrow> int option \<Rightarrow> 'v database \<Rightarrow> 'v database" where
  "upsert_entry now key v expires db =
     db\<lparr>db_entries := map_set key
         \<lparr>er_data = v,
          er_created = (case map_get (db_entries db) key of Some r \<Rightarrow> er_created r | None \<Rightarrow> now),
          er_updated = now, er_expires = expires\<rparr> (db_entries db)\<rparr>"

definition upsert_filter :: "jstr \<Rightarrow> lines \<Rightarrow> jstr \<Rightarrow> jstr option \<Rightarrow> int option \<Rightarrow> 'v database \<Rightarrow> 'v database" where
  "upsert_filter source content hash etag expires db =
     db\<lparr>db_filters := map_set source
         \<lparr>fl_content = content, fl_hash = hash, fl_etag = etag, fl_expires = expires\<rparr> (db_filters db)\<rparr>"

definition expired :: "int \<Rightarrow> int option \<Rightarrow> bool" where
  "expired now e \<longleftrightarrow> (case e of Some t \<Rightarrow> t < now | None \<Rightarrow> False)"

definition live :: "int \<Rightarrow> int option \<Rightarrow> bool" where
  "live now e \<longleftrightarrow> (case e of Some t \<Rightarrow> now < t | None \<Rightarrow> True)"

definition delete_where :: "('v \<Rightarrow> bool) \<Rightarrow> (jstr \<times> 'v) list \<Rightarrow> nat \<times> (jstr \<times> 'v) list" where
  "delete_where P m = (length (filter (P \<circ> snd) m), filter (\<lambda>e. \<not> P (snd e)) m)"

definition entry_cache :: "filter_row \<Rightarrow> cache_entry" where
  "entry_cache r = \<lparr>ce_content = fl_content r, ce_hash = fl_hash r, ce_etag = fl_etag r\<rparr>"

text \<open>\<open>findMany\<close> with an order of the keys and a limit.\<close>

definition find_many :: "(jstr \<times> 'v entry_row \<Rightarrow> bool) \<Rightarrow> bool \<Rightarrow> nat option \<Rightarrow> 'v database \<Rightarrow>
    (jstr \<times> 'v entry_row) list" where
  "find_many P desc limit db =
     (let rows = sort_key fst (filter P (db_entries db)); ordered = (if desc then rev rows else rows)
      in case limit of None \<Rightarrow> ordered | Some n \<Rightarrow> take n ordered)"

definition latest_runs :: "jstr \<Rightarrow> nat \<Rightarrow> 'v database \<Rightarrow> compilation_run list" where
  "latest_runs config limit db =
     take limit (sort_key (\<lambda>r. - cm_timestamp r) (filter (\<lambda>r. cm_config r = config) (db_runs db)))"

section \<open>D1StorageAdapter\<close>

definition computeExpiry :: "int \<Rightarrow> int \<Rightarrow> int option \<Rightarrow> int option" where
  "computeExpiry default_ttl now ttl =
     (let t = (case ttl of Some t \<Rightarrow> t | None \<Rightarrow> default_ttl) in if t \<le> 0 then None else Some (now + t))"

text \<open>Every operation is guarded by \<open>ensureOpen\<close>.\<close>

definition when_open :: "('v adapter \<Rightarrow> 'r \<times> 'v adapter) \<Rightarrow> 'v adapter \<Rightarrow> 'r option \<times> 'v adapter" where
  "when_open f a = (if ad_open a then case f a of (r, a') \<Rightarrow> (Some r, a') else (None, a))"

definition on_db :: "('v database \<Rightarrow> 'v database) \<Rightarrow> 'v adapter \<Rightarrow> 'v adapter" where
  "on_db f a = a\<lparr>ad_db := f (ad_db a)\<rparr>"

definition d1_set :: "(nat \<Rightarrow> bool) \<Rightarrow> int \<Rightarrow> jstr list \<Rightarrow> 'v \<Rightarrow> int option \<Rightarrow> 'v adapter \<Rightarrow> bool option \<times> 'v adapter" where
  "d1_set up now key v ttl = when_open (\<lambda>a.
     if up 0 then (True, on_db (upsert_entry now (serializeKey key) v (computeExpiry (ad_ttl a) now ttl)) a)
     else (False, a))"

definition d1_get :: "(nat \<Rightarrow> bool) \<Rightarrow> int \<Rightarrow> jstr list \<Rightarrow> 'v adapter \<Rightarrow> 'v entry_row option option \<times> 'v adapter" where
  "d1_get up now key = when_open (\<lambda>a.
     if \<not> up 0 then (None, a)
     else case map_get (db_entries (ad_db a)) (serializeKey key) of
            None \<Rightarrow> (None, a)
          | Some r \<Rightarrow>
              if expired now (er_expires r)
              then (None, if up 1 then on_db (\<lambda>db. db\<lparr>db_entries := map_delete (serializeKey key) (db_entries db)\<rparr>) a
                          else a)
              else (Some r, a))"

definition d1_delete :: "(nat \<Rightarrow> bool) \<Rightarrow> jstr list \<Rightarrow> 'v adapter \<Rightarrow> bool option \<times> 'v adapter" where
  "d1_delete up key = when_open (\<lambda>a.
     if up 0 then (map_has (db_entries (ad_db a)) (serializeKey key),
                   on_db (\<lambda>db. db\<lparr>db_entries := map_delete (serializeKey key) (db_entries db)\<rparr>) a)
     else (False, a))"

definition d1_list :: "(nat \<Rightarrow> bool) \<Rightarrow> int \<Rightarrow> query_options \<Rightarrow> 'v adapter \<Rightarrow>
    (jstr list \<times> 'v entry_row) list option \<times> 'v adapter" where
  "d1_list up now q = when_open (\<lambda>a.
     (if up 0 then
        map (\<lambda>(k, r). (deserializeKey k, r))
          (find_many (\<lambda>(k, r). live now (er_expires r) \<and>
               (case qo_prefix q of Some p \<Rightarrow> starts_with k (serializeKey p @ ''/'') | None \<Rightarrow> True))
             (qo_reverse q) (qo_limit q) (ad_db a))
      else [], a))"

definition d1_clearExpired :: "(nat \<Rightarrow> bool) \<Rightarrow> int \<Rightarrow> 'v adapter \<Rightarrow> nat option \<times> 'v adapter" where
  "d1_clearExpired up now = when_open (\<lambda>a.
     if \<not> up 0 then (0, a)
     else let (n, es) = delete_where (\<lambda>r. expired now (er_expires r)) (db_entries (ad_db a));
              (m, fs) = delete_where (\<lambda>r. expired now (fl_expires r)) (db_filters (ad_db a))
          in (n + m, on_db (\<lambda>db. db\<lparr>db_entries := es, db_filters := fs\<rparr>) a))"

record storage_stats =
  ss_entries :: nat
  ss_expired :: nat
  ss_size :: nat

definition d1_getStats :: "('v \<Rightarrow> nat) \<Rightarrow> (nat \<Rightarrow> bool) \<Rightarrow> int \<Rightarrow> 'v adapter \<Rightarrow> storage_stats option \<times> 'v adapter" where
  "d1_getStats size_of up now = when_open (\<lambda>a.
     (let es = db_entries (ad_db a)
      in if up 0 \<and> up 1 \<and> up 2
         then \<lparr>ss_entries = length es, ss_expired = length (filter (\<lambda>e. expired now (er_expires (snd e))) es),
               ss_size = sum_list (map (\<lambda>e. size_of (er_data (snd e))) es)\<rparr>
         else \<lparr>ss_entries = 0, ss_expired = 0, ss_size = 0\<rparr>, a))"

definition d1_cacheFilterList :: "(nat \<Rightarrow> bool) \<Rightarrow> int \<Rightarrow> jstr \<Rightarrow> lines \<Rightarrow> jstr \<Rightarrow> jstr option \<Rightarrow> int option \<Rightarrow>
    'v adapter \<Rightarrow> bool option \<times> 'v adapter" where
  "d1_cacheFilterList up now source content hash etag ttl = when_open (\<lambda>a.
     if up 0 then (True, on_db (upsert_filter source content hash etag (computeExpiry (ad_ttl a) now ttl)) a)
     else (False, a))"

definition d1_getCachedFilterList :: "(nat \<Rightarrow> bool) \<Rightarrow> int \<Rightarrow> jstr \<Rightarrow> 'v adapter \<Rightarrow>
    cache_entry option option \<times> 'v adapter" where
  "d1_getCachedFilterList up now source = when_open (\<lambda>a.
     if \<not> up 0 then (None, a)
     else case map_get (db_filters (ad_db a)) source of
            None \<Rightarrow> (None, a)
          | Some r \<Rightarrow>
              if expired now (fl_expires r)
              then (None, if up 1 then on_db (\<lambda>db. db\<lparr>db_filters := map_delete source (db_filters db)\<rparr>) a else a)
              else (Some (entry_cache r), a))"

definition d1_storeCompilationMetadata :: "(nat \<Rightarrow> bool) \<Rightarrow> int \<Rightarrow> compilation_run \<Rightarrow> 'v adapter \<Rightarrow>
    bool option \<times> 'v adapter" where
  "d1_storeCompilationMetadata up now run = when_open (\<lambda>a.
     if up 0 then (True, on_db (\<lambda>db. db\<lparr>db_runs := db_runs db @ [run\<lparr>cm_timestamp := now\<rparr>]\<rparr>) a) else (False, a))"

definition d1_getCompilationHistory :: "(nat \<Rightarrow> bool) \<Rightarrow> jstr \<Rightarrow> nat \<Rightarrow> 'v adapter \<Rightarrow>
    compilation_run list option \<times> 'v adapter" where
  "d1_getCompilationHistory up config limit = when_open (\<lambda>a.
     (if up 0 then latest_runs config limit (ad_db a) else [], a))"

definition d1_clearCache :: "(nat \<Rightarrow> bool) \<Rightarrow> 'v adapter \<Rightarrow> nat option \<times> 'v adapter" where
  "d1_clearCache up = when_open (\<lambda>a.
     if \<not> up 0 then (0, a)
     else let es = db_entries (ad_db a)
          in (length (filter (\<lambda>e. starts_with (fst e) ''cache/'') es) + length (db_filters (ad_db a)),
              on_db (\<lambda>db. db\<lparr>db_entries := filter (\<lambda>e. \<not> starts_with (fst e) ''cache/'') es, db_filters := []\<rparr>) a))"

section \<open>HyperdriveStorageAdapter\<close>

definition ttl_expiry :: "int \<Rightarrow> int option \<Rightarrow> int option" where
  "ttl_expiry now ttl = (case ttl of Some t \<Rightarrow> if t = 0 then None else Some (now + t) | None \<Rightarrow> None)"

definition in_range :: "query_options \<Rightarrow> jstr \<Rightarrow> bool" where
  "in_range q k \<longleftrightarrow>
     (case qo_prefix q of Some p \<Rightarrow> starts_with k (serializeKey p) | None \<Rightarrow> True) \<and>
     (case qo_start q of Some p \<Rightarrow> serializeKey p \<le> k | None \<Rightarrow> True) \<and>
     (case qo_end q of Some p \<Rightarrow> k \<le> serializeKey p | None \<Rightarrow> True)"

definition hd_set :: "(nat \<Rightarrow> bool) \<Rightarrow> int \<Rightarrow> jstr list \<Rightarrow> 'v \<Rightarrow> int option \<Rightarrow> 'v adapter \<Rightarrow> bool option \<times> 'v adapter" where
  "hd_set up now key v ttl = when_open (\<lambda>a.
     if up 0 then (True, on_db (upsert_entry now (serializeKey key) v (ttl_expiry now ttl)) a) else (False, a))"

definition hd_get :: "(nat \<Rightarrow> bool) \<Rightarrow> int \<Rightarrow> jstr list \<Rightarrow> 'v adapter \<Rightarrow> 'v entry_row option option \<times> 'v adapter" where
  "hd_get up now key = when_open (\<lambda>a.
     if \<not> up 0 then (None, a)
     else case map_get (db_entries (ad_db a)) (serializeKey key) of
            None \<Rightarrow> (None, a)
          | Some r \<Rightarrow>
              if expired now (er_expires r)
              then (None, if up 1 then on_db (\<lambda>db. db\<lparr>db_entries := map_delete (serializeKey key) (db_entries db)\<rparr>) a
                          else a)
              else (Some r, a))"

definition hd_delete :: "(nat \<Rightarrow> bool) \<Rightarrow> jstr list \<Rightarrow> 'v adapter \<Rightarrow> bool option \<times> 'v adapter" where
  "hd_delete up key = when_open (\<lambda>a.
     (True, if up 0 then on_db (\<lambda>db. db\<lparr>db_entries := map_delete (serializeKey key) (db_entries db)\<rparr>) a else a))"

definition hd_list :: "(nat \<Rightarrow> bool) \<Rightarrow> int \<Rightarrow> query_options \<Rightarrow> 'v adapter \<Rightarrow>
    (jstr list \<times> 'v entry_row) list option \<times> 'v adapter" where
  "hd_list up now q = when_open (\<lambda>a.
     (if up 0 then
        map (\<lambda>(k, r). (deserializeKey k, r))
          (find_many (\<lambda>(k, r). live now (er_expires r) \<and> in_range q k) (qo_reverse q) (qo_limit q) (ad_db a))
      else [], a))"

text \<open>Two queries at once: if one fails the other still runs.\<close>

definition hd_clearExpired :: "(nat \<Rightarrow> bool) \<Rightarrow> int \<Rightarrow> 'v adapter \<Rightarrow> nat option \<times> 'v adapter" where
  "hd_clearExpired up now = when_open (\<lambda>a.
     let (n, es) = delete_where (\<lambda>r. expired now (er_expires r)) (db_entries (ad_db a));
         (m, fs) = delete_where (\<lambda>r. expired now (fl_expires r)) (db_filters (ad_db a))
     in (if up 0 \<and> up 1 then n + m else 0,
         on_db (\<lambda>db. db\<lparr>db_entries := (if up 0 then es else db_entries db),
                        db_filters := (if up 1 then fs else db_filters db)\<rparr>) a))"

definition hd_getStats :: "(nat \<Rightarrow> bool) \<Rightarrow> int \<Rightarrow> 'v adapter \<Rightarrow> storage_stats option \<times> 'v adapter" where
  "hd_getStats up now = when_open (\<lambda>a.
     (let es = db_entries (ad_db a)
      in if up 0 \<and> up 1
         then \<lparr>ss_entries = length es, ss_expired = length (filter (\<lambda>e. expired now (er_expires (snd e))) es), ss_size = 0\<rparr>
         else \<lparr>ss_entries = 0, ss_expired = 0, ss_size = 0\<rparr>, a))"

definition hd_cacheFilterList :: "(nat \<Rightarrow> bool) \<Rightarrow> int \<Rightarrow> jstr \<Rightarrow> lines \<Rightarrow> jstr \<Rightarrow> jstr option \<Rightarrow> int option \<Rightarrow>
    'v adapter \<Rightarrow> bool option \<times> 'v adapter" where
  "hd_cacheFilterList up now source content hash etag ttl = when_open (\<lambda>a.
     if up 0 then (True, on_db (upsert_filter source content hash etag
                     (Some (now + (case ttl of Some t \<Rightarrow> t | None \<Rightarrow> ad_ttl a)))) a)
     else (False, a))"

definition hd_getCachedFilterList :: "(nat \<Rightarrow> bool) \<Rightarrow> int \<Rightarrow> jstr \<Rightarrow> 'v adapter \<Rightarrow>
    cache_entry option option \<times> 'v adapter" where
  "hd_getCachedFilterList up now source = when_open (\<lambda>a.
     if \<not> up 0 then (None, a)
     else case map_get (db_filters (ad_db a)) source of
            None \<Rightarrow> (None, a)
          | Some r \<Rightarrow>
              if expired now (fl_expires r)
              then (None, if up 1 then on_db (\<lambda>db. db\<lparr>db_filters := map_delete source (db_filters db)\<rparr>) a else a)
              else (Some (entry_cache r), a))"

definition hd_storeCompilationMetadata :: "(nat \<Rightarrow> bool) \<Rightarrow> compilation_run \<Rightarrow> 'v adapter \<Rightarrow> bool option \<times> 'v adapter" where
  "hd_storeCompilationMetadata up run = when_open (\<lambda>a.
     if up 0 then (True, on_db (\<lambda>db. db\<lparr>db_runs := db_runs db @ [run]\<rparr>) a) else (False, a))"

definition hd_getCompilationHistory :: "(nat \<Rightarrow> bool) \<Rightarrow> jstr \<Rightarrow> nat \<Rightarrow> 'v adapter \<Rightarrow>
    compilation_run list option \<times> 'v adapter" where
  "hd_getCompilationHistory up config limit = when_open (\<lambda>a.
     (if up 0 then latest_runs config limit (ad_db a) else [], a))"

definition hd_clearCache :: "(nat \<Rightarrow> bool) \<Rightarrow> 'v adapter \<Rightarrow> nat option \<times> 'v adapter" where
  "hd_clearCache up = when_open (\<lambda>a.
     let es = db_entries (ad_db a)
     in (if up 0 \<and> up 1
         then length (filter (\<lambda>e. starts_with (fst e) ''cache/'') es) + length (db_filters (ad_db a)) else 0,
         on_db (\<lambda>db. db\<lparr>db_entries := (if up 0 then filter (\<lambda>e. \<not> starts_with (fst e) ''cache/'') es else es),
                        db_filters := (if up 1 then [] else db_filters db)\<rparr>) a))"

section \<open>PrismaStorageAdapter\<close>

definition pr_set :: "(nat \<Rightarrow> bool) \<Rightarrow> int \<Rightarrow> jstr list \<Rightarrow> 'v \<Rightarrow> int option \<Rightarrow> 'v adapter \<Rightarrow> bool option \<times> 'v adapter" where
  "pr_set up now key v ttl = when_open (\<lambda>a.
     if up 0 then (True, on_db (upsert_entry now (serializeKey key) v (ttl_expiry now ttl)) a) else (False, a))"

definition pr_delete :: "(nat \<Rightarrow> bool) \<Rightarrow> jstr list \<Rightarrow> 'v adapter \<Rightarrow> bool option \<times> 'v adapter" where
  "pr_delete up key = when_open (\<lambda>a.
     if up 0 then (True, on_db (\<lambda>db. db\<lparr>db_entries := map_delete (serializeKey key) (db_entries db)\<rparr>) a)
     else (False, a))"

definition pr_get :: "(nat \<Rightarrow> bool) \<Rightarrow> int \<Rightarrow> jstr list \<Rightarrow> 'v adapter \<Rightarrow> 'v entry_row option option \<times> 'v adapter" where
  "pr_get up now key = when_open (\<lambda>a.
     if \<not> up 0 then (None, a)
     else case map_get (db_entries (ad_db a)) (serializeKey key) of
            None \<Rightarrow> (None, a)
          | Some r \<Rightarrow>
              if expired now (er_expires r) then (None, snd (pr_delete (\<lambda>n. up (n + 1)) key a)) else (Some r, a))"

definition pr_list :: "(nat \<Rightarrow> bool) \<Rightarrow> int \<Rightarrow> query_options \<Rightarrow> 'v adapter \<Rightarrow>
    (jstr list \<times> 'v entry_row) list option \<times> 'v adapter" where
  "pr_list up now q = when_open (\<lambda>a.
     (if up 0 then
        map (\<lambda>(k, r). (deserializeKey k, r))
          (find_many (\<lambda>(k, r). in_range q k \<and> live now (er_expires r)) (qo_reverse q) (qo_limit q) (ad_db a))
      else [], a))"

text \<open>Only the removed entries are counted.\<close>

definition pr_clearExpired :: "(nat \<Rightarrow> bool) \<Rightarrow> int \<Rightarrow> 'v adapter \<Rightarrow> nat option \<times> 'v adapter" where
  "pr_clearExpired up now = when_open (\<lambda>a.
     let (n, es) = delete_where (\<lambda>r. expired now (er_expires r)) (db_entries (ad_db a));
         (m, fs) = delete_where (\<lambda>r. expired now (fl_expires r)) (db_filters (ad_db a))
     in if \<not> up 0 then (0, a)
        else (if up 1 then n else 0,
              on_db (\<lambda>db. db\<lparr>db_entries := es, db_filters := (if up 1 then fs else db_filters db)\<rparr>) a))"

definition pr_getStats :: "('v \<Rightarrow> nat) \<Rightarrow> (nat \<Rightarrow> bool) \<Rightarrow> int \<Rightarrow> 'v adapter \<Rightarrow> storage_stats option \<times> 'v adapter" where
  "pr_getStats size_of up now = when_open (\<lambda>a.
     (let es = db_entries (ad_db a)
      in if up 0 \<and> up 1 \<and> up 2
         then \<lparr>ss_entries = length es, ss_expired = length (filter (\<lambda>e. expired now (er_expires (snd e))) es),
               ss_size = fold (\<lambda>e n. n + size_of (er_data (snd e))) es 0\<rparr>
         else \<lparr>ss_entries = 0, ss_expired = 0, ss_size = 0\<rparr>, a))"

definition pr_cacheFilterList :: "(nat \<Rightarrow> bool) \<Rightarrow> int \<Rightarrow> jstr \<Rightarrow> lines \<Rightarrow> jstr \<Rightarrow> jstr option \<Rightarrow> int option \<Rightarrow>
    'v adapter \<Rightarrow> bool option \<times> 'v adapter" where
  "pr_cacheFilterList up now source content hash etag ttl = when_open (\<lambda>a.
     if up 0 then (True, on_db (upsert_filter source content hash etag
                     (Some (now + (case ttl of Some t \<Rightarrow> t | None \<Rightarrow> if ad_ttl a = 0 then 3600000 else ad_ttl a)))) a)
     else (False, a))"

definition pr_getCachedFilterList :: "(nat \<Rightarrow> bool) \<Rightarrow> int \<Rightarrow> jstr \<Rightarrow> 'v adapter \<Rightarrow>
    cache_entry option option \<times> 'v adapter" where
  "pr_getCachedFilterList up now source = when_open (\<lambda>a.
     if \<not> up 0 then (None, a)
     else case map_get (db_filters (ad_db a)) source of
            None \<Rightarrow> (None, a)
          | Some r \<Rightarrow>
              if expired now (fl_expires r)
              then (None, if up 1 then on_db (\<lambda>db. db\<lparr>db_filters := map_delete source (db_filters db)\<rparr>) a else a)
              else (Some ((entry_cache r)\<lparr>ce_etag := (if fl_etag r = Some [] then None else fl_etag r)\<rparr>), a))"

definition pr_storeCompilationMetadata :: "(nat \<Rightarrow> bool) \<Rightarrow> compilation_run \<Rightarrow> 'v adapter \<Rightarrow> bool option \<times> 'v adapter" where
  "pr_storeCompilationMetadata up run = when_open (\<lambda>a.
     if up 0 then (True, on_db (\<lambda>db. db\<lparr>db_runs := db_runs db @ [run]\<rparr>) a) else (False, a))"

definition pr_getCompilationHistory :: "(nat \<Rightarrow> bool) \<Rightarrow> jstr \<Rightarrow> nat \<Rightarrow> 'v adapter \<Rightarrow>
    compilation_run list option \<times> 'v adapter" where
  "pr_getCompilationHistory up config limit = when_open (\<lambda>a.
     (if up 0 then map (\<lambda>r. r\<lparr>cm_output := (if cm_output r = Some [] then None else cm_output r)\<rparr>)
                     (latest_runs config limit (ad_db a))
      else [], a))"

definition pr_clearCache :: "(nat \<Rightarrow> bool) \<Rightarrow> 'v adapter \<Rightarrow> nat option \<times> 'v adapter" where
  "pr_clearCache up = when_open (\<lambda>a.
     let es = db_entries (ad_db a)
     in (if up 0 \<and> up 1
         then length (filter (\<lambda>e. starts_with (fst e) ''cache/'') es) + length (db_filters (ad_db a)) else 0,
         on_db (\<lambda>db. db\<lparr>db_entries := (if up 0 then filter (\<lambda>e. \<not> starts_with (fst e) ''cache/'') es else es),
                        db_filters := (if up 1 then [] else db_filters db)\<rparr>) a))"

section \<open>The contract\<close>

text \<open>
  What the clients of an adapter rely on.  The entries and the cached lists are kept apart; what is
  stored is found again until it expires; a query that fails changes nothing that can be seen.
\<close>

abbreviation entries :: "'v adapter \<Rightarrow> (jstr \<times> 'v entry_row) list" where
  "entries a \<equiv> db_entries (ad_db a)"

abbreviation filters :: "'v adapter \<Rightarrow> (jstr \<times> filter_row) list" where
  "filters a \<equiv> db_filters (ad_db a)"

text \<open>
  The abstract store of a client: a value under a key until its time is over.  \<open>agrees\<close> relates it to a
  row: a row may be missing once it has expired.
\<close>

datatype 'v storage_op = StoreOp int "jstr list" 'v int | RemoveOp int "jstr list" | ReadOp int "jstr list"

definition ref_read :: "int \<Rightarrow> ('v \<times> int) option \<Rightarrow> 'v option" where
  "ref_read now e = (case e of Some (v, t) \<Rightarrow> if t < now then None else Some v | None \<Rightarrow> None)"

fun ref_ops :: "'v storage_op list \<Rightarrow> (jstr \<Rightarrow> ('v \<times> int) option) \<Rightarrow> 'v option list" where
  "ref_ops [] ref = []"
| "ref_ops (StoreOp now key v t # ops) ref = ref_ops ops (ref(serializeKey key \<mapsto> (v, now + t)))"
| "ref_ops (RemoveOp now key # ops) ref = ref_ops ops (ref(serializeKey key := None))"
| "ref_ops (ReadOp now key # ops) ref = ref_read now (ref (serializeKey key)) # ref_ops ops ref"

fun op_times_from :: "int \<Rightarrow> 'v storage_op list \<Rightarrow> bool" where
  "op_times_from now [] = True"
| "op_times_from now (StoreOp t key v ttl # ops) \<longleftrightarrow> now \<le> t \<and> 0 < ttl \<and> op_times_from t ops"
| "op_times_from now (RemoveOp t key # ops) \<longleftrightarrow> now \<le> t \<and> op_times_from t ops"
| "op_times_from now (ReadOp t key # ops) \<longleftrightarrow> now \<le> t \<and> op_times_from t ops"

definition agrees :: "int \<Rightarrow> ('v \<times> int) option \<Rightarrow> 'v entry_row option \<Rightarrow> bool" where
  "agrees now e r \<longleftrightarrow>
     (case e of
        None \<Rightarrow> r = None
      | Some (v, t) \<Rightarrow> (case r of None \<Rightarrow> t < now | Some q \<Rightarrow> er_data q = v \<and> er_expires q = Some t))"

text \<open>A run of the operations on entries, each with its time, and the answers of \<open>get\<close>; all queries succeed.\<close>

type_synonym 'v set_op = "(nat \<Rightarrow> bool) \<Rightarrow> int \<Rightarrow> jstr list \<Rightarrow> 'v \<Rightarrow> int option \<Rightarrow> 'v adapter \<Rightarrow> bool option \<times> 'v adapter"
type_synonym 'v get_op = "(nat \<Rightarrow> bool) \<Rightarrow> int \<Rightarrow> jstr list \<Rightarrow> 'v adapter \<Rightarrow> 'v entry_row option option \<times> 'v adapter"
type_synonym 'v delete_op = "(nat \<Rightarrow> bool) \<Rightarrow> jstr list \<Rightarrow> 'v adapter \<Rightarrow> bool option \<times> 'v adapter"
type_synonym 'v cache_op = "(nat \<Rightarrow> bool) \<Rightarrow> int \<Rightarrow> jstr \<Rightarrow> lines \<Rightarrow> jstr \<Rightarrow> jstr option \<Rightarrow> int option \<Rightarrow> 'v adapter \<Rightarrow>
  bool option \<times> 'v adapter"
type_synonym 'v cached_op = "(nat \<Rightarrow> bool) \<Rightarrow> int \<Rightarrow> jstr \<Rightarrow> 'v adapter \<Rightarrow> cache_entry option option \<times> 'v adapter"

fun run_ops :: "'v set_op \<Rightarrow> 'v get_op \<Rightarrow> 'v delete_op \<Rightarrow> 'v storage_op list \<Rightarrow> 'v adapter \<Rightarrow> 'v option list" where
  "run_ops st_set st_get st_delete [] a = []"
| "run_ops st_set st_get st_delete (StoreOp now key v t # ops) a =
     run_ops st_set st_get st_delete ops (snd (st_set (\<lambda>_. True) now key v (Some t) a))"
| "run_ops st_set st_get st_delete (RemoveOp now key # ops) a =
     run_ops st_set st_get st_delete ops (snd (st_delete (\<lambda>_. True) key a))"
| "run_ops st_set st_get st_delete (ReadOp now key # ops) a =
     (case st_get (\<lambda>_. True) now key a of
        (r, a') \<Rightarrow> map_option er_data (Option.bind r (\<lambda>x. x)) # run_ops st_set st_get st_delete ops a')"

locale storage_adapter =
  fixes st_set :: "'v set_op"
    and st_get :: "'v get_op"
    and st_delete :: "'v delete_op"
    and st_cache :: "'v cache_op"
    and st_cached :: "'v cached_op"
  assumes open_kept: "ad_open (snd (st_set up now key v ttl a)) = ad_open a"
      "ad_open (snd (st_get up now key a)) = ad_open a" "ad_open (snd (st_delete up key a)) = ad_open a"
      "ad_open (snd (st_cache up now source content hash etag ttl a)) = ad_open a"
      "ad_open (snd (st_cached up now source a)) = ad_open a"
    and closed_throws: "\<not> ad_open a \<Longrightarrow> st_cached up now source a = (None, a)"
    and set_entry: "ad_open a \<Longrightarrow> up 0 \<Longrightarrow> 0 < t \<Longrightarrow> fst (st_set up now key v (Some t) a) = Some True \<and>
        (\<exists>r. map_get (entries (snd (st_set up now key v (Some t) a))) (serializeKey key) = Some r \<and>
             er_data r = v \<and> er_expires r = Some (now + t))"
    and set_others: "k \<noteq> serializeKey key \<Longrightarrow> map_get (entries (snd (st_set up now key v ttl a))) k = map_get (entries a) k"
    and get_found: "fst (st_get up now key a) = Some (Some r) \<Longrightarrow>
        map_get (entries a) (serializeKey key) = Some r \<and> \<not> expired now (er_expires r) \<and> snd (st_get up now key a) = a"
    and get_finds: "ad_open a \<Longrightarrow> up 0 \<Longrightarrow> map_get (entries a) (serializeKey key) = Some r \<Longrightarrow>
        \<not> expired now (er_expires r) \<Longrightarrow> fst (st_get up now key a) = Some (Some r)"
    and get_drops: "map_get (entries (snd (st_get up now key a))) k = map_get (entries a) k \<or>
        map_get (entries (snd (st_get up now key a))) k = None \<and>
        (\<exists>r. map_get (entries a) k = Some r \<and> expired now (er_expires r))"
    and delete_gone: "ad_open a \<Longrightarrow> up 0 \<Longrightarrow> map_get (entries (snd (st_delete up key a))) (serializeKey key) = None"
    and delete_others: "k \<noteq> serializeKey key \<Longrightarrow> map_get (entries (snd (st_delete up key a))) k = map_get (entries a) k"
    and filters_kept: "filters (snd (st_set up now key v ttl a)) = filters a" "filters (snd (st_get up now key a)) = filters a"
      "filters (snd (st_delete up key a)) = filters a"
    and entries_kept: "entries (snd (st_cache up now source content hash etag ttl a)) = entries a"
      "entries (snd (st_cached up now source a)) = entries a"
    and cache_row: "0 < t \<Longrightarrow> map_get (filters (snd (st_cache up now source content hash etag (Some t) a))) s =
        (if s = source \<and> ad_open a \<and> up 0
         then Some \<lparr>fl_content = content, fl_hash = hash, fl_etag = etag, fl_expires = Some (now + t)\<rparr>
         else map_get (filters a) s)"
    and cached_found: "fst (st_cached up now source a) = Some (Some e) \<Longrightarrow>
        (\<exists>q. map_get (filters a) source = Some q \<and> ce_content e = fl_content q \<and> ce_hash e = fl_hash q \<and>
             \<not> expired now (fl_expires q)) \<and> snd (st_cached up now source a) = a"
    and cached_finds: "ad_open a \<Longrightarrow> up 0 \<Longrightarrow> map_get (filters a) source = Some q \<Longrightarrow> \<not> expired now (fl_expires q) \<Longrightarrow>
        \<exists>e. fst (st_cached up now source a) = Some (Some e) \<and> ce_content e = fl_content q \<and> ce_hash e = fl_hash q"
    and cached_drops: "map_get (filters (snd (st_cached up now source a))) s = map_get (filters a) s \<or>
        map_get (filters (snd (st_cached up now source a))) s = None \<and>
        (\<exists>q. map_get (filters a) s = Some q \<and> expired now (fl_expires q))"
    and cached_down: "\<not> up 0 \<Longrightarrow> ad_open a \<Longrightarrow> st_cached up now source a = (Some None, a)"
begin

lemma run_refines:
  assumes "ad_open a" "\<And>k. agrees now (ref k) (map_get (entries a) k)" "op_times_from now ops"
  shows "run_ops st_set st_get st_delete ops a = ref_ops ops ref"
  using assms
proof (induction ops arbitrary: a ref now)
  case (Cons op ops)
  have later: "agrees t (ref k) (map_get (entries a) k)" if "now \<le> t" for t k
    using Cons.prems(2) [of k] that by (auto simp: agrees_def expired_def split: option.splits)
  show ?case
  proof (cases op)
    case (StoreOp t key v ttl)
    let ?a = "snd (st_set (\<lambda>_. True) t key v (Some ttl) a)"
    have t: "now \<le> t" "0 < ttl" "op_times_from t ops" using Cons.prems(3) StoreOp by auto
    obtain r where r: "map_get (entries ?a) (serializeKey key) = Some r" "er_data r = v" "er_expires r = Some (t + ttl)"
      using set_entry [of a "\<lambda>_. True" ttl t key v] Cons.prems(1) t by blast
    have "run_ops st_set st_get st_delete ops ?a = ref_ops ops (ref(serializeKey key \<mapsto> (v, t + ttl)))"
    proof (rule Cons.IH [OF _ _ t(3)])
      show "agrees t ((ref(serializeKey key \<mapsto> (v, t + ttl))) k) (map_get (entries ?a) k)" for k
        using later [OF t(1), of k] r set_others [of k key "\<lambda>_. True" t v "Some ttl" a]
        by (cases "k = serializeKey key") (auto simp: agrees_def)
    qed (use Cons.prems(1) in \<open>simp add: open_kept\<close>)
    then show ?thesis by (simp add: StoreOp)
  next
    case (RemoveOp t key)
    let ?a = "snd (st_delete (\<lambda>_. True) key a)"
    have t: "now \<le> t" "op_times_from t ops" using Cons.prems(3) RemoveOp by auto
    have "run_ops st_set st_get st_delete ops ?a = ref_ops ops (ref(serializeKey key := None))"
    proof (rule Cons.IH [OF _ _ t(2)])
      show "agrees t ((ref(serializeKey key := None)) k) (map_get (entries ?a) k)" for k
        using later [OF t(1), of k] delete_gone [of a "\<lambda>_. True" key] Cons.prems(1)
          delete_others [of k key "\<lambda>_. True" a]
        by (cases "k = serializeKey key") (auto simp: agrees_def)
    qed (use Cons.prems(1) in \<open>simp add: open_kept\<close>)
    then show ?thesis by (simp add: RemoveOp)
  next
    case (ReadOp t key)
    let ?g = "st_get (\<lambda>_. True) t key a"
    have t: "now \<le> t" "op_times_from t ops" using Cons.prems(3) ReadOp by auto
    have "run_ops st_set st_get st_delete ops (snd ?g) = ref_ops ops ref"
    proof (rule Cons.IH [OF _ _ t(2)])
      show "agrees t (ref k) (map_get (entries (snd ?g)) k)" for k
        using later [OF t(1), of k] get_drops [of "\<lambda>_. True" t key a k]
        by (auto simp: agrees_def expired_def split: option.splits)
    qed (use Cons.prems(1) in \<open>simp add: open_kept\<close>)
    moreover have "map_option er_data (Option.bind (fst ?g) (\<lambda>x. x)) = ref_read t (ref (serializeKey key))"
    proof (cases "Option.bind (fst ?g) (\<lambda>x. x)")
      case (Some r)
      then have "fst ?g = Some (Some r)" by (auto split: option.splits simp: bind_eq_Some_conv)
      from get_found [OF this] later [OF t(1), of "serializeKey key"] Some show ?thesis
        by (auto simp: agrees_def ref_read_def expired_def split: option.splits)
    next
      case None
      then have no: "fst ?g \<noteq> Some (Some r)" for r by auto
      have "map_get (entries a) (serializeKey key) = Some r \<Longrightarrow> expired t (er_expires r)" for r
        using get_finds [of a "\<lambda>_. True" key r t] Cons.prems(1) no by auto
      with later [OF t(1), of "serializeKey key"] None show ?thesis
        by (auto simp: agrees_def ref_read_def expired_def split: option.splits)
    qed
    ultimately show ?thesis by (simp add: ReadOp split_beta)
  qed
qed simp

text \<open>Removing an entry never removes a cached list.\<close>

lemma delete_keeps_cached: "fst (st_cached up now source a) = Some (Some e) \<Longrightarrow> ad_open a \<Longrightarrow> up 0 \<Longrightarrow>
    \<exists>e'. fst (st_cached up now source (snd (st_delete up' key a))) = Some (Some e') \<and>
         ce_content e' = ce_content e \<and> ce_hash e' = ce_hash e"
  using cached_found [of up now source a e] cached_finds [of "snd (st_delete up' key a)" up source _ now]
  by (auto simp: filters_kept open_kept)

end

lemmas adapter_defs = when_open_def on_db_def upsert_entry_def upsert_filter_def d1_set_def d1_get_def d1_delete_def
  d1_cacheFilterList_def d1_getCachedFilterList_def hd_set_def hd_get_def hd_delete_def hd_cacheFilterList_def
  hd_getCachedFilterList_def pr_set_def pr_get_def pr_delete_def pr_cacheFilterList_def pr_getCachedFilterList_def
  computeExpiry_def ttl_expiry_def entry_cache_def

lemma map_get_delete: "map_get (map_delete k m) x = (if x = k then None else map_get m x)"
  by (induction m) (auto simp: map_get_def map_delete_def)

lemma d1_adapter: "storage_adapter d1_set d1_get d1_delete d1_cacheFilterList d1_getCachedFilterList"
  by unfold_locales
     (auto simp: adapter_defs map_get_set map_get_delete Let_def split: option.splits if_splits prod.splits)

lemma hd_adapter: "storage_adapter hd_set hd_get hd_delete hd_cacheFilterList hd_getCachedFilterList"
  by unfold_locales
     (auto simp: adapter_defs map_get_set map_get_delete Let_def split: option.splits if_splits prod.splits)

lemma pr_adapter: "storage_adapter pr_set pr_get pr_delete pr_cacheFilterList pr_getCachedFilterList"
  by unfold_locales
     (auto simp: adapter_defs map_get_set map_get_delete Let_def split: option.splits if_splits prod.splits)

text \<open>The classes that implement \<open>IStorageAdapter\<close>, and the methods a call of the interface reaches.\<close>

datatype adapter_class = D1Adapter | HyperdriveAdapter | PrismaAdapter

fun storage_set :: "adapter_class \<Rightarrow> 'v set_op" where
  "storage_set D1Adapter = d1_set" | "storage_set HyperdriveAdapter = hd_set" | "storage_set PrismaAdapter = pr_set"

fun storage_get :: "adapter_class \<Rightarrow> 'v get_op" where
  "storage_get D1Adapter = d1_get" | "storage_get HyperdriveAdapter = hd_get" | "storage_get PrismaAdapter = pr_get"

fun storage_delete :: "adapter_class \<Rightarrow> 'v delete_op" where
  "storage_delete D1Adapter = d1_delete" | "storage_delete HyperdriveAdapter = hd_delete"
| "storage_delete PrismaAdapter = pr_delete"

fun storage_list :: "adapter_class \<Rightarrow> (nat \<Rightarrow> bool) \<Rightarrow> int \<Rightarrow> query_options \<Rightarrow> 'v adapter \<Rightarrow>
    (jstr list \<times> 'v entry_row) list option \<times> 'v adapter" where
  "storage_list D1Adapter = d1_list" | "storage_list HyperdriveAdapter = hd_list" | "storage_list PrismaAdapter = pr_list"

fun storage_cache :: "adapter_class \<Rightarrow> 'v cache_op" where
  "storage_cache D1Adapter = d1_cacheFilterList" | "storage_cache HyperdriveAdapter = hd_cacheFilterList"
| "storage_cache PrismaAdapter = pr_cacheFilterList"

fun storage_cached :: "adapter_class \<Rightarrow> 'v cached_op" where
  "storage_cached D1Adapter = d1_getCachedFilterList" | "storage_cached HyperdriveAdapter = hd_getCachedFilterList"
| "storage_cached PrismaAdapter = pr_getCachedFilterList"

fun storage_clearExpired :: "adapter_class \<Rightarrow> (nat \<Rightarrow> bool) \<Rightarrow> int \<Rightarrow> 'v adapter \<Rightarrow> nat option \<times> 'v adapter" where
  "storage_clearExpired D1Adapter = d1_clearExpired" | "storage_clearExpired HyperdriveAdapter = hd_clearExpired"
| "storage_clearExpired PrismaAdapter = pr_clearExpired"

fun storage_clearCache :: "adapter_class \<Rightarrow> (nat \<Rightarrow> bool) \<Rightarrow> 'v adapter \<Rightarrow> nat option \<times> 'v adapter" where
  "storage_clearCache D1Adapter = d1_clearCache" | "storage_clearCache HyperdriveAdapter = hd_clearCache"
| "storage_clearCache PrismaAdapter = pr_clearCache"

fun storage_record :: "adapter_class \<Rightarrow> (nat \<Rightarrow> bool) \<Rightarrow> int \<Rightarrow> compilation_run \<Rightarrow> 'v adapter \<Rightarrow>
    bool option \<times> 'v adapter" where
  "storage_record D1Adapter up now = d1_storeCompilationMetadata up now"
| "storage_record HyperdriveAdapter up now = hd_storeCompilationMetadata up"
| "storage_record PrismaAdapter up now = pr_storeCompilationMetadata up"

interpretation storage: storage_adapter "storage_set c" "storage_get c" "storage_delete c" "storage_cache c"
  "storage_cached c" for c
  by (cases c) (simp_all add: d1_adapter hd_adapter pr_adapter)

definition empty_adapter :: "int \<Rightarrow> 'v adapter" where
  "empty_adapter ttl = \<lparr>ad_open = True, ad_ttl = ttl, ad_db = \<lparr>db_entries = [], db_filters = [], db_runs = []\<rparr>\<rparr>"



section \<open>The tables are well formed\<close>

text \<open>The keys of the tables are unique.  One step is any call of any operation, with any queries failing.\<close>

definition keyed :: "'v adapter \<Rightarrow> bool" where
  "keyed a \<longleftrightarrow> distinct (map fst (entries a)) \<and> distinct (map fst (filters a))"

inductive adapter_step :: "adapter_class \<Rightarrow> 'v adapter \<Rightarrow> 'v adapter \<Rightarrow> bool" for c where
  step_set: "adapter_step c a (snd (storage_set c up now key v ttl a))"
| step_get: "adapter_step c a (snd (storage_get c up now key a))"
| step_delete: "adapter_step c a (snd (storage_delete c up key a))"
| step_list: "adapter_step c a (snd (storage_list c up now q a))"
| step_cache: "adapter_step c a (snd (storage_cache c up now source content hash etag ttl a))"
| step_cached: "adapter_step c a (snd (storage_cached c up now source a))"
| step_expire: "adapter_step c a (snd (storage_clearExpired c up now a))"
| step_clear: "adapter_step c a (snd (storage_clearCache c up a))"
| step_record: "adapter_step c a (snd (storage_record c up now run a))"
| step_close: "adapter_step c a (a\<lparr>ad_open := opened\<rparr>)"

lemma distinct_map_set: "distinct (map fst m) \<Longrightarrow> distinct (map fst (map_set k v m))"
  by (simp add: keys_map_set map_has_def)

lemma distinct_map_delete: "distinct (map fst m) \<Longrightarrow> distinct (map fst (map_delete k m))"
  by (simp add: keys_map_delete)

lemma distinct_keys_filter: "distinct (map fst m) \<Longrightarrow> distinct (map fst (filter P m))"
  by (induction m) auto

lemmas keyed_simps = keyed_def on_db_def when_open_def Let_def delete_where_def distinct_map_set distinct_map_delete
  distinct_keys_filter upsert_entry_def upsert_filter_def

lemma set_keyed: "keyed a \<Longrightarrow> keyed (snd (storage_set c up now key v ttl a))"
  by (cases c) (auto simp: keyed_simps d1_set_def hd_set_def pr_set_def)

lemma get_keyed: "keyed a \<Longrightarrow> keyed (snd (storage_get c up now key a))"
  by (cases c) (auto simp: keyed_simps d1_get_def hd_get_def pr_get_def pr_delete_def split: option.splits)

lemma delete_keyed: "keyed a \<Longrightarrow> keyed (snd (storage_delete c up key a))"
  by (cases c) (auto simp: keyed_simps d1_delete_def hd_delete_def pr_delete_def)

lemma list_keyed: "keyed a \<Longrightarrow> keyed (snd (storage_list c up now q a))"
  by (cases c) (auto simp: keyed_simps d1_list_def hd_list_def pr_list_def)

lemma cache_keyed: "keyed a \<Longrightarrow> keyed (snd (storage_cache c up now source content hash etag ttl a))"
  by (cases c) (auto simp: keyed_simps d1_cacheFilterList_def hd_cacheFilterList_def pr_cacheFilterList_def)

lemma cached_keyed: "keyed a \<Longrightarrow> keyed (snd (storage_cached c up now source a))"
  by (cases c) (auto simp: keyed_simps d1_getCachedFilterList_def hd_getCachedFilterList_def
      pr_getCachedFilterList_def split: option.splits)

lemma expire_keyed: "keyed a \<Longrightarrow> keyed (snd (storage_clearExpired c up now a))"
  by (cases c) (auto simp: keyed_simps d1_clearExpired_def hd_clearExpired_def pr_clearExpired_def)

lemma clear_keyed: "keyed a \<Longrightarrow> keyed (snd (storage_clearCache c up a))"
  by (cases c) (auto simp: keyed_simps d1_clearCache_def hd_clearCache_def pr_clearCache_def)

lemma record_keyed: "keyed a \<Longrightarrow> keyed (snd (storage_record c up now run a))"
  by (cases c) (auto simp: keyed_simps d1_storeCompilationMetadata_def hd_storeCompilationMetadata_def
      pr_storeCompilationMetadata_def)

lemma step_keyed: "adapter_step c a a' \<Longrightarrow> keyed a \<Longrightarrow> keyed a'"
  by (induction rule: adapter_step.induct)
    (simp_all add: set_keyed get_keyed delete_keyed list_keyed cache_keyed cached_keyed expire_keyed clear_keyed record_keyed,
     simp add: keyed_def)

interpretation adapters: transition_system "\<lambda>a. a = empty_adapter ttl" "adapter_step c" keyed for c ttl
  by unfold_locales (auto simp: step_keyed, simp_all add: keyed_def empty_adapter_def)



section \<open>Where the adapters differ\<close>

text \<open>
  Where the adapters differ.  Without a time to live, D1 keeps an entry for its default time, the
  others for good.  A time to live of 0 keeps a cached list for good on D1 and until the next
  millisecond elsewhere.  When the database fails, Hyperdrive reports a removal that did not happen.  A
  prefix selects, outside D1, also the keys whose next part only begins with its last part, so that the
  history of one source contains that of another.  Prisma does not count the cached lists it removes.
\<close>

theorem adapters_differ:
  "(let stored = (\<lambda>c. snd (storage_set c (\<lambda>_. True) 0 [''k''] (1 :: int) None (empty_adapter 100)))
    in map (\<lambda>c. map_option (map_option er_data) (fst (storage_get c (\<lambda>_. True) 101 [''k''] (stored c))))
         [D1Adapter, HyperdriveAdapter, PrismaAdapter] = [Some None, Some (Some 1), Some (Some 1)]) \<and>
   (let kept = (\<lambda>c. snd (storage_cache c (\<lambda>_. True) 0 ''s'' [''r''] ''h'' None (Some 0) (empty_adapter 100 :: int adapter)))
    in map (\<lambda>c. map_option (map_option ce_content) (fst (storage_cached c (\<lambda>_. True) 1 ''s'' (kept c))))
         [D1Adapter, HyperdriveAdapter, PrismaAdapter] = [Some (Some [''r'']), Some None, Some None]) \<and>
   map (\<lambda>c. storage_delete c (\<lambda>_. False) [''k''] (empty_adapter 100 :: int adapter))
     [D1Adapter, HyperdriveAdapter, PrismaAdapter] =
     [(Some False, empty_adapter 100), (Some True, empty_adapter 100), (Some False, empty_adapter 100)] \<and>
   (let history = (\<lambda>c s. storage_set c (\<lambda>_. True) 0 [''history'', s, ''1''] (7 :: int) (Some 9));
        q = \<lparr>qo_prefix = Some [''history'', ''list''], qo_limit = None, qo_start = None, qo_end = None, qo_reverse = False\<rparr>
    in map (\<lambda>c. map_option length (fst (storage_list c (\<lambda>_. True) 1 q (snd (history c ''list2'' (empty_adapter 100))))))
         [D1Adapter, HyperdriveAdapter, PrismaAdapter] = [Some 0, Some 1, Some 1]) \<and>
   (let old = (empty_adapter 100 :: int adapter)\<lparr>ad_db := \<lparr>db_entries = [],
          db_filters = [(''s'', \<lparr>fl_content = [], fl_hash = [], fl_etag = None, fl_expires = Some 0\<rparr>)], db_runs = []\<rparr>\<rparr>
    in fst (d1_clearExpired (\<lambda>_. True) 1 old) = Some 1 \<and> fst (hd_clearExpired (\<lambda>_. True) 1 old) = Some 1 \<and>
       fst (pr_clearExpired (\<lambda>_. True) 1 old) = Some 0)"
  by (intro conjI; code_simp)

end
