(* ===== verification/Caching.thy ===== *)
theory Caching
  imports Storage Health Snapshots
begin

text \<open>
  The downloader with a cache (\<open>src/storage/CachingDownloader.ts\<close>) over the storage adapters of \<open>Storage\<close>,
  with the health records of \<open>Health\<close> and the snapshots of \<open>Snapshots\<close>.  A run of a download is given by
  the times at which it begins, at which the cache has answered and at which the inner downloader has,
  that answer, and which queries for the cached list succeed.  Health records and snapshots are kept by
  the same adapter under keys of their own; here they are stores of their own, whose queries succeed.  \<open>sha256\<close> is the digest of a text in hexadecimal; \<open>keep\<close> is the number
  of attempts a health record holds.
\<close>

record caching_options =
  co_enabled :: bool
  co_ttl :: int
  co_detect :: bool
  co_health :: bool
  co_force :: bool

definition default_caching_options :: caching_options where
  "default_caching_options =
     \<lparr>co_enabled = True, co_ttl = 3600000, co_detect = True, co_health = True, co_force = False\<rparr>"

record download_run =
  rn_start :: int
  rn_hit :: int
  rn_end :: int
  rn_fetch :: "jstr + lines"
  rn_read :: "nat \<Rightarrow> bool"
  rn_write :: "nat \<Rightarrow> bool"

record download_result =
  dr_content :: lines
  dr_fromCache :: bool
  dr_hash :: jstr
  dr_duration :: int
  dr_hasChanged :: "bool option"
  dr_ruleCountDelta :: "int option"

record 'v caching =
  ca_adapter :: "'v adapter"
  ca_health :: health_store
  ca_snapshots :: snapshot_store

definition hashContent :: "(jstr \<Rightarrow> jstr) \<Rightarrow> lines \<Rightarrow> jstr" where
  "hashContent sha256 content = sha256 (join_with [CHR 0x0A] content)"

definition good_attempt :: "download_run \<Rightarrow> lines \<Rightarrow> attempt" where
  "good_attempt run content =
     \<lparr>at_timestamp = rn_end run, at_success = True, at_duration = of_int (rn_end run - rn_start run),
      at_error = None, at_ruleCount = Some (length content), at_etag = None\<rparr>"

definition bad_attempt :: "download_run \<Rightarrow> jstr \<Rightarrow> attempt" where
  "bad_attempt run err =
     \<lparr>at_timestamp = rn_end run, at_success = False, at_duration = of_int (rn_end run - rn_start run),
      at_error = Some err, at_ruleCount = None, at_etag = None\<rparr>"

definition recorded :: "nat \<Rightarrow> caching_options \<Rightarrow> jstr \<Rightarrow> attempt \<Rightarrow> 'v caching \<Rightarrow> 'v caching" where
  "recorded keep opts source a s =
     (if co_health opts then s\<lparr>ca_health := recordAttempt keep source a (ca_health s)\<rparr> else s)"

definition observed :: "caching_options \<Rightarrow> int \<Rightarrow> jstr \<Rightarrow> lines \<Rightarrow> jstr \<Rightarrow> 'v caching \<Rightarrow> bool \<times> int \<times> 'v caching" where
  "observed opts now source content hash s =
     (if \<not> co_detect opts then (False, 0, s)
      else let (r, snaps) = detectAndStore now source content hash None (ca_snapshots s);
               archived = (if cr_hasChanged r \<and> 100 < \<bar>cr_ruleCountDelta r\<bar>
                           then archiveSnapshot (cr_current r) snaps else snaps)
           in (cr_hasChanged r, cr_ruleCountDelta r, s\<lparr>ca_snapshots := archived\<rparr>))"

definition closed_error :: "adapter_class \<Rightarrow> jstr" where
  "closed_error c = (case c of D1Adapter \<Rightarrow> ''D1StorageAdapter is not open. Call open() first.''
                     | _ \<Rightarrow> ''Storage not initialized. Call open() first.'')"

text \<open>On an adapter that is not open the first access throws, and the record of that failure throws the same.\<close>

definition closed_download :: "adapter_class \<Rightarrow> (jstr \<Rightarrow> jstr) \<Rightarrow> caching_options \<Rightarrow> download_run \<Rightarrow> jstr + download_result" where
  "closed_download c sha256 opts run =
     (if co_enabled opts \<and> \<not> co_force opts then Inl (closed_error c)
      else case rn_fetch run of
             Inl err \<Rightarrow> Inl (if co_health opts then closed_error c else err)
           | Inr content \<Rightarrow>
               if co_enabled opts \<or> co_detect opts \<or> co_health opts then Inl (closed_error c)
               else Inr \<lparr>dr_content = content, dr_fromCache = False, dr_hash = hashContent sha256 content,
                         dr_duration = rn_end run - rn_start run, dr_hasChanged = Some False,
                         dr_ruleCountDelta = Some 0\<rparr>)"

text \<open>The lookup in the cache, if it is enabled and no refresh is forced, and the download when it gave nothing.\<close>

definition cache_lookup :: "adapter_class \<Rightarrow> caching_options \<Rightarrow> download_run \<Rightarrow> jstr \<Rightarrow> 'v adapter \<Rightarrow>
    cache_entry option \<times> 'v adapter" where
  "cache_lookup c opts run source a =
     (if co_enabled opts \<and> \<not> co_force opts
      then case storage_cached c (rn_read run) (rn_start run) source a of (r, a') \<Rightarrow> (Option.bind r (\<lambda>e. e), a')
      else (None, a))"

definition stored_fresh :: "adapter_class \<Rightarrow> caching_options \<Rightarrow> download_run \<Rightarrow> jstr \<Rightarrow> lines \<Rightarrow> jstr \<Rightarrow> 'v adapter \<Rightarrow> 'v adapter" where
  "stored_fresh c opts run source content hash a =
     (if co_enabled opts
      then snd (storage_cache c (rn_write run) (rn_end run) source content hash None (Some (co_ttl opts)) a) else a)"

definition download_fresh :: "adapter_class \<Rightarrow> (jstr \<Rightarrow> jstr) \<Rightarrow> nat \<Rightarrow> caching_options \<Rightarrow>
    download_run \<Rightarrow> jstr \<Rightarrow> 'v caching \<Rightarrow> (jstr + download_result) \<times> 'v caching" where
  "download_fresh c sha256 keep opts run source s =
     (case rn_fetch run of
        Inl err \<Rightarrow> (Inl err, recorded keep opts source (bad_attempt run err) s)
      | Inr content \<Rightarrow>
          (let hash = hashContent sha256 content;
               s1 = s\<lparr>ca_adapter := stored_fresh c opts run source content hash (ca_adapter s)\<rparr>;
               (changed, delta, s2) = observed opts (rn_end run) source content hash s1
           in (Inr \<lparr>dr_content = content, dr_fromCache = False, dr_hash = hash,
                    dr_duration = rn_end run - rn_start run,
                    dr_hasChanged = Some changed, dr_ruleCountDelta = Some delta\<rparr>,
               recorded keep opts source (good_attempt run content) s2)))"

definition downloadWithMetadata :: "adapter_class \<Rightarrow> (jstr \<Rightarrow> jstr) \<Rightarrow> nat \<Rightarrow> caching_options \<Rightarrow>
    download_run \<Rightarrow> jstr \<Rightarrow> 'v caching \<Rightarrow> (jstr + download_result) \<times> 'v caching" where
  "downloadWithMetadata c sha256 keep opts run source s =
     (if \<not> ad_open (ca_adapter s) then (closed_download c sha256 opts run, s)
      else case cache_lookup c opts run source (ca_adapter s) of
             (Some e, a) \<Rightarrow>
               (Inr \<lparr>dr_content = ce_content e, dr_fromCache = True, dr_hash = ce_hash e,
                     dr_duration = rn_hit run - rn_start run, dr_hasChanged = None, dr_ruleCountDelta = None\<rparr>,
                s\<lparr>ca_adapter := a\<rparr>)
           | (None, a) \<Rightarrow> download_fresh c sha256 keep opts run source (s\<lparr>ca_adapter := a\<rparr>))"

definition caching_download :: "adapter_class \<Rightarrow> (jstr \<Rightarrow> jstr) \<Rightarrow> nat \<Rightarrow> caching_options \<Rightarrow>
    download_run \<Rightarrow> jstr \<Rightarrow> 'v caching \<Rightarrow> (jstr + lines) \<times> 'v caching" where
  "caching_download c sha256 keep opts run source s =
     (case downloadWithMetadata c sha256 keep opts run source s of
        (Inr d, s') \<Rightarrow> (Inr (dr_content d), s') | (Inl err, s') \<Rightarrow> (Inl err, s'))"

definition isCached :: "adapter_class \<Rightarrow> (nat \<Rightarrow> bool) \<Rightarrow> int \<Rightarrow> jstr \<Rightarrow> 'v caching \<Rightarrow> bool option \<times> 'v caching" where
  "isCached c up now source s =
     (case storage_cached c up now source (ca_adapter s) of
        (r, a) \<Rightarrow> (map_option (\<lambda>e. e \<noteq> None) r, s\<lparr>ca_adapter := a\<rparr>))"

definition invalidateCache :: "adapter_class \<Rightarrow> (nat \<Rightarrow> bool) \<Rightarrow> jstr \<Rightarrow> 'v caching \<Rightarrow> 'v caching" where
  "invalidateCache c up source s =
     s\<lparr>ca_adapter := snd (storage_delete c up [''cache'', ''filters'', source] (ca_adapter s))\<rparr>"

record prewarm_result =
  pw_successful :: nat
  pw_failed :: nat
  pw_errors :: "(jstr \<times> jstr) list"

definition prewarm_step :: "adapter_class \<Rightarrow> (jstr \<Rightarrow> jstr) \<Rightarrow> nat \<Rightarrow> caching_options \<Rightarrow> jstr \<times> download_run \<Rightarrow>
    prewarm_result \<times> 'v caching \<Rightarrow> prewarm_result \<times> 'v caching" where
  "prewarm_step c sha256 keep opts x st =
     (case downloadWithMetadata c sha256 keep opts (snd x) (fst x) (snd st) of
        (Inr d, s') \<Rightarrow> ((fst st)\<lparr>pw_successful := pw_successful (fst st) + 1\<rparr>, s')
      | (Inl err, s') \<Rightarrow> ((fst st)\<lparr>pw_failed := pw_failed (fst st) + 1, pw_errors := pw_errors (fst st) @ [(fst x, err)]\<rparr>, s'))"

definition prewarmCache :: "adapter_class \<Rightarrow> (jstr \<Rightarrow> jstr) \<Rightarrow> nat \<Rightarrow> caching_options \<Rightarrow> (jstr \<times> download_run) list \<Rightarrow>
    'v caching \<Rightarrow> prewarm_result \<times> 'v caching" where
  "prewarmCache c sha256 keep opts sources s =
     fold (prewarm_step c sha256 keep opts) sources (\<lparr>pw_successful = 0, pw_failed = 0, pw_errors = []\<rparr>, s)"

record cache_stats =
  cst_totalCached :: nat
  cst_totalSize :: nat
  cst_oldest :: "int option"
  cst_newest :: "int option"

definition getCacheStats :: "('v entry_row \<Rightarrow> nat) \<Rightarrow> adapter_class \<Rightarrow> (nat \<Rightarrow> bool) \<Rightarrow> int \<Rightarrow> 'v caching \<Rightarrow> cache_stats option" where
  "getCacheStats json_length c up now s =
     map_option (\<lambda>es.
        \<lparr>cst_totalCached = length es, cst_totalSize = sum_list (map (json_length \<circ> snd) es),
         cst_oldest = fold (\<lambda>e old. case old of None \<Rightarrow> Some (er_created (snd e))
                            | Some t \<Rightarrow> Some (if t = 0 then er_created (snd e) else min t (er_created (snd e)))) es None,
         cst_newest = fold (\<lambda>e new. case new of None \<Rightarrow> Some (er_created (snd e))
                            | Some t \<Rightarrow> Some (if t = 0 then er_created (snd e) else max t (er_created (snd e)))) es None\<rparr>)
       (fst (storage_list c up now
          \<lparr>qo_prefix = Some [''cache'', ''filters''], qo_limit = None, qo_start = None, qo_end = None, qo_reverse = False\<rparr>
          (ca_adapter s)))"

text \<open>Any number of downloads, one after the other.\<close>

primrec download_all :: "adapter_class \<Rightarrow> (jstr \<Rightarrow> jstr) \<Rightarrow> nat \<Rightarrow> caching_options \<Rightarrow> (jstr \<times> download_run) list \<Rightarrow>
    'v caching \<Rightarrow> (jstr + download_result) list \<times> 'v caching" where
  "download_all c sha256 keep opts [] s = ([], s)"
| "download_all c sha256 keep opts (x # xs) s =
     (case downloadWithMetadata c sha256 keep opts (snd x) (fst x) s of
        (r, s') \<Rightarrow> (case download_all c sha256 keep opts xs s' of (rs, s'') \<Rightarrow> (r # rs, s'')))"


section \<open>The cache as an abstract store\<close>

text \<open>
  The specification: for each source the content that was stored last and when.  It is served until
  its time is over, in milliseconds after it was stored; otherwise the source is fetched.
\<close>

type_synonym cache_spec = "jstr \<Rightarrow> (lines \<times> int) option"

definition still_fresh :: "caching_options \<Rightarrow> int \<Rightarrow> (lines \<times> int) option \<Rightarrow> lines option" where
  "still_fresh opts now e =
     (case e of Some (content, t) \<Rightarrow> if now \<le> t + co_ttl opts then Some content else None | None \<Rightarrow> None)"

definition spec_fetch :: "caching_options \<Rightarrow> jstr \<times> download_run \<Rightarrow> cache_spec \<Rightarrow> (jstr + lines \<times> bool) \<times> cache_spec" where
  "spec_fetch opts x ref =
     (case rn_fetch (snd x) of
        Inl err \<Rightarrow> (Inl err, ref)
      | Inr content \<Rightarrow>
          (Inr (content, False),
           if co_enabled opts \<and> rn_write (snd x) 0 then ref(fst x \<mapsto> (content, rn_end (snd x))) else ref))"

definition spec_download :: "caching_options \<Rightarrow> jstr \<times> download_run \<Rightarrow> cache_spec \<Rightarrow> (jstr + lines \<times> bool) \<times> cache_spec" where
  "spec_download opts x ref =
     (if co_enabled opts \<and> \<not> co_force opts \<and> rn_read (snd x) 0
      then case still_fresh opts (rn_start (snd x)) (ref (fst x)) of
             Some content \<Rightarrow> (Inr (content, True), ref)
           | None \<Rightarrow> spec_fetch opts x ref
      else spec_fetch opts x ref)"

primrec spec_all :: "caching_options \<Rightarrow> (jstr \<times> download_run) list \<Rightarrow> cache_spec \<Rightarrow> (jstr + lines \<times> bool) list" where
  "spec_all opts [] ref = []"
| "spec_all opts (x # xs) ref =
     (case spec_download opts x ref of (r, ref') \<Rightarrow> r # spec_all opts xs ref')"

text \<open>What a caller sees of a download.\<close>

definition served :: "jstr + download_result \<Rightarrow> jstr + lines \<times> bool" where
  "served r = (case r of Inl err \<Rightarrow> Inl err | Inr d \<Rightarrow> Inr (dr_content d, dr_fromCache d))"

text \<open>Runs that follow each other in time.\<close>

fun in_time :: "int \<Rightarrow> (jstr \<times> download_run) list \<Rightarrow> bool" where
  "in_time now [] = True"
| "in_time now (x # xs) \<longleftrightarrow> now \<le> rn_start (snd x) \<and> rn_start (snd x) \<le> rn_end (snd x) \<and> in_time (rn_end (snd x)) xs"

definition row_agrees :: "caching_options \<Rightarrow> int \<Rightarrow> (lines \<times> int) option \<Rightarrow> filter_row option \<Rightarrow> bool" where
  "row_agrees opts now e r \<longleftrightarrow>
     (case e of
        None \<Rightarrow> r = None
      | Some (content, t) \<Rightarrow>
          (case r of None \<Rightarrow> t + co_ttl opts < now
                   | Some q \<Rightarrow> fl_content q = content \<and> fl_expires q = Some (t + co_ttl opts)))"

lemma row_agrees_later: "row_agrees opts now e r \<Longrightarrow> now \<le> t \<Longrightarrow> row_agrees opts t e r"
  by (auto simp: row_agrees_def split: option.splits)

lemma row_agrees_fresh: "row_agrees opts now e (Some q) \<Longrightarrow>
    still_fresh opts t e = (if expired t (fl_expires q) then None else Some (fl_content q))"
  by (auto simp: row_agrees_def still_fresh_def expired_def split: option.splits)

lemma row_agrees_gone: "row_agrees opts now e None \<Longrightarrow> now \<le> t \<Longrightarrow> still_fresh opts t e = None"
  by (auto simp: row_agrees_def still_fresh_def split: option.splits)

lemma recorded_adapter [simp]: "ca_adapter (recorded keep opts source a s) = ca_adapter s"
  by (simp add: recorded_def)

lemma observed_adapter [simp]: "ca_adapter (snd (snd (observed opts now source content hash s))) = ca_adapter s"
  by (simp add: observed_def Let_def split: prod.split)

lemma row_gone_fresh: "r = None \<or> (\<exists>q. r = Some q \<and> expired t (fl_expires q)) \<Longrightarrow> row_agrees opts now e r \<Longrightarrow> now \<le> t \<Longrightarrow>
    still_fresh opts t e = None"
  by (auto simp: row_agrees_fresh row_agrees_gone)

text \<open>What a lookup gives, and that it keeps the rows in agreement.\<close>

lemma lookup_gives:
  assumes "ad_open a" "row_agrees opts now (ref source) (map_get (filters a) source)" "now \<le> rn_start run"
  shows "map_option ce_content (fst (cache_lookup c opts run source a)) =
    (if co_enabled opts \<and> \<not> co_force opts \<and> rn_read run 0 then still_fresh opts (rn_start run) (ref source) else None)"
proof (cases "co_enabled opts \<and> \<not> co_force opts \<and> rn_read run 0")
  case True
  let ?r = "storage_cached c (rn_read run) (rn_start run) source a"
  have look: "fst (cache_lookup c opts run source a) = Option.bind (fst ?r) (\<lambda>e. e)"
    using True by (simp add: cache_lookup_def split_beta)
  show ?thesis
  proof (cases "\<exists>q. map_get (filters a) source = Some q \<and> \<not> expired (rn_start run) (fl_expires q)")
    case True
    then obtain q where q: "map_get (filters a) source = Some q" "\<not> expired (rn_start run) (fl_expires q)" by blast
    from storage.cached_finds [of a "rn_read run" source q "rn_start run" c] q assms(1) \<open>co_enabled opts \<and> _\<close>
    obtain e where "fst ?r = Some (Some e)" "ce_content e = fl_content q" by blast
    then show ?thesis using \<open>co_enabled opts \<and> _\<close> row_agrees_fresh [of opts now "ref source" q] assms(2) q
      by (simp add: look)
  next
    case False
    then have "fst ?r \<noteq> Some (Some e)" for e
      using storage.cached_found [of c "rn_read run" "rn_start run" source a e] by blast
    then have "Option.bind (fst ?r) (\<lambda>e. e) = None" by (cases "fst ?r") auto
    moreover have "still_fresh opts (rn_start run) (ref source) = None"
      using False by (intro row_gone_fresh [OF _ assms(2,3)]) (cases "map_get (filters a) source"; auto)
    ultimately show ?thesis by (simp add: look)
  qed
next
  case False
  then show ?thesis using storage.cached_down [of "rn_read run" a c "rn_start run" source] assms(1)
    by (auto simp: cache_lookup_def)
qed

lemma lookup_keeps:
  assumes "now \<le> rn_start run" "row_agrees opts now (ref s) (map_get (filters a) s)"
  shows "row_agrees opts (rn_start run) (ref s) (map_get (filters (snd (cache_lookup c opts run source a))) s)"
  using storage.cached_drops [of c "rn_read run" "rn_start run" source a s] row_agrees_later [OF assms(2,1)] assms(2)
  by (auto simp: cache_lookup_def split_beta row_agrees_def expired_def split: option.splits)

lemma lookup_open: "ad_open (snd (cache_lookup c opts run source a)) = ad_open a"
  by (simp add: cache_lookup_def split_beta storage.open_kept)

lemma stored_open: "ad_open (stored_fresh c opts run source content hash a) = ad_open a"
  by (simp add: stored_fresh_def storage.open_kept)

lemma fresh_adapter: "ca_adapter (snd (download_fresh c sha256 keep opts run source s)) =
    (case rn_fetch run of Inl err \<Rightarrow> ca_adapter s
     | Inr content \<Rightarrow> stored_fresh c opts run source content (hashContent sha256 content) (ca_adapter s))"
  using observed_adapter by (auto simp: download_fresh_def Let_def split_beta split: sum.split)

lemma fresh_served: "served (fst (download_fresh c sha256 keep opts (snd x) (fst x) s)) = fst (spec_fetch opts x ref)"
  by (auto simp: download_fresh_def Let_def split_beta served_def spec_fetch_def split: sum.split)

lemma fresh_rows:
  assumes "ad_open (ca_adapter s)" "0 < co_ttl opts" "rn_start (snd x) \<le> rn_end (snd x)"
    and "\<forall>k. row_agrees opts (rn_start (snd x)) (ref k) (map_get (filters (ca_adapter s)) k)"
  shows "row_agrees opts (rn_end (snd x)) (snd (spec_fetch opts x ref) k)
    (map_get (filters (ca_adapter (snd (download_fresh c sha256 keep opts (snd x) (fst x) s)))) k)"
  using row_agrees_later [OF spec [OF assms(4)] assms(3), of k] assms(1,2)
  by (auto simp: fresh_adapter spec_fetch_def stored_fresh_def storage.cache_row row_agrees_def split: sum.split option.split)

lemma download_step:
  assumes "ad_open (ca_adapter s)" "0 < co_ttl opts" "now \<le> rn_start (snd x)" "rn_start (snd x) \<le> rn_end (snd x)"
    and rows: "\<forall>k. row_agrees opts now (ref k) (map_get (filters (ca_adapter s)) k)"
  shows "served (fst (downloadWithMetadata c sha256 keep opts (snd x) (fst x) s)) = fst (spec_download opts x ref)"
    and "ad_open (ca_adapter (snd (downloadWithMetadata c sha256 keep opts (snd x) (fst x) s)))"
    and "row_agrees opts (rn_end (snd x)) (snd (spec_download opts x ref) k)
      (map_get (filters (ca_adapter (snd (downloadWithMetadata c sha256 keep opts (snd x) (fst x) s)))) k)"
proof -
  obtain found a where l: "cache_lookup c opts (snd x) (fst x) (ca_adapter s) = (found, a)" by fastforce
  have opened: "ad_open a" using lookup_open [of c opts "snd x" "fst x" "ca_adapter s"] assms(1) l by simp
  have gives: "map_option ce_content found =
      (if co_enabled opts \<and> \<not> co_force opts \<and> rn_read (snd x) 0 then still_fresh opts (rn_start (snd x)) (ref (fst x)) else None)"
    using lookup_gives [of "ca_adapter s" opts now ref "fst x" "snd x" c] assms(1,3) rows l by simp
  have keeps: "\<forall>k. row_agrees opts (rn_start (snd x)) (ref k) (map_get (filters a) k)"
    using lookup_keeps [of now "snd x" opts ref _ "ca_adapter s" c "fst x"] assms(3) rows l by simp
  have spec: "spec_download opts x ref =
      (case found of Some e \<Rightarrow> (Inr (ce_content e, True), ref) | None \<Rightarrow> spec_fetch opts x ref)"
    using gives by (auto simp: spec_download_def split: option.splits if_splits)
  have run: "downloadWithMetadata c sha256 keep opts (snd x) (fst x) s = (case found of
        Some e \<Rightarrow> (Inr \<lparr>dr_content = ce_content e, dr_fromCache = True, dr_hash = ce_hash e,
                     dr_duration = rn_hit (snd x) - rn_start (snd x), dr_hasChanged = None, dr_ruleCountDelta = None\<rparr>,
                   s\<lparr>ca_adapter := a\<rparr>)
      | None \<Rightarrow> download_fresh c sha256 keep opts (snd x) (fst x) (s\<lparr>ca_adapter := a\<rparr>))"
    using assms(1) l by (simp add: downloadWithMetadata_def)
  show "served (fst (downloadWithMetadata c sha256 keep opts (snd x) (fst x) s)) = fst (spec_download opts x ref)"
    unfolding run spec by (cases found) (simp_all add: fresh_served, simp add: served_def)
  show "ad_open (ca_adapter (snd (downloadWithMetadata c sha256 keep opts (snd x) (fst x) s)))"
    unfolding run using opened by (cases found) (auto simp: fresh_adapter stored_open split: sum.split)
  show "row_agrees opts (rn_end (snd x)) (snd (spec_download opts x ref) k)
      (map_get (filters (ca_adapter (snd (downloadWithMetadata c sha256 keep opts (snd x) (fst x) s)))) k)"
    unfolding run spec
    using fresh_rows [of "s\<lparr>ca_adapter := a\<rparr>" opts x ref k c sha256 keep] keeps opened assms(2,4)
      row_agrees_later [OF HOL.spec [OF keeps] assms(4), of k]
    by (cases found) auto
qed

lemma download_all_refines:
  "ad_open (ca_adapter s) \<Longrightarrow> 0 < co_ttl opts \<Longrightarrow> in_time now xs \<Longrightarrow>
   \<forall>k. row_agrees opts now (ref k) (map_get (filters (ca_adapter s)) k) \<Longrightarrow>
   map served (fst (download_all c sha256 keep opts xs s)) = spec_all opts xs ref"
proof (induction xs arbitrary: s now ref)
  case (Cons x xs)
  from Cons.prems have t: "now \<le> rn_start (snd x)" "rn_start (snd x) \<le> rn_end (snd x)" "in_time (rn_end (snd x)) xs" by auto
  note step = download_step [OF Cons.prems(1,2) t(1,2) Cons.prems(4), where c = c and keep = keep and ?sha256.0 = sha256]
  from Cons.IH [OF step(2) Cons.prems(2) t(3), of "snd (spec_download opts x ref)"] step(1,3) show ?case
    by (simp add: split_beta)
qed simp

definition fresh_caching :: "int \<Rightarrow> 'v caching" where
  "fresh_caching ttl = \<lparr>ca_adapter = empty_adapter ttl, ca_health = Map.empty,
     ca_snapshots = \<lparr>st_latest = Map.empty, st_history = (\<lambda>_. Map.empty)\<rparr>\<rparr>"

lemma fresh_caching_start: "ad_open (ca_adapter (fresh_caching ttl))" "ca_health (fresh_caching ttl) = Map.empty"
  by (simp_all add: fresh_caching_def empty_adapter_def)

text \<open>
  C37. The cache serves what was stored last.  Whatever sources are downloaded one after the other, on any
  of the adapters and whichever queries fail, each download gives what the specification says: the
  content of the latest download of that source that was stored, as long as it is not older than the
  time to live and the lookup succeeds, and otherwise what the fetch gives, an error included.
\<close>

theorem cache_refines:
  assumes "0 < co_ttl opts" "in_time now xs"
  shows "map served (fst (download_all c sha256 keep opts xs (fresh_caching ttl))) = spec_all opts xs (\<lambda>_. None)"
  by (rule download_all_refines [OF _ assms]) (simp_all add: fresh_caching_def empty_adapter_def map_get_def row_agrees_def)


definition run_at :: "int \<Rightarrow> jstr + lines \<Rightarrow> download_run" where
  "run_at t r = \<lparr>rn_start = t, rn_hit = t + 1, rn_end = t + 5, rn_fetch = r, rn_read = (\<lambda>_. True), rn_write = (\<lambda>_. True)\<rparr>"

theorem cache_refines_witness:
  "map served (fst (download_all D1Adapter (\<lambda>h. h) 10 default_caching_options
     [(''a'', run_at 0 (Inr [''x''])), (''a'', run_at 3600005 (Inr [''y''])), (''a'', run_at 3600010 (Inl ''down''))]
     (fresh_caching 0 :: int caching))) =
   [Inr ([''x''], False), Inr ([''x''], True), Inl ''down'']"
  by (subst cache_refines [where now = 0])
    (simp_all add: run_at_def default_caching_options_def spec_download_def spec_fetch_def still_fresh_def)

section \<open>Health, statistics and invalidation\<close>

text \<open>The attempt that a download records: none when the cache answered.\<close>

definition attempt_of :: "jstr \<times> download_run \<Rightarrow> (jstr + lines \<times> bool) \<Rightarrow> (jstr \<times> attempt) list" where
  "attempt_of x r =
     (case r of
        Inl err \<Rightarrow> [(fst x, bad_attempt (snd x) err)]
      | Inr (content, hit) \<Rightarrow> if hit then [] else [(fst x, good_attempt (snd x) content)])"

definition attempts_of :: "(jstr \<times> download_run) list \<Rightarrow> (jstr + lines \<times> bool) list \<Rightarrow> (jstr \<times> attempt) list" where
  "attempts_of xs rs = concat (map2 attempt_of xs rs)"

lemma observed_health: "ca_health (snd (snd (observed opts now source content hash s))) = ca_health s"
  by (simp add: observed_def Let_def split: prod.split)

lemma record_all_append: "record_all keep (es @ fs) store = record_all keep fs (record_all keep es store)"
  by (induction es arbitrary: store) simp_all

lemma fresh_health: "co_health opts \<Longrightarrow> ca_health (snd (download_fresh c sha256 keep opts run source s)) =
    record_all keep (attempt_of (source, run) (served (fst (download_fresh c sha256 keep opts run source s)))) (ca_health s)"
  by (auto simp: download_fresh_def Let_def split_beta served_def attempt_of_def recorded_def observed_health split: sum.split)

lemma download_health: "co_health opts \<Longrightarrow> ad_open (ca_adapter s) \<Longrightarrow>
    ca_health (snd (downloadWithMetadata c sha256 keep opts run source s)) =
    record_all keep (attempt_of (source, run) (served (fst (downloadWithMetadata c sha256 keep opts run source s)))) (ca_health s)"
  by (auto simp: downloadWithMetadata_def fresh_health split: prod.split option.split)
     (simp add: served_def attempt_of_def)

lemma fresh_open: "ad_open (ca_adapter (snd (download_fresh c sha256 keep opts run source s))) = ad_open (ca_adapter s)"
  by (auto simp: fresh_adapter stored_open split: sum.split)

lemma download_open: "ad_open (ca_adapter (snd (downloadWithMetadata c sha256 keep opts run source s))) = ad_open (ca_adapter s)"
  using lookup_open [of c opts run source "ca_adapter s"]
  by (auto simp: downloadWithMetadata_def fresh_open split: prod.split option.split)

lemma download_all_health: "co_health opts \<Longrightarrow> ad_open (ca_adapter s) \<Longrightarrow>
    ca_health (snd (download_all c sha256 keep opts xs s)) =
    record_all keep (attempts_of xs (map served (fst (download_all c sha256 keep opts xs s)))) (ca_health s)"
proof (induction xs arbitrary: s)
  case (Cons x xs)
  then show ?case
    using Cons.IH [of "snd (downloadWithMetadata c sha256 keep opts (snd x) (fst x) s)"]
    by (simp add: split_beta download_open download_health attempts_of_def record_all_append)
qed (simp add: attempts_of_def)

text \<open>
  A cached answer leaves no trace in the health of its source.  After any downloads the metrics of a
  source are those of the history of its fetches alone, the failed ones included, with their times and
  durations.
\<close>

theorem cache_health:
  assumes "0 < keep" "co_health opts"
  shows "getHealthMetrics source (ca_health (snd (download_all c sha256 keep opts xs (fresh_caching ttl :: 'v caching)))) =
    metrics_of keep source
      (history_of source (attempts_of xs (map served (fst (download_all c sha256 keep opts xs (fresh_caching ttl :: 'v caching))))))"
proof -
  have "\<forall>s. getHealthMetrics s Map.empty = metrics_of keep s []" by (simp add: getHealthMetrics_def metrics_of_def)
  from record_all_refines [OF assms(1), of _ "\<lambda>_. []", OF this] show ?thesis
    by (simp add: download_all_health [OF assms(2) fresh_caching_start(1)] fresh_caching_start)
qed

theorem cache_health_witness:
  "hm_totalAttempts (getHealthMetrics ''a'' (ca_health (snd (download_all PrismaAdapter (\<lambda>h. h) 10 default_caching_options
     [(''a'', run_at 0 (Inr [''x''])), (''a'', run_at 10 (Inr [''y''])), (''b'', run_at 20 (Inl ''down''))]
     (fresh_caching 0 :: int caching))))) = 1"
  apply (subst cache_health)
  apply code_simp
  apply code_simp
  apply code_simp
  done

lemma deleted_is_on_db:
  "snd (storage_delete c up key a) = on_db (\<lambda>db. db\<lparr>db_entries := entries (snd (storage_delete c up key a))\<rparr>) a"
  by (cases c) (auto simp: d1_delete_def hd_delete_def pr_delete_def when_open_def on_db_def)

lemma lookup_ignores_entries: "fst (storage_cached c up now source (on_db (\<lambda>db. db\<lparr>db_entries := es\<rparr>) a)) =
    fst (storage_cached c up now source a)"
  by (cases c) (auto simp: d1_getCachedFilterList_def hd_getCachedFilterList_def pr_getCachedFilterList_def when_open_def
      on_db_def Let_def split: option.splits)

lemma lookup_after_delete: "fst (storage_cached c up now source (snd (storage_delete c up' key a))) =
    fst (storage_cached c up now source a)"
  by (subst deleted_is_on_db) (rule lookup_ignores_entries)

lemma fresh_entries: "entries (ca_adapter (snd (download_fresh c sha256 keep opts run source s))) = entries (ca_adapter s)"
  by (auto simp: fresh_adapter stored_fresh_def storage.entries_kept split: sum.split)

lemma download_entries: "entries (ca_adapter (snd (downloadWithMetadata c sha256 keep opts run source s))) = entries (ca_adapter s)"
proof -
  have "entries (snd (cache_lookup c opts run source (ca_adapter s))) = entries (ca_adapter s)"
    by (simp add: cache_lookup_def split_beta storage.entries_kept)
  then show ?thesis by (auto simp: downloadWithMetadata_def fresh_entries split: prod.split option.split)
qed

lemma download_all_entries: "entries (ca_adapter (snd (download_all c sha256 keep opts xs s))) = entries (ca_adapter s)"
  by (induction xs arbitrary: s) (simp_all add: split_beta download_entries)

lemma download_all_open: "ad_open (ca_adapter (snd (download_all c sha256 keep opts xs s))) = ad_open (ca_adapter s)"
  by (induction xs arbitrary: s) (simp_all add: split_beta download_open)

lemma list_no_entries: "ad_open a \<Longrightarrow> entries a = [] \<Longrightarrow> fst (storage_list c up now q a) = Some []"
  by (cases c) (auto simp: d1_list_def hd_list_def pr_list_def when_open_def find_many_def Let_def split: option.split)

text \<open>
  What invalidates the cache does not.  \<open>invalidateCache\<close> removes an entry under the key
  \<open>cache/filters/\<close> and the source, but the lists are in a table of their own: whatever the state and
  the adapter, the lookup of a source and the download that follow are as without it.  The statistics
  are read from the same keys, so that after any downloads they show an empty cache.
\<close>

theorem invalidation_ineffective:
  "fst (isCached c up now source (invalidateCache c up' source' s)) = fst (isCached c up now source s) \<and>
   map_option ce_content (fst (cache_lookup c opts run source (ca_adapter (invalidateCache c up' source' s)))) =
     map_option ce_content (fst (cache_lookup c opts run source (ca_adapter s))) \<and>
   getCacheStats json_length c up now (snd (download_all c sha256 keep opts xs (fresh_caching ttl))) =
     Some \<lparr>cst_totalCached = 0, cst_totalSize = 0, cst_oldest = None, cst_newest = None\<rparr>"
proof (intro conjI)
  show "fst (isCached c up now source (invalidateCache c up' source' s)) = fst (isCached c up now source s)"
    by (simp add: isCached_def invalidateCache_def split_beta lookup_after_delete)
  show "map_option ce_content (fst (cache_lookup c opts run source (ca_adapter (invalidateCache c up' source' s)))) =
     map_option ce_content (fst (cache_lookup c opts run source (ca_adapter s)))"
    by (simp add: cache_lookup_def invalidateCache_def split_beta lookup_after_delete)
  show "getCacheStats json_length c up now (snd (download_all c sha256 keep opts xs (fresh_caching ttl))) =
     Some \<lparr>cst_totalCached = 0, cst_totalSize = 0, cst_oldest = None, cst_newest = None\<rparr>"
    by (simp add: getCacheStats_def list_no_entries download_all_open download_all_entries fresh_caching_def empty_adapter_def)
qed

section \<open>Warming the cache\<close>

lemma prewarm_counts: "fst (fold (prewarm_step c sha256 keep opts) xs (p, s)) =
    \<lparr>pw_successful = pw_successful p + length (filter (\<lambda>r. \<not> isl r) (fst (download_all c sha256 keep opts xs s))),
     pw_failed = pw_failed p + length (filter isl (fst (download_all c sha256 keep opts xs s))),
     pw_errors = pw_errors p @ map (\<lambda>(x, r). (fst x, projl r))
        (filter (\<lambda>(x, r). isl r) (zip xs (fst (download_all c sha256 keep opts xs s))))\<rparr> \<and>
    snd (fold (prewarm_step c sha256 keep opts) xs (p, s)) = snd (download_all c sha256 keep opts xs s)"
  by (induction xs arbitrary: p s) (auto simp: prewarm_step_def split_beta split: prod.splits sum.splits)

text \<open>
  Warming the cache is downloading: the state afterwards is that after the downloads one by one, a
  failure of one does not keep the next from being tried, and each source is counted once, as
  successful or as failed with its error.
\<close>

theorem prewarm_downloads:
  "snd (prewarmCache c sha256 keep opts xs s) = snd (download_all c sha256 keep opts xs s) \<and>
   pw_successful (fst (prewarmCache c sha256 keep opts xs s)) + pw_failed (fst (prewarmCache c sha256 keep opts xs s)) = length xs \<and>
   pw_errors (fst (prewarmCache c sha256 keep opts xs s)) =
     map (\<lambda>(x, r). (fst x, projl r)) (filter (\<lambda>(x, r). isl r) (zip xs (fst (download_all c sha256 keep opts xs s))))"
proof -
  have len: "length (fst (download_all c sha256 keep opts xs s)) = length xs"
    by (induction xs arbitrary: s) (auto simp: split_beta)
  have "length (filter (\<lambda>r. \<not> isl r) rs) + length (filter isl rs) = length rs" for rs :: "(jstr + download_result) list"
    using sum_length_filter_compl [of isl rs] by simp
  then show ?thesis
    using prewarm_counts [of c sha256 keep opts xs "\<lparr>pw_successful = 0, pw_failed = 0, pw_errors = []\<rparr>" s] len
    by (simp add: prewarmCache_def)
qed

end
