(* ===== verification/JsConditions.thy ===== *)
theory JsConditions
  imports Conditions
begin

text \<open>
  The conditions of the platform downloader: \<open>evaluateCondition\<close> of \<open>src/platform/PlatformDownloader.ts\<close>.
  It replaces the known names by \<open>true\<close> or \<open>false\<close> and, when nothing but these words, operators,
  parentheses and spaces is left, hands the text to the constructor \<open>Function\<close>.  The second section is
  what JavaScript makes of such a text: its tokens, its grammar down to calls, and the values, where
  \<open>None\<close> is an exception.  \<open>&\<close> and \<open>|\<close> give numbers, whose truth value is modelled.  The parser runs on
  fuel, and \<open>js_parse_enough\<close> shows that it never runs out.
\<close>

section \<open>Rewriting the condition\<close>

definition truth_text :: "bool \<Rightarrow> jstr" where
  "truth_text b = (if b then ''true'' else ''false'')"

text \<open>
  The loop over the names replaces every whole word that is a name, up to case.  The words it puts in
  are no names, so that the order of the names does not matter.
\<close>

definition word_value :: "jstr option \<Rightarrow> jstr \<Rightarrow> jstr" where
  "word_value platform w =
     (if List.member PLATFORM_IDENTIFIERS (to_lower w) then truth_text (map_option to_lower platform = Some (to_lower w))
      else w)"

function replace_names :: "jstr option \<Rightarrow> jstr \<Rightarrow> jstr" where
  "replace_names platform [] = []"
| "replace_names platform (c # cs) =
     (if ident_char c then word_value platform (takeWhile ident_char (c # cs)) @ replace_names platform (dropWhile ident_char (c # cs))
      else c # replace_names platform cs)"
  by pat_completeness auto
termination
  by (relation "measure (length \<circ> snd)") (auto simp: less_Suc_eq_le length_dropWhile_le)

declare replace_names.simps(2) [simp del]

text \<open>\<open>expr.replace(/\s+op\s+/g, ' op ')\<close>\<close>

function single_spaced :: "jstr \<Rightarrow> jstr \<Rightarrow> jstr" where
  "single_spaced op [] = []"
| "single_spaced op (c # cs) =
     (let rest = dropWhile is_ws (c # cs); after_op = drop (length op) rest
      in if is_ws c \<and> starts_with rest op \<and> after_op \<noteq> [] \<and> is_ws (hd after_op)
         then '' '' @ op @ '' '' @ single_spaced op (dropWhile is_ws after_op)
         else c # single_spaced op cs)"
  by pat_completeness auto
termination
proof (relation "measure (length \<circ> snd)", goal_cases)
  case (2 op c cs rest after_op)
  have "length (dropWhile is_ws after_op) \<le> length rest" using 2 length_dropWhile_le [of is_ws after_op] by simp
  also have "\<dots> < length (c # cs)" using 2 length_dropWhile_le [of is_ws cs] by simp
  finally show ?case by simp
qed auto

declare single_spaced.simps(2) [simp del]

text \<open>\<open>expr.replace(/true|false/gi, '')\<close>\<close>

fun residue :: "jstr \<Rightarrow> jstr" where
  "residue [] = []"
| "residue (c # cs) =
     (if to_lower (take 4 (c # cs)) = ''true'' then residue (drop 3 cs)
      else if to_lower (take 5 (c # cs)) = ''false'' then residue (drop 4 cs)
      else c # residue cs)"

definition only_logic :: "jstr \<Rightarrow> bool" where
  "only_logic expr \<longleftrightarrow> list_all (\<lambda>c. c \<in> set ''!&|() '') (residue expr)"

section \<open>What JavaScript makes of the rest\<close>

datatype js_token = JsWord jstr | JsNot | JsAnd | JsOr | JsBitAnd | JsBitOr | JsOpen | JsClose

text \<open>Only called on texts of letters, operators, parentheses and spaces.\<close>

function js_tokens :: "jstr \<Rightarrow> js_token list" where
  "js_tokens [] = []"
| "js_tokens (c # cs) =
     (if c = CHR ''('' then JsOpen # js_tokens cs
      else if c = CHR '')'' then JsClose # js_tokens cs
      else if c = CHR ''!'' then JsNot # js_tokens cs
      else if c = CHR ''&'' then (if take 1 cs = ''&'' then JsAnd # js_tokens (drop 1 cs) else JsBitAnd # js_tokens cs)
      else if c = CHR ''|'' then (if take 1 cs = ''|'' then JsOr # js_tokens (drop 1 cs) else JsBitOr # js_tokens cs)
      else if is_letter c then JsWord (takeWhile is_letter (c # cs)) # js_tokens (dropWhile is_letter (c # cs))
      else js_tokens cs)"
  by pat_completeness auto
termination
  by (relation "measure length") (auto simp: less_Suc_eq_le length_dropWhile_le)

declare js_tokens.simps(2) [simp del]

datatype js_expr = JLit bool | JName jstr | JNot js_expr | JBin js_token js_expr js_expr | JCall js_expr "js_expr option"

datatype 'a parsed = Parsed 'a "js_token list" | SyntaxError | OutOfFuel

text \<open>The operators from the loosest to the tightest; level 4 is a unary expression.\<close>

definition js_op :: "nat \<Rightarrow> js_token" where
  "js_op level = [JsOr, JsAnd, JsBitOr, JsBitAnd] ! level"

definition js_word :: "jstr \<Rightarrow> js_expr" where
  "js_word w = (if w = ''true'' then JLit True else if w = ''false'' then JLit False else JName w)"

definition and_parse :: "'a parsed \<Rightarrow> ('a \<Rightarrow> js_token list \<Rightarrow> 'b parsed) \<Rightarrow> 'b parsed" where
  "and_parse r f = (case r of Parsed x ts \<Rightarrow> f x ts | SyntaxError \<Rightarrow> SyntaxError | OutOfFuel \<Rightarrow> OutOfFuel)"

definition closing :: "(js_token list \<Rightarrow> 'b parsed) \<Rightarrow> js_token list \<Rightarrow> 'b parsed" where
  "closing f ts = (case ts of JsClose # ts' \<Rightarrow> f ts' | _ \<Rightarrow> SyntaxError)"

fun js_level :: "nat \<Rightarrow> nat \<Rightarrow> js_token list \<Rightarrow> js_expr parsed"
  and js_loop :: "nat \<Rightarrow> nat \<Rightarrow> js_expr \<Rightarrow> js_token list \<Rightarrow> js_expr parsed"
  and js_calls :: "nat \<Rightarrow> js_expr \<Rightarrow> js_token list \<Rightarrow> js_expr parsed" where
  "js_level 0 level ts = OutOfFuel"
| "js_level (Suc f) level ts =
     (if level < 4 then and_parse (js_level f (level + 1) ts) (js_loop f level)
      else case ts of
             JsNot # ts' \<Rightarrow> and_parse (js_level f 4 ts') (\<lambda>e rest. Parsed (JNot e) rest)
           | JsWord w # ts' \<Rightarrow> js_calls f (js_word w) ts'
           | JsOpen # ts' \<Rightarrow> and_parse (js_level f 0 ts') (\<lambda>e. closing (js_calls f e))
           | _ \<Rightarrow> SyntaxError)"
| "js_loop 0 level left ts = OutOfFuel"
| "js_loop (Suc f) level left ts =
     (case ts of
        t # ts' \<Rightarrow>
          if t = js_op level then and_parse (js_level f (level + 1) ts') (\<lambda>right. js_loop f level (JBin t left right))
          else Parsed left ts
      | [] \<Rightarrow> Parsed left ts)"
| "js_calls 0 callee ts = OutOfFuel"
| "js_calls (Suc f) callee ts =
     (if take 1 ts = [JsOpen] then
        (if take 1 (tl ts) = [JsClose] then js_calls f (JCall callee None) (tl (tl ts))
         else and_parse (js_level f 0 (tl ts)) (\<lambda>arg. closing (js_calls f (JCall callee (Some arg)))))
      else Parsed callee ts)"

definition js_fuel :: "js_token list \<Rightarrow> nat" where
  "js_fuel ts = 6 * length ts + 6"

fun js_value :: "js_expr \<Rightarrow> bool option" where
  "js_value (JLit b) = Some b"
| "js_value (JName n) = None"
| "js_value (JNot e) = map_option Not (js_value e)"
| "js_value (JBin op a b) =
     (case js_value a of
        None \<Rightarrow> None
      | Some x \<Rightarrow>
          if op = JsAnd \<and> \<not> x then Some False
          else if op = JsOr \<and> x then Some True
          else map_option (\<lambda>y. if op = JsAnd \<or> op = JsBitAnd then x \<and> y else x \<or> y) (js_value b))"
| "js_value (JCall e arg) = None"

text \<open>\<open>Boolean(new Function('return ' + expr + ';')())\<close>; \<open>None\<close> if one of the three throws.\<close>

definition js_function_value :: "jstr \<Rightarrow> bool option" where
  "js_function_value expr =
     (let ts = js_tokens expr
      in if ts = [] then Some False
         else case js_level (js_fuel ts) 0 ts of Parsed e [] \<Rightarrow> js_value e | _ \<Rightarrow> None)"

definition platformCondition :: "jstr \<Rightarrow> jstr option \<Rightarrow> bool" where
  "platformCondition condition platform =
     (let expr = js_trim condition
      in if expr = [] then True
         else let e = single_spaced ''||'' (single_spaced ''&&'' (replace_names platform expr))
              in if \<not> only_logic e then False
                 else case js_function_value e of Some b \<Rightarrow> b | None \<Rightarrow> False)"

section \<open>The parser has enough fuel\<close>

text \<open>What a result shows of the tokens that are left; \<open>strict\<close> if at least one was read.\<close>

definition reads_some :: "bool \<Rightarrow> js_token list \<Rightarrow> 'a parsed \<Rightarrow> bool" where
  "reads_some strict ts r \<longleftrightarrow>
     (case r of Parsed _ rest \<Rightarrow> (if strict then length rest < length ts else length rest \<le> length ts)
      | SyntaxError \<Rightarrow> True | OutOfFuel \<Rightarrow> False)"

lemma reads_some_simps [simp]:
  "reads_some b ts SyntaxError" "\<not> reads_some b ts OutOfFuel"
  "reads_some True ts (Parsed x rest) \<longleftrightarrow> length rest < length ts"
  "reads_some False ts (Parsed x rest) \<longleftrightarrow> length rest \<le> length ts"
  by (simp_all add: reads_some_def)

lemma reads_some_and_parse:
  "reads_some c ts' r \<Longrightarrow> (\<And>x rest. (if c then length rest < length ts' else length rest \<le> length ts') \<Longrightarrow> reads_some b ts (f x rest)) \<Longrightarrow>
   reads_some b ts (and_parse r f)"
  by (cases r) (auto simp: and_parse_def reads_some_def)

lemma reads_some_closing:
  "(\<And>ts''. ts' = JsClose # ts'' \<Longrightarrow> reads_some b ts (f ts'')) \<Longrightarrow> reads_some b ts (closing f ts')"
  by (auto simp: closing_def split: list.split js_token.split)

lemma reads_some_mono: "reads_some c ts' r \<Longrightarrow> length ts' < length ts \<or> length ts' = length ts \<and> (b \<longrightarrow> c) \<Longrightarrow> reads_some b ts r"
  by (cases r; cases b; cases c) auto

lemma js_parse_bounds:
  "(\<forall>level ts. level \<le> 4 \<longrightarrow> 6 * length ts + (5 - level) < f \<longrightarrow> reads_some True ts (js_level f level ts)) \<and>
   (\<forall>level e ts. level < 4 \<longrightarrow> 6 * length ts < f \<longrightarrow> reads_some False ts (js_loop f level e ts)) \<and>
   (\<forall>e ts. 6 * length ts < f \<longrightarrow> reads_some False ts (js_calls f e ts))"
proof (induction f)
  case (Suc f)
  then have level: "level \<le> 4 \<Longrightarrow> 6 * length ts + (5 - level) < f \<Longrightarrow> reads_some True ts (js_level f level ts)"
    and loop: "level < 4 \<Longrightarrow> 6 * length ts < f \<Longrightarrow> reads_some False ts (js_loop f level e ts)"
    and calls: "6 * length ts < f \<Longrightarrow> reads_some False ts (js_calls f e ts)" for level ts e
    by blast+
  have "reads_some True ts (js_level (Suc f) level ts)" if l: "level \<le> 4" "6 * length ts + (5 - level) < Suc f" for level ts
  proof (cases "level < 4")
    case True
    show ?thesis unfolding js_level.simps
      by (simp only: True if_True, rule reads_some_and_parse [OF level])
        (use l True in \<open>auto intro!: reads_some_mono [OF loop]\<close>)
  next
    case False
    show ?thesis
    proof (cases ts)
      case (Cons t ts')
      then show ?thesis using False l
        by (cases t) (auto intro!: reads_some_and_parse [OF level] reads_some_closing reads_some_mono [OF calls])
    qed (use False in simp)
  qed
  moreover have "reads_some False ts (js_loop (Suc f) level e ts)" if l: "level < 4" "6 * length ts < Suc f" for level e ts
    using l by (cases ts) (auto intro!: reads_some_and_parse [OF level] reads_some_mono [OF loop])
  moreover have "reads_some False ts (js_calls (Suc f) e ts)" if l: "6 * length ts < Suc f" for e ts
    using l by (cases ts) (auto intro!: reads_some_and_parse [OF level] reads_some_closing reads_some_mono [OF calls])
  ultimately show ?case by blast
qed simp

lemma js_parse_enough: "js_level (js_fuel ts) 0 ts \<noteq> OutOfFuel"
  using js_parse_bounds [of "js_fuel ts"] by (fastforce simp: js_fuel_def)

lemma and_parse_more: "and_parse r f \<noteq> OutOfFuel \<Longrightarrow> (r \<noteq> OutOfFuel \<Longrightarrow> r' = r) \<Longrightarrow>
    (\<And>x rest. f x rest \<noteq> OutOfFuel \<Longrightarrow> f' x rest = f x rest) \<Longrightarrow> and_parse r' f' = and_parse r f"
  by (cases r) (auto simp: and_parse_def)

lemma closing_more: "closing f ts \<noteq> OutOfFuel \<Longrightarrow> (\<And>ts'. f ts' \<noteq> OutOfFuel \<Longrightarrow> f' ts' = f ts') \<Longrightarrow> closing f' ts = closing f ts"
  by (auto simp: closing_def split: list.splits js_token.splits)

lemma js_parse_more:
  "(\<forall>level ts. js_level f level ts \<noteq> OutOfFuel \<longrightarrow> js_level (Suc f) level ts = js_level f level ts) \<and>
   (\<forall>level e ts. js_loop f level e ts \<noteq> OutOfFuel \<longrightarrow> js_loop (Suc f) level e ts = js_loop f level e ts) \<and>
   (\<forall>e ts. js_calls f e ts \<noteq> OutOfFuel \<longrightarrow> js_calls (Suc f) e ts = js_calls f e ts)"
proof (induction f)
  case (Suc f)
  then have level: "js_level f level ts \<noteq> OutOfFuel \<Longrightarrow> js_level (Suc f) level ts = js_level f level ts"
    and loop: "js_loop f level e ts \<noteq> OutOfFuel \<Longrightarrow> js_loop (Suc f) level e ts = js_loop f level e ts"
    and calls: "js_calls f e ts \<noteq> OutOfFuel \<Longrightarrow> js_calls (Suc f) e ts = js_calls f e ts" for level ts e
    by blast+
  note more = and_parse_more closing_more level loop calls
  have "js_level (Suc f) level ts \<noteq> OutOfFuel \<Longrightarrow> js_level (Suc (Suc f)) level ts = js_level (Suc f) level ts" for level ts
    by (subst (asm) js_level.simps(2), subst js_level.simps(2), subst js_level.simps(2))
      (auto split: if_splits list.splits js_token.splits intro!: more simp del: js_level.simps js_calls.simps js_loop.simps)
  moreover have "js_loop (Suc f) level e ts \<noteq> OutOfFuel \<Longrightarrow> js_loop (Suc (Suc f)) level e ts = js_loop (Suc f) level e ts" for level e ts
    by (subst (asm) js_loop.simps(2), subst js_loop.simps(2), subst js_loop.simps(2))
      (auto split: if_splits list.splits intro!: more simp del: js_level.simps js_calls.simps js_loop.simps)
  moreover have "js_calls (Suc f) e ts \<noteq> OutOfFuel \<Longrightarrow> js_calls (Suc (Suc f)) e ts = js_calls (Suc f) e ts" for e ts
    by (subst (asm) js_calls.simps(2), subst js_calls.simps(2), subst js_calls.simps(2))
      (auto split: if_splits intro!: more simp del: js_level.simps js_calls.simps js_loop.simps)
  ultimately show ?case by blast
qed simp

lemma js_level_fuel:
  assumes "js_level f level ts \<noteq> OutOfFuel" "f \<le> g"
  shows "js_level g level ts = js_level f level ts"
proof -
  have "js_level (f + n) level ts = js_level f level ts" for n
    using js_parse_more assms(1) by (induction n) auto
  from this [of "g - f"] show ?thesis using assms(2) by simp
qed

section \<open>JavaScript reads the text of a tree\<close>

text \<open>Results with any fuel from some amount on.\<close>

definition js_reads :: "nat \<Rightarrow> js_token list \<Rightarrow> js_expr \<Rightarrow> js_token list \<Rightarrow> bool" where
  "js_reads level ts e rest \<longleftrightarrow> (\<exists>n. \<forall>f \<ge> n. js_level f level ts = Parsed e rest)"

definition js_loops :: "nat \<Rightarrow> js_expr \<Rightarrow> js_token list \<Rightarrow> js_expr \<Rightarrow> js_token list \<Rightarrow> bool" where
  "js_loops level l ts e rest \<longleftrightarrow> (\<exists>n. \<forall>f \<ge> n. js_loop f level l ts = Parsed e rest)"

lemma from_Suc: "(\<forall>f \<ge> n. P (Suc f)) \<Longrightarrow> \<exists>n. \<forall>f \<ge> n. P (f :: nat)"
  by (metis Suc_le_D Suc_le_mono)

lemma both_from: "\<exists>n. \<forall>f \<ge> n. P (f :: nat) \<Longrightarrow> \<exists>n. \<forall>f \<ge> n. Q f \<Longrightarrow> \<exists>n. \<forall>f \<ge> n. P f \<and> Q f"
  by (metis max.bounded_iff)

lemma js_reads_level:
  assumes "level < 4" "js_reads (level + 1) ts l ts'" "js_loops level l ts' e rest"
  shows "js_reads level ts e rest"
proof -
  from both_from [OF assms(2,3) [unfolded js_reads_def js_loops_def]]
  obtain n where "\<forall>f \<ge> n. js_level f (level + 1) ts = Parsed l ts' \<and> js_loop f level l ts' = Parsed e rest" by blast
  then have "\<forall>f \<ge> n. js_level (Suc f) level ts = Parsed e rest"
    using assms(1) by (simp add: and_parse_def)
  from from_Suc [OF this] show ?thesis by (simp only: js_reads_def)
qed

lemma js_loops_op:
  assumes "js_reads (level + 1) ts r ts'" "js_loops level (JBin (js_op level) l r) ts' e rest"
  shows "js_loops level l (js_op level # ts) e rest"
proof -
  from both_from [OF assms [unfolded js_reads_def js_loops_def]]
  obtain n where "\<forall>f \<ge> n. js_level f (level + 1) ts = Parsed r ts' \<and>
      js_loop f level (JBin (js_op level) l r) ts' = Parsed e rest" by blast
  then have "\<forall>f \<ge> n. js_loop (Suc f) level l (js_op level # ts) = Parsed e rest"
    by (simp add: and_parse_def)
  from from_Suc [OF this] show ?thesis by (simp only: js_loops_def)
qed

lemma js_loops_stop: "take 1 ts \<noteq> [js_op level] \<Longrightarrow> js_loops level l ts l ts"
proof -
  assume "take 1 ts \<noteq> [js_op level]"
  then have "\<forall>f \<ge> 0. js_loop (Suc f) level l ts = Parsed l ts" by (auto split: list.split)
  from from_Suc [OF this] show ?thesis by (simp only: js_loops_def)
qed

lemma js_reads_word:
  assumes "take 1 ts \<noteq> [JsOpen]"
  shows "js_reads 4 (JsWord w # ts) (js_word w) ts"
proof -
  have "\<forall>f \<ge> 0. js_level (Suc (Suc f)) 4 (JsWord w # ts) = Parsed (js_word w) ts" using assms by simp
  from from_Suc [of 0 "\<lambda>f. js_level (Suc f) 4 (JsWord w # ts) = Parsed (js_word w) ts", OF this]
  obtain n where "\<forall>f \<ge> n. js_level (Suc f) 4 (JsWord w # ts) = Parsed (js_word w) ts" by blast
  from from_Suc [OF this] show ?thesis by (simp only: js_reads_def)
qed

lemma js_reads_not: "js_reads 4 ts e rest \<Longrightarrow> js_reads 4 (JsNot # ts) (JNot e) rest"
proof -
  assume "js_reads 4 ts e rest"
  then obtain n where "\<forall>f \<ge> n. js_level f 4 ts = Parsed e rest" by (auto simp: js_reads_def)
  then have "\<forall>f \<ge> n. js_level (Suc f) 4 (JsNot # ts) = Parsed (JNot e) rest" by (simp add: and_parse_def)
  from from_Suc [OF this] show ?thesis by (simp only: js_reads_def)
qed

lemma js_reads_paren:
  assumes "js_reads 0 ts e (JsClose # rest)" "take 1 rest \<noteq> [JsOpen]"
  shows "js_reads 4 (JsOpen # ts) e rest"
proof -
  from assms(1) obtain n where n: "\<forall>f \<ge> n. js_level f 0 ts = Parsed e (JsClose # rest)" by (auto simp: js_reads_def)
  have "js_level (Suc f) 4 (JsOpen # ts) = Parsed e rest" if f: "Suc n \<le> f" for f
  proof -
    have "js_level (Suc f) 4 (JsOpen # ts) = and_parse (js_level f 0 ts) (\<lambda>e. closing (js_calls f e))" by simp
    also have "js_level f 0 ts = Parsed e (JsClose # rest)" using n f by simp
    also have "and_parse (Parsed e (JsClose # rest)) (\<lambda>e. closing (js_calls f e)) = js_calls f e rest"
      by (simp add: and_parse_def closing_def)
    also have "\<dots> = Parsed e rest" using f assms(2) by (cases f) auto
    finally show ?thesis .
  qed
  then have "\<forall>f \<ge> Suc n. js_level (Suc f) 4 (JsOpen # ts) = Parsed e rest" by blast
  from from_Suc [OF this] show ?thesis by (simp only: js_reads_def)
qed

text \<open>The tokens of a tree without names, printed as by \<open>bexp_text\<close>, and what they stand for.\<close>

definition js_parens :: "bool \<Rightarrow> js_token list \<Rightarrow> js_token list" where
  "js_parens b ts = (if b then JsOpen # ts @ [JsClose] else ts)"

primrec js_printed :: "bexp \<Rightarrow> nat \<Rightarrow> js_token list" where
  "js_printed BTrue l = [JsWord ''true'']"
| "js_printed BFalse l = [JsWord ''false'']"
| "js_printed (BIdent x) l = [JsWord x]"
| "js_printed (BNot a) l = JsNot # js_printed a 2"
| "js_printed (BAnd a b) l = js_parens (1 < l) (js_printed a 1 @ JsAnd # js_printed b 2)"
| "js_printed (BOr a b) l = js_parens (0 < l) (js_printed a 0 @ JsOr # js_printed b 1)"

primrec js_tree :: "bexp \<Rightarrow> js_expr" where
  "js_tree BTrue = JLit True"
| "js_tree BFalse = JLit False"
| "js_tree (BIdent x) = js_word x"
| "js_tree (BNot a) = JNot (js_tree a)"
| "js_tree (BAnd a b) = JBin JsAnd (js_tree a) (js_tree b)"
| "js_tree (BOr a b) = JBin JsOr (js_tree a) (js_tree b)"

definition reads_unary :: "bexp \<Rightarrow> bool" where
  "reads_unary e \<longleftrightarrow> (\<forall>rest. take 1 rest \<noteq> [JsOpen] \<longrightarrow> js_reads 4 (js_printed e 2 @ rest) (js_tree e) rest)"

definition reads_conj :: "bexp \<Rightarrow> bool" where
  "reads_conj e \<longleftrightarrow> (\<forall>rest x out. take 1 rest \<in> {[], [JsAnd], [JsOr], [JsClose]} \<longrightarrow>
     js_loops 1 (js_tree e) rest x out \<longrightarrow> js_reads 1 (js_printed e 1 @ rest) x out)"

definition reads_disj :: "bexp \<Rightarrow> bool" where
  "reads_disj e \<longleftrightarrow> (\<forall>rest x out. take 1 rest \<in> {[], [JsOr], [JsClose]} \<longrightarrow>
     js_loops 0 (js_tree e) rest x out \<longrightarrow> js_reads 0 (js_printed e 0 @ rest) x out)"

lemma js_op_simps: "js_op 0 = JsOr" "js_op (Suc 0) = JsAnd" "js_op 2 = JsBitOr" "js_op 3 = JsBitAnd"
  by (simp_all add: js_op_def)

lemma reads_second:
  assumes "reads_unary e" "take 1 rest \<in> {[], [JsAnd], [JsOr], [JsClose]}"
  shows "js_reads 2 (js_printed e 2 @ rest) (js_tree e) rest"
proof -
  have "take 1 rest \<noteq> [JsOpen]" using assms(2) by auto
  then have "js_reads 4 (js_printed e 2 @ rest) (js_tree e) rest" using assms(1) unfolding reads_unary_def by blast
  then have "js_reads 3 (js_printed e 2 @ rest) (js_tree e) rest"
    using js_reads_level [of 3 _ "js_tree e" rest] js_loops_stop [of rest 3] assms(2) by (auto simp: js_op_simps)
  then show ?thesis
    using js_reads_level [of 2 _ "js_tree e" rest] js_loops_stop [of rest 2] assms(2) by (auto simp: js_op_simps numeral_3_eq_3)
qed

lemma conj_from_unary: "reads_unary e \<Longrightarrow> js_printed e 1 = js_printed e 2 \<Longrightarrow> reads_conj e"
  unfolding reads_conj_def using reads_second js_reads_level [of 1] by (fastforce simp: numeral_2_eq_2)

lemma conj_whole:
  assumes "reads_conj e" "take 1 rest \<in> {[], [JsOr], [JsClose]}"
  shows "js_reads 1 (js_printed e 1 @ rest) (js_tree e) rest"
  using assms js_loops_stop [of rest 1 "js_tree e"] by (auto simp: reads_conj_def js_op_simps)

lemma disj_from_conj: "reads_conj e \<Longrightarrow> js_printed e 0 = js_printed e 1 \<Longrightarrow> reads_disj e"
  unfolding reads_disj_def using conj_whole js_reads_level [of 0] by fastforce

lemma unary_from_disj: "reads_disj e \<Longrightarrow> js_printed e 2 = JsOpen # js_printed e 0 @ [JsClose] \<Longrightarrow> reads_unary e"
  unfolding reads_unary_def using js_loops_stop [of "JsClose # _" 0 "js_tree e"]
  by (auto simp: reads_disj_def js_op_simps intro!: js_reads_paren)

lemma js_reads_tree: "reads_unary e \<and> reads_conj e \<and> reads_disj e"
proof (induction e)
  case BTrue
  have "reads_unary BTrue" using js_reads_word [of _ "''true''"] by (auto simp: reads_unary_def js_word_def)
  then show ?case using conj_from_unary [of BTrue] disj_from_conj [of BTrue] by simp
next
  case BFalse
  have "reads_unary BFalse" using js_reads_word [of _ "''false''"] by (auto simp: reads_unary_def js_word_def)
  then show ?case using conj_from_unary [of BFalse] disj_from_conj [of BFalse] by simp
next
  case (BIdent x)
  have "reads_unary (BIdent x)" using js_reads_word by (auto simp: reads_unary_def)
  then show ?case using conj_from_unary [of "BIdent x"] disj_from_conj [of "BIdent x"] by simp
next
  case (BNot a)
  then have "reads_unary (BNot a)" by (auto simp: reads_unary_def intro: js_reads_not)
  then show ?case using conj_from_unary [of "BNot a"] disj_from_conj [of "BNot a"] by simp
next
  case (BAnd a b)
  have "reads_conj (BAnd a b)"
    unfolding reads_conj_def
  proof (intro allI impI)
    fix rest x out
    assume rest: "take 1 rest \<in> {[], [JsAnd], [JsOr], [JsClose]}" and loop: "js_loops 1 (js_tree (BAnd a b)) rest x out"
    have "js_reads (1 + 1) (js_printed b 2 @ rest) (js_tree b) rest"
      using reads_second [of b rest] BAnd rest by (simp add: numeral_2_eq_2)
    from js_loops_op [OF this, of "js_tree a" x out] loop
    have "js_loops 1 (js_tree a) (JsAnd # js_printed b 2 @ rest) x out" by (simp add: js_op_simps)
    then show "js_reads 1 (js_printed (BAnd a b) 1 @ rest) x out"
      using BAnd by (auto simp: reads_conj_def js_parens_def)
  qed
  then show ?case using disj_from_conj [of "BAnd a b"] unary_from_disj [of "BAnd a b"] by (simp add: js_parens_def)
next
  case (BOr a b)
  have "reads_disj (BOr a b)"
    unfolding reads_disj_def
  proof (intro allI impI)
    fix rest x out
    assume rest: "take 1 rest \<in> {[], [JsOr], [JsClose]}" and loop: "js_loops 0 (js_tree (BOr a b)) rest x out"
    have "js_reads (0 + 1) (js_printed b 1 @ rest) (js_tree b) rest"
      using conj_whole [of b rest] BOr rest by simp
    from js_loops_op [OF this, of "js_tree a" x out] loop
    have "js_loops 0 (js_tree a) (JsOr # js_printed b 1 @ rest) x out" by (simp add: js_op_simps)
    then show "js_reads 0 (js_printed (BOr a b) 0 @ rest) x out"
      using BOr by (auto simp: reads_disj_def js_parens_def)
  qed
  then show ?case using unary_from_disj [of "BOr a b"] conj_from_unary [of "BOr a b"] by (simp add: js_parens_def)
qed

lemma js_parse_tree:
  "js_level (js_fuel (js_printed e 0)) 0 (js_printed e 0) = Parsed (js_tree e) []"
proof -
  have "js_reads 0 (js_printed e 0) (js_tree e) []"
    using js_reads_tree [of e] js_loops_stop [of "[]" 0 "js_tree e"] unfolding reads_disj_def by force
  then obtain n where n: "\<forall>f \<ge> n. js_level f 0 (js_printed e 0) = Parsed (js_tree e) []" by (auto simp: js_reads_def)
  from js_level_fuel [OF js_parse_enough, of "js_printed e 0" "max n (js_fuel (js_printed e 0))"] n show ?thesis by simp
qed

section \<open>Conditions with known names\<close>

primrec names_in :: "bexp \<Rightarrow> jstr list" where
  "names_in BTrue = []"
| "names_in BFalse = []"
| "names_in (BIdent x) = [x]"
| "names_in (BNot a) = names_in a"
| "names_in (BAnd a b) = names_in a @ names_in b"
| "names_in (BOr a b) = names_in a @ names_in b"

definition known_names :: "bexp \<Rightarrow> bool" where
  "known_names e \<longleftrightarrow> list_all isKnownPlatform (names_in e)"

text \<open>A name that is made of the words \<open>true\<close> and \<open>false\<close> passes the test of the code.\<close>

definition no_hidden_words :: "bexp \<Rightarrow> bool" where
  "no_hidden_words e \<longleftrightarrow> list_all (\<lambda>x. isKnownPlatform x \<or> residue x \<noteq> []) (names_in e)"

primrec put_values :: "jstr option \<Rightarrow> bexp \<Rightarrow> bexp" where
  "put_values pl BTrue = BTrue"
| "put_values pl BFalse = BFalse"
| "put_values pl (BIdent x) =
     (if isKnownPlatform x then (if map_option to_lower pl = Some (to_lower x) then BTrue else BFalse) else BIdent x)"
| "put_values pl (BNot a) = BNot (put_values pl a)"
| "put_values pl (BAnd a b) = BAnd (put_values pl a) (put_values pl b)"
| "put_values pl (BOr a b) = BOr (put_values pl a) (put_values pl b)"

lemma names_put_values: "names_in (put_values pl e) = filter (\<lambda>x. \<not> isKnownPlatform x) (names_in e)"
  by (induction e) simp_all

lemma names_ok_put_values: "names_ok e \<Longrightarrow> names_ok (put_values pl e)"
  by (induction e) simp_all

lemma replace_word:
  assumes "w \<noteq> []" "\<forall>c \<in> set w. ident_char c" "s = [] \<or> \<not> ident_char (hd s)"
  shows "replace_names pl (w @ s) = word_value pl w @ replace_names pl s"
proof -
  obtain c cs where w: "w = c # cs" using assms(1) by (cases w) auto
  have "takeWhile ident_char s = []" "dropWhile ident_char s = s" using assms(3) by (cases s; simp)+
  then have "takeWhile ident_char (w @ s) = w" "dropWhile ident_char (w @ s) = s" using assms(2) by simp_all
  then show ?thesis using assms(2) w by (simp add: replace_names.simps(2))
qed

lemma replace_other: "\<not> ident_char c \<Longrightarrow> replace_names pl (c # s) = c # replace_names pl s"
  by (simp add: replace_names.simps(2))

lemma other_chars: "\<not> ident_char (CHR ''('')" "\<not> ident_char (CHR '')'')" "\<not> ident_char (CHR ''!'')"
  "\<not> ident_char (CHR ''&'')" "\<not> ident_char (CHR ''|'')" "\<not> ident_char (CHR '' '')"
  by code_simp+

lemma truth_words:
  "word_value pl ''true'' = ''true''" "word_value pl ''false'' = ''false''"
  "\<forall>c \<in> set ''true''. ident_char c" "\<forall>c \<in> set ''false''. ident_char c"
proof -
  have "\<not> List.member PLATFORM_IDENTIFIERS (to_lower ''true'')" "\<not> List.member PLATFORM_IDENTIFIERS (to_lower ''false'')"
    by code_simp+
  then show "word_value pl ''true'' = ''true''" "word_value pl ''false'' = ''false''" by (simp_all add: word_value_def)
  show "\<forall>c \<in> set ''true''. ident_char c" "\<forall>c \<in> set ''false''. ident_char c" by code_simp+
qed

lemma replace_text:
  "names_ok e \<Longrightarrow> s = [] \<or> \<not> ident_char (hd s) \<Longrightarrow>
   replace_names pl (bexp_text e l @ s) = bexp_text (put_values pl e) l @ replace_names pl s"
proof (induction e arbitrary: l s)
  case (BIdent x)
  then show ?case using replace_word [of x s pl]
    by (auto simp: is_name_def word_value_def truth_text_def isKnownPlatform_def)
next
  case BTrue then show ?case using replace_word [of "''true''" s pl] truth_words by simp
next
  case BFalse then show ?case using replace_word [of "''false''" s pl] truth_words by simp
qed (simp_all add: in_parens_def replace_other other_chars)

lemma text_start: "names_ok e \<Longrightarrow> \<exists>c cs. bexp_text e l = c # cs \<and> (ident_char c \<or> c = CHR ''!'' \<or> c = CHR ''('')"
proof (induction e arbitrary: l)
  case (BIdent x)
  then show ?case by (cases x) (auto simp: is_name_def)
next
  case BTrue show ?case using truth_words(3) by simp
next
  case BFalse show ?case using truth_words(4) by simp
next
  case (BAnd a b)
  then obtain c cs where "bexp_text a 1 = c # cs" "ident_char c \<or> c = CHR ''!'' \<or> c = CHR ''(''" by fastforce
  then show ?case by (auto simp: in_parens_def)
next
  case (BOr a b)
  then obtain c cs where "bexp_text a 0 = c # cs" "ident_char c \<or> c = CHR ''!'' \<or> c = CHR ''(''" by fastforce
  then show ?case by (auto simp: in_parens_def)
qed simp

lemma single_spaced_word: "\<forall>c \<in> set w. \<not> is_ws c \<Longrightarrow> single_spaced op (w @ s) = w @ single_spaced op s"
  by (induction w) (simp_all add: single_spaced.simps(2) Let_def)

lemma single_spaced_op:
  assumes "op \<in> {''&&'', ''||''}" "d \<in> {CHR ''&'', CHR ''|''}" "\<not> is_ws c" "c \<notin> {CHR ''&'', CHR ''|''}"
  shows "single_spaced op (CHR '' '' # d # d # CHR '' '' # c # cs) = CHR '' '' # d # d # CHR '' '' # single_spaced op (c # cs)"
proof -
  have ws: "\<not> is_ws (CHR ''&'')" "\<not> is_ws (CHR ''|'')" "is_ws (CHR '' '')" by (simp_all add: special_not_ws)
  then show ?thesis using assms
    using single_spaced_word [of "[d, d]" op "CHR '' '' # c # cs"]
    by (auto simp: single_spaced.simps(2) [of _ "CHR '' ''"])
qed

lemma ident_not_ws: "ident_char c \<Longrightarrow> \<not> is_ws c \<and> c \<notin> {CHR ''&'', CHR ''|''}"
  using ident_char_not_special by auto

lemma single_spaced_text:
  "names_ok e \<Longrightarrow> op \<in> {''&&'', ''||''} \<Longrightarrow> single_spaced op (bexp_text e l @ s) = bexp_text e l @ single_spaced op s"
proof (induction e arbitrary: l s)
  case (BIdent x)
  then show ?case by (auto simp: is_name_def ident_not_ws intro!: single_spaced_word)
next
  case BTrue show ?case using single_spaced_word [of "''true''" op s] ident_not_ws truth_words(3) by auto
next
  case BFalse show ?case using single_spaced_word [of "''false''" op s] ident_not_ws truth_words(4) by auto
next
  case (BNot a)
  then show ?case using single_spaced_word [of "''!''" op] special_not_ws by simp
next
  case (BAnd a b)
  obtain c cs where b: "bexp_text b 2 = c # cs" "\<not> is_ws c" "c \<notin> {CHR ''&'', CHR ''|''}"
    using text_start [of b 2] BAnd.prems ident_not_ws special_not_ws by fastforce
  have op: "single_spaced op ('' && '' @ bexp_text b 2 @ s) = '' && '' @ bexp_text b 2 @ single_spaced op s" for s
    using single_spaced_op [OF BAnd.prems(2), of "CHR ''&''" c "cs @ s"] BAnd.IH(2) [of 2 s] BAnd.prems b by simp
  show ?case using BAnd.IH(1) BAnd.prems op [of s] op [of "'')'' @ s"] single_spaced_word [of "''(''" op] single_spaced_word [of "'')''" op s] special_not_ws
    by (simp add: in_parens_def)
next
  case (BOr a b)
  obtain c cs where b: "bexp_text b 1 = c # cs" "\<not> is_ws c" "c \<notin> {CHR ''&'', CHR ''|''}"
    using text_start [of b 1] BOr.prems ident_not_ws special_not_ws by fastforce
  have op: "single_spaced op ('' || '' @ bexp_text b 1 @ s) = '' || '' @ bexp_text b 1 @ single_spaced op s" for s
    using single_spaced_op [OF BOr.prems(2), of "CHR ''|''" c "cs @ s"] BOr.IH(2) [of 1 s] BOr.prems b by simp
  show ?case using BOr.IH(1) BOr.prems op [of s] op [of "'')'' @ s"] single_spaced_word [of "''(''" op] single_spaced_word [of "'')''" op s] special_not_ws
    by (simp add: in_parens_def)
qed

lemma lower_letter: "is_letter (lower_char c) \<Longrightarrow> is_letter c"
  by (auto simp: lower_char_def is_letter_def is_lower_def is_upper_def code_in_def of_char_char_of_small split: if_splits)

lemma take_residue:
  assumes "s = [] \<or> \<not> is_letter (hd s)" "\<forall>c \<in> set word. is_letter c" "length word = n"
  shows "to_lower (take n (w @ s)) = word \<longleftrightarrow> to_lower (take n w) = word"
proof (cases "n \<le> length w")
  case False
  have "to_lower (take n w) \<noteq> word" using False assms(3) by (auto dest: arg_cong [of _ _ length])
  moreover have "to_lower (take n (w @ s)) \<noteq> word"
  proof
    assume eq: "to_lower (take n (w @ s)) = word"
    then have s: "s \<noteq> []" using False assms(3) by (auto dest: arg_cong [of _ _ length])
    then obtain k where k: "take (n - length w) s = hd s # k"
      using False by (cases s; cases "n - length w") auto
    have "lower_char (hd s) \<in> set word" using k by (simp add: eq [symmetric] to_lower_def)
    then show False using assms(1,2) s lower_letter [of "hd s"] by auto
  qed
  ultimately show ?thesis by simp
qed simp

lemma residue_append: "s = [] \<or> \<not> is_letter (hd s) \<Longrightarrow> residue (w @ s) = residue w @ residue s"
proof (induction w rule: residue.induct)
  case (2 c cs)
  have words: "\<forall>c \<in> set ''true''. is_letter c" "\<forall>c \<in> set ''false''. is_letter c" by code_simp+
  have t: "to_lower (take 4 ((c # cs) @ s)) = ''true'' \<longleftrightarrow> to_lower (take 4 (c # cs)) = ''true''"
    by (rule take_residue [OF 2(4) words(1)]) simp
  have f: "to_lower (take 5 ((c # cs) @ s)) = ''false'' \<longleftrightarrow> to_lower (take 5 (c # cs)) = ''false''"
    by (rule take_residue [OF 2(4) words(2)]) simp
  show ?case
  proof (cases "to_lower (take 4 (c # cs)) = ''true''")
    case True
    then have "length (take 4 (c # cs)) = 4" by (auto dest: arg_cong [of _ _ length])
    then have d: "drop 3 (cs @ s) = drop 3 cs @ s" by auto
    have "residue ((c # cs) @ s) = residue (drop 3 (cs @ s))" using True t by (simp only: append_Cons residue.simps simp_thms if_True)
    also have "\<dots> = residue (drop 3 cs) @ residue s" using 2(1) [OF True] 2(4) by (simp only: d)
    finally show ?thesis using True by (simp only: residue.simps simp_thms if_True)
  next
    case False
    show ?thesis
    proof (cases "to_lower (take 5 (c # cs)) = ''false''")
      case True
      then have "length (take 5 (c # cs)) = 5" by (auto dest: arg_cong [of _ _ length])
      then have d: "drop 4 (cs @ s) = drop 4 cs @ s" by auto
      have "residue ((c # cs) @ s) = residue (drop 4 (cs @ s))"
        using True False t f by (simp only: append_Cons residue.simps simp_thms if_True if_False)
      also have "\<dots> = residue (drop 4 cs) @ residue s" using 2(2) [OF False True] 2(4) by (simp only: d)
      finally show ?thesis using True False by (simp only: residue.simps simp_thms if_True if_False)
    next
      case no: False
      have "residue ((c # cs) @ s) = c # residue (cs @ s)"
        using no False t f by (simp only: append_Cons residue.simps if_False)
      also have "\<dots> = c # residue cs @ residue s" using 2(3) [OF False no] 2(4) by (simp only:)
      finally show ?thesis using no False by (simp only: residue.simps if_False append_Cons)
    qed
  qed
qed simp

lemma residue_char: "\<not> is_letter c \<Longrightarrow> residue (c # s) = c # residue s"
proof -
  assume c: "\<not> is_letter c"
  have "is_letter (CHR ''t'')" "is_letter (CHR ''f'')" by code_simp+
  then have "lower_char c \<noteq> CHR ''t''" "lower_char c \<noteq> CHR ''f''" using c lower_letter [of c] by auto
  then show ?thesis by (simp add: to_lower_def)
qed

lemma residue_subset: "set (residue w) \<subseteq> set w"
proof (induction w rule: residue.induct)
  case (2 c cs)
  then show ?case using set_drop_subset [of 3 cs] set_drop_subset [of 4 cs] by (simp del: take_Suc_Cons) blast
qed simp

lemma ident_letter: "\<not> ident_char c \<Longrightarrow> \<not> is_letter c"
  by (simp add: ident_char_def is_alnum_def)

lemma only_logic_word:
  assumes "\<forall>c \<in> set w. ident_char c" "s = [] \<or> \<not> ident_char (hd s)"
  shows "only_logic (w @ s) \<longleftrightarrow> residue w = [] \<and> only_logic s"
proof -
  have "residue (w @ s) = residue w @ residue s" using residue_append assms(2) ident_letter by blast
  moreover have "residue w = []" if "list_all (\<lambda>c. c \<in> set ''!&|() '') (residue w)"
  proof (rule ccontr)
    assume "residue w \<noteq> []"
    then obtain c where c: "c \<in> set (residue w)" by (cases "residue w") auto
    then have "ident_char c" using residue_subset assms(1) by blast
    then show False using that c ident_char_not_special [of c] by (auto simp: list_all_iff)
  qed
  ultimately show ?thesis by (auto simp: only_logic_def)
qed

lemma only_logic_char: "c \<in> set ''!&|() '' \<Longrightarrow> only_logic (c # s) \<longleftrightarrow> only_logic s"
  using other_chars ident_letter residue_char [of c s] by (auto simp: only_logic_def)

lemma residue_logic:
  "names_ok e \<Longrightarrow> s = [] \<or> \<not> ident_char (hd s) \<Longrightarrow>
   only_logic (bexp_text e l @ s) \<longleftrightarrow> list_all (\<lambda>x. residue x = []) (names_in e) \<and> only_logic s"
proof (induction e arbitrary: l s)
  case (BIdent x)
  then show ?case using only_logic_word [of x s] by (simp add: is_name_def)
next
  case BTrue
  have "residue ''true'' = []" by code_simp
  then show ?case using only_logic_word [of "''true''" s] BTrue truth_words by simp
next
  case BFalse
  have "residue ''false'' = []" by code_simp
  then show ?case using only_logic_word [of "''false''" s] BFalse truth_words by simp
qed (simp_all add: in_parens_def other_chars only_logic_char)

lemma js_tokens_word:
  assumes "w \<noteq> []" "\<forall>c \<in> set w. is_letter c" "s = [] \<or> \<not> is_letter (hd s)"
  shows "js_tokens (w @ s) = JsWord w # js_tokens s"
proof -
  obtain c cs where w: "w = c # cs" using assms(1) by (cases w) auto
  have "takeWhile is_letter s = []" "dropWhile is_letter s = s" using assms(3) by (cases s; simp)+
  then have "takeWhile is_letter (w @ s) = w" "dropWhile is_letter (w @ s) = s" using assms(2) by simp_all
  moreover have "c \<notin> {CHR ''('', CHR '')'', CHR ''!'', CHR ''&'', CHR ''|''}"
    using assms(2) w other_chars ident_letter by auto
  ultimately show ?thesis using assms(2) w by (simp add: js_tokens.simps(2))
qed

lemma js_tokens_text:
  "names_in e = [] \<Longrightarrow> s = [] \<or> \<not> ident_char (hd s) \<Longrightarrow> js_tokens (bexp_text e l @ s) = js_printed e l @ js_tokens s"
proof (induction e arbitrary: l s)
  case BTrue
  have "\<forall>c \<in> set ''true''. is_letter c" by code_simp
  then show ?case using js_tokens_word [of "''true''" s] BTrue ident_letter by auto
next
  case BFalse
  have "\<forall>c \<in> set ''false''. is_letter c" by code_simp
  then show ?case using js_tokens_word [of "''false''" s] BFalse ident_letter by auto
qed (simp_all add: in_parens_def js_parens_def other_chars ident_letter js_tokens.simps(2))

lemma js_value_tree: "names_in e = [] \<Longrightarrow> js_value (js_tree e) = Some (bexp_value pl e)"
  by (induction e) auto

lemma value_put_values:
  "known_names e \<Longrightarrow> names_ok e \<Longrightarrow> bexp_value pl' (put_values pl e) = bexp_value pl e"
  by (induction e) (auto simp: known_names_def is_name_def to_lower_def)

lemma no_value_platform: "residue x = [] \<Longrightarrow> no_hidden_words (BIdent x) \<Longrightarrow> isKnownPlatform x"
  by (simp add: no_hidden_words_def)

lemma platform_condition_tree:
  assumes "names_ok e" "no_hidden_words e" "js_trim s = bexp_text e 0"
  shows "platformCondition s platform \<longleftrightarrow> known_names e \<and> bexp_value platform e"
proof -
  let ?e = "put_values platform e"
  have "bexp_text e 0 \<noteq> []" using text_start [OF assms(1), of 0] by auto
  moreover have "replace_names platform (bexp_text e 0) = bexp_text ?e 0"
    using replace_text [OF assms(1), of "[]" platform 0] by simp
  moreover have "single_spaced op (bexp_text ?e 0) = bexp_text ?e 0" if "op \<in> {''&&'', ''||''}" for op
    using single_spaced_text [OF names_ok_put_values [OF assms(1)] that, of platform 0 "[]"] by simp
  ultimately have run: "platformCondition s platform \<longleftrightarrow>
      only_logic (bexp_text ?e 0) \<and> js_function_value (bexp_text ?e 0) = Some True"
    using assms(3) by (simp add: platformCondition_def Let_def split: option.split)
  have logic: "only_logic (bexp_text ?e 0) \<longleftrightarrow> known_names e"
    using residue_logic [OF names_ok_put_values [OF assms(1)], of "[]" platform 0] assms(2)
    by (auto simp: only_logic_def names_put_values no_hidden_words_def known_names_def list_all_iff)
  show ?thesis
  proof (cases "known_names e")
    case True
    then have none: "names_in ?e = []" by (simp add: names_put_values known_names_def filter_empty_conv list_all_iff)
    then have "js_tokens (bexp_text ?e 0) = js_printed ?e 0" using js_tokens_text [of ?e "[]" 0] by simp
    moreover have "js_printed ?e 0 \<noteq> []" using js_parse_tree [of ?e] by (auto simp: js_fuel_def and_parse_def eval_nat_numeral)
    ultimately have "js_function_value (bexp_text ?e 0) = Some (bexp_value platform e)"
      using js_parse_tree [of ?e] js_value_tree [OF none] value_put_values [OF True assms(1)]
      by (simp add: js_function_value_def)
    then show ?thesis using run logic True by simp
  qed (use run logic in simp)
qed



end
