(* ===== verification/Platform.thy ===== *)
theory Platform
  imports Downloader JsConditions Tables
begin

text \<open>
  The platform layer (\<open>src/platform/\<close>): the content fetchers (\<open>HttpFetcher.ts\<close>,
  \<open>PreFetchedContentFetcher.ts\<close>, \<open>BrowserFetcher.ts\<close>, \<open>CompositeFetcher.ts\<close>) and the downloader over them
  (\<open>PlatformDownloader.ts\<close>), which the compiler of the worker uses in place of \<open>Downloader\<close>.  What they
  ask of their host is the record \<open>web\<close> over the state \<open>'w\<close> of the world: one \<open>fetch\<close> with the reading of
  its body, the rendering of a page, and the class \<open>URL\<close>.  An error is its message.
\<close>

section \<open>Fetchers\<close>

record 'w web =
  web_fetch :: "jstr \<Rightarrow> 'w \<Rightarrow> reply \<times> 'w"
  web_connect :: "'w \<Rightarrow> jstr option \<times> 'w"
  web_render :: "jstr \<Rightarrow> 'w \<Rightarrow> (jstr + jstr) \<times> 'w"
  web_hostname :: "jstr \<Rightarrow> jstr option"
  web_resolve :: "jstr \<Rightarrow> jstr \<Rightarrow> jstr option"

datatype fetcher = PreFetched "(jstr \<times> jstr) list" | Http bool | Browser | Composite "fetcher list"

text \<open>\<open>/^172\.(1[6-9]|2[0-9]|3[01])\./\<close>\<close>

definition private_172 :: "jstr \<Rightarrow> bool" where
  "private_172 host \<longleftrightarrow>
     (case drop 4 host of
        a # b # d # _ \<Rightarrow> starts_with host ''172.'' \<and> d = CHR ''.'' \<and>
          (a = CHR ''1'' \<and> b \<in> set ''6789'' \<or> a = CHR ''2'' \<and> is_digit b \<or> a = CHR ''3'' \<and> b \<in> set ''01'')
      | _ \<Rightarrow> False)"

definition isSafeUrl :: "'w web \<Rightarrow> jstr \<Rightarrow> bool" where
  "isSafeUrl W url =
     (case web_hostname W url of
        None \<Rightarrow> False
      | Some hostname \<Rightarrow>
          (let lower = to_lower hostname; host = (if ends_with lower ''.'' then butlast lower else lower);
               bare = (if starts_with host ''['' \<and> ends_with host '']'' then butlast (tl host) else host)
           in \<not> (host = ''localhost'' \<or> host = ''127.0.0.1'' \<or> host = ''0.0.0.0'') \<and>
              \<not> (starts_with host ''10.'' \<or> starts_with host ''192.168.'' \<or> private_172 host) \<and>
              \<not> (starts_with host ''169.254.'' \<or> host = ''metadata.google.internal'') \<and>
              \<not> (bare = ''::1'' \<or> CHR '':'' \<in> set bare \<and>
                 (starts_with bare ''fe80'' \<or> starts_with bare ''fc'' \<or> starts_with bare ''fd'')) \<and>
              \<not> ends_with host ''.workers.dev''))"

definition http_fetch :: "'w web \<Rightarrow> bool \<Rightarrow> jstr \<Rightarrow> 'w \<Rightarrow> (jstr + jstr) \<times> 'w" where
  "http_fetch W allowEmptyResponse source w =
     (if \<not> isSafeUrl W source then (Inl (''Blocked request to private/internal address: '' @ source), w)
      else case web_fetch W source w of
             (Throws name message, w') \<Rightarrow> (Inl message, w')
           | (Response status statusText body, w') \<Rightarrow>
               (if \<not> response_ok status then Inl (''HTTP '' @ decimal status @ '': '' @ statusText)
                else if body = [] \<and> \<not> allowEmptyResponse then Inl ''Empty response received''
                else Inr body, w'))"

definition browser_fetch :: "'w web \<Rightarrow> jstr \<Rightarrow> 'w \<Rightarrow> (jstr + jstr) \<times> 'w" where
  "browser_fetch W url w =
     (if \<not> isSafeUrl W url then (Inl (''Blocked browser request to private/internal address: '' @ url), w)
      else case web_connect W w of
             (Some err, w') \<Rightarrow> (Inl err, w')
           | (None, w') \<Rightarrow>
               (case web_render W url w' of
                  (Inl err, w'') \<Rightarrow>
                    (Inl (''BrowserFetcher failed to fetch '' @ [CHR 0x27] @ url @ [CHR 0x27] @ '': '' @ err), w'')
                | (Inr text, w'') \<Rightarrow> (Inr text, w'')))"

fun canHandle :: "fetcher \<Rightarrow> jstr \<Rightarrow> bool" where
  "canHandle (PreFetched content) source = map_has content source"
| "canHandle (Http allow) source = (starts_with source ''http://'' \<or> starts_with source ''https://'')"
| "canHandle Browser source = (starts_with source ''http://'' \<or> starts_with source ''https://'')"
| "canHandle (Composite fs) source = list_ex (\<lambda>f. canHandle f source) fs"

text \<open>The loop over the fetchers of a \<open>CompositeFetcher\<close> takes the first that can handle the source.\<close>

fun fetcher_fetch :: "'w web \<Rightarrow> fetcher \<Rightarrow> jstr \<Rightarrow> 'w \<Rightarrow> (jstr + jstr) \<times> 'w" where
  "fetcher_fetch W (PreFetched content) source w =
     (case map_get content source of
        None \<Rightarrow> (Inl (''No pre-fetched content available for: '' @ source), w)
      | Some text \<Rightarrow> (Inr text, w))"
| "fetcher_fetch W (Http allow) source w = http_fetch W allow source w"
| "fetcher_fetch W Browser source w = browser_fetch W source w"
| "fetcher_fetch W (Composite []) source w = (Inl (''No fetcher available for source: '' @ source), w)"
| "fetcher_fetch W (Composite (f # fs)) source w =
     (if canHandle f source then fetcher_fetch W f source w else fetcher_fetch W (Composite fs) source w)"

definition addFetcher :: "fetcher \<Rightarrow> bool \<Rightarrow> fetcher list \<Rightarrow> fetcher list" where
  "addFetcher f priority fs = (if priority then f # fs else fs @ [f])"

section \<open>The downloader\<close>

text \<open>The part of a path up to the last slash, else up to the last backslash.\<close>

definition upto_last :: "char \<Rightarrow> jstr \<Rightarrow> jstr" where
  "upto_last c s = (case last_index_of c s of None \<Rightarrow> [] | Some i \<Rightarrow> take (i + 1) s)"

definition platformResolve :: "(jstr \<Rightarrow> jstr \<Rightarrow> jstr option) \<Rightarrow> jstr \<Rightarrow> jstr \<Rightarrow> jstr option" where
  "platformResolve resolve_url includePath basePath =
     (if isAbsolutePath includePath \<or> isUrl includePath then Some includePath
      else if isUrl basePath then resolve_url basePath includePath
      else let slash = upto_last CHR ''/'' basePath
           in Some ((if slash \<noteq> [] then slash else upto_last CHR 0x5C basePath) @ includePath))"

text \<open>
  The directives: the code is that of \<open>Directives\<close> up to the reading of conditions; the parsing of a
  block and the search for its end are the same text.
\<close>

function platformDirectives :: "(jstr \<Rightarrow> 's \<Rightarrow> ('e + lines) \<times> 's) \<Rightarrow> lines \<Rightarrow> 's \<Rightarrow> ('e + lines) \<times> 's" where
  "platformDirectives inc [] s = (Inr [], s)"
| "platformDirectives inc (line # rest) s =
     (let trimmed = js_trim line
      in if starts_with trimmed D_If then
           (let block = parseConditionalBlock (line # rest);
                chosen = (if platformCondition (argument_of D_If line) None then blk_ifLines block
                          else blk_elseLines block)
            in case platformDirectives inc chosen s of
                 (Inl e, s') \<Rightarrow> (Inl e, s')
               | (Inr out, s') \<Rightarrow>
                   after out (platformDirectives inc (drop (findEndIfIndex (line # rest)) rest) s'))
         else if starts_with trimmed D_Include then
           (case inc (argument_of D_Include line) s of
              (Inl e, s') \<Rightarrow> (Inl e, s')
            | (Inr out, s') \<Rightarrow> after out (platformDirectives inc rest s'))
         else if starts_with trimmed D_Safari then platformDirectives inc (skip_safari rest) s
         else if trimmed = D_Else \<or> trimmed = D_EndIf then platformDirectives inc rest s
         else after [line] (platformDirectives inc rest s))"
  by pat_completeness auto
termination
  by (relation "measure (\<lambda>(_, ls, _). length ls)")
    (auto simp: less_Suc_eq_le skip_safari_length parseConditionalBlock_length)

declare platformDirectives.simps(2) [simp del]

record 'w platform_downloader =
  pd_visited :: "jstr list"
  pd_world :: 'w

text \<open>\<open>left\<close> is \<open>maxIncludeDepth + 1 - depth\<close>.  A URL that does not parse throws out of the directives.\<close>

primrec platformInternal :: "nat \<Rightarrow> 'w web \<Rightarrow> fetcher \<Rightarrow> jstr \<Rightarrow> 'w platform_downloader \<Rightarrow>
    (jstr + lines) \<times> 'w platform_downloader" where
  "platformInternal 0 W F source s = (Inr [], s)"
| "platformInternal (Suc left) W F source s =
     (if source \<in> set (pd_visited s) then (Inr [], s)
      else let s1 = s\<lparr>pd_visited := source # pd_visited s\<rparr>;
               (r, w) = (if canHandle F source then fetcher_fetch W F source (pd_world s)
                         else (Inl (''No fetcher available for source: '' @ source), pd_world s));
               s2 = s1\<lparr>pd_world := w\<rparr>
           in case r of
                Inl e \<Rightarrow> (Inl e, s2)
              | Inr content \<Rightarrow>
                  platformDirectives
                    (\<lambda>includePath t.
                       case platformResolve (web_resolve W) includePath source of
                         None \<Rightarrow> (Inl ''Invalid URL'', t)
                       | Some resolvedPath \<Rightarrow>
                           (case platformInternal left W F resolvedPath t of
                              (Inr included, t') \<Rightarrow> (Inr included, t')
                            | (Inl e, t') \<Rightarrow> (Inr [], t')))
                    (content_lines content) s2)"

definition platformDownload :: "nat \<Rightarrow> 'w web \<Rightarrow> fetcher \<Rightarrow> jstr \<Rightarrow> 'w \<Rightarrow> (jstr + lines) \<times> 'w platform_downloader" where
  "platformDownload maxIncludeDepth W F source w =
     platformInternal (maxIncludeDepth + 1) W F source \<lparr>pd_visited = [], pd_world = w\<rparr>"

section \<open>Both downloaders on the same lists\<close>

text \<open>
  A site gives the text of each of its lists, none of them empty.  Both hosts answer with these texts and
  with the status 404 for every other URL.
\<close>

type_synonym site = "jstr \<Rightarrow> jstr option"

definition site_reply :: "site \<Rightarrow> jstr \<Rightarrow> reply" where
  "site_reply site url = (case site url of Some text \<Rightarrow> Response 200 ''OK'' text | None \<Rightarrow> Response 404 ''Not Found'' [])"

definition host_serves :: "site \<Rightarrow> 'w host \<Rightarrow> bool" where
  "host_serves site h \<longleftrightarrow> (\<forall>url w now. fst (host_fetch h url w now) = site_reply site url)"

definition web_serves :: "site \<Rightarrow> 'w web \<Rightarrow> bool" where
  "web_serves site W \<longleftrightarrow> (\<forall>url w. fst (web_fetch W url w) = site_reply site url) \<and>
     (\<forall>url. isUrl url \<longrightarrow> isSafeUrl W url)"

text \<open>
  The lists of the site use only conditions that both downloaders read alike (see \<open>conditions_agree\<close>), and
  includes that lead to URLs.
\<close>

definition plain_site :: "(jstr \<Rightarrow> jstr \<Rightarrow> jstr option) \<Rightarrow> site \<Rightarrow> bool" where
  "plain_site resolve_url site \<longleftrightarrow>
     (\<forall>url text. site url = Some text \<longrightarrow> text \<noteq> [] \<and>
        (\<forall>line \<in> set (content_lines text).
           (starts_with (js_trim line) D_If \<longrightarrow>
              platformCondition (argument_of D_If line) None = evaluateCondition (argument_of D_If line) None) \<and>
           (starts_with (js_trim line) D_Include \<longrightarrow>
              (isUrl (argument_of D_Include line) \<or>
               \<not> isAbsolutePath (argument_of D_Include line) \<and>
               (\<exists>r. resolve_url url (argument_of D_Include line) = Some r \<and> isUrl r)))))"

lemma put_line_set: "set (fst (put_line e l r)) \<subseteq> insert l (set (fst r)) \<and> set (snd (put_line e l r)) \<subseteq> insert l (set (snd r))"
  by (cases r) (auto simp: put_line_def)

lemma block_loop_set: "set (fst (block_loop d e ls)) \<subseteq> set ls \<and> set (snd (block_loop d e ls)) \<subseteq> set ls"
proof (induction d e ls rule: block_loop.induct)
  case (2 d e line rest)
  have put: "set (fst r) \<subseteq> set rest \<and> set (snd r) \<subseteq> set rest \<Longrightarrow>
      set (fst (put_line e line r)) \<subseteq> insert line (set rest) \<and> set (snd (put_line e line r)) \<subseteq> insert line (set rest)" for r
    using put_line_set [of e line r] by blast
  show ?case using 2 put by (auto simp: Let_def subset_insertI2)
qed simp

lemma block_lines:
  "set (blk_ifLines (parseConditionalBlock (line # rest))) \<subseteq> set rest"
  "set (blk_elseLines (parseConditionalBlock (line # rest))) \<subseteq> set rest"
  using block_loop_set [of 1 False rest] by (cases "block_loop 1 False rest"; simp add: parseConditionalBlock_def)+

lemma skip_safari_set: "set (skip_safari ls) \<subseteq> set ls"
  by (induction ls) auto

text \<open>Two runs over the same lines whose includes succeed alike.\<close>

definition agree_on :: "('s \<Rightarrow> 't \<Rightarrow> bool) \<Rightarrow> ('e + lines) \<times> 's \<Rightarrow> ('f + lines) \<times> 't \<Rightarrow> bool" where
  "agree_on R x y \<longleftrightarrow> (\<exists>out. fst x = Inr out \<and> fst y = Inr out) \<and> R (snd x) (snd y)"

lemma agree_on_after: "agree_on R x y \<Longrightarrow> agree_on R (after out x) (after out y)"
  by (auto simp: agree_on_def after_def split: prod.splits)

lemma agree_on_bind:
  assumes "agree_on R x y" and "\<And>s t. R s t \<Longrightarrow> agree_on R (f s) (g t)"
  shows "agree_on R (case x of (Inl e, s) \<Rightarrow> (Inl e, s) | (Inr out, s) \<Rightarrow> after out (f s))
     (case y of (Inl e, s) \<Rightarrow> (Inl e, s) | (Inr out, s) \<Rightarrow> after out (g s))"
proof -
  obtain out where xy: "x = (Inr out, snd x)" "y = (Inr out, snd y)" "R (snd x) (snd y)"
    using assms(1) by (cases x; cases y) (auto simp: agree_on_def)
  have "agree_on R (after out (f (snd x))) (after out (g (snd y)))" using assms(2) xy(3) by (intro agree_on_after)
  then show ?thesis by (subst xy(1), subst xy(2)) simp
qed

definition line_plain :: "(jstr \<Rightarrow> bool) \<Rightarrow> jstr \<Rightarrow> bool" where
  "line_plain ok line \<longleftrightarrow>
     (starts_with (js_trim line) D_If \<longrightarrow>
        platformCondition (argument_of D_If line) None = evaluateCondition (argument_of D_If line) None) \<and>
     (starts_with (js_trim line) D_Include \<longrightarrow> ok (argument_of D_Include line))"

lemma directives_agree:
  assumes inc: "\<And>path s t. ok path \<Longrightarrow> R s t \<Longrightarrow> agree_on R (inc path s) (inc' path t)"
    and "R s t" "\<forall>line \<in> set ls. line_plain ok line"
  shows "agree_on R (processDirectives inc ls s) (platformDirectives inc' ls t)"
  using assms(2,3)
proof (induction "length ls" arbitrary: ls s t rule: less_induct)
  case less
  show ?case
  proof (cases ls)
    case (Cons line rest)
    have line: "line_plain ok line" and rest: "\<forall>line \<in> set rest. line_plain ok line" using less.prems(2) Cons by auto
    have IH: "agree_on R (processDirectives inc ls' s') (platformDirectives inc' ls' t')"
      if "length ls' \<le> length rest" "set ls' \<subseteq> set rest" "R s' t'" for ls' s' t'
      using less.hyps [of ls' s' t'] that rest Cons by auto
    let ?block = "parseConditionalBlock (line # rest)"
    show ?thesis
    proof (cases "starts_with (js_trim line) D_If")
      case True
      then have c: "platformCondition (argument_of D_If line) None = evaluateCondition (argument_of D_If line) None"
        using line by (simp add: line_plain_def)
      show ?thesis unfolding Cons processDirectives.simps(2) platformDirectives.simps(2) Let_def if_P [OF True] c
        by (intro agree_on_bind IH)
          (auto simp: parseConditionalBlock_length less.prems(1) dest: block_lines [THEN subsetD] in_set_dropD)
    next
      case no_if: False
      show ?thesis
      proof (cases "starts_with (js_trim line) D_Include")
        case True
        then have "ok (argument_of D_Include line)" using line by (simp add: line_plain_def)
        then show ?thesis
          unfolding Cons processDirectives.simps(2) platformDirectives.simps(2) Let_def if_not_P [OF no_if] if_P [OF True]
          by (intro agree_on_bind inc IH less.prems(1)) auto
      next
        case False
        have "agree_on R (processDirectives inc (skip_safari rest) s) (platformDirectives inc' (skip_safari rest) t)"
          "agree_on R (processDirectives inc rest s) (platformDirectives inc' rest t)"
          using IH less.prems(1) skip_safari_length skip_safari_set by blast+
        then show ?thesis
          unfolding Cons processDirectives.simps(2) platformDirectives.simps(2) Let_def if_not_P [OF no_if] if_not_P [OF False]
          by (simp add: agree_on_after)
      qed
    qed
  qed (simp add: agree_on_def less.prems(1))
qed

lemma site_error: "one_attempt opts url a (Response 404 ''Not Found'' []) = Throw (httpError url 404 ''Not Found'')"
proof -
  have "str_includes (''HTTP '' @ decimal 404 @ '': '' @ ''Not Found'') ''aborted'' = False" by code_simp
  then have "settled (Response 404 ''Not Found'' [])" by (simp add: response_ok_def)
  from one_attempt_settled [OF this, of opts url a] show ?thesis by (simp add: response_ok_def)
qed

lemma site_fetch:
  assumes "host_serves site h" "0 \<le> do_maxRetries opts" "site url \<noteq> Some []"
  shows "fst (fetchFn h opts url w now) =
    (case site url of Some text \<Rightarrow> Inr text | None \<Rightarrow> Inl (httpError url 404 ''Not Found''))"
proof -
  obtain n where n: "nat (do_maxRetries opts + 1) = Suc n" using assms(2) by (cases "nat (do_maxRetries opts + 1)") auto
  obtain w' now' where f: "host_fetch h url w now = (site_reply site url, w', now')"
    using assms(1) unfolding host_serves_def by (metis prod.collapse)
  have "one_attempt opts url a (Response 200 ''OK'' body) = Return body" if "body \<noteq> []" for a body
    using that by (simp add: one_attempt_def try_block_def response_ok_def)
  then show ?thesis using assms(3) f site_error
    by (auto simp: fetchFn_def n site_reply_def Let_def split: option.split)
qed

lemma site_load:
  assumes "host_serves site h" "0 \<le> do_maxRetries opts" "site url \<noteq> Some []" "isUrl url" "\<not> do_enableCircuitBreaker opts"
  shows "fst (load h opts url s) = (case site url of Some text \<Rightarrow> Inr text | None \<Rightarrow> Inl (httpError url 404 ''Not Found'')) \<and>
    visitedUrls (snd (load h opts url s)) = visitedUrls s"
  using site_fetch [OF assms(1-3), of "dl_world s" "dl_now s"] assms(4,5)
  by (auto simp: load_def fetchUrl_def getCircuitBreaker_def Let_def split: prod.split)

lemma web_load:
  assumes "web_serves site W" "isUrl url" "site url \<noteq> Some []"
  shows "canHandle (Http False) url" "fst (fetcher_fetch W (Http False) url w) =
    (case site url of Some text \<Rightarrow> Inr text | None \<Rightarrow> Inl (''HTTP '' @ decimal 404 @ '': Not Found''))"
proof -
  show "canHandle (Http False) url" using assms(2) by (simp add: isUrl_def)
  obtain w' where f: "web_fetch W url w = (site_reply site url, w')"
    using assms(1) unfolding web_serves_def by (metis prod.collapse)
  show "fst (fetcher_fetch W (Http False) url w) =
    (case site url of Some text \<Rightarrow> Inr text | None \<Rightarrow> Inl (''HTTP '' @ decimal 404 @ '': Not Found''))"
    using assms f by (auto simp: http_fetch_def web_serves_def site_reply_def response_ok_def split: option.split)
qed

definition same_lines :: "('e + 'a) \<Rightarrow> ('f + 'a) \<Rightarrow> bool" where
  "same_lines x y \<longleftrightarrow> map_sum (\<lambda>_. ()) (\<lambda>a. a) x = map_sum (\<lambda>_. ()) (\<lambda>a. a) y"

definition in_step :: "'w downloader \<Rightarrow> 'v platform_downloader \<Rightarrow> bool" where
  "in_step s t \<longleftrightarrow> pd_visited t = visitedUrls s"

definition resolved_url :: "(jstr \<Rightarrow> jstr \<Rightarrow> jstr option) \<Rightarrow> jstr \<Rightarrow> jstr \<Rightarrow> bool" where
  "resolved_url resolve_url base path \<longleftrightarrow>
     isUrl path \<or> \<not> isAbsolutePath path \<and> (\<exists>r. resolve_url base path = Some r \<and> isUrl r)"

lemma same_lines_simps [simp]:
  "same_lines (Inr x) (Inr y) \<longleftrightarrow> x = y" "same_lines (Inl d) (Inl e)"
  "\<not> same_lines (Inr x) (Inl e)" "\<not> same_lines (Inl d) (Inr y)"
  by (simp_all add: same_lines_def)

lemma caught_agree:
  "same_lines (fst x) (fst y) \<Longrightarrow> R (snd x) (snd y) \<Longrightarrow>
   agree_on R (case x of (Inr l, s) \<Rightarrow> (Inr l, s) | (Inl e, s) \<Rightarrow> (Inr [], s))
     (case y of (Inr l, s) \<Rightarrow> (Inr l, s) | (Inl e, s) \<Rightarrow> (Inr [], s))"
  by (cases x; cases y) (auto simp: agree_on_def split: sum.split)

lemma resolved_alike:
  assumes "resolved_url resolve_url base path" "isUrl base"
  obtains p where "resolveIncludePath resolve_url path base = Inr p" "platformResolve resolve_url path base = Some p" "isUrl p"
proof (cases "isUrl path")
  case True
  then show ?thesis using that [of path] by (simp add: resolveIncludePath_def platformResolve_def)
next
  case False
  then obtain r where "\<not> isAbsolutePath path" "resolve_url base path = Some r" "isUrl r"
    using assms(1) by (auto simp: resolved_url_def)
  then show ?thesis using that [of r] False assms(2) by (simp add: resolveIncludePath_def platformResolve_def)
qed

lemma internal_agree:
  assumes serves: "host_serves site h" "web_serves site W" "plain_site (host_url h) site" "web_resolve W = host_url h"
    and opts: "0 \<le> do_maxRetries opts" "\<not> do_enableCircuitBreaker opts"
  shows "isUrl source \<Longrightarrow> in_step s t \<Longrightarrow>
    same_lines (fst (downloadInternal n h opts source s)) (fst (platformInternal n W (Http False) source t)) \<and>
    in_step (snd (downloadInternal n h opts source s)) (snd (platformInternal n W (Http False) source t))"
proof (induction n arbitrary: source s t)
  case (Suc n)
  let ?s = "s\<lparr>visitedUrls := source # visitedUrls s\<rparr>" and ?t = "t\<lparr>pd_visited := source # pd_visited t\<rparr>"
  have full: "site source \<noteq> Some []" using serves(3) by (auto simp: plain_site_def)
  note load = site_load [OF serves(1) opts(1) full Suc.prems(1) opts(2), of ?s]
  note web = web_load [OF serves(2) Suc.prems(1) full]
  obtain r s' where l: "load h opts source ?s = (r, s')" by (cases "load h opts source ?s")
  obtain r' w' where f: "fetcher_fetch W (Http False) source (pd_world t) = (r', w')"
    by (cases "fetcher_fetch W (Http False) source (pd_world t)")
  show ?case
  proof (cases "source \<in> set (visitedUrls s)")
    case False
    have visited: "visitedUrls s' = source # visitedUrls s" using load l by simp
    show ?thesis
    proof (cases "site source")
      case None
      then have "isl r" "isl r'" using load l web(2) [of "pd_world t"] f by auto
      then show ?thesis using l f web(1) False Suc.prems(2) visited
        by (auto simp: in_step_def same_lines_def isl_def)
    next
      case (Some content)
      then have r: "r = Inr content" "r' = Inr content" using load l web(2) [of "pd_world t"] f by auto
      let ?inc = "\<lambda>path u. case resolveIncludePath (host_url h) path source of Inl e \<Rightarrow> (Inl (PathTraversalError e), u)
           | Inr p \<Rightarrow> (case downloadInternal n h opts p u of
               (Inr included, u') \<Rightarrow> (Inr included, u') | (Inl e, u') \<Rightarrow> (Inr [], u'))"
      let ?inc' = "\<lambda>path v. case platformResolve (web_resolve W) path source of None \<Rightarrow> (Inl ''Invalid URL'', v)
           | Some p \<Rightarrow> (case platformInternal n W (Http False) p v of
               (Inr included, v') \<Rightarrow> (Inr included, v') | (Inl e, v') \<Rightarrow> (Inr [], v'))"
      have "agree_on in_step (?inc path u) (?inc' path v)"
        if ok: "resolved_url (host_url h) source path" and uv: "in_step u v" for path u v
      proof -
        obtain p where p: "resolveIncludePath (host_url h) path source = Inr p"
          "platformResolve (web_resolve W) path source = Some p" "isUrl p"
          using resolved_alike [OF ok Suc.prems(1)] serves(4) by metis
        from Suc.IH [OF p(3) uv] have "agree_on in_step
            (case downloadInternal n h opts p u of (Inr l, s) \<Rightarrow> (Inr l, s) | (Inl e, s) \<Rightarrow> (Inr [], s))
            (case platformInternal n W (Http False) p v of (Inr l, s) \<Rightarrow> (Inr l, s) | (Inl e, s) \<Rightarrow> (Inr [], s))"
          by (intro caught_agree) auto
        then show ?thesis by (simp add: p)
      qed
      moreover have "\<forall>line \<in> set (content_lines content). line_plain (resolved_url (host_url h) source) line"
        using serves(3) Some by (auto simp: plain_site_def line_plain_def resolved_url_def)
      moreover have "in_step s' (?t\<lparr>pd_world := w'\<rparr>)" using visited Suc.prems(2) by (simp add: in_step_def)
      ultimately have "agree_on in_step (processDirectives ?inc (content_lines content) s')
          (platformDirectives ?inc' (content_lines content) (?t\<lparr>pd_world := w'\<rparr>))"
        by (intro directives_agree)
      then show ?thesis using l f r web(1) False Suc.prems(2) by (auto simp: in_step_def agree_on_def)
    qed
  qed (use Suc.prems(2) in \<open>auto simp: in_step_def\<close>)
qed simp

text \<open>
  Both downloaders give the same rules.  On a site whose lists use conditions that both read alike and
  include only URLs, the downloader of the worker and that of the command line, with its retries,
  circuit breakers and states of its own, return the same lines for every list, with all includes
  resolved to the same depth, and fail for the same lists.
\<close>

theorem downloaders_agree:
  assumes "host_serves site h" "web_serves site W" "plain_site (host_url h) site" "web_resolve W = host_url h"
    and "isUrl source" "0 \<le> do_maxRetries opts" "1 < do_circuitBreakerThreshold opts"
  shows "same_lines (fst (download_once h opts False source w now))
    (fst (platformDownload (do_maxIncludeDepth opts) W (Http False) source w'))"
proof -
  let ?o = "opts\<lparr>do_enableCircuitBreaker := False, do_allowEmptyResponse := False\<rparr>"
  have "fst (download_once h opts False source w now) =
      fst (download_once h (opts\<lparr>do_enableCircuitBreaker := False\<rparr>) False source w now)"
    by (rule conjunct1 [OF compiler_breakers_idle [OF assms(7)]])
  also have "\<dots> = fst (downloadInternal (do_maxIncludeDepth opts + 1) h ?o source ((new_downloader w now)\<lparr>visitedUrls := []\<rparr>))"
    by (simp only: download_once_def download_def) simp
  finally have d: "fst (download_once h opts False source w now) = \<dots>" .
  have "in_step ((new_downloader w now)\<lparr>visitedUrls := []\<rparr>) \<lparr>pd_visited = [], pd_world = w'\<rparr>" by (simp add: in_step_def)
  from internal_agree [OF assms(1-4) _ _ assms(5) this, of ?o "do_maxIncludeDepth opts + 1"] assms(6)
  show ?thesis unfolding d platformDownload_def by simp
qed

text \<open>A site of two lists, one of which includes the other.\<close>

definition demo_site :: site where
  "demo_site = [''http://a/l'' \<mapsto> ''!#include m'' @ [CHR 0x0A] @ ''x'', ''http://a/m'' \<mapsto> ''y'']"

definition site_host :: "site \<Rightarrow> unit host" where
  "site_host site = \<lparr>host_fetch = (\<lambda>url w now. (site_reply site url, w, now)), host_wait = (\<lambda>n w now. (w, now)),
     host_read = (\<lambda>path w now. (Inl NotFound, w, now)), host_url = (\<lambda>base rel. Some (''http://a/'' @ rel))\<rparr>"

definition site_web :: "site \<Rightarrow> unit web" where
  "site_web site = \<lparr>web_fetch = (\<lambda>url w. (site_reply site url, w)), web_connect = (\<lambda>w. (None, w)),
     web_render = (\<lambda>url w. (Inr url, w)), web_hostname = (\<lambda>url. Some ''a''),
     web_resolve = (\<lambda>base rel. Some (''http://a/'' @ rel))\<rparr>"

lemma demo_site_plain: "plain_site (\<lambda>base rel. Some (''http://a/'' @ rel)) demo_site"
proof -
  have c: "content_lines (''!#include m'' @ [CHR 0x0A] @ ''x'') = [''!#include m'', ''x'']" "content_lines ''y'' = [''y'']"
    "\<not> starts_with (js_trim ''!#include m'') D_If" "argument_of D_Include ''!#include m'' = ''m''"
    "\<not> starts_with (js_trim ''x'') D_If" "\<not> starts_with (js_trim ''x'') D_Include"
    "\<not> starts_with (js_trim ''y'') D_If" "\<not> starts_with (js_trim ''y'') D_Include"
    "\<not> isAbsolutePath ''m''" "isUrl ''http://a/m''" by code_simp+
  then show ?thesis unfolding plain_site_def demo_site_def by (auto split: if_splits)
qed

lemma demo_site_served:
  "host_serves demo_site (site_host demo_site)" "web_serves demo_site (site_web demo_site)"
  "plain_site (host_url (site_host demo_site)) demo_site" "web_resolve (site_web demo_site) = host_url (site_host demo_site)"
proof -
  have "isSafeUrl (site_web demo_site) url" for url
    by (simp add: isSafeUrl_def site_web_def) code_simp
  then show "host_serves demo_site (site_host demo_site)" "web_serves demo_site (site_web demo_site)"
    "plain_site (host_url (site_host demo_site)) demo_site" "web_resolve (site_web demo_site) = host_url (site_host demo_site)"
    using demo_site_plain by (simp_all add: host_serves_def web_serves_def site_host_def site_web_def)
qed

theorem downloaders_agree_witness:
  "fst (download_once (site_host demo_site) DEFAULT_OPTIONS False ''http://a/l'' () 0) = Inr [''y'', ''x'']"
proof -
  have o: "isUrl ''http://a/l''" "0 \<le> do_maxRetries DEFAULT_OPTIONS" "1 < do_circuitBreakerThreshold DEFAULT_OPTIONS"
    by code_simp+
  have "fst (platformDownload (do_maxIncludeDepth DEFAULT_OPTIONS) (site_web demo_site) (Http False) ''http://a/l'' ()) =
      Inr [''y'', ''x'']" by code_simp
  with downloaders_agree [OF demo_site_served o, of "()" 0 "()"] show ?thesis
    by (cases "fst (download_once (site_host demo_site) DEFAULT_OPTIONS False ''http://a/l'' () 0)") auto
qed

section \<open>Includes of files\<close>

text \<open>
  An absolute path in an include of a downloaded list is taken as it is.  The downloader of the command
  line reads that file of its own machine and publishes its lines with the rules; the downloader of the
  worker has no fetcher for it and leaves the include out.
\<close>

definition file_host :: "unit host" where
  "file_host = (site_host [''http://a/l'' \<mapsto> ''!#include /etc/passwd'' @ [CHR 0x0A] @ ''x''])
     \<lparr>host_read := (\<lambda>path w now. (if path = ''/etc/passwd'' then Inr ''root'' else Inl NotFound, w, now))\<rparr>"

theorem remote_include_reads_file:
  "fst (download_once file_host DEFAULT_OPTIONS False ''http://a/l'' () 0) = Inr [''root'', ''x''] \<and>
   fst (platformDownload 10 (site_web [''http://a/l'' \<mapsto> ''!#include /etc/passwd'' @ [CHR 0x0A] @ ''x'']) (Http False)
     ''http://a/l'' ()) = Inr [''x'']"
  by (intro conjI; code_simp)

end
