(* ===== verification/WorkerCompiler.thy ===== *)
theory WorkerCompiler
  imports Compiler Platform
begin

text \<open>
  The compiler of the worker (\<open>src/platform/WorkerCompiler.ts\<close>): the same stages as in \<open>Compiler\<close>, over
  the fetchers and the downloader of \<open>Platform\<close>.  \<open>wk_download browser source\<close> is the outcome of the
  download of a source, rendered by a browser or not; \<open>worker_fetch\<close> is how the class obtains it.  The
  two branches of the code with and without a benchmark compute the same.
\<close>

section \<open>Choosing a fetcher\<close>

record worker_options =
  wo_customFetcher :: "fetcher option"
  wo_preFetched :: "(jstr \<times> jstr) list option"
  wo_allowEmpty :: bool

definition buildFetcher :: "worker_options \<Rightarrow> fetcher" where
  "buildFetcher opts =
     (case wo_customFetcher opts of
        Some f \<Rightarrow> f
      | None \<Rightarrow>
          (case wo_preFetched opts of
             Some content \<Rightarrow> Composite [PreFetched content, Http (wo_allowEmpty opts)]
           | None \<Rightarrow> Http (wo_allowEmpty opts)))"

definition browser_missing :: "jstr \<Rightarrow> jstr" where
  "browser_missing source =
     ''Source '' @ [CHR 0x27] @ source @ [CHR 0x27] @
     '' has useBrowser: true but browserConnector and browserBinding were not provided to WorkerCompiler''"

definition getFetcherForSource :: "fetcher \<Rightarrow> bool \<Rightarrow> source_config \<Rightarrow> jstr + fetcher" where
  "getFetcherForSource fetcher hasBrowser source =
     (if src_useBrowser source = Some True
      then (if hasBrowser then Inr Browser else Inl (browser_missing (src_source source)))
      else Inr fetcher)"

definition worker_fetch :: "'w web \<Rightarrow> 'w \<Rightarrow> fetcher \<Rightarrow> bool \<Rightarrow> source_config \<Rightarrow> jstr + lines" where
  "worker_fetch W w fetcher hasBrowser source =
     (case getFetcherForSource fetcher hasBrowser source of
        Inl e \<Rightarrow> Inl e
      | Inr F \<Rightarrow> fst (platformDownload 10 W F (src_source source) w))"

section \<open>Compiling\<close>

datatype worker_error = InvalidConfiguration | WorkerDownload jstr | WorkerPipeline pipeline_error

definition applySourceTransformations ::
  "library \<Rightarrow> lines \<Rightarrow> source_config \<Rightarrow> configuration \<Rightarrow> pipeline_error + lines" where
  "applySourceTransformations lib rules source config =
     (let sourceTransformations = or_empty (src_transformations source)
      in if length sourceTransformations = 0 then Inr rules
         else transform lib rules (pattern_config.truncate config) sourceTransformations)"

definition worker_source ::
  "environment \<Rightarrow> (source_config \<Rightarrow> jstr + lines) \<Rightarrow> configuration \<Rightarrow> source_config \<Rightarrow> worker_error + lines" where
  "worker_source env wk_download config source =
     (case wk_download source of
        Inl e \<Rightarrow> Inl (WorkerDownload e)
      | Inr downloaded \<Rightarrow>
          (case applySourceTransformations (env_library env) (stripUpstreamHeaders downloaded) source config of
             Inl e \<Rightarrow> Inl (WorkerPipeline e)
           | Inr rules \<Rightarrow> Inr rules))"

definition worker_compile ::
  "environment \<Rightarrow> (source_config \<Rightarrow> jstr + lines) \<Rightarrow> nat list \<Rightarrow> configuration \<Rightarrow> worker_error + lines" where
  "worker_compile env wk_download order config =
     (case validate_configuration (env_url_parses env) (env_url_format env) (env_errors_text env)
             (configuration_json config) of
        Some errorsText \<Rightarrow> Inl InvalidConfiguration
      | None \<Rightarrow>
          (case promise_all order (map (worker_source env wk_download config) (cfg_sources config)) of
             Inl e \<Rightarrow> Inl e
           | Inr results \<Rightarrow>
               (case transform (env_library env) (combine_sources (cfg_sources config) results)
                       (pattern_config.truncate config) (or_empty (cfg_transformations config)) of
                  Inl e \<Rightarrow> Inl (WorkerPipeline e)
                | Inr finalList \<Rightarrow>
                    Inr (addChecksumToHeader (env_hash env) (prepareHeader env config @ finalList)))))"

section \<open>Both compilers\<close>

lemma same_lines_sum: "same_lines x y \<longleftrightarrow> (case x of Inl _ \<Rightarrow> isl y | Inr a \<Rightarrow> y = Inr a)"
  by (cases x; cases y) (auto simp: same_lines_def)

lemma same_lines_parts: "same_lines x y \<Longrightarrow> isl y = isl x \<and> (\<not> isl x \<longrightarrow> projr y = projr x)"
  by (cases x; cases y) auto

lemma promise_all_same:
  assumes "list_all2 same_lines rs qs" "set order = {..< length rs}"
  shows "same_lines (promise_all order rs) (promise_all order qs)"
proof -
  have len: "length qs = length rs" using assms(1) by (simp add: list_all2_lengthD)
  have each: "isl (qs ! i) = isl (rs ! i)" "\<not> isl (rs ! i) \<longrightarrow> projr (qs ! i) = projr (rs ! i)" if "i < length rs" for i
    using same_lines_parts [OF list_all2_nthD [OF assms(1) that]] by simp_all
  have isl: "list_all (\<lambda>r. \<not> isl r) qs \<longleftrightarrow> list_all (\<lambda>r. \<not> isl r) rs"
    using len each by (simp add: list_all_length)
  have "map projr rs = map projr qs" if "list_all (\<lambda>r. \<not> isl r) rs"
    using that each len by (intro nth_equalityI) (simp_all add: list_all_length)
  then show ?thesis using promise_all_cases [of order rs] promise_all_cases [of order qs] assms(2) len isl by simp
qed

lemma source_same:
  assumes "same_lines (env_download env (src_source source)) (wk_download source)"
    and "or_empty (src_transformations source) \<noteq> [] \<Longrightarrow> pattern_config.truncate source = pattern_config.truncate config"
  shows "same_lines (compile_source env source) (worker_source env wk_download config source)"
  using assms
  by (auto simp: same_lines_sum compile_source_def worker_source_def applySourceTransformations_def Let_def
      split: sum.splits)

lemma compile_same:
  assumes downloads: "\<forall>source \<in> set (cfg_sources config). same_lines (env_download env (src_source source)) (wk_download source)"
    and filters: "\<forall>source \<in> set (cfg_sources config). or_empty (src_transformations source) \<noteq> [] \<longrightarrow>
      pattern_config.truncate source = pattern_config.truncate config"
    and order: "complete_order config order"
  shows "same_lines (compile_list env order config) (worker_compile env wk_download order config)"
proof -
  let ?rs = "map (compile_source env) (cfg_sources config)" and ?qs = "map (worker_source env wk_download config) (cfg_sources config)"
  have "list_all2 same_lines ?rs ?qs"
    using downloads filters by (auto simp: list_all2_conv_all_nth intro!: source_same)
  then have "same_lines (promise_all order ?rs) (promise_all order ?qs)"
    by (rule promise_all_same) (use order in \<open>simp add: complete_order_set\<close>)
  then show ?thesis
    by (auto simp: compile_list_def worker_compile_def same_lines_sum prepareHeader_def split: sum.splits option.split)
qed


definition url_source :: "jstr \<Rightarrow> source_config" where
  "url_source url = \<lparr>exclusions = [], exclusions_sources = [], inclusions = [], inclusions_sources = [],
     src_source = url, src_name = None, src_type = None, src_useBrowser = None,
     src_transformations = None, src_precompiled = None\<rparr>"

definition site_configuration :: configuration where
  "site_configuration = \<lparr>exclusions = [], exclusions_sources = [], inclusions = [], inclusions_sources = [],
     cfg_metadata = \<lparr>md_name = ''demo'', md_description = None, md_version = None, md_homepage = None, md_license = None\<rparr>,
     cfg_sources = [url_source ''http://a/l''], cfg_transformations = None\<rparr>"


section \<open>The filters of a source\<close>

text \<open>
  The compiler of the worker hands the configuration to the pipeline in place of the source: the exclusions
  and inclusions of a source have no effect, and those of the configuration are applied to each source
  as well as to the whole.  So a rule that the source excludes is published by the worker, and not by
  the command line.
\<close>

theorem worker_ignores_source_filters:
  assumes "wk_download (source\<lparr>exclusions := e, exclusions_sources := es, inclusions := i, inclusions_sources := is'\<rparr>) = wk_download source"
  shows "worker_source env wk_download config
      (source\<lparr>exclusions := e, exclusions_sources := es, inclusions := i, inclusions_sources := is'\<rparr>) =
    worker_source env wk_download config source"
  using assms by (simp add: worker_source_def applySourceTransformations_def cong: sum.case_cong)

theorem worker_ignores_source_filters_witness:
  "(let source = (demo_source ''http://b/l'')\<lparr>src_transformations := Some [TrimLines]\<rparr>
    in worker_source demo_environment (\<lambda>s. Inr [''||b.com^'', ''||c.net^'']) demo_configuration source = Inr [''||b.com^'', ''||c.net^''] \<and>
       compile_source demo_environment source = Inr [''||b.com^''])"
proof -
  let ?s = "(demo_source ''http://b/l'')\<lparr>src_transformations := Some [TrimLines]\<rparr>"
  have "worker_source demo_environment (\<lambda>s. Inr [''||b.com^'', ''||c.net^'']) demo_configuration
      (?s\<lparr>exclusions := [], exclusions_sources := [], inclusions := [], inclusions_sources := []\<rparr>) =
    Inr [''||b.com^'', ''||c.net^'']" by code_simp
  moreover have "compile_source demo_environment ?s = Inr [''||b.com^'']" by code_simp
  ultimately show ?thesis
    using worker_ignores_source_filters [where wk_download = "\<lambda>s. Inr [''||b.com^'', ''||c.net^'']" and source = ?s and e = "[]" and es = "[]" and i = "[]" and is' = "[]"
        and env = demo_environment and config = demo_configuration]
    by (simp add: Let_def)
qed

end
