(* ===== verification/Spec2Isabelle.thy ===== *)
theory Spec2Isabelle
  imports Domains Paths Conditions Breaker Texts RuleSyntax Transforms Compress Validation Conflicts
    Optimizer Patterns Pipeline Directives Downloader Headers Schemas Compiler Health Snapshots
    Diff RateLimit Access Gateway Coordinator Payg Sockets CacheKey Queue QueueRoutes
    AdminRoles Plugins PluginLoading Formats Storage Caching JsConditions Platform WorkerCompiler
begin

text \<open>
  A verification library for the core of the adblock compiler (\<open>src/\<close> of the repository, TypeScript):
  the program that downloads filter lists, transforms their rules, and publishes one list, and the
  Cloudflare worker that offers it as a service.

  The program and the theories.  A configuration names sources and transformations.
  \<open>FilterCompiler\<close> validates it, has \<open>SourceCompiler\<close> download and transform every source in
  parallel, joins the results behind source headers, runs the global transformations and puts the
  list header with a checksum in front.  The theories follow that structure; each names, at its
  start, the files it models, and the definitions have the names of the functions they model.

  \<^item> \<open>Prelude\<close>: JavaScript strings and arrays, the interfaces \<open>transition_system\<close>,
    \<open>line_remover\<close> and \<open>line_rewriter\<close>, and the lemmas all theories share.
  \<^item> \<open>Domains\<close> (\<open>src/utils/TldUtils.ts\<close>): addresses, host names, public suffixes, domains.
  \<^item> \<open>Paths\<close> (\<open>src/utils/PathUtils.ts\<close>): URLs, paths, dot segments, resolution of includes.
  \<^item> \<open>Conditions\<close> (\<open>src/utils/BooleanExpressionParser.ts\<close>): tokens, parser and value of conditions.
  \<^item> \<open>Breaker\<close> (\<open>src/utils/CircuitBreaker.ts\<close>): the circuit breaker, also with interleaved calls as
    the step relation \<open>breaker_step\<close>, an interpretation of \<open>transition_system\<close>.
  \<^item> \<open>Texts\<close> (\<open>src/utils/StringUtils.ts\<close>) and \<open>RuleSyntax\<close> (\<open>src/utils/AGTreeParser.ts\<close>,
    \<open>src/utils/RuleUtils.ts\<close>): splitting with escapes, syntax trees, loading and printing of rules.
  \<^item> \<open>Transforms\<close>, \<open>Compress\<close>, \<open>Validation\<close>, \<open>Conflicts\<close>, \<open>Optimizer\<close>: the transformations of
    \<open>src/transformations/\<close>.  Those that only remove lines, or rewrite line by line, interpret the
    interfaces of \<open>Prelude\<close>.
  \<^item> \<open>Patterns\<close> (\<open>src/utils/Wildcard.ts\<close>, \<open>src/services/FilterService.ts\<close>, \<open>src/filters/RuleFilter.ts\<close> and
    the filter transformations): wildcards, and the three filters for exclusions and inclusions.
  \<^item> \<open>Pipeline\<close> (\<open>src/transformations/TransformationRegistry.ts\<close>, \<open>TransformationHooks.ts\<close>): registry,
    canonical order, hooks, errors.
  \<^item> \<open>Directives\<close> and \<open>Downloader\<close> (\<open>src/downloader/FilterDownloader.ts\<close>, \<open>src/utils/ErrorUtils.ts\<close>):
    preprocessor directives, retries, the breakers of the URLs, nested includes.  The interface
    \<open>download_simulation\<close> relates two downloads step by step; \<open>Downloader\<close> interprets it for a
    host that logs its requests and for a downloader without breakers.
  \<^item> \<open>Headers\<close> (\<open>src/utils/headerFilter.ts\<close>, \<open>src/compiler/HeaderGenerator.ts\<close>, \<open>src/utils/checksum.ts\<close>):
    metadata of sources and of the list, checksum.
  \<^item> \<open>Schemas\<close> (\<open>src/configuration/schemas.ts\<close>, \<open>ConfigurationValidator.ts\<close>): configurations and
    their validation.
  \<^item> \<open>Compiler\<close> (\<open>src/compiler/\<close>): compilation of a source, of a list, and the incremental
    compiler over a cache, whose interface \<open>cache_storage\<close> the memory cache interprets.

  \<^item> \<open>Health\<close> and \<open>Snapshots\<close> (\<open>src/storage/SourceHealthMonitor.ts\<close>, \<open>ChangeDetector.ts\<close>): the record
    of the attempts to fetch a source and of its contents; \<open>Diff\<close> (\<open>src/diff/DiffReport.ts\<close>): the
    comparison of two lists.

  The worker answers a request in stages: it authenticates the caller, checks the permission for the
  route and the rate limit of the caller's tier, charges a paid call, and coordinates compilations of
  the same configuration.

  \<^item> \<open>RateLimit\<close> (\<open>worker/rate-limiter-do.ts\<close>): the Durable Object that counts requests, with its
    memory, storage and alarm; its runs interpret \<open>transition_system\<close>.
  \<^item> \<open>Access\<close> (\<open>worker/types.ts\<close>, \<open>worker/utils/route-permissions.ts\<close>, \<open>worker/agents/registry.ts\<close>,
    \<open>worker/middleware/auth.ts\<close>, \<open>token-validator.ts\<close>, \<open>better-auth-provider.ts\<close>,
    \<open>worker/utils/user-access.ts\<close>, \<open>cors.ts\<close>): tiers, permissions, API keys, sessions, origins.
  \<^item> \<open>Gateway\<close> (\<open>worker/middleware/index.ts\<close>, \<open>worker/hono-app.ts\<close>, \<open>worker/agents/\<close>): the limits by tier
    over \<open>RateLimit\<close>, the stages of a request over \<open>Access\<close>, the gate of the agents.
  \<^item> \<open>Coordinator\<close> (\<open>worker/compilation-coordinator.ts\<close>, \<open>worker/handlers/compile.ts\<close>): the lock of a
    compilation and the workers that use it, as the step relation \<open>coord_step\<close>, an interpretation
    of \<open>transition_system\<close>.
  \<^item> \<open>Payg\<close> (\<open>worker/middleware/payg-middleware.ts\<close>, \<open>worker/routes/payg.routes.ts\<close>): sessions of paid calls.

  \<^item> \<open>Sockets\<close> (\<open>worker/websocket.ts\<close>): one connection with its sessions, compilations, timers and
    heartbeat, as the step relation \<open>ws_step\<close>, an interpretation of \<open>transition_system\<close>.
  \<^item> \<open>CacheKey\<close>, \<open>Queue\<close> and \<open>QueueRoutes\<close> (\<open>worker/handlers/queue.ts\<close>, producers in
    \<open>worker/handlers/compile.ts\<close>, \<open>worker/middleware/cf-access.ts\<close>): cache keys, the consumer of
    the queue and its statistics, the routes.  Jobs that run at the same time advance in steps, in
    the order the platform chooses; the interface \<open>job_contract\<close> states what a step keeps, and
    \<open>chunk_runner\<close> what a chunk of jobs promises.

  \<^item> \<open>AdminRoles\<close> (\<open>worker/services/admin-role-service.ts\<close>,
    \<open>worker/middleware/admin-role-middleware.ts\<close>, \<open>worker/handlers/admin-handlers.ts\<close>): roles of
    administrators, their cache, guards and handlers; requests that overlap are the step relation
    \<open>admin_step\<close>.

  The compiler can be extended by plugins.

  \<^item> \<open>Plugins\<close> and \<open>PluginLoading\<close> (\<open>src/plugins/\<close>, the factory in
    \<open>src/formatters/OutputFormatter.ts\<close>): the registry of plugins, whose registrations interleave in
    the step relation \<open>plugin_step\<close>, batches sorted by their dependencies, loading and discovery.

  Lists leave the program in other formats, and downloads are kept in a database.

  \<^item> \<open>Formats\<close> (\<open>src/formatters/OutputFormatter.ts\<close>): the formats of other programs, as classes of the
    factory of \<open>Plugins\<close>.
  \<^item> \<open>Storage\<close> (\<open>src/storage/D1StorageAdapter.ts\<close>, \<open>HyperdriveStorageAdapter.ts\<close>,
    \<open>PrismaStorageAdapter.ts\<close>): the adapters over a database whose queries may fail.  The contract of
    \<open>IStorageAdapter\<close> is the interface \<open>storage_adapter\<close>, which all three interpret, and the calls of
    one adapter are the step relation \<open>adapter_step\<close>.  \<open>Tables\<close> has the maps that they and the
    plugins use.
  \<^item> \<open>Caching\<close> (\<open>src/storage/CachingDownloader.ts\<close>): the downloader with a cache, over the interface of
    \<open>Storage\<close> and the stores of \<open>Health\<close> and \<open>Snapshots\<close>.

  The worker compiles with a downloader of its own, which needs neither files nor retries.

  \<^item> \<open>JsConditions\<close> and \<open>Platform\<close> (\<open>src/platform/\<close>): the fetchers for HTTP, browsers and content at
    hand, the downloader over them, and its conditions, which it hands to the constructor
    \<open>Function\<close>: tokens, grammar and value of such a text.
  \<^item> \<open>WorkerCompiler\<close> (\<open>src/platform/WorkerCompiler.ts\<close>): the compiler of the worker, compared with that of
    the command line.

  What the lemmas show.  Equivalence with a specification: compression blocks the same hosts,
  deduplication is the obvious one-pass function, directives mean what their structure says,
  conditions have the value of their syntax tree, wildcards match their glob, the three pattern
  filters agree, the metrics of a source are a function of its history, a diff turns the old list
  into the new one, a storage adapter is a map with times to live, a cached download is the list that
  was stored last, the compilers of the worker and of the command line agree.  Access: the route registry picks the most specific entry, and only live sessions
  of administrators reach an administration path.  Counting: limiters, tiers and sessions grant
  exactly what they promise, also across restarts and whatever other callers do.  Invariants and safety: the states of the breaker and of the coordinator under all interleavings, the requests
  of a download, the shape of a published list, paths stay in their directory, rules that the
  optimizer drops are covered.  Termination: the condition parser has enough fuel, and every other
  function is total.  Round trips: rules, headers, split texts,
  output formats.  Errors: which steps can fail, and
  the cases in which the code does not do what it means to (they are listed as findings).

  Bounds and fuel.  \<open>parseOr\<close> takes the number of nested parentheses as fuel and
  \<open>evaluateBooleanExpression\<close> gives it one more than the number of tokens, which
  \<open>parser_always_returns\<close> proves to be enough.  \<open>downloadInternal\<close> recurses on the levels of
  includes that are left, \<open>maxIncludeDepth + 1 - depth\<close>, the bound of the code.  \<open>fetch_attempts\<close>
  recurses on the attempts that are left.  \<open>platformInternal\<close> also recurses on the levels of
  includes; \<open>js_fuel\<close> is six units for each token, enough by \<open>js_parse_enough\<close>.

  Parameters.  What is not part of the repository is an argument: the parser and generator of
  \<open>@adguard/agtree\<close>, the classes \<open>URL\<close> and \<open>RegExp\<close> of the host, \<open>fetch\<close>, timers, files, the
  clock, and the digest.  A JavaScript string is a list of code units below 256; numbers that count
  are \<open>nat\<close> or \<open>int\<close>, far from the bounds of a double.  Log messages, events, metrics and
  diagnostics are left out.

  Not modelled.  The generated Prisma client, the Angular frontend, the command line, the other
  handlers, routes and workflows of the worker: glue over services that are not part of the
  repository.  Candidates for extension: \<open>worker/services/\<close>,
  \<open>src/downloader/PreprocessorEvaluator.ts\<close>, \<open>worker/workflows/\<close>.
\<close>

end
